(* ===== verification/Prelude.thy ===== *)
theory Prelude
  imports Main "HOL-Library.Word" "HOL-Library.Char_ord" "HOL-Library.List_Lexorder"
begin

text \<open>
  Shared vocabulary of the development: byte strings and the machine types of
  \<^verbatim>\<open>types.hxx\<close>, the exceptions the C++ code throws, the state and exception
  monad the operations are written in, a small Hoare logic for it, and the generic
  list lemmas the components share.

  C++ exceptions do not roll the state back: a computation maps a state to either an
  exception or a value, and to the state in which it stopped.
\<close>

section \<open>Machine types\<close>

type_synonym bytes = "char list"
type_synonym uid_t = "32 word"
type_synonym gid_t = "32 word"
type_synonym mode_t = "32 word"
type_synonym nlink_t = "32 word"
type_synonym time_t = "64 word"
type_synonym off_t = "64 word"
type_synonym dev_t = "64 word"
type_synonym nodeid = "64 word"
type_synonym mediumid = "32 word"

section \<open>Exceptions\<close>

text \<open>The dynamic class of a node object (\<^verbatim>\<open>typeid(*n)\<close>).\<close>

datatype kind = KNode | KFile | KDirectory | KSymlink

text \<open>
  \<open>EAttrNotFound\<close> carries the width of the register's identifier, because
  \<^verbatim>\<open>Database<uint64_t>::Register::EAttrNotFound\<close> and
  \<^verbatim>\<open>Database<uint32_t>::Register::EAttrNotFound\<close> are two unrelated classes and a
  handler of one does not catch the other. \<open>EDb\<close> is an exception thrown by the database
  library itself. \<open>EStuck\<close> is no exception of the program: it marks a loop that does
  not return or the use of an invalid pointer, and no handler catches it.
\<close>

datatype exn =
    ENotFound
  | EAccess
  | EBadCast kind
  | EExists
  | EAttrNotFound nat string
  | EMediumNotFound
  | ENotImplemented
  | ERuntime string
  | EDb
  | EStuck

section \<open>Computations\<close>

type_synonym ('w, 'a) m = "'w \<Rightarrow> (exn + 'a) \<times> 'w"

definition ret :: "'a \<Rightarrow> ('w, 'a) m" where
  "ret a = (\<lambda>w. (Inr a, w))"

definition throw :: "exn \<Rightarrow> ('w, 'a) m" where
  "throw e = (\<lambda>w. (Inl e, w))"

definition bind :: "('w, 'a) m \<Rightarrow> ('a \<Rightarrow> ('w, 'b) m) \<Rightarrow> ('w, 'b) m" where
  "bind m f = (\<lambda>w. case m w of (Inl e, w') \<Rightarrow> (Inl e, w') | (Inr a, w') \<Rightarrow> f a w')"

definition andthen :: "('w, 'a) m \<Rightarrow> ('w, 'b) m \<Rightarrow> ('w, 'b) m" where
  "andthen m k = bind m (\<lambda>_. k)"

text \<open>
  \<open>handle m h\<close> is \<^verbatim>\<open>try { m } catch ...\<close>: \<open>h\<close> gets the exception, and rethrows
  those that its handlers do not name.
\<close>

definition handle :: "('w, 'a) m \<Rightarrow> (exn \<Rightarrow> ('w, 'a) m) \<Rightarrow> ('w, 'a) m" where
  "handle m h = (\<lambda>w. case m w of
       (Inl e, w') \<Rightarrow> (if e = EStuck then (Inl e, w') else h e w')
     | (Inr a, w') \<Rightarrow> (Inr a, w'))"

definition gets :: "('w \<Rightarrow> 'a) \<Rightarrow> ('w, 'a) m" where
  "gets f = (\<lambda>w. (Inr (f w), w))"

definition modify :: "('w \<Rightarrow> 'w) \<Rightarrow> ('w, unit) m" where
  "modify f = (\<lambda>w. (Inr (), f w))"

definition whenM :: "bool \<Rightarrow> ('w, unit) m \<Rightarrow> ('w, unit) m" where
  "whenM c m = (if c then m else ret ())"

primrec forM :: "'a list \<Rightarrow> ('a \<Rightarrow> ('w, unit) m) \<Rightarrow> ('w, unit) m" where
  "forM [] f = ret ()"
| "forM (x # xs) f = andthen (f x) (forM xs f)"

lemma ret_apply [simp]: "ret a w = (Inr a, w)"
  by (simp add: ret_def)

lemma throw_apply [simp]: "throw e w = (Inl e, w)"
  by (simp add: throw_def)

lemma gets_apply [simp]: "gets f w = (Inr (f w), w)"
  by (simp add: gets_def)

lemma modify_apply [simp]: "modify f w = (Inr (), f w)"
  by (simp add: modify_def)

lemma whenM_True [simp]: "whenM True m = m"
  by (simp add: whenM_def)

lemma whenM_False [simp]: "whenM False m = ret ()"
  by (simp add: whenM_def)

lemma bind_Inr [simp]: "m w = (Inr a, w') \<Longrightarrow> bind m f w = f a w'"
  by (simp add: bind_def)

lemma bind_Inl [simp]: "m w = (Inl e, w') \<Longrightarrow> bind m f w = (Inl e, w')"
  by (simp add: bind_def)

lemma andthen_Inr [simp]: "m w = (Inr a, w') \<Longrightarrow> andthen m k w = k w'"
  by (simp add: andthen_def)

lemma andthen_Inl [simp]: "m w = (Inl e, w') \<Longrightarrow> andthen m k w = (Inl e, w')"
  by (simp add: andthen_def)

lemma handle_Inr [simp]: "m w = (Inr a, w') \<Longrightarrow> handle m h w = (Inr a, w')"
  by (simp add: handle_def)

lemma handle_Inl [simp]: "m w = (Inl e, w') \<Longrightarrow> e \<noteq> EStuck \<Longrightarrow> handle m h w = h e w'"
  by (simp add: handle_def)

lemma bind_ret [simp]: "bind (ret a) f = f a"
  by (rule ext) simp

lemma bind_ret_right [simp]: "bind m ret = m"
  by (rule ext) (auto simp: bind_def split: prod.splits sum.splits)

lemma bind_assoc: "bind (bind m f) g = bind m (\<lambda>a. bind (f a) g)"
  by (rule ext) (simp add: bind_def split: prod.splits sum.splits)

lemma bind_result:
  "bind m f w = (r, w'') \<longleftrightarrow>
     (\<exists>e. m w = (Inl e, w'') \<and> r = Inl e) \<or> (\<exists>a w'. m w = (Inr a, w') \<and> f a w' = (r, w''))"
  by (auto simp: bind_def split: prod.splits sum.splits)

lemma andthen_result:
  "andthen m k w = (r, w'') \<longleftrightarrow>
     (\<exists>e. m w = (Inl e, w'') \<and> r = Inl e) \<or> (\<exists>a w'. m w = (Inr a, w') \<and> k w' = (r, w''))"
  by (simp add: andthen_def bind_result)

lemma handle_result:
  "handle m h w = (r, w'') \<longleftrightarrow>
     (\<exists>a. m w = (Inr a, w'') \<and> r = Inr a)
   \<or> (\<exists>e w'. m w = (Inl e, w') \<and> e \<noteq> EStuck \<and> h e w' = (r, w''))
   \<or> (m w = (Inl EStuck, w'') \<and> r = Inl EStuck)"
  by (auto simp: handle_def split: prod.splits sum.splits)

lemma forM_append: "forM (xs @ ys) f = andthen (forM xs f) (forM ys f)"
  by (induction xs) (auto simp: andthen_def bind_def ret_def fun_eq_iff split: prod.splits sum.splits)

section \<open>A Hoare logic\<close>

text \<open>
  \<open>hoare P m Q R\<close>: from a state that satisfies \<open>P\<close>, \<open>m\<close> either returns a value and a
  state related by \<open>Q\<close>, or throws and leaves a state related by \<open>R\<close>.
\<close>

named_theorems hoare_rules

definition hoare ::
  "('w \<Rightarrow> bool) \<Rightarrow> ('w, 'a) m \<Rightarrow> ('a \<Rightarrow> 'w \<Rightarrow> bool) \<Rightarrow> (exn \<Rightarrow> 'w \<Rightarrow> bool) \<Rightarrow> bool" where
  "hoare P m Q R \<longleftrightarrow>
     (\<forall>w. P w \<longrightarrow> (case m w of (Inr a, w') \<Rightarrow> Q a w' | (Inl e, w') \<Rightarrow> R e w'))"

abbreviation keeps :: "('w \<Rightarrow> bool) \<Rightarrow> ('w, 'a) m \<Rightarrow> bool" where
  "keeps I m \<equiv> hoare I m (\<lambda>_. I) (\<lambda>_. I)"

lemma hoareI:
  assumes "\<And>w a w'. P w \<Longrightarrow> m w = (Inr a, w') \<Longrightarrow> Q a w'"
    and "\<And>w e w'. P w \<Longrightarrow> m w = (Inl e, w') \<Longrightarrow> R e w'"
  shows "hoare P m Q R"
  using assms unfolding hoare_def by (auto split: prod.splits sum.splits)

lemma hoare_Inr: "hoare P m Q R \<Longrightarrow> m w = (Inr a, w') \<Longrightarrow> P w \<Longrightarrow> Q a w'"
  unfolding hoare_def by fastforce

lemma hoare_Inl: "hoare P m Q R \<Longrightarrow> m w = (Inl e, w') \<Longrightarrow> P w \<Longrightarrow> R e w'"
  unfolding hoare_def by fastforce

lemma hoare_weaken:
  assumes "hoare P' m Q' R'" and "\<And>w. P w \<Longrightarrow> P' w"
    and "\<And>a w. Q' a w \<Longrightarrow> Q a w" and "\<And>e w. R' e w \<Longrightarrow> R e w"
  shows "hoare P m Q R"
  by (rule hoareI) (use assms in \<open>blast dest: hoare_Inr hoare_Inl\<close>)+

lemma hoare_pre: "hoare P' m Q R \<Longrightarrow> (\<And>w. P w \<Longrightarrow> P' w) \<Longrightarrow> hoare P m Q R"
  by (erule hoare_weaken) auto

lemma hoare_ret [hoare_rules]: "(\<And>w. P w \<Longrightarrow> Q a w) \<Longrightarrow> hoare P (ret a) Q R"
  by (rule hoareI) auto

lemma hoare_throw [hoare_rules]: "(\<And>w. P w \<Longrightarrow> R e w) \<Longrightarrow> hoare P (throw e) Q R"
  by (rule hoareI) auto

lemma hoare_bind [hoare_rules]:
  assumes "hoare P m Q' R" and "\<And>a. hoare (Q' a) (f a) Q R"
  shows "hoare P (bind m f) Q R"
proof (rule hoareI)
  fix w a w'
  assume "P w" and "bind m f w = (Inr a, w')"
  then show "Q a w'"
    using assms by (auto simp: bind_result dest: hoare_Inr)
next
  fix w e w'
  assume "P w" and "bind m f w = (Inl e, w')"
  then show "R e w'"
    using assms by (auto simp: bind_result dest: hoare_Inr hoare_Inl)
qed

lemma hoare_andthen [hoare_rules]:
  "hoare P m (\<lambda>_. Q') R \<Longrightarrow> hoare Q' k Q R \<Longrightarrow> hoare P (andthen m k) Q R"
  unfolding andthen_def by (rule hoare_bind)

lemma hoare_handle [hoare_rules]:
  assumes "hoare P m Q R'" and "\<And>e. e \<noteq> EStuck \<Longrightarrow> hoare (R' e) (h e) Q R"
    and "\<And>w. R' EStuck w \<Longrightarrow> R EStuck w"
  shows "hoare P (handle m h) Q R"
proof (rule hoareI)
  fix w a w'
  assume "P w" and "handle m h w = (Inr a, w')"
  then show "Q a w'"
    using assms by (auto simp: handle_result dest: hoare_Inr hoare_Inl)
next
  fix w e w'
  assume "P w" and "handle m h w = (Inl e, w')"
  then show "R e w'"
    using assms by (auto simp: handle_result dest: hoare_Inr hoare_Inl)
qed

lemma hoare_gets [hoare_rules]: "(\<And>w. P w \<Longrightarrow> Q (f w) w) \<Longrightarrow> hoare P (gets f) Q R"
  by (rule hoareI) auto

lemma hoare_modify [hoare_rules]: "(\<And>w. P w \<Longrightarrow> Q () (f w)) \<Longrightarrow> hoare P (modify f) Q R"
  by (rule hoareI) auto

lemma hoare_if [hoare_rules]:
  "(c \<Longrightarrow> hoare P m Q R) \<Longrightarrow> (\<not> c \<Longrightarrow> hoare P k Q R) \<Longrightarrow> hoare P (if c then m else k) Q R"
  by simp

lemma hoare_whenM [hoare_rules]:
  "(c \<Longrightarrow> hoare P m Q R) \<Longrightarrow> (\<And>w. \<not> c \<Longrightarrow> P w \<Longrightarrow> Q () w) \<Longrightarrow> hoare P (whenM c m) Q R"
  by (auto simp: whenM_def intro: hoare_ret)

lemma keeps_forM [hoare_rules]: "(\<And>x. x \<in> set xs \<Longrightarrow> keeps I (f x)) \<Longrightarrow> keeps I (forM xs f)"
  by (induction xs) (auto intro!: hoare_ret hoare_andthen)

section \<open>Computations that only read\<close>

named_theorems reads_rules

definition reads :: "('w, 'a) m \<Rightarrow> bool" where
  "reads m \<longleftrightarrow> (\<forall>w. snd (m w) = w)"

lemma readsD: "reads m \<Longrightarrow> m w = (r, w') \<Longrightarrow> w' = w"
  unfolding reads_def by (metis snd_conv)

lemma readsI: "(\<And>w r w'. m w = (r, w') \<Longrightarrow> w' = w) \<Longrightarrow> reads m"
  unfolding reads_def by (metis prod.collapse)

lemma reads_fst: "reads m \<Longrightarrow> m w = (fst (m w), w)"
  by (simp add: reads_def prod_eq_iff)

lemma reads_ret [reads_rules]: "reads (ret a)" and reads_throw [reads_rules]: "reads (throw e)"
  and reads_gets [reads_rules]: "reads (gets f)"
  by (simp_all add: reads_def)

lemma reads_bind [reads_rules]: "reads m \<Longrightarrow> (\<And>a. reads (f a)) \<Longrightarrow> reads (bind m f)"
  by (rule readsI) (auto simp: bind_result dest: readsD)

lemma reads_andthen [reads_rules]: "reads m \<Longrightarrow> reads k \<Longrightarrow> reads (andthen m k)"
  unfolding andthen_def by (rule reads_bind)

lemma reads_handle [reads_rules]: "reads m \<Longrightarrow> (\<And>e. reads (h e)) \<Longrightarrow> reads (handle m h)"
  by (rule readsI) (auto simp: handle_result dest: readsD)

lemma reads_whenM [reads_rules]: "reads m \<Longrightarrow> reads (whenM c m)"
  by (simp add: whenM_def reads_ret)

lemma reads_if [reads_rules]: "reads m \<Longrightarrow> reads k \<Longrightarrow> reads (if c then m else k)"
  by simp

lemma reads_option [reads_rules]:
  "reads m \<Longrightarrow> (\<And>a. reads (f a)) \<Longrightarrow> reads (case r of None \<Rightarrow> m | Some a \<Rightarrow> f a)"
  by (simp split: option.split)

lemma reads_sum [reads_rules]:
  "(\<And>e. reads (f e)) \<Longrightarrow> (\<And>a. reads (g a)) \<Longrightarrow> reads (case r of Inl e \<Rightarrow> f e | Inr a \<Rightarrow> g a)"
  by (simp split: sum.split)

lemma reads_prod [reads_rules]: "(\<And>a b. reads (f a b)) \<Longrightarrow> reads (case r of (a, b) \<Rightarrow> f a b)"
  by (simp split: prod.split)

section \<open>Lists\<close>

text \<open>The lexicographic order of byte strings behind a common prefix of fixed length.\<close>

lemma append_less_append:
  fixes p q :: "'a::linorder list"
  assumes "length p = length q"
  shows "p @ xs < q @ ys \<longleftrightarrow> p < q \<or> p = q \<and> xs < ys"
  using assms by (induction p q rule: list_induct2) auto

lemma append_le_append:
  fixes p q :: "'a::linorder list"
  assumes "length p = length q"
  shows "p @ xs \<le> q @ ys \<longleftrightarrow> p < q \<or> p = q \<and> xs \<le> ys"
  using assms by (auto simp: le_less append_less_append)

lemma sorted_le_last: "sorted xs \<Longrightarrow> x \<in> set xs \<Longrightarrow> x \<le> last xs"
  by (induction xs) auto

text \<open>A byte string between a prefix and one of its extensions has that prefix.\<close>

lemma between_prefix:
  fixes p :: "'a::linorder list"
  shows "p \<le> k \<Longrightarrow> k < p @ m \<Longrightarrow> \<exists>r. k = p @ r"
proof (induction p arbitrary: k)
  case Nil
  then show ?case by simp
next
  case (Cons x p)
  from Cons.prems obtain y ys where k: "k = y # ys" by (cases k) auto
  with Cons.prems have "y = x" and "p \<le> ys" and "ys < p @ m" by auto
  with Cons.IH [of ys] k show ?case by auto
qed

lemma takeWhile_sorted_filter:
  assumes "sorted_wrt (<) xs"
    and "\<And>x y. x \<in> set xs \<Longrightarrow> y \<in> set xs \<Longrightarrow> x < y \<Longrightarrow> P y \<Longrightarrow> P x"
  shows "takeWhile P xs = filter P xs"
  using assms
proof (induction xs)
  case (Cons x xs)
  show ?case
  proof (cases "P x")
    case True
    have "takeWhile P xs = filter P xs"
      by (rule Cons.IH) (use Cons.prems in auto)
    with True show ?thesis by simp
  next
    case False
    with Cons.prems have "\<not> P y" if "y \<in> set xs" for y using that by auto
    with False show ?thesis by (simp add: filter_empty_conv)
  qed
qed simp

lemma sorted_remdups_adj_strict:
  fixes xs :: "'a::linorder list"
  shows "sorted xs \<Longrightarrow> sorted_wrt (<) (remdups_adj xs)"
  by (induction xs rule: remdups_adj.induct) (auto simp: less_le)

lemma length_remove1_mem: "a \<in> set xs \<Longrightarrow> length xs = Suc (length (remove1 a xs))"
  using length_pos_if_in_set [of a xs] by (simp add: length_remove1)

lemma Nil_le_list [simp]: "[] \<le> (xs :: 'a::linorder list)"
  by (cases xs) (auto simp: le_less)

end
