(* ===== verification/Params.thy ===== *)
theory Params
  imports Prelude
begin

text \<open>
  What the program uses and does not contain: the Berkeley DB cursor and transaction
  calls, the file and process calls of the operating system, the user database, the clock
  and the byte order of the host. They are parameters of the model, gathered in the
  record \<open>env\<close> that every operation takes as its first argument.

  \<open>bdb_lawful\<close> states what the Berkeley DB reference documents of the calls on a B-tree
  database when they meet no I/O error and no deadlock; it is a named hypothesis of the
  theorems that need it. The instance \<open>al_bdb\<close> at the end (association lists) shows that
  it can be satisfied, and the witnesses run on it.
\<close>

section \<open>Berkeley DB\<close>

text \<open>Return codes of the cursor calls, and \<open>DB_THROW\<close> for a thrown \<^verbatim>\<open>DbException\<close>.\<close>

datatype dberr = DB_NOTFOUND | DB_ERROR int | DB_THROW

text \<open>
  The calls the code makes on one database inside one transaction, over a type \<open>'s\<close> of
  database states:
  \<^item> \<open>b_get\<close>: \<^verbatim>\<open>Dbc::get(key, v, DB_SET)\<close>;
  \<^item> \<open>b_put\<close>: \<^verbatim>\<open>Dbc::put(key, v, DB_KEYFIRST)\<close>;
  \<^item> \<open>b_del\<close>: \<^verbatim>\<open>Dbc::del(0)\<close> on the cursor that \<^verbatim>\<open>DB_SET\<close> has placed on the key;
  \<^item> \<open>b_scan\<close>: the records a cursor visits that is placed with \<^verbatim>\<open>DB_FIRST\<close> (\<open>None\<close>) or
    \<^verbatim>\<open>DB_SET_RANGE\<close> (\<open>Some key\<close>) and then moved with \<^verbatim>\<open>DB_NEXT\<close>, and the code that ends it;
  \<^item> \<open>b_last\<close>: \<^verbatim>\<open>Dbc::get\<close> with \<^verbatim>\<open>DB_LAST\<close>;
  \<^item> \<open>b_begin\<close>, \<open>b_commit\<close>, \<open>b_abort\<close>: \<^verbatim>\<open>txn_begin\<close>, \<^verbatim>\<open>DbTxn::commit\<close>, \<^verbatim>\<open>DbTxn::abort\<close>;
  \<^item> \<open>b_remove\<close>: \<^verbatim>\<open>Db::remove\<close>, which throws in particular when there is no such file;
  \<^item> \<open>b_create\<close>: \<^verbatim>\<open>Db::open\<close> with \<^verbatim>\<open>DB_CREATE\<close>, which opens an existing file as it is and
    otherwise creates an empty one (a file that is not there has no contents);
  \<^item> \<open>b_undo\<close>: an observer, the contents to which an abort returns.
\<close>

record 's bdb =
  b_get :: "'s \<Rightarrow> bytes \<Rightarrow> dberr + bytes"
  b_put :: "'s \<Rightarrow> bytes \<Rightarrow> bytes \<Rightarrow> dberr + 's"
  b_del :: "'s \<Rightarrow> bytes \<Rightarrow> dberr + 's"
  b_scan :: "'s \<Rightarrow> bytes option \<Rightarrow> (bytes \<times> bytes) list \<times> dberr"
  b_last :: "'s \<Rightarrow> dberr + bytes \<times> bytes"
  b_begin :: "'s \<Rightarrow> 's"
  b_commit :: "'s \<Rightarrow> 's"
  b_abort :: "'s \<Rightarrow> 's"
  b_remove :: "'s \<Rightarrow> dberr + 's"
  b_create :: "'s \<Rightarrow> 's"
  b_undo :: "'s \<Rightarrow> bytes \<Rightarrow> bytes option"

text \<open>The contents of a database state.\<close>

definition view :: "'s bdb \<Rightarrow> 's \<Rightarrow> bytes \<Rightarrow> bytes option" where
  "view B s k = (case b_get B s k of Inl _ \<Rightarrow> None | Inr v \<Rightarrow> Some v)"

definition in_range :: "bytes option \<Rightarrow> bytes \<Rightarrow> bool" where
  "in_range lo k = (case lo of None \<Rightarrow> True | Some l \<Rightarrow> l \<le> k)"

definition bdb_lawful :: "'s bdb \<Rightarrow> bool" where
  "bdb_lawful B \<longleftrightarrow>
     (\<forall>s. finite (dom (view B s)))
   \<and> (\<forall>s k. b_get B s k = (case view B s k of None \<Rightarrow> Inl DB_NOTFOUND | Some v \<Rightarrow> Inr v))
   \<and> (\<forall>s k v. \<exists>s'. b_put B s k v = Inr s' \<and> view B s' = (view B s)(k \<mapsto> v) \<and> b_undo B s' = b_undo B s)
   \<and> (\<forall>s k. view B s k \<noteq> None \<longrightarrow>
        (\<exists>s'. b_del B s k = Inr s' \<and> view B s' = (view B s)(k := None) \<and> b_undo B s' = b_undo B s))
   \<and> (\<forall>s lo. \<exists>l. b_scan B s lo = (l, DB_NOTFOUND) \<and> sorted_wrt (<) (map fst l)
        \<and> set l = {(k, v). view B s k = Some v \<and> in_range lo k})
   \<and> (\<forall>s. dom (view B s) = {} \<longrightarrow> b_last B s = Inl DB_NOTFOUND)
   \<and> (\<forall>s. dom (view B s) \<noteq> {} \<longrightarrow>
        (\<exists>k v. b_last B s = Inr (k, v) \<and> view B s k = Some v \<and> (\<forall>k' \<in> dom (view B s). k' \<le> k)))
   \<and> (\<forall>s. view B (b_begin B s) = view B s \<and> b_undo B (b_begin B s) = view B s)
   \<and> (\<forall>s. view B (b_commit B s) = view B s)
   \<and> (\<forall>s. view B (b_abort B s) = b_undo B s)
   \<and> (\<forall>s. case b_remove B s of Inl _ \<Rightarrow> view B s = Map.empty | Inr s' \<Rightarrow> view B s' = Map.empty)
   \<and> (\<forall>s. view B (b_create B s) = view B s)"

lemma lawful_finite: "bdb_lawful B \<Longrightarrow> finite (dom (view B s))"
  by (simp add: bdb_lawful_def)

lemma lawful_get:
  "bdb_lawful B \<Longrightarrow> b_get B s k = (case view B s k of None \<Rightarrow> Inl DB_NOTFOUND | Some v \<Rightarrow> Inr v)"
  by (simp add: bdb_lawful_def)

lemma lawful_put:
  assumes "bdb_lawful B"
  obtains s' where "b_put B s k v = Inr s'" and "view B s' = (view B s)(k \<mapsto> v)"
    and "b_undo B s' = b_undo B s"
  using assms unfolding bdb_lawful_def by meson

lemma lawful_del:
  assumes "bdb_lawful B" and "view B s k \<noteq> None"
  obtains s' where "b_del B s k = Inr s'" and "view B s' = (view B s)(k := None)"
    and "b_undo B s' = b_undo B s"
  using assms unfolding bdb_lawful_def by meson

lemma lawful_scan:
  assumes "bdb_lawful B"
  obtains l where "b_scan B s lo = (l, DB_NOTFOUND)" and "sorted_wrt (<) (map fst l)"
    and "set l = {(k, v). view B s k = Some v \<and> in_range lo k}"
  using assms unfolding bdb_lawful_def by meson

lemma lawful_last_empty:
  "bdb_lawful B \<Longrightarrow> dom (view B s) = {} \<Longrightarrow> b_last B s = Inl DB_NOTFOUND"
  by (simp add: bdb_lawful_def)

lemma lawful_last:
  assumes "bdb_lawful B" and "dom (view B s) \<noteq> {}"
  obtains k v where "b_last B s = Inr (k, v)" and "view B s k = Some v"
    and "\<And>k'. k' \<in> dom (view B s) \<Longrightarrow> k' \<le> k"
  using assms unfolding bdb_lawful_def by meson

lemma lawful_txn [simp]:
  assumes "bdb_lawful B"
  shows "view B (b_begin B s) = view B s" and "b_undo B (b_begin B s) = view B s"
    and "view B (b_commit B s) = view B s" and "view B (b_abort B s) = b_undo B s"
    and "view B (b_create B s) = view B s"
  using assms unfolding bdb_lawful_def by blast+

lemma lawful_remove:
  "bdb_lawful B \<Longrightarrow> case b_remove B s of Inl _ \<Rightarrow> view B s = Map.empty | Inr s' \<Rightarrow> view B s' = Map.empty"
  unfolding bdb_lawful_def by blast

section \<open>The operating system and the user database\<close>

text \<open>
  Calls of the operating system over a type \<open>'h\<close> of host states. A failing call returns
  \<open>Inl errno\<close>; \<open>p_stat\<close> returns \<^verbatim>\<open>st_nlink\<close> and \<^verbatim>\<open>st_mtime\<close>; \<open>p_statvfs\<close> returns
  \<^verbatim>\<open>f_blocks\<close>, \<^verbatim>\<open>f_frsize\<close> and \<^verbatim>\<open>f_bfree\<close>; \<open>p_system\<close> returns the status of
  \<^verbatim>\<open>system(3)\<close>.
\<close>

record 'h posix =
  p_open :: "string \<Rightarrow> 32 word \<Rightarrow> 32 word \<Rightarrow> 'h \<Rightarrow> (int + int) \<times> 'h"
  p_close :: "int \<Rightarrow> 'h \<Rightarrow> 'h"
  p_stat :: "string \<Rightarrow> 'h \<Rightarrow> int + (nat \<times> int)"
  p_mkdir :: "string \<Rightarrow> 32 word \<Rightarrow> 'h \<Rightarrow> (int + unit) \<times> 'h"
  p_unlink :: "string \<Rightarrow> 'h \<Rightarrow> 'h"
  p_rmdir :: "string \<Rightarrow> 'h \<Rightarrow> (int + unit) \<times> 'h"
  p_statvfs :: "string \<Rightarrow> 'h \<Rightarrow> int + (64 word \<times> 64 word \<times> 64 word)"
  p_system :: "string \<Rightarrow> 'h \<Rightarrow> int \<times> 'h"
  p_pread :: "int \<Rightarrow> nat \<Rightarrow> int \<Rightarrow> 'h \<Rightarrow> (int \<times> bytes) \<times> 'h"
  p_pwrite :: "int \<Rightarrow> bytes \<Rightarrow> int \<Rightarrow> 'h \<Rightarrow> int \<times> 'h"
  p_fsync :: "int \<Rightarrow> 'h \<Rightarrow> int \<times> 'h"
  p_fdatasync :: "int \<Rightarrow> 'h \<Rightarrow> int \<times> 'h"
  p_ftruncate :: "int \<Rightarrow> int \<Rightarrow> 'h \<Rightarrow> int \<times> 'h"
  p_getpwuid :: "uid_t \<Rightarrow> 'h \<Rightarrow> string option"
  p_getgrouplist :: "string \<Rightarrow> gid_t \<Rightarrow> 'h \<Rightarrow> gid_t list option"
  p_getpwnam :: "string \<Rightarrow> 'h \<Rightarrow> uid_t option"
  p_getgrnam :: "string \<Rightarrow> 'h \<Rightarrow> gid_t option"

definition ENOENT :: int where "ENOENT = 2"

section \<open>The environment\<close>

text \<open>
  \<open>clock n\<close> is the value of the \<open>n\<close>-th call of \<^verbatim>\<open>time(NULL)\<close>; \<open>little\<close> says that the
  host is little endian; \<open>my_uid\<close>, \<open>my_gid\<close> and \<open>my_umask\<close> are the process's own.
\<close>

record ('s, 'h) env =
  edb :: "'s bdb"
  sys :: "'h posix"
  clock :: "nat \<Rightarrow> time_t"
  little :: bool
  my_uid :: uid_t
  my_gid :: gid_t
  my_umask :: mode_t

abbreviation lawful :: "('s, 'h) env \<Rightarrow> bool" where
  "lawful E \<equiv> bdb_lawful (edb E)"

section \<open>An instance of the database calls\<close>

text \<open>
  Association lists, the most recent binding first; the second component keeps the
  contents at the beginning of the transaction.
\<close>

type_synonym al_store = "(bytes \<times> bytes) list \<times> (bytes \<times> bytes) list"

definition al_scan :: "al_store \<Rightarrow> bytes option \<Rightarrow> (bytes \<times> bytes) list" where
  "al_scan s lo =
     map (\<lambda>k. (k, the (map_of (fst s) k))) (filter (in_range lo) (sort (remdups (map fst (fst s)))))"

definition al_bdb :: "al_store bdb" where
  "al_bdb = \<lparr>
     b_get = (\<lambda>s k. case map_of (fst s) k of None \<Rightarrow> Inl DB_NOTFOUND | Some v \<Rightarrow> Inr v),
     b_put = (\<lambda>s k v. Inr ((k, v) # filter (\<lambda>p. fst p \<noteq> k) (fst s), snd s)),
     b_del = (\<lambda>s k. Inr (filter (\<lambda>p. fst p \<noteq> k) (fst s), snd s)),
     b_scan = (\<lambda>s lo. (al_scan s lo, DB_NOTFOUND)),
     b_last = (\<lambda>s. case al_scan s None of [] \<Rightarrow> Inl DB_NOTFOUND | x # xs \<Rightarrow> Inr (last (x # xs))),
     b_begin = (\<lambda>s. (fst s, fst s)),
     b_commit = (\<lambda>s. (fst s, fst s)),
     b_abort = (\<lambda>s. (snd s, snd s)),
     b_remove = (\<lambda>s. Inr ([], [])),
     b_create = (\<lambda>s. s),
     b_undo = (\<lambda>s. map_of (snd s)) \<rparr>"

lemma al_view: "view al_bdb s = map_of (fst s)"
  by (auto simp: view_def al_bdb_def split: option.splits)

lemma al_filter: "map_of (filter (\<lambda>p. fst p \<noteq> k) l) = (map_of l)(k := None)"
  by (induction l) (auto simp: fun_eq_iff)

lemma al_scan_sorted: "sorted_wrt (<) (map fst (al_scan s lo))"
proof -
  have "map fst (al_scan s lo) = filter (in_range lo) (sort (remdups (map fst (fst s))))"
    by (simp add: al_scan_def comp_def)
  moreover have "sorted_wrt (<) (sort (remdups (map fst (fst s))))"
    by (simp add: strict_sorted_iff)
  ultimately show ?thesis by (simp add: sorted_wrt_filter)
qed

lemma al_scan_set: "set (al_scan s lo) = {(k, v). view al_bdb s k = Some v \<and> in_range lo k}"
proof -
  have "fst ` set (fst s) = dom (map_of (fst s))"
    by (simp add: dom_map_of_conv_image_fst)
  then have "set (al_scan s lo)
      = (\<lambda>k. (k, the (map_of (fst s) k))) ` {k \<in> dom (map_of (fst s)). in_range lo k}"
    by (simp add: al_scan_def)
  then show ?thesis by (auto simp: al_view)
qed

lemma al_last:
  assumes "dom (view al_bdb s) \<noteq> {}"
  shows "\<exists>k v. b_last al_bdb s = Inr (k, v) \<and> view al_bdb s k = Some v
           \<and> (\<forall>k' \<in> dom (view al_bdb s). k' \<le> k)"
proof -
  let ?l = "al_scan s None"
  have set: "set ?l = {(k, v). view al_bdb s k = Some v}"
    by (simp add: al_scan_set in_range_def)
  with assms have ne: "?l \<noteq> []" by auto
  obtain k v where kv: "last ?l = (k, v)" by (cases "last ?l")
  have "b_last al_bdb s = Inr (k, v)"
    using ne kv by (auto simp: al_bdb_def split: list.splits)
  moreover have "view al_bdb s k = Some v"
    using last_in_set [OF ne] kv set by auto
  moreover have "k' \<le> k" if "k' \<in> dom (view al_bdb s)" for k'
  proof -
    from that set have "k' \<in> set (map fst ?l)" by force
    moreover have "sorted (map fst ?l)"
      using al_scan_sorted by (metis strict_sorted_iff)
    moreover have "last (map fst ?l) = k" using kv ne by (simp add: last_map)
    ultimately show ?thesis using sorted_le_last by metis
  qed
  ultimately show ?thesis by blast
qed

theorem al_bdb_lawful: "bdb_lawful al_bdb"
  unfolding bdb_lawful_def
proof (intro conjI allI impI)
  fix s :: al_store and k v :: bytes and lo :: "bytes option"
  show "finite (dom (view al_bdb s))"
    by (simp add: al_view finite_dom_map_of)
  show "b_get al_bdb s k = (case view al_bdb s k of None \<Rightarrow> Inl DB_NOTFOUND | Some v \<Rightarrow> Inr v)"
    by (simp add: al_view) (simp add: al_bdb_def)
  show "\<exists>s'. b_put al_bdb s k v = Inr s' \<and> view al_bdb s' = (view al_bdb s)(k \<mapsto> v)
          \<and> b_undo al_bdb s' = b_undo al_bdb s"
    by (simp add: al_view) (simp add: al_bdb_def al_filter)
  show "\<exists>s'. b_del al_bdb s k = Inr s' \<and> view al_bdb s' = (view al_bdb s)(k := None)
          \<and> b_undo al_bdb s' = b_undo al_bdb s"
    by (simp add: al_view) (simp add: al_bdb_def al_filter)
  show "\<exists>l. b_scan al_bdb s lo = (l, DB_NOTFOUND) \<and> sorted_wrt (<) (map fst l)
          \<and> set l = {(k, v). view al_bdb s k = Some v \<and> in_range lo k}"
    using al_scan_sorted al_scan_set by (auto simp: al_bdb_def)
  show "b_last al_bdb s = Inl DB_NOTFOUND" if "dom (view al_bdb s) = {}"
  proof -
    have "set (al_scan s None) = {}" using that by (auto simp: al_scan_set)
    then show ?thesis by (simp add: al_bdb_def)
  qed
  show "\<exists>k v. b_last al_bdb s = Inr (k, v) \<and> view al_bdb s k = Some v
          \<and> (\<forall>k' \<in> dom (view al_bdb s). k' \<le> k)" if "dom (view al_bdb s) \<noteq> {}"
    using that by (rule al_last)
  have "b_remove al_bdb s = Inr ([], [])" by (simp add: al_bdb_def)
  then show "case b_remove al_bdb s of Inl _ \<Rightarrow> view al_bdb s = Map.empty | Inr s' \<Rightarrow> view al_bdb s' = Map.empty"
    by (simp add: al_view)
  show "view al_bdb (b_begin al_bdb s) = view al_bdb s"
    and "b_undo al_bdb (b_begin al_bdb s) = view al_bdb s"
    and "view al_bdb (b_commit al_bdb s) = view al_bdb s"
    and "view al_bdb (b_abort al_bdb s) = b_undo al_bdb s"
    and "view al_bdb (b_create al_bdb s) = view al_bdb s"
    by (simp_all add: al_view) (simp_all add: al_bdb_def)
qed

end
