(* ===== verification/Database.thy ===== *)
theory Database
  imports Params
begin

text \<open>
  The register layer (\<^verbatim>\<open>database.hxx\<close>, \<^verbatim>\<open>database.cxx\<close>, \<^verbatim>\<open>register.hxx\<close>, \<^verbatim>\<open>fsdb.hxx\<close>):
  typed attributes of numbered registers, stored in an ordered key/value database under the
  concatenation of the register's identifier and the attribute's name.
  The theory models the byte order conversions, every operation of \<^verbatim>\<open>Register\<close> and
  \<^verbatim>\<open>Database\<close> and the transactions, and shows that the layer is a two-dimensional map.
\<close>

section \<open>Byte order (database.cxx)\<close>

text \<open>Fixed-length big endian representation of a number.\<close>

primrec be :: "nat \<Rightarrow> nat \<Rightarrow> bytes" where
  "be 0 v = []"
| "be (Suc n) v = be n (v div 256) @ [char_of v]"

definition unbe :: "bytes \<Rightarrow> nat" where
  "unbe bs = foldl (\<lambda>a c. 256 * a + of_char c) 0 bs"

definition nbytes :: "'a::len itself \<Rightarrow> nat" where
  "nbytes _ = LENGTH('a) div 8"

definition bswap :: "'a::len word \<Rightarrow> 'a word" where
  "bswap v = word_of_nat (unbe (rev (be (nbytes TYPE('a)) (unat v))))"

text \<open>The kernel's \<^verbatim>\<open>__cpu_to_beN\<close> swaps the bytes on a little endian host only.\<close>

definition host_to_db :: "('s, 'h) env \<Rightarrow> 'a::len word \<Rightarrow> 'a word" where
  "host_to_db E v = (if little E then bswap v else v)"

definition db_to_host :: "('s, 'h) env \<Rightarrow> 'a::len word \<Rightarrow> 'a word" where
  "db_to_host E v = (if little E then bswap v else v)"

text \<open>The bytes an integer variable occupies in the host's memory.\<close>

definition native :: "('s, 'h) env \<Rightarrow> 'a::len word \<Rightarrow> bytes" where
  "native E v = (if little E then rev (be (nbytes TYPE('a)) (unat v)) else be (nbytes TYPE('a)) (unat v))"

definition from_native :: "('s, 'h) env \<Rightarrow> bytes \<Rightarrow> 'a::len word" where
  "from_native E bs = word_of_nat (unbe (if little E then rev bs else bs))"

subsection \<open>Facts about the representation\<close>

lemma length_be [simp]: "length (be n v) = n"
  by (induction n arbitrary: v) auto

lemma unbe_Nil [simp]: "unbe [] = 0"
  by (simp add: unbe_def)

lemma unbe_snoc [simp]: "unbe (bs @ [c]) = 256 * unbe bs + of_char c"
  by (simp add: unbe_def)

lemma unbe_be: "unbe (be n v) = v mod 256 ^ n"
proof (induction n arbitrary: v)
  case 0
  then show ?case by simp
next
  case (Suc n)
  have "v mod (256 * 256 ^ n) = 256 * (v div 256 mod 256 ^ n) + v mod 256"
    by (rule mod_mult2_eq)
  then show ?case by (simp add: Suc of_char_of)
qed

lemma of_char_less_256: "(of_char c :: nat) < 256"
  using nat_of_char_less_256 [of c] by simp

lemma unbe_less: "unbe bs < 256 ^ length bs"
proof (induction bs rule: rev_induct)
  case Nil
  then show ?case by simp
next
  case (snoc c bs)
  then have "256 * unbe bs + 256 \<le> 256 * 256 ^ length bs" by simp
  moreover have "(of_char c :: nat) < 256" by (rule of_char_less_256)
  ultimately have "256 * unbe bs + of_char c < 256 * 256 ^ length bs" by linarith
  then show ?case by simp
qed

lemma be_unbe: "be (length bs) (unbe bs) = bs"
proof (induction bs rule: rev_induct)
  case Nil
  then show ?case by simp
next
  case (snoc c bs)
  have "(256 * unbe bs + of_char c) div 256 = unbe bs"
    using of_char_less_256 [of c] by simp
  moreover have "char_of (256 * unbe bs + of_char c) = c"
  proof -
    have "char_of (256 * unbe bs + of_char c) = (char_of (of_char c :: nat) :: char)"
      by (simp only: char_of_quasi_inj) simp
    then show ?thesis by simp
  qed
  ultimately show ?case using snoc by simp
qed

lemma be_inject: "u < 256 ^ n \<Longrightarrow> v < 256 ^ n \<Longrightarrow> be n u = be n v \<longleftrightarrow> u = v"
  using unbe_be by (metis mod_less)

lemma char_of_less_iff:
  "char_of (u :: nat) < char_of v \<longleftrightarrow> u mod 256 < v mod 256"
  by (simp add: less_char_def of_char_of)

lemma radix_less:
  fixes a b r s :: nat
  shows "r < 256 \<Longrightarrow> s < 256 \<Longrightarrow> 256 * a + r < 256 * b + s \<longleftrightarrow> a < b \<or> a = b \<and> r < s"
  by arith

lemma be_less:
  "u < 256 ^ n \<Longrightarrow> v < 256 ^ n \<Longrightarrow> be n u < be n v \<longleftrightarrow> u < v"
proof (induction n arbitrary: u v)
  case 0
  then show ?case by simp
next
  case (Suc n)
  then have lt: "u div 256 < 256 ^ n" "v div 256 < 256 ^ n"
    by (simp_all add: less_mult_imp_div_less mult.commute)
  have "be (Suc n) u < be (Suc n) v \<longleftrightarrow>
      u div 256 < v div 256 \<or> u div 256 = v div 256 \<and> u mod 256 < v mod 256"
    using lt by (simp add: append_less_append Suc.IH be_inject char_of_less_iff)
  also have "\<dots> \<longleftrightarrow> u < v"
    using radix_less [of "u mod 256" "v mod 256" "u div 256" "v div 256"] by simp
  finally show ?case .
qed

lemma pow256: "8 dvd LENGTH('a::len) \<Longrightarrow> 256 ^ nbytes TYPE('a) = (2::nat) ^ LENGTH('a)"
  by (auto simp: nbytes_def power_mult elim!: dvdE)

lemma unat_less_256: "8 dvd LENGTH('a::len) \<Longrightarrow> unat (v :: 'a word) < 256 ^ nbytes TYPE('a)"
  by (simp add: pow256)

lemma unat_unbe:
  assumes "8 dvd LENGTH('a::len)" and "length bs = nbytes TYPE('a)"
  shows "unat (word_of_nat (unbe bs) :: 'a word) = unbe bs"
  using unbe_less [of bs] assms by (simp add: pow256 unat_of_nat take_bit_nat_eq_self)

lemma word_of_be: "8 dvd LENGTH('a::len) \<Longrightarrow> word_of_nat (unbe (be (nbytes TYPE('a)) (unat v))) = (v :: 'a word)"
  by (simp add: unbe_be unat_less_256)

lemma be_word_of:
  assumes "8 dvd LENGTH('a::len)" and "length bs = nbytes TYPE('a)"
  shows "be (nbytes TYPE('a)) (unat (word_of_nat (unbe bs) :: 'a word)) = bs"
  using assms be_unbe [of bs] by (simp add: unat_unbe)

lemma bswap_bswap [simp]: "8 dvd LENGTH('a::len) \<Longrightarrow> bswap (bswap (v :: 'a word)) = v"
  unfolding bswap_def by (simp add: be_word_of word_of_be)

lemma db_to_host_host_to_db [simp]:
  "8 dvd LENGTH('a::len) \<Longrightarrow> db_to_host E (host_to_db E (v :: 'a word)) = v"
  by (simp add: db_to_host_def host_to_db_def)

lemma host_to_db_db_to_host [simp]:
  "8 dvd LENGTH('a::len) \<Longrightarrow> host_to_db E (db_to_host E (v :: 'a word)) = v"
  by (simp add: db_to_host_def host_to_db_def)

lemma length_native [simp]: "length (native E (v :: 'a::len word)) = nbytes TYPE('a)"
  by (simp add: native_def)

lemma from_native_native [simp]:
  "8 dvd LENGTH('a::len) \<Longrightarrow> from_native E (native E v) = (v :: 'a word)"
  by (simp add: from_native_def native_def word_of_be)

lemma native_from_native [simp]:
  assumes "8 dvd LENGTH('a::len)" and "length bs = nbytes TYPE('a)"
  shows "native E (from_native E bs :: 'a word) = bs"
  using be_word_of [OF assms] be_word_of [OF assms(1), of "rev bs"] assms(2)
  by (simp add: native_def from_native_def)

lemma native_host_to_db:
  "8 dvd LENGTH('a::len) \<Longrightarrow> native E (host_to_db E (v :: 'a word)) = be (nbytes TYPE('a)) (unat v)"
  by (simp add: native_def host_to_db_def bswap_def be_word_of)

lemma native_inject: "8 dvd LENGTH('a::len) \<Longrightarrow> native E (u :: 'a word) = native E v \<longleftrightarrow> u = v"
  by (metis from_native_native)

text \<open>The database's order of identifiers is the order of the numbers they encode.\<close>

lemma native_less:
  "8 dvd LENGTH('a::len) \<Longrightarrow>
     native E (u :: 'a word) < native E (v :: 'a word) \<longleftrightarrow> unat (db_to_host E u) < unat (db_to_host E v)"
  using native_host_to_db [of E "db_to_host E u"] native_host_to_db [of E "db_to_host E v"]
  by (simp add: be_less unat_less_256)

section \<open>The state\<close>

datatype db = DNodes | DDirectories | DMedia

text \<open>
  \<open>dbs\<close>: the three databases of \<^verbatim>\<open>FsDb\<close>; \<open>txns\<close>: whether a transaction is open on each
  (\<^verbatim>\<open>Txn::txn\<close> and \<^verbatim>\<open>Txn::cur\<close> are not \<^verbatim>\<open>NULL\<close>); \<open>opcount\<close>: \<^verbatim>\<open>Environment::opcount\<close>;
  \<open>ckpts\<close>: the number of checkpoints written; \<open>ticks\<close>: how often the clock was read;
  \<open>host\<close>: the state of the host system.
\<close>

record ('s, 'h) world =
  dbs :: "db \<Rightarrow> 's"
  txns :: "db \<Rightarrow> bool"
  opcount :: "32 word"
  ckpts :: nat
  ticks :: nat
  host :: 'h

type_synonym ('s, 'h, 'z, 'a) op = "(('s, 'h, 'z) world_scheme, 'a) m"

text \<open>\<^verbatim>\<open>Environment::cleanlogs\<close>\<close>

definition cleanlogs :: "('s, 'h, 'z) world_scheme \<Rightarrow> ('s, 'h, 'z) world_scheme" where
  "cleanlogs w =
     (if opcount w = 0 then w\<lparr>opcount := 100000, ckpts := Suc (ckpts w)\<rparr>
      else w\<lparr>opcount := opcount w - 1\<rparr>)"

text \<open>\<^verbatim>\<open>time(NULL)\<close>\<close>

definition time_now :: "('s, 'h) env \<Rightarrow> ('s, 'h, 'z, time_t) op" where
  "time_now E = (\<lambda>w. (Inr (clock E (ticks w)), w\<lparr>ticks := Suc (ticks w)\<rparr>))"

text \<open>A call of the operating system.\<close>

definition hostM :: "('h \<Rightarrow> 'a \<times> 'h) \<Rightarrow> ('s, 'h, 'z, 'a) op" where
  "hostM f = (\<lambda>w. case f (host w) of (a, h) \<Rightarrow> (Inr a, w\<lparr>host := h\<rparr>))"

section \<open>Registers (register.hxx)\<close>

definition getkey :: "('s, 'h) env \<Rightarrow> 'a::len word \<Rightarrow> string \<Rightarrow> bytes" where
  "getkey E i name = native E i @ name"

definition getattrv ::
  "('s, 'h) env \<Rightarrow> db \<Rightarrow> 'a::len word \<Rightarrow> string \<Rightarrow> ('s, 'h, 'z, bytes) op" where
  "getattrv E d i name = (\<lambda>w.
     case b_get (edb E) (dbs w d) (getkey E i name) of
       Inr v \<Rightarrow> (Inr v, w)
     | Inl DB_THROW \<Rightarrow> (Inl EDb, w)
     | Inl _ \<Rightarrow> (Inl (EAttrNotFound LENGTH('a) name), w))"

definition setattrv ::
  "('s, 'h) env \<Rightarrow> db \<Rightarrow> 'a::len word \<Rightarrow> string \<Rightarrow> bytes \<Rightarrow> ('s, 'h, 'z, unit) op" where
  "setattrv E d i name v = (\<lambda>w.
     case b_put (edb E) (dbs w d) (getkey E i name) v of
       Inr s \<Rightarrow> (Inr (), cleanlogs (w\<lparr>dbs := (dbs w)(d := s)\<rparr>))
     | Inl DB_THROW \<Rightarrow> (Inl EDb, w)
     | Inl _ \<Rightarrow> (Inl (ERuntime ''setattrv: Error writing into the database.''), w))"

text \<open>
  The typed accessors. A value of type \<^typ>\<open>'b::len word\<close> is stored in the database's byte order.
\<close>

definition getattr ::
  "('s, 'h) env \<Rightarrow> db \<Rightarrow> 'a::len word \<Rightarrow> string \<Rightarrow> ('s, 'h, 'z, 'b::len word) op" where
  "getattr E d i name = bind (getattrv E d i name) (\<lambda>b.
     if length b \<noteq> nbytes TYPE('b) then throw (ERuntime ''getattr: Sizes do not match.'')
     else ret (db_to_host E (from_native E b)))"

definition setattr ::
  "('s, 'h) env \<Rightarrow> db \<Rightarrow> 'a::len word \<Rightarrow> string \<Rightarrow> 'b::len word \<Rightarrow> ('s, 'h, 'z, unit) op" where
  "setattr E d i name v = setattrv E d i name (native E (host_to_db E v))"

text \<open>\<^verbatim>\<open>Dbc::del\<close>'s return code is ignored by \<^verbatim>\<open>delattr\<close>.\<close>

definition delattr ::
  "('s, 'h) env \<Rightarrow> db \<Rightarrow> 'a::len word \<Rightarrow> string \<Rightarrow> ('s, 'h, 'z, unit) op" where
  "delattr E d i name = (\<lambda>w.
     case b_get (edb E) (dbs w d) (getkey E i name) of
       Inl DB_THROW \<Rightarrow> (Inl EDb, w)
     | Inl _ \<Rightarrow> (Inl (EAttrNotFound LENGTH('a) name), w)
     | Inr _ \<Rightarrow>
         (case b_del (edb E) (dbs w d) (getkey E i name) of
            Inl DB_THROW \<Rightarrow> (Inl EDb, w)
          | Inl _ \<Rightarrow> (Inr (), cleanlogs w)
          | Inr s \<Rightarrow> (Inr (), cleanlogs (w\<lparr>dbs := (dbs w)(d := s)\<rparr>))))"

text \<open>
  The cursor loop of \<^verbatim>\<open>getattrs\<close>: the names collected, and whether the cursor ran to the
  end of the database (only then is its last return code an error code).
\<close>

fun attr_loop ::
  "('s, 'h) env \<Rightarrow> 'a::len word \<Rightarrow> (bytes \<times> bytes) list \<Rightarrow> string list \<times> bool" where
  "attr_loop E i [] = ([], True)"
| "attr_loop E i ((k, v) # rest) =
     (if nbytes TYPE('a) \<le> length k \<and> from_native E (take (nbytes TYPE('a)) k) = i
      then (let (ns, ended) = attr_loop E i rest in
            (if nbytes TYPE('a) < length k then drop (nbytes TYPE('a)) k # ns else ns, ended))
      else ([], False))"

definition scan_result :: "string \<Rightarrow> bool \<Rightarrow> dberr \<Rightarrow> 'a \<Rightarrow> ('w, 'a) m" where
  "scan_result msg ended err x =
     (if ended \<and> err = DB_THROW then throw EDb
      else if ended \<and> err \<noteq> DB_NOTFOUND then throw (ERuntime msg)
      else ret x)"

definition getattrs :: "('s, 'h) env \<Rightarrow> db \<Rightarrow> 'a::len word \<Rightarrow> ('s, 'h, 'z, string list) op" where
  "getattrs E d i = (\<lambda>w.
     let (l, err) = b_scan (edb E) (dbs w d) (Some (native E i));
         (ns, ended) = attr_loop E i l
     in scan_result ''getattrs: Error accessing the database.'' ended err ns w)"

fun count_loop :: "('s, 'h) env \<Rightarrow> 'a::len word \<Rightarrow> (bytes \<times> bytes) list \<Rightarrow> int \<Rightarrow> int \<times> bool" where
  "count_loop E i [] count = (count, True)"
| "count_loop E i ((k, v) # rest) count =
     (if nbytes TYPE('a) \<le> length k \<and> from_native E (take (nbytes TYPE('a)) k) = i
      then count_loop E i rest (if nbytes TYPE('a) < length k then count + 1 else count)
      else (count, False))"

definition countattrs :: "('s, 'h) env \<Rightarrow> db \<Rightarrow> 'a::len word \<Rightarrow> ('s, 'h, 'z, int) op" where
  "countattrs E d i = (\<lambda>w.
     let (l, err) = b_scan (edb E) (dbs w d) (Some (native E i));
         (n, ended) = count_loop E i l 0
     in scan_result ''getattrs: Error accessing the database.'' ended err n w)"

text \<open>\<^verbatim>\<open>catch(EAttrNotFound& e) { k }\<close> for registers whose identifier has \<open>b\<close> bits.\<close>

definition on_missing :: "nat \<Rightarrow> ('w, 'a) m \<Rightarrow> exn \<Rightarrow> ('w, 'a) m" where
  "on_missing b k e = (case e of EAttrNotFound b' _ \<Rightarrow> if b' = b then k else throw e | _ \<Rightarrow> throw e)"

definition remove_register :: "('s, 'h) env \<Rightarrow> db \<Rightarrow> 'a::len word \<Rightarrow> ('s, 'h, 'z, unit) op" where
  "remove_register E d i =
     bind (getattrs E d i) (\<lambda>l.
     andthen (forM l (\<lambda>n. delattr E d i n))
     (andthen (handle (delattr E d i '''') (on_missing LENGTH('a) (ret ())))
     (modify cleanlogs)))"

section \<open>Databases and transactions (database.hxx, fsdb.hxx)\<close>

definition createregister :: "('s, 'h) env \<Rightarrow> db \<Rightarrow> ('s, 'h, 'z, 'a::len word) op" where
  "createregister E d =
     bind (\<lambda>w. case b_last (edb E) (dbs w d) of
         Inl DB_NOTFOUND \<Rightarrow> (Inr 0, w)
       | Inl DB_THROW \<Rightarrow> (Inl EDb, w)
       | Inl _ \<Rightarrow> (Inl (ERuntime ''createregister: Error reading from the database.''), w)
       | Inr (k, _) \<Rightarrow>
           if length k < nbytes TYPE('a)
           then (Inl (ERuntime ''createregister: Error reading from the database.''), w)
           else (Inr (host_to_db E (db_to_host E (from_native E (take (nbytes TYPE('a)) k)) + 1)), w))
     (\<lambda>i w. case b_put (edb E) (dbs w d) (native E i) '''' of
         Inr s \<Rightarrow> (Inr i, cleanlogs (w\<lparr>dbs := (dbs w)(d := s)\<rparr>))
       | Inl DB_THROW \<Rightarrow> (Inl EDb, w)
       | Inl _ \<Rightarrow> (Inr i, cleanlogs w))"

fun register_loop ::
  "('s, 'h) env \<Rightarrow> 'a::len word \<Rightarrow> (bytes \<times> bytes) list \<Rightarrow> 'a word list \<times> bool" where
  "register_loop E lastid [] = ([], True)"
| "register_loop E lastid ((k, v) # rest) =
     (if nbytes TYPE('a) \<le> length k
      then (let i = from_native E (take (nbytes TYPE('a)) k);
                (ids, ended) = register_loop E (if i \<noteq> lastid then i else lastid) rest
            in (if i \<noteq> lastid then i # ids else ids, ended))
      else ([], False))"

definition getregisters :: "('s, 'h) env \<Rightarrow> db \<Rightarrow> ('s, 'h, 'z, 'a::len word list) op" where
  "getregisters E d = (\<lambda>w.
     let (l, err) = b_scan (edb E) (dbs w d) None;
         (ids, ended) = register_loop E (- 1) l
     in scan_result ''listregisters: error accessing the database.'' ended err ids w)"

definition txn_begin :: "('s, 'h) env \<Rightarrow> db \<Rightarrow> ('s, 'h, 'z) world_scheme \<Rightarrow> ('s, 'h, 'z) world_scheme" where
  "txn_begin E d w = w\<lparr>dbs := (dbs w)(d := b_begin (edb E) (dbs w d)), txns := (txns w)(d := True)\<rparr>"

definition txn_commit :: "('s, 'h) env \<Rightarrow> db \<Rightarrow> ('s, 'h, 'z) world_scheme \<Rightarrow> ('s, 'h, 'z) world_scheme" where
  "txn_commit E d w =
     (if txns w d
      then w\<lparr>dbs := (dbs w)(d := b_commit (edb E) (dbs w d)), txns := (txns w)(d := False)\<rparr>
      else w)"

definition txn_abort :: "('s, 'h) env \<Rightarrow> db \<Rightarrow> ('s, 'h, 'z) world_scheme \<Rightarrow> ('s, 'h, 'z) world_scheme" where
  "txn_abort E d w =
     (if txns w d
      then w\<lparr>dbs := (dbs w)(d := b_abort (edb E) (dbs w d)), txns := (txns w)(d := False)\<rparr>
      else w)"

definition fstxn_begin :: "('s, 'h) env \<Rightarrow> ('s, 'h, 'z) world_scheme \<Rightarrow> ('s, 'h, 'z) world_scheme" where
  "fstxn_begin E w = txn_begin E DMedia (txn_begin E DDirectories (txn_begin E DNodes w))"

definition fstxn_commit :: "('s, 'h) env \<Rightarrow> ('s, 'h, 'z) world_scheme \<Rightarrow> ('s, 'h, 'z) world_scheme" where
  "fstxn_commit E w = txn_commit E DMedia (txn_commit E DDirectories (txn_commit E DNodes w))"

definition fstxn_abort :: "('s, 'h) env \<Rightarrow> ('s, 'h, 'z) world_scheme \<Rightarrow> ('s, 'h, 'z) world_scheme" where
  "fstxn_abort E w = txn_abort E DMedia (txn_abort E DDirectories (txn_abort E DNodes w))"

text \<open>
  The scope of a local \<^verbatim>\<open>FsTxn txns(dbs)\<close>: whichever way the block is left, the
  destructor \<^verbatim>\<open>Txn::~Txn\<close> commits what has not been committed or aborted yet.
\<close>

definition with_fstxn :: "('s, 'h) env \<Rightarrow> ('s, 'h, 'z, 'a) op \<Rightarrow> ('s, 'h, 'z, 'a) op" where
  "with_fstxn E m = (\<lambda>w. case m (fstxn_begin E w) of (r, w') \<Rightarrow> (r, fstxn_commit E w'))"

section \<open>The map behind the registers\<close>

text \<open>The value of an attribute, as stored and as a number of a given width.\<close>

definition attr ::
  "('s, 'h) env \<Rightarrow> ('s, 'h, 'z) world_scheme \<Rightarrow> db \<Rightarrow> 'a::len word \<Rightarrow> string \<Rightarrow> bytes option" where
  "attr E w d i name = view (edb E) (dbs w d) (getkey E i name)"

definition enc :: "('s, 'h) env \<Rightarrow> 'b::len word \<Rightarrow> bytes" where
  "enc E v = native E (host_to_db E v)"

definition dec :: "('s, 'h) env \<Rightarrow> bytes \<Rightarrow> 'b::len word option" where
  "dec E b = (if length b = nbytes TYPE('b) then Some (db_to_host E (from_native E b)) else None)"

definition wattr ::
  "('s, 'h) env \<Rightarrow> ('s, 'h, 'z) world_scheme \<Rightarrow> db \<Rightarrow> 'a::len word \<Rightarrow> string \<Rightarrow> 'b::len word option" where
  "wattr E w d i name = Option.bind (attr E w d i name) (dec E)"

lemma dec_enc [simp]: "8 dvd LENGTH('b::len) \<Longrightarrow> dec E (enc E v) = Some (v :: 'b word)"
  by (simp add: dec_def enc_def)

lemma enc_dec:
  assumes "dec E b = Some (v :: 'b::len word)" and "8 dvd LENGTH('b)"
  shows "enc E v = b"
proof -
  have "length b = nbytes TYPE('b)" and v: "v = db_to_host E (from_native E b)"
    using assms(1) by (auto simp: dec_def split: if_splits)
  then show ?thesis using assms(2) by (simp add: enc_def v)
qed

lemma getkey_inject:
  "8 dvd LENGTH('a::len) \<Longrightarrow> getkey E (i :: 'a word) n = getkey E j m \<longleftrightarrow> i = j \<and> n = m"
  by (auto simp: getkey_def native_inject append_eq_append_conv)

end
