(* ===== verification/Register_Laws.thy ===== *)
theory Register_Laws
  imports Database
begin

text \<open>
  What the register layer promises its clients. Under \<open>lawful\<close> every operation is
  rewritten to a state change described by \<open>attr\<close>, the two-dimensional map of attributes:
  \<open>put_attr\<close>, \<open>del_attr\<close>, \<open>del_register\<close> and \<open>new_register\<close>. The locale \<open>attr_store\<close>
  is the interface nodes, directories and media use; it is interpreted on the three databases.
\<close>

section \<open>Attribute maps\<close>

lemma attr_dbs: "attr E (w\<lparr>dbs := f\<rparr>) d i n = view (edb E) (f d) (getkey E i n)"
  by (simp add: attr_def)

lemma cleanlogs_fields [simp]:
  "dbs (cleanlogs w) = dbs w" "txns (cleanlogs w) = txns w" "ticks (cleanlogs w) = ticks w"
  "host (cleanlogs w) = host w" "world.more (cleanlogs w) = world.more w"
  by (simp_all add: cleanlogs_def)

lemma attr_cleanlogs [simp]: "attr E (cleanlogs w) = attr E w"
  by (simp add: attr_def fun_eq_iff)

lemma attr_ticks [simp]: "attr E (w\<lparr>ticks := t\<rparr>) = attr E w"
  by (simp add: attr_def fun_eq_iff)

lemma attr_host [simp]: "attr E (w\<lparr>host := h\<rparr>) = attr E w"
  by (simp add: attr_def fun_eq_iff)

lemma wattr_cleanlogs [simp]: "wattr E (cleanlogs w) = wattr E w"
  by (simp add: wattr_def fun_eq_iff)

lemma wattr_ticks [simp]: "wattr E (w\<lparr>ticks := t\<rparr>) = wattr E w"
  by (simp add: wattr_def fun_eq_iff)

lemma wattr_host [simp]: "wattr E (w\<lparr>host := h\<rparr>) = wattr E w"
  by (simp add: wattr_def fun_eq_iff)

lemma wattr_attr: "wattr E w d i n = Some v \<Longrightarrow> attr E w d i n \<noteq> None"
  by (cases "attr E w d i n") (simp_all add: wattr_def)

subsection \<open>Reading\<close>

lemma getattrv_eq:
  "lawful E \<Longrightarrow> getattrv E d (i :: 'a::len word) n w =
     (case attr E w d i n of None \<Rightarrow> (Inl (EAttrNotFound LENGTH('a) n), w) | Some v \<Rightarrow> (Inr v, w))"
  by (simp add: getattrv_def attr_def lawful_get split: option.splits)

lemma getattr_eq:
  "lawful E \<Longrightarrow> (getattr E d (i :: 'a::len word) n :: ('s, 'h, 'z, 'b::len word) op) w =
     (case attr E w d i n of None \<Rightarrow> (Inl (EAttrNotFound LENGTH('a) n), w)
      | Some b \<Rightarrow> (case dec E b of None \<Rightarrow> (Inl (ERuntime ''getattr: Sizes do not match.''), w)
                  | Some v \<Rightarrow> (Inr v, w)))"
  by (simp add: getattr_def getattrv_eq dec_def bind_def split: option.splits)

lemma getattr_Some:
  "lawful E \<Longrightarrow> wattr E w d i n = Some v \<Longrightarrow> getattr E d i n w = (Inr v, w)"
  by (auto simp: getattr_eq wattr_def split: option.splits bind_splits)

lemma reads_getattrv [reads_rules]: "reads (getattrv E d i n)"
  by (rule readsI) (auto simp: getattrv_def split: sum.splits dberr.splits)

lemma reads_getattr [reads_rules]: "reads (getattr E d i n)"
  unfolding getattr_def by (intro reads_rules)

lemma reads_on_missing [reads_rules]: "reads k \<Longrightarrow> reads (on_missing b k e)"
  by (auto simp: on_missing_def intro: reads_throw split: exn.split)

lemma getattr_stateD: "getattr E d i n w = (r, w') \<Longrightarrow> w' = w"
  by (rule readsD [OF reads_getattr])

lemma getattr_Inr:
  "lawful E \<Longrightarrow> getattr E d i n w = (Inr v, w') \<longleftrightarrow> wattr E w d i n = Some v \<and> w' = w"
  by (auto simp: getattr_eq wattr_def split: option.splits)

subsection \<open>Writing\<close>

definition put_attr ::
  "('s, 'h) env \<Rightarrow> db \<Rightarrow> 'a::len word \<Rightarrow> string \<Rightarrow> bytes \<Rightarrow> ('s, 'h, 'z) world_scheme \<Rightarrow> ('s, 'h, 'z) world_scheme" where
  "put_attr E d i n v w = snd (setattrv E d i n v w)"

lemma setattrv_eq: "lawful E \<Longrightarrow> setattrv E d i n v w = (Inr (), put_attr E d i n v w)"
  unfolding put_attr_def setattrv_def
  by (rule lawful_put [of "edb E" "dbs w d" "getkey E i n" v]) auto

lemma setattr_eq: "lawful E \<Longrightarrow> setattr E d i n v w = (Inr (), put_attr E d i n (enc E v) w)"
  by (simp add: setattr_def setattrv_eq enc_def)

lemma put_attr_form:
  assumes "lawful E"
  obtains s where "put_attr E d i n v w = cleanlogs (w\<lparr>dbs := (dbs w)(d := s)\<rparr>)"
    and "view (edb E) s = (view (edb E) (dbs w d))(getkey E i n \<mapsto> v)"
    and "b_undo (edb E) s = b_undo (edb E) (dbs w d)"
  using assms unfolding put_attr_def setattrv_def
  by (rule lawful_put [of "edb E" "dbs w d" "getkey E i n" v]) simp

lemma attr_put_attr [simp]:
  assumes "lawful E" and "8 dvd LENGTH('a::len)"
  shows "attr E (put_attr E d (i :: 'a word) n v w) d' (j :: 'a word) m =
     (if d' = d \<and> j = i \<and> m = n then Some v else attr E w d' j m)"
  using assms(1)
  by (rule put_attr_form [of E d i n v w]) (auto simp: attr_def getkey_inject [OF assms(2)])

lemma attr_put_attr_other [simp]:
  "lawful E \<Longrightarrow> d' \<noteq> d \<Longrightarrow> attr E (put_attr E d i n v w) d' = attr E w d'"
  by (rule put_attr_form [of E d i n v w]) (auto simp: attr_def fun_eq_iff)

lemma put_attr_fields [simp]:
  assumes "lawful E"
  shows "txns (put_attr E d i n v w) = txns w" and "ticks (put_attr E d i n v w) = ticks w"
    and "host (put_attr E d i n v w) = host w" and "world.more (put_attr E d i n v w) = world.more w"
  using assms by (auto intro: put_attr_form [of E d i n v w])

lemma wattr_put_attr [simp]:
  assumes "lawful E" and "8 dvd LENGTH('a::len)"
  shows "wattr E (put_attr E d (i :: 'a word) n v w) d' (j :: 'a word) m =
     (if d' = d \<and> j = i \<and> m = n then dec E v else wattr E w d' j m)"
  using assms by (simp add: wattr_def)

lemma wattr_put_attr_other [simp]:
  "lawful E \<Longrightarrow> d' \<noteq> d \<Longrightarrow> wattr E (put_attr E d i n v w) d' j m = wattr E w d' j m"
  by (simp add: wattr_def)

subsection \<open>Deleting\<close>

definition del_attr ::
  "('s, 'h) env \<Rightarrow> db \<Rightarrow> 'a::len word \<Rightarrow> string \<Rightarrow> ('s, 'h, 'z) world_scheme \<Rightarrow> ('s, 'h, 'z) world_scheme" where
  "del_attr E d i n w = snd (delattr E d i n w)"

lemma delattr_form:
  assumes "lawful E" and "attr E w d i n \<noteq> None"
  obtains s where "delattr E d i n w = (Inr (), cleanlogs (w\<lparr>dbs := (dbs w)(d := s)\<rparr>))"
    and "view (edb E) s = (view (edb E) (dbs w d))(getkey E i n := None)"
    and "b_undo (edb E) s = b_undo (edb E) (dbs w d)"
proof -
  from assms(2) have ne: "view (edb E) (dbs w d) (getkey E i n) \<noteq> None" by (simp add: attr_def)
  obtain s where "b_del (edb E) (dbs w d) (getkey E i n) = Inr s"
    and "view (edb E) s = (view (edb E) (dbs w d))(getkey E i n := None)"
    and "b_undo (edb E) s = b_undo (edb E) (dbs w d)"
    using lawful_del [OF assms(1) ne] by metis
  then show thesis
    using that assms(1) ne by (auto simp: delattr_def lawful_get split: option.splits)
qed

lemma delattr_None:
  "lawful E \<Longrightarrow> attr E w d (i :: 'a::len word) n = None \<Longrightarrow>
     delattr E d i n w = (Inl (EAttrNotFound LENGTH('a) n), w)"
  by (simp add: delattr_def attr_def lawful_get)

lemma delattr_eq:
  "lawful E \<Longrightarrow> delattr E d (i :: 'a::len word) n w =
     (case attr E w d i n of None \<Rightarrow> (Inl (EAttrNotFound LENGTH('a) n), w)
      | Some _ \<Rightarrow> (Inr (), del_attr E d i n w))"
  by (auto simp: delattr_None del_attr_def elim: delattr_form [of E w d i n] split: option.splits)

lemma del_attr_None: "lawful E \<Longrightarrow> attr E w d i n = None \<Longrightarrow> del_attr E d i n w = w"
  by (simp add: del_attr_def delattr_None)

lemma del_attr_form:
  assumes "lawful E" and "attr E w d i n \<noteq> None"
  obtains s where "del_attr E d i n w = cleanlogs (w\<lparr>dbs := (dbs w)(d := s)\<rparr>)"
    and "view (edb E) s = (view (edb E) (dbs w d))(getkey E i n := None)"
  using delattr_form [OF assms] unfolding del_attr_def by (metis snd_conv)

lemma attr_del_attr [simp]:
  assumes "lawful E" and "8 dvd LENGTH('a::len)"
  shows "attr E (del_attr E d (i :: 'a word) n w) d' (j :: 'a word) m =
     (if d' = d \<and> j = i \<and> m = n then None else attr E w d' j m)"
proof (cases "attr E w d i n = None")
  case True
  then show ?thesis using assms by (auto simp: del_attr_None)
next
  case False
  show ?thesis
    by (rule del_attr_form [OF assms(1) False]) (auto simp: attr_def getkey_inject [OF assms(2)])
qed

lemma del_attr_fields [simp]:
  assumes "lawful E"
  shows "txns (del_attr E d i n w) = txns w" and "ticks (del_attr E d i n w) = ticks w"
    and "host (del_attr E d i n w) = host w" and "world.more (del_attr E d i n w) = world.more w"
proof -
  have "del_attr E d i n w = w \<or> (\<exists>f. del_attr E d i n w = cleanlogs (w\<lparr>dbs := f\<rparr>))"
    using assms by (metis del_attr_None del_attr_form)
  then show "txns (del_attr E d i n w) = txns w" and "ticks (del_attr E d i n w) = ticks w"
    and "host (del_attr E d i n w) = host w" and "world.more (del_attr E d i n w) = world.more w"
    by auto
qed

lemma attr_del_attr_other [simp]:
  assumes "lawful E" and "d' \<noteq> d"
  shows "attr E (del_attr E d i n w) d' = attr E w d'"
proof (cases "attr E w d i n = None")
  case True
  then show ?thesis using assms by (simp add: del_attr_None)
next
  case False
  show ?thesis
    by (rule del_attr_form [OF assms(1) False]) (use assms in \<open>auto simp: attr_def fun_eq_iff\<close>)
qed

lemma wattr_del_attr [simp]:
  assumes "lawful E" and "8 dvd LENGTH('a::len)"
  shows "wattr E (del_attr E d (i :: 'a word) n w) d' (j :: 'a word) m =
     (if d' = d \<and> j = i \<and> m = n then None else wattr E w d' j m)"
  using assms by (simp add: wattr_def)

section \<open>The interface of a register store\<close>

text \<open>
  A client of the register layer sees a map from register identifiers and attribute names
  to byte strings, and three operations. \<open>ok\<close> is the condition on the environment.
\<close>

locale attr_store =
  fixes ok :: "'e \<Rightarrow> bool"
    and look :: "'e \<Rightarrow> 'w \<Rightarrow> 'i \<Rightarrow> string \<Rightarrow> bytes option"
    and getv :: "'e \<Rightarrow> 'i \<Rightarrow> string \<Rightarrow> ('w, bytes) m"
    and setv :: "'e \<Rightarrow> 'i \<Rightarrow> string \<Rightarrow> bytes \<Rightarrow> ('w, unit) m"
    and delv :: "'e \<Rightarrow> 'i \<Rightarrow> string \<Rightarrow> ('w, unit) m"
    and missing :: "string \<Rightarrow> exn"
  assumes getv_law: "ok E \<Longrightarrow> getv E i n w =
        (case look E w i n of None \<Rightarrow> (Inl (missing n), w) | Some v \<Rightarrow> (Inr v, w))"
    and setv_law: "ok E \<Longrightarrow> \<exists>w'. setv E i n v w = (Inr (), w') \<and>
        look E w' = (look E w)(i := (look E w i)(n \<mapsto> v))"
    and delv_law: "ok E \<Longrightarrow> look E w i n \<noteq> None \<Longrightarrow> \<exists>w'. delv E i n w = (Inr (), w') \<and>
        look E w' = (look E w)(i := (look E w i)(n := None))"
    and delv_missing: "ok E \<Longrightarrow> look E w i n = None \<Longrightarrow> delv E i n w = (Inl (missing n), w)"
begin

lemma get_after_set: "ok E \<Longrightarrow> fst (andthen (setv E i n v) (getv E i n) w) = Inr v"
  using setv_law [of E i n v w] by (auto simp: getv_law)

lemma get_other_after_set:
  assumes "ok E" and "(j, m) \<noteq> (i, n)"
  shows "fst (andthen (setv E i n v) (getv E j m) w) = fst (getv E j m w)"
  using assms setv_law [of E i n v w] by (auto simp: getv_law split: option.splits)

lemma get_after_del:
  assumes "ok E" and "look E w i n \<noteq> None"
  shows "fst (andthen (delv E i n) (getv E i n) w) = Inl (missing n)"
  using assms delv_law [of E w i n] by (auto simp: getv_law)

lemma set_then_del:
  assumes "ok E" and "look E w i n = None"
  shows "\<exists>w'. andthen (setv E i n v) (delv E i n) w = (Inr (), w') \<and> look E w' = look E w"
proof -
  obtain w1 where w1: "setv E i n v w = (Inr (), w1)"
      and l1: "look E w1 = (look E w)(i := (look E w i)(n \<mapsto> v))"
    using setv_law assms(1) by blast
  from l1 have "look E w1 i n \<noteq> None" by simp
  then obtain w2 where w2: "delv E i n w1 = (Inr (), w2)"
      and l2: "look E w2 = (look E w1)(i := (look E w1 i)(n := None))"
    using delv_law assms(1) by blast
  have "look E w2 = look E w"
    using assms(2) by (simp add: l1 l2 fun_eq_iff)
  with w1 w2 show ?thesis by simp
qed

end

interpretation node_store: attr_store lawful "\<lambda>E w (i :: nodeid). attr E w DNodes i"
    "\<lambda>E. getattrv E DNodes" "\<lambda>E. setattrv E DNodes" "\<lambda>E. delattr E DNodes" "EAttrNotFound 64"
  by unfold_locales (auto simp: getattrv_eq setattrv_eq delattr_eq fun_eq_iff split: option.splits)

interpretation dir_store: attr_store lawful "\<lambda>E w (i :: nodeid). attr E w DDirectories i"
    "\<lambda>E. getattrv E DDirectories" "\<lambda>E. setattrv E DDirectories" "\<lambda>E. delattr E DDirectories"
    "EAttrNotFound 64"
  by unfold_locales (auto simp: getattrv_eq setattrv_eq delattr_eq fun_eq_iff split: option.splits)

interpretation medium_store: attr_store lawful "\<lambda>E w (i :: mediumid). attr E w DMedia i"
    "\<lambda>E. getattrv E DMedia" "\<lambda>E. setattrv E DMedia" "\<lambda>E. delattr E DMedia" "EAttrNotFound 32"
  by unfold_locales (auto simp: getattrv_eq setattrv_eq delattr_eq fun_eq_iff split: option.splits)

end
