(* ===== verification/Register_Scans.thy ===== *)
theory Register_Scans
  imports Register_Laws
begin

text \<open>
  The operations that walk a cursor over the database: listing and counting the attributes
  of a register, deleting a register, listing the registers and allocating a new one.
  They are correct because an identifier is stored in big endian order and with a fixed
  length, so that the keys of one register are neighbours and the last key belongs to the
  largest identifier.
\<close>

abbreviation dview :: "('s, 'h) env \<Rightarrow> ('s, 'h, 'z) world_scheme \<Rightarrow> db \<Rightarrow> bytes \<Rightarrow> bytes option" where
  "dview E w d \<equiv> view (edb E) (dbs w d)"

text \<open>The parts of the state no register operation touches.\<close>

definition frame :: "('s, 'h, 'z) world_scheme \<Rightarrow> (db \<Rightarrow> bool) \<times> nat \<times> 'h \<times> 'z" where
  "frame w = (txns w, ticks w, host w, world.more w)"

lemma frame_cleanlogs [simp]: "frame (cleanlogs w) = frame w"
  by (simp add: frame_def)

lemma frame_dbs [simp]: "frame (w\<lparr>dbs := f\<rparr>) = frame w"
  by (simp add: frame_def)

lemma frame_put_attr [simp]: "lawful E \<Longrightarrow> frame (put_attr E d i n v w) = frame w"
  by (simp add: frame_def)

lemma frame_del_attr [simp]: "lawful E \<Longrightarrow> frame (del_attr E d i n w) = frame w"
  by (simp add: frame_def)

lemma dview_put_attr_other [simp]:
  "lawful E \<Longrightarrow> d' \<noteq> d \<Longrightarrow> dview E (put_attr E d i n v w) d' = dview E w d'"
  by (rule put_attr_form [of E d i n v w]) auto

lemma dview_del_attr_other [simp]:
  assumes "lawful E" and "d' \<noteq> d"
  shows "dview E (del_attr E d i n w) d' = dview E w d'"
proof (cases "attr E w d i n = None")
  case True
  then show ?thesis using assms by (simp add: del_attr_None)
next
  case False
  show ?thesis by (rule del_attr_form [OF assms(1) False]) (use assms in auto)
qed

section \<open>The attributes of a register\<close>

definition has_id :: "('s, 'h) env \<Rightarrow> 'a::len word \<Rightarrow> bytes \<Rightarrow> bool" where
  "has_id E i k \<longleftrightarrow> nbytes TYPE('a) \<le> length k \<and> from_native E (take (nbytes TYPE('a)) k) = i"

lemma has_id_iff:
  assumes "8 dvd LENGTH('a::len)"
  shows "has_id E (i :: 'a word) k \<longleftrightarrow> (\<exists>n. k = getkey E i n)"
proof
  assume h: "has_id E i k"
  then have "native E i = take (nbytes TYPE('a)) k"
    using assms by (auto simp: has_id_def min_def)
  then show "\<exists>n. k = getkey E i n"
    by (metis append_take_drop_id getkey_def)
next
  assume "\<exists>n. k = getkey E i n"
  then show "has_id E i k" using assms by (auto simp: has_id_def getkey_def)
qed

lemma attr_loop_eq:
  "attr_loop E (i :: 'a::len word) l =
     (map (drop (nbytes TYPE('a)))
        (filter (\<lambda>k. nbytes TYPE('a) < length k) (takeWhile (has_id E i) (map fst l))),
      list_all (has_id E i) (map fst l))"
  by (induction E i l rule: attr_loop.induct) (auto simp: has_id_def)

lemma count_loop_eq:
  "count_loop E (i :: 'a::len word) l c =
     (c + int (length (fst (attr_loop E i l))), snd (attr_loop E i l))"
  by (induction E i l c rule: count_loop.induct) (auto split: prod.splits)

text \<open>The names of the attributes of a register, without the dummy that allocates it.\<close>

definition attr_names ::
  "('s, 'h) env \<Rightarrow> ('s, 'h, 'z) world_scheme \<Rightarrow> db \<Rightarrow> 'a::len word \<Rightarrow> string set" where
  "attr_names E w d i = {n. n \<noteq> [] \<and> attr E w d i n \<noteq> None}"

lemma finite_attr_names:
  assumes "lawful E"
  shows "finite (attr_names E w d i)"
proof -
  have "getkey E i ` attr_names E w d i \<subseteq> dom (dview E w d)"
    by (auto simp: attr_names_def attr_def)
  moreover have "inj_on (getkey E i) (attr_names E w d i)"
    by (auto simp: inj_on_def getkey_def)
  ultimately show ?thesis
    using lawful_finite [OF assms] by (metis finite_subset finite_image_iff)
qed

lemma scan_prefix_filter:
  assumes "8 dvd LENGTH('a::len)" and "sorted_wrt (<) ks" and "\<forall>k \<in> set ks. native E i \<le> k"
  shows "takeWhile (has_id E (i :: 'a word)) ks = filter (has_id E i) ks"
proof (rule takeWhile_sorted_filter [OF assms(2)])
  fix x y
  assume x: "x \<in> set ks" and "x < y" and "has_id E i y"
  then obtain m where "x < native E i @ m"
    using has_id_iff [OF assms(1), of E i y] by (auto simp: getkey_def)
  moreover have "native E i \<le> x" using x assms(3) by blast
  ultimately show "has_id E i x"
    using between_prefix has_id_iff [OF assms(1), of E i x] unfolding getkey_def by blast
qed

lemma attr_loop_scan:
  assumes "lawful E" and b: "8 dvd LENGTH('a::len)"
    and srt: "sorted_wrt (<) (map fst l)"
    and set: "set l = {(k, v). dview E w d k = Some v \<and> in_range (Some (native E i)) k}"
  shows "fst (attr_loop E (i :: 'a word) l) = sorted_list_of_set (attr_names E w d i)"
proof -
  let ?n = "nbytes TYPE('a)"
  let ?ks = "filter (\<lambda>k. ?n < length k) (filter (has_id E i) (map fst l))"
  have ge: "\<forall>k \<in> set (map fst l). native E i \<le> k"
    using set by (auto simp: in_range_def)
  have eq: "fst (attr_loop E i l) = map (drop ?n) ?ks"
    using scan_prefix_filter [OF b srt ge] by (simp add: attr_loop_eq)
  have pre: "\<exists>m. k = native E i @ m \<and> m \<noteq> []" if "k \<in> set ?ks" for k
    using that has_id_iff [OF b, of E i k] by (auto simp: getkey_def)
  have "sorted_wrt (<) ?ks" using srt by (simp add: sorted_wrt_filter)
  then have "sorted_wrt (\<lambda>x y. drop ?n x < drop ?n y) ?ks"
  proof (rule sorted_wrt_mono_rel [rotated])
    fix x y assume "x \<in> set ?ks" "y \<in> set ?ks" "x < y"
    then show "drop ?n x < drop ?n y" using pre [of x] pre [of y] by (auto simp: append_less_append)
  qed
  then have "sorted_wrt (<) (map (drop ?n) ?ks)" by (simp add: sorted_wrt_map)
  moreover have "set (map (drop ?n) ?ks) = attr_names E w d i"
  proof
    show "set (map (drop ?n) ?ks) \<subseteq> attr_names E w d i"
    proof
      fix m assume "m \<in> set (map (drop ?n) ?ks)"
      then obtain k where "k \<in> set ?ks" and m: "m = drop ?n k" by auto
      moreover from this obtain v where "(k, v) \<in> set l" by auto
      ultimately have k: "k \<in> set ?ks" "(k, v) \<in> set l" "m = drop ?n k" by auto
      with pre [of k] set show "m \<in> attr_names E w d i"
        by (auto simp: attr_names_def attr_def getkey_def)
    qed
    show "attr_names E w d i \<subseteq> set (map (drop ?n) ?ks)"
    proof
      fix m assume "m \<in> attr_names E w d i"
      then obtain v where m: "m \<noteq> []" "dview E w d (getkey E i m) = Some v"
        by (auto simp: attr_names_def attr_def)
      moreover have "native E i @ [] \<le> native E i @ m"
        by (subst append_le_append) simp_all
      ultimately have "(getkey E i m, v) \<in> set l"
        by (simp add: set in_range_def getkey_def)
      then have "getkey E i m \<in> set (map fst l)" by force
      moreover have "has_id E i (getkey E i m)" using has_id_iff [OF b] by blast
      ultimately have "getkey E i m \<in> set ?ks" using m(1) by (simp add: getkey_def)
      then have "drop ?n (getkey E i m) \<in> set (map (drop ?n) ?ks)" by (simp only: set_map imageI)
      then show "m \<in> set (map (drop ?n) ?ks)" by (simp add: getkey_def)
    qed
  qed
  ultimately show ?thesis
    using eq finite_attr_names [OF assms(1), of w d i]
    by (metis sorted_list_of_set.idem_if_sorted_distinct strict_sorted_iff)
qed

lemma getattrs_eq:
  assumes "lawful E" and "8 dvd LENGTH('a::len)"
  shows "getattrs E d (i :: 'a word) w = (Inr (sorted_list_of_set (attr_names E w d i)), w)"
proof -
  obtain l where l: "b_scan (edb E) (dbs w d) (Some (native E i)) = (l, DB_NOTFOUND)"
    and s: "sorted_wrt (<) (map fst l)"
    and m: "set l = {(k, v). dview E w d k = Some v \<and> in_range (Some (native E i)) k}"
    by (rule lawful_scan [OF assms(1)])
  show ?thesis
    using attr_loop_scan [OF assms s m]
    by (cases "attr_loop E i l") (simp add: getattrs_def l scan_result_def)
qed

lemma countattrs_eq:
  assumes "lawful E" and "8 dvd LENGTH('a::len)"
  shows "countattrs E d (i :: 'a word) w = (Inr (int (card (attr_names E w d i))), w)"
proof -
  obtain l where l: "b_scan (edb E) (dbs w d) (Some (native E i)) = (l, DB_NOTFOUND)"
    and s: "sorted_wrt (<) (map fst l)"
    and m: "set l = {(k, v). dview E w d k = Some v \<and> in_range (Some (native E i)) k}"
    by (rule lawful_scan [OF assms(1)])
  show ?thesis
    using attr_loop_scan [OF assms s m]
    by (simp add: countattrs_def l scan_result_def count_loop_eq)
qed

section \<open>Deleting a register\<close>

definition del_register ::
  "('s, 'h) env \<Rightarrow> db \<Rightarrow> 'a::len word \<Rightarrow> ('s, 'h, 'z) world_scheme \<Rightarrow> ('s, 'h, 'z) world_scheme" where
  "del_register E d i w = snd (remove_register E d i w)"

lemma forM_delattr:
  assumes "lawful E" and "8 dvd LENGTH('a::len)"
  shows "distinct l \<Longrightarrow> \<forall>n \<in> set l. attr E w d (i :: 'a word) n \<noteq> None \<Longrightarrow>
    \<exists>w'. forM l (\<lambda>n. delattr E d i n) w = (Inr (), w') \<and> frame w' = frame w
       \<and> (\<forall>d'. d' \<noteq> d \<longrightarrow> dview E w' d' = dview E w d')
       \<and> (\<forall>(j :: 'a word) m. attr E w' d j m = (if j = i \<and> m \<in> set l then None else attr E w d j m))"
proof (induction l arbitrary: w)
  case Nil
  then show ?case by simp
next
  case (Cons n l)
  let ?w1 = "del_attr E d i n w"
  have del: "delattr E d i n w = (Inr (), ?w1)"
    using Cons.prems assms(1) by (auto simp: delattr_eq)
  have "distinct l" and "\<forall>n \<in> set l. attr E ?w1 d i n \<noteq> None"
    using Cons.prems assms by auto
  from Cons.IH [OF this] obtain w' where w': "forM l (\<lambda>n. delattr E d i n) ?w1 = (Inr (), w')"
    "frame w' = frame ?w1" "\<forall>d'. d' \<noteq> d \<longrightarrow> dview E w' d' = dview E ?w1 d'"
    "\<forall>(j :: 'a word) m. attr E w' d j m = (if j = i \<and> m \<in> set l then None else attr E ?w1 d j m)"
    by blast
  with del assms show ?case by auto
qed

lemma remove_register_form:
  assumes "lawful E" and b: "8 dvd LENGTH('a::len)"
  shows "\<exists>w'. remove_register E d (i :: 'a word) w = (Inr (), w') \<and> frame w' = frame w
       \<and> (\<forall>d'. d' \<noteq> d \<longrightarrow> dview E w' d' = dview E w d')
       \<and> (\<forall>(j :: 'a word) m. attr E w' d j m = (if j = i then None else attr E w d j m))"
proof -
  let ?l = "sorted_list_of_set (attr_names E w d i)"
  have set: "set ?l = attr_names E w d i" using finite_attr_names [OF assms(1), of w d i] by simp
  then have "distinct ?l" and "\<forall>n \<in> set ?l. attr E w d i n \<noteq> None"
    by (auto simp: attr_names_def)
  from forM_delattr [OF assms this] obtain w1 where
    w1: "forM ?l (\<lambda>n. delattr E d i n) w = (Inr (), w1)" "frame w1 = frame w"
      "\<forall>d'. d' \<noteq> d \<longrightarrow> dview E w1 d' = dview E w d'"
      "\<forall>(j :: 'a word) m. attr E w1 d j m = (if j = i \<and> m \<in> set ?l then None else attr E w d j m)"
    by blast
  let ?h = "handle (delattr E d i '''') (on_missing LENGTH('a) (ret ()))"
  have h: "?h w1 = (Inr (), del_attr E d i '''' w1)"
    using assms(1) by (cases "attr E w1 d i ''''") (auto simp: delattr_eq handle_def on_missing_def del_attr_None)
  have "remove_register E d i w = (Inr (), cleanlogs (del_attr E d i '''' w1))"
    using w1(1) h by (simp add: remove_register_def getattrs_eq [OF assms])
  moreover have "attr E (del_attr E d i '''' w1) d j m = (if j = i then None else attr E w d j m)"
    for j :: "'a word" and m
    using assms w1(4) set by (auto simp: attr_names_def)
  ultimately show ?thesis using w1 assms by auto
qed

lemma remove_register_eq:
  "lawful E \<Longrightarrow> 8 dvd LENGTH('a::len) \<Longrightarrow>
     remove_register E d (i :: 'a word) w = (Inr (), del_register E d i w)"
  using remove_register_form [of E d i w] by (auto simp: del_register_def)

lemma attr_del_register [simp]:
  "lawful E \<Longrightarrow> 8 dvd LENGTH('a::len) \<Longrightarrow> attr E (del_register E d (i :: 'a word) w) d' (j :: 'a word) m =
     (if d' = d \<and> j = i then None else attr E w d' j m)"
  using remove_register_form [of E d i w] by (cases "d' = d") (auto simp: del_register_def attr_def)

lemma wattr_del_register [simp]:
  "lawful E \<Longrightarrow> 8 dvd LENGTH('a::len) \<Longrightarrow> wattr E (del_register E d (i :: 'a word) w) d' (j :: 'a word) m =
     (if d' = d \<and> j = i then None else wattr E w d' j m)"
  by (simp add: wattr_def)

lemma frame_del_register [simp]:
  "lawful E \<Longrightarrow> 8 dvd LENGTH('a::len) \<Longrightarrow> frame (del_register E d (i :: 'a word) w) = frame w"
  using remove_register_form [of E d i w] by (auto simp: del_register_def)

lemma dview_del_register_other [simp]:
  "lawful E \<Longrightarrow> 8 dvd LENGTH('a::len) \<Longrightarrow> d' \<noteq> d \<Longrightarrow>
     dview E (del_register E d (i :: 'a word) w) d' = dview E w d'"
  using remove_register_form [of E d i w] by (auto simp: del_register_def)

section \<open>Allocating a register\<close>

text \<open>Every key of the database is long enough to hold an identifier of type \<^typ>\<open>'a::len word\<close>.\<close>

definition keys_ok :: "('s, 'h) env \<Rightarrow> ('s, 'h, 'z) world_scheme \<Rightarrow> db \<Rightarrow> 'a::len itself \<Rightarrow> bool" where
  "keys_ok E w d T \<longleftrightarrow> (\<forall>k \<in> dom (dview E w d). nbytes T \<le> length k)"

lemma key_split:
  assumes "8 dvd LENGTH('a::len)" and "nbytes TYPE('a) \<le> length k"
  shows "k = getkey E (from_native E (take (nbytes TYPE('a)) k) :: 'a word) (drop (nbytes TYPE('a)) k)"
  using assms by (simp add: getkey_def)

lemma successor_fresh:
  assumes b: "8 dvd LENGTH('a::len)"
    and max: "\<And>k'. k' \<in> dom (dview E w d) \<Longrightarrow> k' \<le> getkey E (j :: 'a word) m"
    and top: "db_to_host E j \<noteq> - 1"
  shows "attr E w d (host_to_db E (db_to_host E j + 1)) n = None"
proof (rule ccontr)
  let ?i = "host_to_db E (db_to_host E j + 1)"
  assume "attr E w d ?i n \<noteq> None"
  then have "getkey E ?i n \<le> getkey E j m" by (intro max) (auto simp: attr_def)
  then have "native E ?i \<le> native E j"
    by (auto simp: getkey_def append_le_append)
  then have "\<not> unat (db_to_host E j) < unat (db_to_host E j + 1)"
    using native_less [OF b, of E j ?i] b by auto
  then show False
    using top by (metis add.commute add.right_neutral eq_neg_iff_add_eq_0 lessI unatSuc)
qed

text \<open>
  The identifier that \<^verbatim>\<open>createregister\<close> returns had no attribute before; afterwards it has
  the dummy attribute, and nothing else has changed.
\<close>

lemma createregister_form:
  assumes "lawful E" and b: "8 dvd LENGTH('a::len)" and k: "keys_ok E w d TYPE('a)"
    and top: "\<And>m. attr E w d (host_to_db E (- 1) :: 'a word) m = None"
  shows "\<exists>(i :: 'a word) w'. createregister E d w = (Inr i, w')
       \<and> (\<forall>m. attr E w d i m = None) \<and> frame w' = frame w
       \<and> (\<forall>d'. d' \<noteq> d \<longrightarrow> dview E w' d' = dview E w d')
       \<and> dview E w' d = (dview E w d)(getkey E i '''' \<mapsto> '''')"
proof -
  have put: "\<exists>w'. (case b_put (edb E) (dbs w d) (native E (i :: 'a word)) '''' of
         Inr s \<Rightarrow> (Inr i, cleanlogs (w\<lparr>dbs := (dbs w)(d := s)\<rparr>))
       | Inl DB_THROW \<Rightarrow> (Inl EDb, w)
       | Inl _ \<Rightarrow> (Inr i, cleanlogs w)) = (Inr i, w') \<and> frame w' = frame w
       \<and> (\<forall>d'. d' \<noteq> d \<longrightarrow> dview E w' d' = dview E w d')
       \<and> dview E w' d = (dview E w d)(getkey E i '''' \<mapsto> '''')" for i
    by (rule lawful_put [OF assms(1), of "dbs w d" "native E i" "''''"]) (auto simp: getkey_def)
  show ?thesis
  proof (cases "dom (dview E w d) = {}")
    case True
    then have "b_last (edb E) (dbs w d) = Inl DB_NOTFOUND"
      by (rule lawful_last_empty [OF assms(1)])
    moreover have "attr E w d (0 :: 'a word) m = None" for m
      using True by (auto simp: attr_def)
    ultimately show ?thesis using put [of 0] by (auto simp: createregister_def bind_def)
  next
    case False
    then obtain k v where last: "b_last (edb E) (dbs w d) = Inr (k, v)"
      and kv: "dview E w d k = Some v" and max: "\<And>k'. k' \<in> dom (dview E w d) \<Longrightarrow> k' \<le> k"
      by (rule lawful_last [OF assms(1)]) blast
    let ?j = "from_native E (take (nbytes TYPE('a)) k) :: 'a word"
    have len: "nbytes TYPE('a) \<le> length k" using k kv by (auto simp: keys_ok_def)
    have key: "k = getkey E ?j (drop (nbytes TYPE('a)) k)" using key_split [OF b len] .
    have "db_to_host E ?j \<noteq> - 1"
    proof
      assume "db_to_host E ?j = - 1"
      then have "?j = host_to_db E (- 1)" using b by (metis host_to_db_db_to_host)
      then show False using top kv key by (metis attr_def option.distinct(1))
    qed
    with max key have "attr E w d (host_to_db E (db_to_host E ?j + 1)) m = None" for m
      using successor_fresh [OF b, of E w d ?j "drop (nbytes TYPE('a)) k"] by metis
    then show ?thesis
      using put [of "host_to_db E (db_to_host E ?j + 1)"] last len
      by (auto simp: createregister_def bind_def)
  qed
qed

section \<open>Listing the registers\<close>

lemma register_loop_eq:
  assumes "\<forall>k \<in> set (map fst l). nbytes TYPE('a::len) \<le> length k"
  shows "lst # fst (register_loop E (lst :: 'a word) l) =
           remdups_adj (lst # map (\<lambda>k. from_native E (take (nbytes TYPE('a)) k)) (map fst l))
       \<and> snd (register_loop E lst l)"
  using assms
proof (induction E lst l rule: register_loop.induct)
  case (1 E lst)
  then show ?case by simp
next
  case (2 E lst k v rest)
  let ?i = "from_native E (take (nbytes TYPE('a)) k) :: 'a word"
  show ?case
  proof (cases "?i = lst")
    case True
    with 2 show ?thesis by (auto split: prod.splits)
  next
    case False
    with 2 show ?thesis by (auto simp: Let_def split: prod.splits)
  qed
qed

lemma ids_sorted:
  assumes b: "8 dvd LENGTH('a::len)" and "sorted ks" and "\<forall>k \<in> set ks. nbytes TYPE('a) \<le> length k"
  shows "sorted (map (\<lambda>k. native E (from_native E (take (nbytes TYPE('a)) k) :: 'a word)) ks)"
  using assms(2,3)
proof (induction ks)
  case (Cons k ks)
  have "native E (from_native E (take (nbytes TYPE('a)) k) :: 'a word)
      \<le> native E (from_native E (take (nbytes TYPE('a)) k') :: 'a word)" if "k' \<in> set ks" for k'
  proof -
    have "take (nbytes TYPE('a)) k @ drop (nbytes TYPE('a)) k
        \<le> take (nbytes TYPE('a)) k' @ drop (nbytes TYPE('a)) k'"
      using Cons.prems that by simp
    then have "take (nbytes TYPE('a)) k \<le> take (nbytes TYPE('a)) k'"
      using Cons.prems that by (subst (asm) append_le_append) (auto simp: le_less)
    then show ?thesis using Cons.prems that b by simp
  qed
  with Cons show ?case by auto
qed simp

lemma getregisters_form:
  assumes "lawful E" and b: "8 dvd LENGTH('a::len)" and k: "keys_ok E w d TYPE('a)"
    and top: "\<And>m. attr E w d (- 1 :: 'a word) m = None"
  shows "\<exists>l. getregisters E d w = (Inr l, w) \<and> distinct l
       \<and> set l = {i :: 'a word. \<exists>m. attr E w d i m \<noteq> None}"
proof -
  obtain l where l: "b_scan (edb E) (dbs w d) None = (l, DB_NOTFOUND)"
    and s: "sorted_wrt (<) (map fst l)" and m: "set l = {(k, v). dview E w d k = Some v \<and> in_range None k}"
    by (rule lawful_scan [OF assms(1)])
  have dom: "set (map fst l) = dom (dview E w d)" using m by (force simp: in_range_def)
  let ?id = "\<lambda>k. from_native E (take (nbytes TYPE('a)) k) :: 'a word"
  let ?ids = "map ?id (map fst l)"
  have len: "\<forall>k \<in> set (map fst l). nbytes TYPE('a) \<le> length k"
    unfolding dom using k by (simp add: keys_ok_def)
  have ids: "i \<in> set ?ids \<longleftrightarrow> (\<exists>m. attr E w d i m \<noteq> None)" for i
  proof
    assume "i \<in> set ?ids"
    then obtain k where "k \<in> dom (dview E w d)" "i = ?id k" using dom by force
    then show "\<exists>m. attr E w d i m \<noteq> None"
      using key_split [OF b] len dom unfolding attr_def by (metis domIff)
  next
    assume "\<exists>m. attr E w d i m \<noteq> None"
    then obtain m where "getkey E i m \<in> set (map fst l)" using dom by (auto simp: attr_def)
    then have "?id (getkey E i m) \<in> set ?ids" unfolding set_map [of ?id] by (rule imageI)
    then show "i \<in> set ?ids" using b by (simp add: getkey_def)
  qed
  then have "- 1 \<notin> set ?ids" using top by simp
  then have adj: "fst (register_loop E (- 1 :: 'a word) l) = remdups_adj ?ids"
    using register_loop_eq [OF len, of "- 1" E] by (cases ?ids) auto
  have "sorted (map (native E) ?ids)"
    using ids_sorted [OF b _ len] s by (simp add: strict_sorted_iff comp_def)
  then have "sorted_wrt (<) (remdups_adj (map (native E) ?ids))" by (rule sorted_remdups_adj_strict)
  moreover have "inj (native E :: 'a word \<Rightarrow> _)" using native_inject [OF b] by (auto simp: inj_def)
  ultimately have "distinct (map (native E) (remdups_adj ?ids))"
    by (simp only: remdups_adj_map_injective strict_sorted_iff)
  then have "distinct (remdups_adj ?ids)" by (simp add: distinct_map)
  moreover have "getregisters E d w = (Inr (remdups_adj ?ids), w)"
    using adj register_loop_eq [OF len, of "- 1" E]
    by (cases "register_loop E (- 1 :: 'a word) l") (simp add: getregisters_def l scan_result_def)
  moreover have "set (remdups_adj ?ids) = {i. \<exists>m. attr E w d i m \<noteq> None}"
    by (rule set_eqI) (simp only: remdups_adj_set ids mem_Collect_eq)
  ultimately show ?thesis by blast
qed

end
