(* ===== verification/Token.thy ===== *)
theory Token
  imports Prelude
begin

text \<open>
  Strings: the searches of \<^verbatim>\<open>std::string\<close> the code uses (a result \<open>None\<close> is
  \<^verbatim>\<open>npos\<close>), \<^verbatim>\<open>tokenize\<close> and \<^verbatim>\<open>join\<close> of \<^verbatim>\<open>token.hxx\<close>, and the splitting of a
  path into parent and leaf in the constructor of \<^verbatim>\<open>Path\<close> (\<^verbatim>\<open>path.hxx\<close>).
  A token, a pair of iterators into the path, is the substring it delimits.
\<close>

section \<open>Searches of std::string\<close>

text \<open>The first index from \<open>pos\<close> on, and the last index below \<open>n\<close>, whose character satisfies \<open>P\<close>.\<close>

function find_from :: "(char \<Rightarrow> bool) \<Rightarrow> string \<Rightarrow> nat \<Rightarrow> nat option" where
  "find_from P s pos =
     (if pos < length s then if P (s ! pos) then Some pos else find_from P s (Suc pos) else None)"
  by pat_completeness auto
termination
  by (relation "measure (\<lambda>(P, s, pos). length s - pos)") auto

declare find_from.simps [simp del]

primrec find_below :: "(char \<Rightarrow> bool) \<Rightarrow> string \<Rightarrow> nat \<Rightarrow> nat option" where
  "find_below P s 0 = None"
| "find_below P s (Suc n) = (if n < length s \<and> P (s ! n) then Some n else find_below P s n)"

definition find_first_of :: "string \<Rightarrow> string \<Rightarrow> nat \<Rightarrow> nat option" where
  "find_first_of cs s pos = find_from (\<lambda>c. c \<in> set cs) s pos"

text \<open>In the backward searches a position \<open>None\<close> is \<^verbatim>\<open>npos\<close>: the whole string is searched.\<close>

definition find_last_of :: "string \<Rightarrow> string \<Rightarrow> nat option \<Rightarrow> nat option" where
  "find_last_of cs s pos =
     find_below (\<lambda>c. c \<in> set cs) s (case pos of None \<Rightarrow> length s | Some p \<Rightarrow> Suc p)"

definition find_last_not_of :: "string \<Rightarrow> string \<Rightarrow> nat option \<Rightarrow> nat option" where
  "find_last_not_of cs s pos =
     find_below (\<lambda>c. c \<notin> set cs) s (case pos of None \<Rightarrow> length s | Some p \<Rightarrow> Suc p)"

lemma find_from_SomeD:
  "find_from P s pos = Some i \<Longrightarrow> pos \<le> i \<and> i < length s \<and> P (s ! i) \<and> (\<forall>j. pos \<le> j \<and> j < i \<longrightarrow> \<not> P (s ! j))"
proof (induction P s pos rule: find_from.induct)
  case (1 P s pos)
  then show ?case
    by (subst (asm) find_from.simps) (auto split: if_splits; metis Suc_leI le_neq_implies_less)
qed

lemma find_from_NoneD: "find_from P s pos = None \<Longrightarrow> pos \<le> j \<Longrightarrow> j < length s \<Longrightarrow> \<not> P (s ! j)"
proof (induction P s pos rule: find_from.induct)
  case (1 P s pos)
  then show ?case
    by (cases "j = pos"; subst (asm) (2) find_from.simps) (auto split: if_splits)
qed

lemma find_below_SomeD:
  "find_below P s n = Some i \<Longrightarrow> i < n \<and> i < length s \<and> P (s ! i) \<and> (\<forall>j. i < j \<and> j < n \<and> j < length s \<longrightarrow> \<not> P (s ! j))"
  by (induction n) (auto split: if_splits simp: less_Suc_eq)

lemma find_below_NoneD: "find_below P s n = None \<Longrightarrow> \<forall>j. j < n \<and> j < length s \<longrightarrow> \<not> P (s ! j)"
  by (induction n) (auto split: if_splits simp: less_Suc_eq)

section \<open>Formatted input\<close>

text \<open>
  \<^verbatim>\<open>istringstream >> v\<close> for an unsigned \<^verbatim>\<open>v\<close> of \<open>n\<close> values: leading white space and a
  sign are accepted, the longest sequence of digits of the base is read; no digit is a
  failure and stores 0, a value out of range is a failure and stores the largest value.
  The result is the stored value and whether the stream has failed.
\<close>

definition digit_of :: "nat \<Rightarrow> char \<Rightarrow> nat option" where
  "digit_of base c =
     (let d = (of_char c :: nat) in if 48 \<le> d \<and> d < 48 + base then Some (d - 48) else None)"

definition read_unsigned :: "nat \<Rightarrow> nat \<Rightarrow> string \<Rightarrow> nat \<times> bool" where
  "read_unsigned base n s =
     (let t = dropWhile (\<lambda>c. c \<in> set [CHR '' '', CHR 0x09, CHR 0x0A, CHR 0x0B, CHR 0x0C, CHR 0x0D]) s;
          neg = (t \<noteq> [] \<and> hd t = CHR ''-'');
          u = (if t \<noteq> [] \<and> hd t \<in> set ''+-'' then tl t else t);
          ds = takeWhile (\<lambda>c. digit_of base c \<noteq> None) u;
          v = foldl (\<lambda>a c. base * a + the (digit_of base c)) 0 ds
      in if ds = [] then (0, True)
         else if n \<le> v then (n - 1, True)
         else ((if neg then (n - v) mod n else v), False))"

section \<open>tokenize and join (token.hxx)\<close>

text \<open>The loop of \<^verbatim>\<open>tokenize\<close> from index \<open>n0\<close> on.\<close>

function tok_loop :: "string \<Rightarrow> string \<Rightarrow> nat \<Rightarrow> string list" where
  "tok_loop ss path n0 =
     (if n0 < length path
      then (let n1 = (case find_first_of ss path n0 of None \<Rightarrow> length path | Some i \<Rightarrow> i)
            in (if n0 < n1 then [take (n1 - n0) (drop n0 path)] else []) @ tok_loop ss path (n1 + 1))
      else [])"
  by pat_completeness auto
termination
  by (relation "measure (\<lambda>(ss, path, n0). length path - n0)")
    (auto simp: find_first_of_def split: option.splits dest: find_from_SomeD)

declare tok_loop.simps [simp del]

definition tokenize :: "string \<Rightarrow> string \<Rightarrow> string list" where
  "tokenize ss path = tok_loop ss path 0"

text \<open>\<^verbatim>\<open>join\<close> leaves \<open>result\<close> as it is when there is no token.\<close>

fun join :: "string \<Rightarrow> string \<Rightarrow> string list \<Rightarrow> string" where
  "join s result [] = result"
| "join s result (t # ts) = t @ concat (map (\<lambda>t. s @ t) ts)"

subsection \<open>What tokenize computes\<close>

text \<open>The specification: split at every separator and drop the empty parts.\<close>

fun split_at :: "string \<Rightarrow> string \<Rightarrow> string list" where
  "split_at ss [] = [[]]"
| "split_at ss (c # cs) =
     (if c \<in> set ss then [] # split_at ss cs
      else (c # hd (split_at ss cs)) # tl (split_at ss cs))"

definition tokens :: "string \<Rightarrow> string \<Rightarrow> string list" where
  "tokens ss s = filter (\<lambda>t. t \<noteq> []) (split_at ss s)"

lemma split_at_ne [simp]: "split_at ss s \<noteq> []"
  by (cases s) auto

lemma split_at_append:
  "c \<in> set ss \<Longrightarrow> split_at ss (a @ c # b) = split_at ss a @ split_at ss b"
  by (induction a) auto

lemma split_at_no_sep: "\<forall>c \<in> set a. c \<notin> set ss \<Longrightarrow> split_at ss a = [a]"
  by (induction a) auto

lemma split_at_parts: "t \<in> set (split_at ss s) \<Longrightarrow> \<forall>c \<in> set t. c \<notin> set ss"
proof (induction s arbitrary: t)
  case (Cons c s)
  have "\<forall>c \<in> set (hd (split_at ss s)). c \<notin> set ss"
    by (rule Cons.IH) simp
  with Cons show ?case by (auto split: if_splits dest: list.set_sel(2) [OF split_at_ne])
qed simp

lemma concat_split_at: "concat (split_at ss s) = filter (\<lambda>c. c \<notin> set ss) s"
proof (induction s)
  case (Cons c s)
  have "concat (split_at ss s) = hd (split_at ss s) @ concat (tl (split_at ss s))"
    by (metis concat.simps(2) list.collapse split_at_ne)
  with Cons show ?case by auto
qed simp

lemma concat_nonempty: "concat (filter (\<lambda>t. t \<noteq> []) xs) = concat xs"
  by (induction xs) auto

lemma tokens_Nil [simp]: "tokens ss [] = []"
  by (simp add: tokens_def)

lemma tokens_sep: "c \<in> set ss \<Longrightarrow> tokens ss (a @ c # b) = tokens ss a @ tokens ss b"
  by (simp add: tokens_def split_at_append)

lemma tokens_Cons_sep [simp]: "c \<in> set ss \<Longrightarrow> tokens ss (c # b) = tokens ss b"
  using tokens_sep [of c ss "[]" b] by simp

lemma tokens_no_sep: "\<forall>c \<in> set a. c \<notin> set ss \<Longrightarrow> tokens ss a = (if a = [] then [] else [a])"
  by (simp add: tokens_def split_at_no_sep)

lemma tokens_all_sep: "\<forall>c \<in> set a. c \<in> set ss \<Longrightarrow> tokens ss a = []"
  by (induction a) auto

lemma tokens_parts: "t \<in> set (tokens ss s) \<Longrightarrow> t \<noteq> [] \<and> (\<forall>c \<in> set t. c \<notin> set ss)"
  by (auto simp: tokens_def dest: split_at_parts)

lemma tok_loop_tokens: "tok_loop ss path n0 = tokens ss (drop n0 path)"
proof (induction ss path n0 rule: tok_loop.induct)
  case (1 ss path n0)
  show ?case
  proof (cases "n0 < length path")
    case False
    then show ?thesis by (simp add: tok_loop.simps)
  next
    case True
    let ?n1 = "case find_first_of ss path n0 of None \<Rightarrow> length path | Some i \<Rightarrow> i"
    let ?t = "take (?n1 - n0) (drop n0 path)"
    have IH: "tok_loop ss path (?n1 + 1) = tokens ss (drop (?n1 + 1) path)"
      using 1 True by simp
    have n1: "n0 \<le> ?n1" "?n1 \<le> length path" "\<And>j. n0 \<le> j \<Longrightarrow> j < ?n1 \<Longrightarrow> path ! j \<notin> set ss"
      using True unfolding find_first_of_def
      by (auto split: option.splits dest: find_from_SomeD find_from_NoneD)
    have nosep: "\<forall>c \<in> set ?t. c \<notin> set ss"
    proof
      fix c assume "c \<in> set ?t"
      then obtain j where "j < length ?t" "?t ! j = c" by (metis in_set_conv_nth)
      then show "c \<notin> set ss" using n1(3) [of "n0 + j"] n1(2) by auto
    qed
    have "tokens ss (drop n0 path) = (if n0 < ?n1 then [?t] else []) @ tokens ss (drop (?n1 + 1) path)"
    proof (cases "find_first_of ss path n0")
      case None
      then have "?t = drop n0 path" by simp
      then show ?thesis using None nosep True by (simp add: tokens_no_sep)
    next
      case (Some i)
      then have i: "i < length path" "path ! i \<in> set ss" "n0 \<le> i"
        unfolding find_first_of_def by (auto dest: find_from_SomeD)
      have "drop n0 path = ?t @ path ! i # drop (Suc i) path"
        using i Some by (metis append_take_drop_id drop_drop Cons_nth_drop_Suc le_add_diff_inverse2
            option.simps(5))
      then have "tokens ss (drop n0 path) = tokens ss ?t @ tokens ss (drop (Suc i) path)"
        using tokens_sep [OF i(2)] by metis
      then show ?thesis using Some nosep i by (simp add: tokens_no_sep)
    qed
    then show ?thesis using True IH by (simp add: tok_loop.simps [of ss path n0] Let_def)
  qed
qed

lemma tokenize_tokens: "tokenize ss path = tokens ss path"
  by (simp add: tokenize_def tok_loop_tokens)

lemma tokens_join:
  assumes "\<forall>t \<in> set ts. t \<noteq> [] \<and> (\<forall>x \<in> set t. x \<notin> set ss)" and c: "c \<in> set ss"
  shows "tokens ss (join [c] [] ts) = ts"
  using assms(1)
proof (induction ts rule: induct_list012)
  case 1
  then show ?case by simp
next
  case (2 t)
  then show ?case by (simp add: tokens_no_sep)
next
  case (3 t u us)
  have "join [c] [] (t # u # us) = t @ c # join [c] [] (u # us)" by simp
  then have "tokens ss (join [c] [] (t # u # us)) = tokens ss t @ tokens ss (join [c] [] (u # us))"
    using tokens_sep [OF c] by metis
  moreover have "tokens ss (join [c] [] (u # us)) = u # us"
    by (rule "3.IH"(2)) (use "3.prems" in simp)
  ultimately show ?case using "3.prems" by (simp add: tokens_no_sep)
qed

section \<open>Parent and leaf of a path (path.hxx)\<close>

text \<open>
  \<^verbatim>\<open>Path::Path\<close>: the leaf name and the path of the parent. When the path has no slash,
  \<^verbatim>\<open>rfind\<close> returns \<^verbatim>\<open>npos\<close>, so that \<^verbatim>\<open>slashpos+1\<close> is 0 and \<^verbatim>\<open>substr(0,slashpos)\<close> is
  the whole path.
\<close>

definition path_split :: "string \<Rightarrow> string \<times> string" where
  "path_split path =
     (case find_last_not_of ''/'' path None of
        None \<Rightarrow> ('''', '''')
      | Some notslash \<Rightarrow>
          (case find_last_of ''/'' path (Some notslash) of
             Some slashpos \<Rightarrow> (take slashpos path, take (notslash - slashpos) (drop (slashpos + 1) path))
           | None \<Rightarrow> (path, take (notslash + 1) path)))"

lemma path_split_root:
  assumes "tokens ''/'' path = []"
  shows "path_split path = ('''', '''')"
proof -
  have "find_last_not_of ''/'' path None = None"
  proof (rule ccontr)
    assume "find_last_not_of ''/'' path None \<noteq> None"
    then obtain p where p: "p < length path" "path ! p \<notin> set ''/''"
      unfolding find_last_not_of_def by (auto dest: find_below_SomeD)
    have "filter (\<lambda>c. c \<notin> set ''/'') path = concat (tokens ''/'' path)"
      unfolding tokens_def concat_nonempty concat_split_at ..
    then have "filter (\<lambda>c. c \<notin> set ''/'') path = []" using assms by simp
    then show False using p nth_mem by (fastforce simp: filter_empty_conv)
  qed
  then show ?thesis by (simp add: path_split_def)
qed

lemma path_split_tokens:
  assumes first: "path \<noteq> []" "path ! 0 = CHR ''/''" and "tokens ''/'' path \<noteq> []"
  shows "tokens ''/'' path = tokens ''/'' (fst (path_split path)) @ [snd (path_split path)]"
proof -
  obtain p where p: "find_last_not_of ''/'' path None = Some p"
  proof (cases "find_last_not_of ''/'' path None")
    case None
    then have "\<forall>c \<in> set path. c \<in> set ''/''"
      unfolding find_last_not_of_def
      by (auto dest!: find_below_NoneD simp: in_set_conv_nth)
    with assms(3) tokens_all_sep show ?thesis by blast
  qed
  then have pn: "p < length path" "path ! p \<noteq> CHR ''/''"
    and after: "\<And>j. p < j \<Longrightarrow> j < length path \<Longrightarrow> path ! j = CHR ''/''"
    unfolding find_last_not_of_def by (auto dest: find_below_SomeD)
  obtain q where q: "find_last_of ''/'' path (Some p) = Some q"
  proof (cases "find_last_of ''/'' path (Some p)")
    case None
    then have "path ! 0 \<notin> set ''/''"
      using find_below_NoneD [of "\<lambda>c. c \<in> set ''/''" path "Suc p"] first(1)
      unfolding find_last_of_def by auto
    with first(2) show ?thesis by simp
  qed
  then have qn: "q < length path" "path ! q = CHR ''/''" "q < p"
    and between: "\<And>j. q < j \<Longrightarrow> j \<le> p \<Longrightarrow> path ! j \<noteq> CHR ''/''"
    unfolding find_last_of_def using pn
    by (auto dest!: find_below_SomeD simp: less_Suc_eq_le le_less)
  let ?leaf = "take (p - q) (drop (q + 1) path)"
  let ?rest = "drop (p + 1) path"
  have split: "path_split path = (take q path, ?leaf)"
    using p q by (simp add: path_split_def)
  have leaf: "?leaf \<noteq> []" "\<forall>c \<in> set ?leaf. c \<notin> set ''/''"
    using qn pn between by (auto simp: in_set_conv_nth)
  have rest: "\<forall>c \<in> set ?rest. c \<in> set ''/''"
    using after by (auto simp: in_set_conv_nth)
  have "drop (p - q) (drop (q + 1) path) = ?rest" using qn(3) by simp
  then have "drop (q + 1) path = ?leaf @ ?rest" by (metis append_take_drop_id)
  then have "path = take q path @ CHR ''/'' # ?leaf @ ?rest"
    using qn by (metis id_take_nth_drop Suc_eq_plus1)
  then have "tokens ''/'' path = tokens ''/'' (take q path) @ tokens ''/'' (?leaf @ ?rest)"
    using tokens_sep [of "CHR ''/''" "''/''" "take q path" "?leaf @ ?rest"] by simp
  moreover have "tokens ''/'' (?leaf @ ?rest) = [?leaf]"
  proof (cases ?rest)
    case Nil
    then show ?thesis using leaf by (simp add: tokens_no_sep)
  next
    case (Cons c r)
    then have "tokens ''/'' (?leaf @ ?rest) = tokens ''/'' ?leaf @ tokens ''/'' r"
      using rest tokens_sep [of c "''/''" ?leaf r] by simp
    then show ?thesis using leaf rest Cons by (simp add: tokens_no_sep tokens_all_sep)
  qed
  ultimately show ?thesis using split by simp
qed

end
