(* ===== verification/Media.thy ===== *)
theory Media
  imports Register_Scans Token
begin

text \<open>
  Chunks and media: \<^verbatim>\<open>chunks/file.cxx\<close> (a chunk stored in a file of the host) and the two
  kinds of media of \<^verbatim>\<open>media/\<close>: directories, and volumes that a command inserts. A medium
  object is the identifier of its register and its dynamic class.
\<close>

section \<open>Chunks (chunks/file.cxx)\<close>

text \<open>\<^verbatim>\<open>O_CREAT\<close> and the three access modes of \<^verbatim>\<open>open(2)\<close>.\<close>

definition O_CREAT :: "32 word" where "O_CREAT = 0x40"
definition O_RDONLY :: "32 word" where "O_RDONLY = 0"
definition O_WRONLY :: "32 word" where "O_WRONLY = 1"
definition O_RDWR :: "32 word" where "O_RDWR = 2"
definition O_ACCMODE :: "32 word" where "O_ACCMODE = 3"

text \<open>The loop that creates the missing parent directories of \<open>path\<close>.\<close>

function mkdir_loop :: "('s, 'h) env \<Rightarrow> string \<Rightarrow> nat \<Rightarrow> ('s, 'h, 'z, unit) op" where
  "mkdir_loop E path pos =
     (case find_from (\<lambda>c. c = CHR ''/'') path pos of
        None \<Rightarrow> ret ()
      | Some newpos \<Rightarrow>
          andthen
            (if pos \<noteq> newpos
             then bind (gets (\<lambda>w. p_stat (sys E) (take newpos path) (host w))) (\<lambda>st.
               case st of
                 Inr _ \<Rightarrow> ret ()
               | Inl errno \<Rightarrow>
                   if errno \<noteq> ENOENT then throw (ERuntime ''Chunk_file: error creating parent directories'')
                   else bind (hostM (p_mkdir (sys E) (take newpos path) 0x1F8)) (\<lambda>r.
                     case r of
                       Inl _ \<Rightarrow> throw (ERuntime ''Chunk_file: error creating parent directories'')
                     | Inr _ \<Rightarrow> ret ()))
             else ret ())
            (mkdir_loop E path (newpos + 1)))"
  by pat_completeness auto
termination
  by (relation "measure (\<lambda>(E, path, pos). length path - pos)") (auto dest: find_from_SomeD)

declare mkdir_loop.simps [simp del]

text \<open>\<^verbatim>\<open>Chunk_file::Chunk_file\<close>; the chunk is its file descriptor.\<close>

definition chunk_open :: "('s, 'h) env \<Rightarrow> string \<Rightarrow> 32 word \<Rightarrow> ('s, 'h, 'z, int) op" where
  "chunk_open E path mode =
     bind (hostM (p_open (sys E) path (or mode O_CREAT) 0x1B0)) (\<lambda>r.
       case r of
         Inr fd \<Rightarrow> ret fd
       | Inl errno \<Rightarrow>
           if errno = ENOENT
           then andthen (mkdir_loop E path 0)
             (bind (hostM (p_open (sys E) path (or mode O_CREAT) 0x180)) (\<lambda>r.
               case r of
                 Inr fd \<Rightarrow> ret fd
               | Inl _ \<Rightarrow> throw (ERuntime ''Chunk_file: Error opening file'')))
           else throw (ERuntime ''Chunk_file: Error opening file''))"

definition chunk_close :: "('s, 'h) env \<Rightarrow> int \<Rightarrow> ('s, 'h, 'z, unit) op" where
  "chunk_close E fd = (if fd \<noteq> -1 then hostM (\<lambda>h. ((), p_close (sys E) fd h)) else ret ())"

definition chunk_read :: "('s, 'h) env \<Rightarrow> int \<Rightarrow> nat \<Rightarrow> off_t \<Rightarrow> ('s, 'h, 'z, int \<times> bytes) op" where
  "chunk_read E fd nbyte offset = hostM (p_pread (sys E) fd nbyte (sint offset))"

definition chunk_write :: "('s, 'h) env \<Rightarrow> int \<Rightarrow> bytes \<Rightarrow> off_t \<Rightarrow> ('s, 'h, 'z, int) op" where
  "chunk_write E fd buf offset = hostM (p_pwrite (sys E) fd buf (sint offset))"

definition chunk_flush :: "int \<Rightarrow> ('s, 'h, 'z, int) op" where
  "chunk_flush fd = ret 0"

definition chunk_fsync :: "('s, 'h) env \<Rightarrow> int \<Rightarrow> int \<Rightarrow> ('s, 'h, 'z, int) op" where
  "chunk_fsync E fd datasync =
     (if datasync \<noteq> 0 then hostM (p_fdatasync (sys E) fd) else hostM (p_fsync (sys E) fd))"

definition chunk_ftruncate :: "('s, 'h) env \<Rightarrow> int \<Rightarrow> off_t \<Rightarrow> ('s, 'h, 'z, int) op" where
  "chunk_ftruncate E fd len = hostM (p_ftruncate (sys E) fd (sint len))"

section \<open>Media (media/medium.cxx)\<close>

datatype medium_class = Medium_directory | Medium_insert

record medium =
  mid :: mediumid
  mclass :: medium_class

text \<open>\<^verbatim>\<open>Medium::Stats\<close>\<close>

record stats =
  total :: "64 word"
  free :: "64 word"

definition getmedium :: "('s, 'h) env \<Rightarrow> mediumid \<Rightarrow> ('s, 'h, 'z, medium) op" where
  "getmedium E i =
     bind (handle (getattrv E DMedia i ''type'') (on_missing 32 (throw EMediumNotFound))) (\<lambda>mediumtype.
       if mediumtype = ''directory'' then ret \<lparr>mid = i, mclass = Medium_directory\<rparr>
       else if mediumtype = ''insert'' then ret \<lparr>mid = i, mclass = Medium_insert\<rparr>
       else throw ENotImplemented)"

fun find_label :: "('s, 'h) env \<Rightarrow> string \<Rightarrow> mediumid list \<Rightarrow> ('s, 'h, 'z, medium) op" where
  "find_label E label [] = throw EMediumNotFound"
| "find_label E label (i # is) =
     bind (handle
        (bind (getattrv E DMedia i ''label'') (\<lambda>l.
           if l = label then bind (getmedium E i) (\<lambda>m. ret (Some m)) else ret None))
        (on_missing 32 (ret None))) (\<lambda>r.
       case r of Some m \<Rightarrow> ret m | None \<Rightarrow> find_label E label is)"

definition getmedium_label :: "('s, 'h) env \<Rightarrow> string \<Rightarrow> ('s, 'h, 'z, medium) op" where
  "getmedium_label E label = bind (getregisters E DMedia) (find_label E label)"

section \<open>Directory media (media/directory.cxx)\<close>

definition medium_directory_create :: "('s, 'h) env \<Rightarrow> ('s, 'h, 'z, medium) op" where
  "medium_directory_create E =
     bind (createregister E DMedia) (\<lambda>i.
     andthen (setattrv E DMedia i ''label'' '''')
     (andthen (setattrv E DMedia i ''type'' ''directory'')
     (andthen (setattrv E DMedia i ''directory'' '''')
     (andthen (setattrv E DMedia i ''unlink_files'' ''false'')
     (ret \<lparr>mid = i, mclass = Medium_directory\<rparr>)))))"

definition directory_getchunk :: "('s, 'h) env \<Rightarrow> mediumid \<Rightarrow> string \<Rightarrow> 32 word \<Rightarrow> ('s, 'h, 'z, int) op" where
  "directory_getchunk E i phid mode =
     bind (getattrv E DMedia i ''directory'') (\<lambda>dir. chunk_open E (dir @ ''/'' @ phid) mode)"

definition directory_getstats :: "('s, 'h) env \<Rightarrow> mediumid \<Rightarrow> ('s, 'h, 'z, stats) op" where
  "directory_getstats E i =
     bind (getattrv E DMedia i ''directory'') (\<lambda>dir.
     bind (gets (\<lambda>w. p_statvfs (sys E) dir (host w))) (\<lambda>st.
       case st of
         Inl _ \<Rightarrow> throw (ERuntime ''Medium_directory::getstats: error calling statvfs.'')
       | Inr (f_blocks, f_frsize, f_bfree) \<Rightarrow>
           ret \<lparr>total = f_blocks * f_frsize, free = f_bfree * f_frsize\<rparr>))"

text \<open>The loop of \<^verbatim>\<open>delfile\<close> that removes the empty parent directories, from \<open>pos\<close> upwards.\<close>

function rmdir_loop :: "('s, 'h) env \<Rightarrow> string \<Rightarrow> string \<Rightarrow> nat option \<Rightarrow> ('s, 'h, 'z, unit) op" where
  "rmdir_loop E base_dir phid pos =
     (case find_last_of ''/'' phid pos of
        None \<Rightarrow> ret ()
      | Some p1 \<Rightarrow>
          (case find_last_not_of ''/'' phid (Some p1) of
             None \<Rightarrow> ret ()
           | Some p2 \<Rightarrow>
               bind (gets (\<lambda>w. p_stat (sys E) (base_dir @ ''/'' @ take (p2 + 1) phid) (host w))) (\<lambda>st.
                 case st of
                   Inl _ \<Rightarrow> throw (ERuntime ''Medium_directory: stat() failed'')
                 | Inr (nlink, _) \<Rightarrow>
                     if 2 < nlink then ret ()
                     else bind (hostM (p_rmdir (sys E) (base_dir @ ''/'' @ take (p2 + 1) phid))) (\<lambda>r.
                       case r of
                         Inl _ \<Rightarrow> throw (ERuntime ''Medium_directory: rmdir() failed'')
                       | Inr _ \<Rightarrow> rmdir_loop E base_dir phid (Some p2)))))"
  by pat_completeness auto
termination
proof (relation "measure (\<lambda>(E, base_dir, phid, pos). case pos of None \<Rightarrow> length phid | Some p \<Rightarrow> p)")
  fix phid :: string and pos p1 p2
  assume "find_last_of ''/'' phid pos = Some p1" and "find_last_not_of ''/'' phid (Some p1) = Some p2"
  then have "p1 < (case pos of None \<Rightarrow> length phid | Some p \<Rightarrow> Suc p)" and "p2 < Suc p1"
    and "phid ! p1 = CHR ''/''" and "phid ! p2 \<noteq> CHR ''/''"
    unfolding find_last_of_def find_last_not_of_def by (auto dest!: find_below_SomeD)
  then have "p2 < (case pos of None \<Rightarrow> length phid | Some p \<Rightarrow> p)"
    by (cases "p1 = p2") (auto split: option.splits)
  then show "((E, base_dir, phid, Some p2), E, base_dir, phid, pos)
      \<in> measure (\<lambda>(E, base_dir, phid, pos). case pos of None \<Rightarrow> length phid | Some p \<Rightarrow> p)"
    for E :: "('s, 'h) env" and base_dir :: string
    by simp
qed simp

declare rmdir_loop.simps [simp del]

definition directory_delfile :: "('s, 'h) env \<Rightarrow> mediumid \<Rightarrow> string \<Rightarrow> ('s, 'h, 'z, unit) op" where
  "directory_delfile E i phid =
     bind (getattrv E DMedia i ''unlink_files'') (\<lambda>u.
       whenM (u = ''true'')
         (bind (getattrv E DMedia i ''directory'') (\<lambda>base_dir.
          andthen (hostM (\<lambda>h. ((), p_unlink (sys E) (base_dir @ ''/'' @ phid) h)))
          (rmdir_loop E base_dir phid None))))"

section \<open>Volumes to insert (media/insert.cxx)\<close>

definition medium_insert_create :: "('s, 'h) env \<Rightarrow> ('s, 'h, 'z, medium) op" where
  "medium_insert_create E =
     bind (medium_directory_create E) (\<lambda>m.
     andthen (setattrv E DMedia (mid m) ''type'' ''insert'')
     (andthen (setattrv E DMedia (mid m) ''checkcmd'' '''')
     (andthen (setattrv E DMedia (mid m) ''insertcmd'' '''')
     (andthen (setattrv E DMedia (mid m) ''total_size'' ''0'')
     (andthen (setattrv E DMedia (mid m) ''free_size'' ''0'')
     (ret \<lparr>mid = mid m, mclass = Medium_insert\<rparr>))))))"

definition WEXITSTATUS :: "int \<Rightarrow> int" where
  "WEXITSTATUS status = status div 256 mod 256"

definition insert_check :: "('s, 'h) env \<Rightarrow> mediumid \<Rightarrow> ('s, 'h, 'z, bool) op" where
  "insert_check E i =
     bind (getattrv E DMedia i ''checkcmd'') (\<lambda>checkcmd.
     bind (hostM (p_system (sys E) checkcmd)) (\<lambda>err.
       if err = -1 then throw (ERuntime ''Medium_insert::check: error calling system.'')
       else ret (WEXITSTATUS err = 0)))"

definition insert_insert :: "('s, 'h) env \<Rightarrow> mediumid \<Rightarrow> ('s, 'h, 'z, unit) op" where
  "insert_insert E i =
     bind (insert_check E i) (\<lambda>present.
       if present then ret ()
       else bind (getattrv E DMedia i ''insertcmd'') (\<lambda>insertcmd.
         bind (hostM (p_system (sys E) insertcmd)) (\<lambda>err.
           if err = -1 then throw (ERuntime ''Medium_insert::insert: error calling system.'')
           else if WEXITSTATUS err \<noteq> 0 then throw (ERuntime ''Medium_insert::insert: error inserting the volume.'')
           else bind (insert_check E i) (\<lambda>present.
             if present then ret () else throw (ERuntime ''Medium_insert::insert: checkcmd failed.'')))))"

definition insert_getchunk :: "('s, 'h) env \<Rightarrow> mediumid \<Rightarrow> string \<Rightarrow> 32 word \<Rightarrow> ('s, 'h, 'z, int) op" where
  "insert_getchunk E i phid mode = andthen (insert_insert E i) (directory_getchunk E i phid mode)"

text \<open>A missing attribute leaves the statistics as they are: \<^verbatim>\<open>catch(...){}\<close>.\<close>

definition insert_getstats :: "('s, 'h) env \<Rightarrow> mediumid \<Rightarrow> ('s, 'h, 'z, stats) op" where
  "insert_getstats E i =
     handle
       (bind (getattrv E DMedia i ''total_size'') (\<lambda>t.
        let tot = word_of_nat (fst (read_unsigned 10 (2 ^ 64) t)) in
        handle
          (bind (getattrv E DMedia i ''free_size'') (\<lambda>f.
             ret \<lparr>total = tot, free = word_of_nat (fst (read_unsigned 10 (2 ^ 64) f))\<rparr>))
          (\<lambda>e. ret \<lparr>total = tot, free = 0\<rparr>)))
       (\<lambda>e. ret \<lparr>total = 0, free = 0\<rparr>)"

definition insert_delfile :: "('s, 'h) env \<Rightarrow> mediumid \<Rightarrow> string \<Rightarrow> ('s, 'h, 'z, unit) op" where
  "insert_delfile E i phid =
     bind (getattrv E DMedia i ''unlink_files'') (\<lambda>u.
     andthen (whenM (u = ''true'') (insert_insert E i))
     (directory_delfile E i phid))"

section \<open>Dynamic dispatch\<close>

definition medium_create :: "('s, 'h) env \<Rightarrow> string \<Rightarrow> ('s, 'h, 'z, medium) op" where
  "medium_create E type =
     (if type = ''directory'' then medium_directory_create E
      else if type = ''insert'' then medium_insert_create E
      else throw ENotImplemented)"

definition getchunk :: "('s, 'h) env \<Rightarrow> medium \<Rightarrow> string \<Rightarrow> 32 word \<Rightarrow> ('s, 'h, 'z, int) op" where
  "getchunk E m phid mode =
     (case mclass m of Medium_directory \<Rightarrow> directory_getchunk E (mid m) phid mode
      | Medium_insert \<Rightarrow> insert_getchunk E (mid m) phid mode)"

definition getstats :: "('s, 'h) env \<Rightarrow> medium \<Rightarrow> ('s, 'h, 'z, stats) op" where
  "getstats E m =
     (case mclass m of Medium_directory \<Rightarrow> directory_getstats E (mid m)
      | Medium_insert \<Rightarrow> insert_getstats E (mid m))"

text \<open>Both classes have an empty \<^verbatim>\<open>addfile\<close>.\<close>

definition addfile :: "medium \<Rightarrow> string \<Rightarrow> ('s, 'h, 'z, unit) op" where
  "addfile m phid = ret ()"

definition delfile :: "('s, 'h) env \<Rightarrow> medium \<Rightarrow> string \<Rightarrow> ('s, 'h, 'z, unit) op" where
  "delfile E m phid =
     (case mclass m of Medium_directory \<Rightarrow> directory_delfile E (mid m) phid
      | Medium_insert \<Rightarrow> insert_delfile E (mid m) phid)"

end
