(* ===== verification/Sources.thy ===== *)
theory Sources
  imports Media
begin

text \<open>
  Sources (\<^verbatim>\<open>sources/source.cxx\<close>, \<^verbatim>\<open>sources/single.cxx\<close>): an open file. The only kind
  of source proxies its operations to one chunk of one medium, and keeps the size and the
  times it has to write back to the node on \<^verbatim>\<open>flush\<close>.
\<close>

section \<open>The attributes of a node\<close>

definition A_mode :: string where "A_mode = ''offlinefs.mode''"
definition A_uid :: string where "A_uid = ''offlinefs.uid''"
definition A_gid :: string where "A_gid = ''offlinefs.gid''"
definition A_dev :: string where "A_dev = ''offlinefs.dev''"
definition A_nlink :: string where "A_nlink = ''offlinefs.nlink''"
definition A_size :: string where "A_size = ''offlinefs.size''"
definition A_atime :: string where "A_atime = ''offlinefs.atime''"
definition A_mtime :: string where "A_mtime = ''offlinefs.mtime''"
definition A_ctime :: string where "A_ctime = ''offlinefs.ctime''"
definition A_symlink :: string where "A_symlink = ''offlinefs.symlink''"
definition A_source :: string where "A_source = ''offlinefs.source''"
definition A_mediumid :: string where "A_mediumid = ''offlinefs.mediumid''"
definition A_phid :: string where "A_phid = ''offlinefs.phid''"

lemmas A_defs = A_mode_def A_uid_def A_gid_def A_dev_def A_nlink_def A_size_def A_atime_def
  A_mtime_def A_ctime_def A_symlink_def A_source_def A_mediumid_def A_phid_def

lemma A_neq [simp]:
  "A_mode \<noteq> A_uid" "A_mode \<noteq> A_gid" "A_mode \<noteq> A_dev" "A_mode \<noteq> A_nlink" "A_mode \<noteq> A_size"
  "A_mode \<noteq> A_atime" "A_mode \<noteq> A_mtime" "A_mode \<noteq> A_ctime" "A_mode \<noteq> A_symlink"
  "A_nlink \<noteq> A_mode" "A_nlink \<noteq> A_uid" "A_nlink \<noteq> A_gid" "A_nlink \<noteq> A_dev" "A_nlink \<noteq> A_size"
  "A_nlink \<noteq> A_atime" "A_nlink \<noteq> A_mtime" "A_nlink \<noteq> A_ctime" "A_nlink \<noteq> A_symlink"
  "A_mode \<noteq> A_source" "A_mode \<noteq> A_mediumid" "A_mode \<noteq> A_phid"
  "A_nlink \<noteq> A_source" "A_nlink \<noteq> A_mediumid" "A_nlink \<noteq> A_phid"
  "A_uid \<noteq> A_mode" "A_uid \<noteq> A_gid" "A_uid \<noteq> A_dev" "A_uid \<noteq> A_nlink" "A_uid \<noteq> A_size"
  "A_uid \<noteq> A_atime" "A_uid \<noteq> A_mtime" "A_uid \<noteq> A_ctime" "A_uid \<noteq> A_symlink"
  "A_gid \<noteq> A_mode" "A_gid \<noteq> A_uid" "A_gid \<noteq> A_dev" "A_gid \<noteq> A_nlink" "A_gid \<noteq> A_size"
  "A_gid \<noteq> A_atime" "A_gid \<noteq> A_mtime" "A_gid \<noteq> A_ctime" "A_gid \<noteq> A_symlink"
  "A_size \<noteq> A_mode" "A_size \<noteq> A_uid" "A_size \<noteq> A_gid" "A_size \<noteq> A_nlink" "A_size \<noteq> A_atime"
  "A_size \<noteq> A_mtime" "A_size \<noteq> A_ctime"
  "A_atime \<noteq> A_mode" "A_atime \<noteq> A_uid" "A_atime \<noteq> A_gid" "A_atime \<noteq> A_nlink" "A_atime \<noteq> A_size"
  "A_atime \<noteq> A_mtime" "A_atime \<noteq> A_ctime"
  "A_mtime \<noteq> A_mode" "A_mtime \<noteq> A_uid" "A_mtime \<noteq> A_gid" "A_mtime \<noteq> A_nlink" "A_mtime \<noteq> A_size"
  "A_mtime \<noteq> A_atime" "A_mtime \<noteq> A_ctime"
  "A_ctime \<noteq> A_mode" "A_ctime \<noteq> A_uid" "A_ctime \<noteq> A_gid" "A_ctime \<noteq> A_nlink" "A_ctime \<noteq> A_size"
  "A_ctime \<noteq> A_atime" "A_ctime \<noteq> A_mtime"
  "A_symlink \<noteq> A_mode" "A_symlink \<noteq> A_nlink" "A_symlink \<noteq> A_uid" "A_symlink \<noteq> A_gid"
  "A_dev \<noteq> A_mode" "A_dev \<noteq> A_nlink" "A_dev \<noteq> A_uid" "A_dev \<noteq> A_gid"
  "A_source \<noteq> A_mode" "A_source \<noteq> A_nlink" "A_mediumid \<noteq> A_mode" "A_mediumid \<noteq> A_nlink"
  "A_phid \<noteq> A_mode" "A_phid \<noteq> A_nlink"
  by (simp_all add: A_defs)

section \<open>Sources\<close>

text \<open>A \<^verbatim>\<open>Source_single\<close>; its chunk is the file descriptor \<open>chunkfd\<close>.\<close>

record source =
  fileid :: nodeid
  smode :: "32 word"
  chunkfd :: int
  ssize :: off_t
  satime :: time_t
  smtime :: time_t

text \<open>
  The constructor of \<^verbatim>\<open>Source_single\<close>. When reading the size throws, the chunk member is
  destroyed.
\<close>

definition single_open :: "('s, 'h) env \<Rightarrow> nodeid \<Rightarrow> 32 word \<Rightarrow> ('s, 'h, 'z, source) op" where
  "single_open E f mode =
     bind (getattr E DNodes f A_mediumid) (\<lambda>i.
     bind (getmedium E i) (\<lambda>m.
     bind (getattrv E DNodes f A_phid) (\<lambda>phid.
     bind (getchunk E m phid mode) (\<lambda>fd.
     bind (handle (getattr E DNodes f A_size) (\<lambda>e. andthen (chunk_close E fd) (throw e))) (\<lambda>size.
     ret \<lparr>fileid = f, smode = mode, chunkfd = fd, ssize = size, satime = 0, smtime = 0\<rparr>)))))"

definition source_getsource :: "('s, 'h) env \<Rightarrow> nodeid \<Rightarrow> 32 word \<Rightarrow> ('s, 'h, 'z, source) op" where
  "source_getsource E f mode =
     bind (getattrv E DNodes f A_source) (\<lambda>src.
       if src = ''single'' then single_open E f mode
       else throw (ERuntime ''Source::getsource: Unknown source type''))"

definition single_remove :: "('s, 'h) env \<Rightarrow> nodeid \<Rightarrow> ('s, 'h, 'z, unit) op" where
  "single_remove E f =
     bind (getattr E DNodes f A_mediumid) (\<lambda>i.
     bind (getmedium E i) (\<lambda>m.
     bind (getattrv E DNodes f A_phid) (\<lambda>phid. delfile E m phid)))"

definition source_remove :: "('s, 'h) env \<Rightarrow> nodeid \<Rightarrow> ('s, 'h, 'z, unit) op" where
  "source_remove E f =
     bind (getattrv E DNodes f A_source) (\<lambda>src.
       if src = ''single'' then single_remove E f
       else throw (ERuntime ''Source::remove: Unknown source type''))"

text \<open>The destructor, which closes the chunk.\<close>

definition single_close :: "('s, 'h) env \<Rightarrow> source \<Rightarrow> ('s, 'h, 'z, unit) op" where
  "single_close E s = chunk_close E (chunkfd s)"

text \<open>The operations return their result and the source with its new fields.\<close>

definition single_read :: "('s, 'h) env \<Rightarrow> source \<Rightarrow> nat \<Rightarrow> off_t \<Rightarrow> ('s, 'h, 'z, (int \<times> bytes) \<times> source) op" where
  "single_read E s nbyte offset =
     bind (time_now E) (\<lambda>t.
     bind (chunk_read E (chunkfd s) nbyte offset) (\<lambda>r.
     ret (r, s\<lparr>satime := t\<rparr>)))"

definition single_write :: "('s, 'h) env \<Rightarrow> source \<Rightarrow> bytes \<Rightarrow> off_t \<Rightarrow> ('s, 'h, 'z, int \<times> source) op" where
  "single_write E s buf offset =
     bind (time_now E) (\<lambda>t.
     let endpos = word_of_nat (length buf) + offset;
         s' = (if ssize s < endpos then s\<lparr>smtime := t, ssize := endpos\<rparr> else s\<lparr>smtime := t\<rparr>)
     in bind (chunk_write E (chunkfd s) buf offset) (\<lambda>r. ret (r, s')))"

definition single_flush :: "('s, 'h) env \<Rightarrow> source \<Rightarrow> ('s, 'h, 'z, int) op" where
  "single_flush E s = with_fstxn E (
     bind (getattr E DNodes (fileid s) A_size) (\<lambda>size :: off_t.
     andthen (whenM (size < ssize s) (setattr E DNodes (fileid s) A_size (ssize s)))
     (bind (getattr E DNodes (fileid s) A_atime) (\<lambda>atime :: time_t.
     andthen (whenM (atime < satime s) (setattr E DNodes (fileid s) A_atime (satime s)))
     (bind (getattr E DNodes (fileid s) A_mtime) (\<lambda>mtime :: time_t.
     andthen (whenM (mtime < smtime s) (setattr E DNodes (fileid s) A_mtime (smtime s)))
     (ret 0)))))))"

definition single_fsync :: "('s, 'h) env \<Rightarrow> source \<Rightarrow> int \<Rightarrow> ('s, 'h, 'z, int) op" where
  "single_fsync E s datasync =
     andthen (whenM (datasync = 0) (bind (single_flush E s) (\<lambda>_. ret ())))
     (chunk_fsync E (chunkfd s) datasync)"

definition single_ftruncate :: "('s, 'h) env \<Rightarrow> source \<Rightarrow> off_t \<Rightarrow> ('s, 'h, 'z, int \<times> source) op" where
  "single_ftruncate E s len = with_fstxn E (
     bind (time_now E) (\<lambda>t.
     andthen (setattr E DNodes (fileid s) A_mtime t)
     (andthen (setattr E DNodes (fileid s) A_size len)
     (bind (chunk_ftruncate E (chunkfd s) len) (\<lambda>r.
     ret (r, s\<lparr>smtime := t, ssize := len\<rparr>))))))"

end
