(* ===== verification/SContexts.thy ===== *)
theory SContexts
  imports Register_Scans
begin

text \<open>
  Security contexts (\<^verbatim>\<open>scontext.cxx\<close>) and the cache that keeps the most recently used ones
  (\<^verbatim>\<open>offlinefs/scontextcache.cxx\<close>). The queue holds the keys of the cache, the most
  recently used first; a list iterator into it is modelled by the key it points to.
\<close>

section \<open>Security contexts\<close>

record scontext =
  suid :: uid_t
  sgid :: gid_t
  sgroups :: "gid_t set"

definition new_scontext :: "('s, 'h) env \<Rightarrow> uid_t \<Rightarrow> gid_t \<Rightarrow> ('s, 'h, 'z, scontext) op" where
  "new_scontext E uid gid = (\<lambda>w.
     case p_getpwuid (sys E) uid (host w) of
       None \<Rightarrow> (Inr \<lparr>suid = uid, sgid = gid, sgroups = {gid}\<rparr>, w)
     | Some name \<Rightarrow>
         (case p_getgrouplist (sys E) name gid (host w) of
            None \<Rightarrow> (Inl (ERuntime ''SContext::SContext: getgrouplist failed.''), w)
          | Some groups \<Rightarrow> (Inr \<lparr>suid = uid, sgid = gid, sgroups = insert gid (set groups)\<rparr>, w)))"

section \<open>The cache\<close>

definition SCONTEXTCACHE_MAX_ELEMS :: int where "SCONTEXTCACHE_MAX_ELEMS = 40"

type_synonym ckey = "uid_t \<times> gid_t"

record scache =
  sc_cache :: "ckey \<Rightarrow> scontext option"
  sc_queue :: "ckey list"
  sc_nelems :: int
  sc_checktime :: int
  sc_locked :: bool

record ('s, 'h) cworld = "('s, 'h) world" +
  scache :: scache

type_synonym ('s, 'h, 'z, 'a) cop = "(('s, 'h, 'z) cworld_scheme, 'a) m"

definition upd_sc :: "(scache \<Rightarrow> scache) \<Rightarrow> ('s, 'h, 'z, unit) cop" where
  "upd_sc f = modify (\<lambda>w. w\<lparr>scache := f (scache w)\<rparr>)"

text \<open>The cache as the constructor leaves it (before its call of \<^verbatim>\<open>uptodate\<close>).\<close>

definition new_scache :: scache where
  "new_scache = \<lparr>sc_cache = Map.empty, sc_queue = [], sc_nelems = 0, sc_checktime = 0, sc_locked = False\<rparr>"

text \<open>Whether \<^verbatim>\<open>stat\<close> fails on a file or shows that it has changed after \<open>checktime\<close>.\<close>

definition stat_changed :: "('s, 'h) env \<Rightarrow> string \<Rightarrow> int \<Rightarrow> 'h \<Rightarrow> bool" where
  "stat_changed E path checktime h =
     (case p_stat (sys E) path h of Inl _ \<Rightarrow> True | Inr (_, mtime) \<Rightarrow> checktime < mtime)"

definition sc_uptodate :: "('s, 'h) env \<Rightarrow> ('s, 'h, 'z, unit) cop" where
  "sc_uptodate E =
     bind (gets (\<lambda>w. stat_changed E ''/etc/passwd'' (sc_checktime (scache w)) (host w)
                  \<or> stat_changed E ''/etc/group'' (sc_checktime (scache w)) (host w))) (\<lambda>changed.
       whenM changed
         (bind (time_now E) (\<lambda>t.
          upd_sc (\<lambda>c. c\<lparr>sc_checktime := sint t, sc_nelems := 0, sc_cache := Map.empty, sc_queue := []\<rparr>))))"

text \<open>The part of \<^verbatim>\<open>get\<close> between locking and unlocking the mutex.\<close>

definition sc_lookup :: "('s, 'h) env \<Rightarrow> uid_t \<Rightarrow> gid_t \<Rightarrow> ('s, 'h, 'z, scontext) cop" where
  "sc_lookup E uid gid =
     andthen (sc_uptodate E)
     (bind (gets (\<lambda>w. sc_cache (scache w) (uid, gid))) (\<lambda>it.
        case it of
          Some sctx \<Rightarrow>
            andthen (upd_sc (\<lambda>c. c\<lparr>sc_queue := (uid, gid) # remove1 (uid, gid) (sc_queue c)\<rparr>))
              (ret sctx)
        | None \<Rightarrow>
            andthen (upd_sc (\<lambda>c.
               if sc_nelems c = SCONTEXTCACHE_MAX_ELEMS
               then c\<lparr>sc_cache := (sc_cache c)(last (sc_queue c) := None), sc_queue := butlast (sc_queue c)\<rparr>
               else c\<lparr>sc_nelems := sc_nelems c + 1\<rparr>))
            (andthen (upd_sc (\<lambda>c. c\<lparr>sc_queue := (uid, gid) # sc_queue c\<rparr>))
            (bind (handle (new_scontext E uid gid) (\<lambda>e.
                andthen (upd_sc (\<lambda>c. c\<lparr>sc_queue := tl (sc_queue c), sc_nelems := sc_nelems c - 1\<rparr>))
                  (throw e))) (\<lambda>sctx.
            andthen (upd_sc (\<lambda>c. c\<lparr>sc_cache := (sc_cache c)((uid, gid) \<mapsto> sctx)\<rparr>))
              (ret sctx))))))"

definition sc_get :: "('s, 'h) env \<Rightarrow> uid_t \<Rightarrow> gid_t \<Rightarrow> ('s, 'h, 'z, scontext) cop" where
  "sc_get E uid gid =
     andthen (upd_sc (\<lambda>c. c\<lparr>sc_locked := True\<rparr>))
     (bind (handle (sc_lookup E uid gid)
        (\<lambda>e. andthen (upd_sc (\<lambda>c. c\<lparr>sc_locked := False\<rparr>)) (throw e))) (\<lambda>sctx.
     andthen (upd_sc (\<lambda>c. c\<lparr>sc_locked := False\<rparr>)) (ret sctx)))"

section \<open>Its invariant\<close>

definition sctx_for :: "ckey \<Rightarrow> scontext \<Rightarrow> bool" where
  "sctx_for k s \<longleftrightarrow> suid s = fst k \<and> sgid s = snd k \<and> sgid s \<in> sgroups s"

definition sc_inv :: "scache \<Rightarrow> bool" where
  "sc_inv c \<longleftrightarrow>
     distinct (sc_queue c) \<and> dom (sc_cache c) = set (sc_queue c)
   \<and> sc_nelems c = int (length (sc_queue c)) \<and> sc_nelems c \<le> SCONTEXTCACHE_MAX_ELEMS
   \<and> (\<forall>k s. sc_cache c k = Some s \<longrightarrow> sctx_for k s)"

lemma sc_inv_new: "sc_inv new_scache"
  by (simp add: sc_inv_def new_scache_def SCONTEXTCACHE_MAX_ELEMS_def)

lemma sc_inv_locked [simp]: "sc_inv (c\<lparr>sc_locked := b\<rparr>) = sc_inv c"
  by (simp add: sc_inv_def)

lemma upd_sc_apply [simp]: "upd_sc f w = (Inr (), w\<lparr>scache := f (scache w)\<rparr>)"
  by (simp add: upd_sc_def)

lemma new_scontext_for: "new_scontext E uid gid w = (Inr s, w') \<Longrightarrow> sctx_for (uid, gid) s"
  by (auto simp: new_scontext_def sctx_for_def split: option.splits)

lemma new_scontext_state: "new_scontext E uid gid w = (r, w') \<Longrightarrow> w' = w"
  by (auto simp: new_scontext_def split: option.splits)

lemma new_scontext_EStuck: "new_scontext E uid gid w \<noteq> (Inl EStuck, w')"
  by (auto simp: new_scontext_def split: option.splits)

lemma sc_uptodate_form:
  "\<exists>w'. sc_uptodate E w = (Inr (), w') \<and> sc_locked (scache w') = sc_locked (scache w)
     \<and> (w' = w \<or> sc_cache (scache w') = Map.empty \<and> sc_queue (scache w') = [] \<and> sc_nelems (scache w') = 0)"
proof (cases "stat_changed E ''/etc/passwd'' (sc_checktime (scache w)) (host w)
    \<or> stat_changed E ''/etc/group'' (sc_checktime (scache w)) (host w)")
  case True
  then show ?thesis by (simp add: sc_uptodate_def bind_def time_now_def)
next
  case False
  then show ?thesis by (simp add: sc_uptodate_def bind_def)
qed

text \<open>Making room for a key; after it, the queue is one short of \<open>sc_nelems\<close>.\<close>

definition sc_room :: "scache \<Rightarrow> scache" where
  "sc_room c =
     (if sc_nelems c = SCONTEXTCACHE_MAX_ELEMS
      then c\<lparr>sc_cache := (sc_cache c)(last (sc_queue c) := None), sc_queue := butlast (sc_queue c)\<rparr>
      else c\<lparr>sc_nelems := sc_nelems c + 1\<rparr>)"

definition sc_room_inv :: "scache \<Rightarrow> bool" where
  "sc_room_inv c \<longleftrightarrow>
     distinct (sc_queue c) \<and> dom (sc_cache c) = set (sc_queue c)
   \<and> sc_nelems c = int (length (sc_queue c)) + 1 \<and> sc_nelems c \<le> SCONTEXTCACHE_MAX_ELEMS
   \<and> (\<forall>k s. sc_cache c k = Some s \<longrightarrow> sctx_for k s)"

lemma sc_room_evict:
  assumes inv: "sc_inv c" and full: "sc_nelems c = SCONTEXTCACHE_MAX_ELEMS"
  shows "sc_room_inv (sc_room c)"
proof -
  have q: "distinct (sc_queue c)" "dom (sc_cache c) = set (sc_queue c)"
    "int (length (sc_queue c)) = 40" and ctx: "\<forall>k s. sc_cache c k = Some s \<longrightarrow> sctx_for k s"
    using inv full by (auto simp: sc_inv_def SCONTEXTCACHE_MAX_ELEMS_def)
  then have ne: "sc_queue c \<noteq> []" by auto
  then obtain q' x where q': "sc_queue c = q' @ [x]" by (metis append_butlast_last_id)
  then have "dom ((sc_cache c)(x := None)) = set q'" "distinct q'" "int (length q') + 1 = 40"
    using q by auto
  then show ?thesis
    using full ctx q' by (simp add: sc_room_def sc_room_inv_def SCONTEXTCACHE_MAX_ELEMS_def)
qed

lemma sc_room_inv: "sc_inv c \<Longrightarrow> sc_room_inv (sc_room c)"
  by (cases "sc_nelems c = SCONTEXTCACHE_MAX_ELEMS")
    (auto simp: sc_room_evict, simp add: sc_room_def sc_room_inv_def sc_inv_def)

lemma sc_room_absent: "sc_cache c k = None \<Longrightarrow> sc_cache (sc_room c) k = None"
  by (simp add: sc_room_def)

lemma sc_room_locked [simp]: "sc_locked (sc_room c) = sc_locked c"
  by (simp add: sc_room_def)

lemma sc_insert_inv:
  assumes "sc_room_inv c" and "sc_cache c k = None" and "sctx_for k s"
  shows "sc_inv (c\<lparr>sc_queue := k # sc_queue c, sc_cache := (sc_cache c)(k \<mapsto> s)\<rparr>)"
proof -
  have "k \<notin> set (sc_queue c)" using assms by (auto simp: sc_room_inv_def)
  then show ?thesis using assms by (simp add: sc_room_inv_def sc_inv_def)
qed

lemma sc_giveup_inv: "sc_room_inv c \<Longrightarrow> sc_inv (c\<lparr>sc_nelems := sc_nelems c - 1\<rparr>)"
  by (simp add: sc_room_inv_def sc_inv_def)

lemma sc_promote_inv:
  assumes "sc_inv c" and "sc_cache c k = Some s"
  shows "sc_inv (c\<lparr>sc_queue := k # remove1 k (sc_queue c)\<rparr>)"
proof -
  have k: "k \<in> set (sc_queue c)" using assms by (auto simp: sc_inv_def)
  show ?thesis
    using assms(1) k length_remove1_mem [OF k] by (auto simp: sc_inv_def)
qed

text \<open>
  One lookup, seen from a client: the context returned belongs to the caller, and on every
  path, an exception of the constructor included, the invariant holds again.
\<close>

lemma sc_lookup_cases:
  assumes inv: "sc_inv (scache w)"
  obtains (hit) s w' where "sc_lookup E uid gid w = (Inr s, w')" and "sc_inv (scache w')"
      and "sctx_for (uid, gid) s" and "sc_locked (scache w') = sc_locked (scache w)"
      and "sc_cache (scache w') (uid, gid) = Some s" and "hd (sc_queue (scache w')) = (uid, gid)"
  | (fail) e w' where "sc_lookup E uid gid w = (Inl e, w')" and "sc_inv (scache w')"
      and "e \<noteq> EStuck" and "sc_locked (scache w') = sc_locked (scache w)"
proof -
  obtain w1 where up: "sc_uptodate E w = (Inr (), w1)" and l1: "sc_locked (scache w1) = sc_locked (scache w)"
    and "w1 = w \<or> sc_cache (scache w1) = Map.empty \<and> sc_queue (scache w1) = [] \<and> sc_nelems (scache w1) = 0"
    using sc_uptodate_form by blast
  then have inv1: "sc_inv (scache w1)"
    using inv by (auto simp: sc_inv_def SCONTEXTCACHE_MAX_ELEMS_def)
  let ?k = "(uid, gid)"
  show thesis
  proof (cases "sc_cache (scache w1) ?k")
    case (Some s)
    let ?w2 = "w1\<lparr>scache := (scache w1)\<lparr>sc_queue := ?k # remove1 ?k (sc_queue (scache w1))\<rparr>\<rparr>"
    have "sc_lookup E uid gid w = (Inr s, ?w2)" using up Some by (simp add: sc_lookup_def)
    moreover have "sctx_for ?k s" using inv1 Some by (simp add: sc_inv_def)
    ultimately show thesis using hit [of s ?w2] sc_promote_inv [OF inv1 Some] l1 Some by simp
  next
    case None
    let ?c = "sc_room (scache w1)"
    let ?w2 = "w1\<lparr>scache := ?c\<lparr>sc_queue := ?k # sc_queue ?c\<rparr>\<rparr>"
    have room: "sc_room_inv ?c" using inv1 by (rule sc_room_inv)
    have absent: "sc_cache ?c ?k = None" using None by (rule sc_room_absent)
    have start: "sc_lookup E uid gid w =
        bind (handle (new_scontext E uid gid) (\<lambda>e.
            andthen (upd_sc (\<lambda>c. c\<lparr>sc_queue := tl (sc_queue c), sc_nelems := sc_nelems c - 1\<rparr>))
              (throw e))) (\<lambda>sctx.
        andthen (upd_sc (\<lambda>c. c\<lparr>sc_cache := (sc_cache c)((uid, gid) \<mapsto> sctx)\<rparr>)) (ret sctx)) ?w2"
      using up None by (simp add: sc_lookup_def sc_room_def)
    show thesis
    proof (cases "new_scontext E uid gid ?w2")
      case (Pair r w3)
      then have w3: "w3 = ?w2" by (rule new_scontext_state)
      show thesis
      proof (cases r)
        case (Inl e)
        let ?w4 = "?w2\<lparr>scache := ?c\<lparr>sc_nelems := sc_nelems ?c - 1\<rparr>\<rparr>"
        have e: "e \<noteq> EStuck" using Pair Inl new_scontext_EStuck by metis
        have "sc_lookup E uid gid w = (Inl e, ?w4)"
          using Pair Inl w3 e by (simp add: start)
        then show thesis using fail [of e ?w4] e sc_giveup_inv [OF room] l1 by simp
      next
        case (Inr s)
        then have s: "sctx_for ?k s" using Pair new_scontext_for by metis
        let ?w4 = "?w2\<lparr>scache := ?c\<lparr>sc_queue := ?k # sc_queue ?c, sc_cache := (sc_cache ?c)(?k \<mapsto> s)\<rparr>\<rparr>"
        have "sc_lookup E uid gid w = (Inr s, ?w4)" using Pair Inr w3 by (simp add: start)
        then show thesis using hit [of s ?w4] s sc_insert_inv [OF room absent s] l1 by simp
      qed
    qed
  qed
qed

lemma sc_get_cases:
  assumes inv: "sc_inv (scache w)"
  obtains (hit) s w' where "sc_get E uid gid w = (Inr s, w')" and "sc_inv (scache w')"
      and "sctx_for (uid, gid) s" and "\<not> sc_locked (scache w')"
      and "sc_cache (scache w') (uid, gid) = Some s" and "hd (sc_queue (scache w')) = (uid, gid)"
  | (fail) e w' where "sc_get E uid gid w = (Inl e, w')" and "sc_inv (scache w')"
      and "e \<noteq> EStuck" and "\<not> sc_locked (scache w')"
proof -
  let ?w1 = "w\<lparr>scache := (scache w)\<lparr>sc_locked := True\<rparr>\<rparr>"
  have "sc_inv (scache ?w1)" using inv by simp
  then show thesis
  proof (cases rule: sc_lookup_cases [of ?w1 E uid gid])
    case (hit s w')
    then show thesis
      using that(1) [of s "w'\<lparr>scache := (scache w')\<lparr>sc_locked := False\<rparr>\<rparr>"] by (simp add: sc_get_def)
  next
    case (fail e w')
    then show thesis
      using that(2) [of e "w'\<lparr>scache := (scache w')\<lparr>sc_locked := False\<rparr>\<rparr>"] by (simp add: sc_get_def)
  qed
qed

end
