(* ===== verification/Nodes.thy ===== *)
theory Nodes
  imports Sources SContexts
begin

text \<open>
  Nodes (\<^verbatim>\<open>nodes/node.cxx\<close>, \<^verbatim>\<open>directory.cxx\<close>, \<^verbatim>\<open>file.cxx\<close>, \<^verbatim>\<open>symlink.cxx\<close>) and the
  initial database (\<^verbatim>\<open>fsdb.cxx\<close>). A node object is its identifier and its dynamic class;
  its attributes are those of the register with that identifier in the database of nodes,
  the entries of a directory are those of the register with its identifier in the database
  of directories.
\<close>

section \<open>File modes\<close>

abbreviation S_IFMT :: mode_t where "S_IFMT \<equiv> 0xF000"
abbreviation S_IFSOCK :: mode_t where "S_IFSOCK \<equiv> 0xC000"
abbreviation S_IFLNK :: mode_t where "S_IFLNK \<equiv> 0xA000"
abbreviation S_IFREG :: mode_t where "S_IFREG \<equiv> 0x8000"
abbreviation S_IFBLK :: mode_t where "S_IFBLK \<equiv> 0x6000"
abbreviation S_IFDIR :: mode_t where "S_IFDIR \<equiv> 0x4000"
abbreviation S_IFCHR :: mode_t where "S_IFCHR \<equiv> 0x2000"
abbreviation S_IFIFO :: mode_t where "S_IFIFO \<equiv> 0x1000"
abbreviation S_ISUID :: mode_t where "S_ISUID \<equiv> 0x800"
abbreviation S_ISGID :: mode_t where "S_ISGID \<equiv> 0x400"
abbreviation S_ISVTX :: mode_t where "S_ISVTX \<equiv> 0x200"
abbreviation S_IXUSR :: mode_t where "S_IXUSR \<equiv> 0x40"
abbreviation S_IXGRP :: mode_t where "S_IXGRP \<equiv> 0x8"
abbreviation S_IXOTH :: mode_t where "S_IXOTH \<equiv> 0x1"
abbreviation R_OK :: mode_t where "R_OK \<equiv> 4"
abbreviation W_OK :: mode_t where "W_OK \<equiv> 2"
abbreviation X_OK :: mode_t where "X_OK \<equiv> 1"

definition S_ISDIR :: "mode_t \<Rightarrow> bool" where "S_ISDIR m \<longleftrightarrow> and m S_IFMT = S_IFDIR"
definition S_ISREG :: "mode_t \<Rightarrow> bool" where "S_ISREG m \<longleftrightarrow> and m S_IFMT = S_IFREG"
definition S_ISLNK :: "mode_t \<Rightarrow> bool" where "S_ISLNK m \<longleftrightarrow> and m S_IFMT = S_IFLNK"
definition S_ISCHR :: "mode_t \<Rightarrow> bool" where "S_ISCHR m \<longleftrightarrow> and m S_IFMT = S_IFCHR"
definition S_ISBLK :: "mode_t \<Rightarrow> bool" where "S_ISBLK m \<longleftrightarrow> and m S_IFMT = S_IFBLK"

section \<open>Nodes (nodes/node.cxx)\<close>

record node =
  nid :: nodeid
  nkind :: kind

definition kind_of :: "mode_t \<Rightarrow> kind" where
  "kind_of m =
     (if S_ISREG m then KFile else if S_ISDIR m then KDirectory else if S_ISLNK m then KSymlink else KNode)"

definition node_create :: "('s, 'h) env \<Rightarrow> ('s, 'h, 'z, node) op" where
  "node_create E =
     bind (createregister E DNodes) (\<lambda>i.
     andthen (setattr E DNodes i A_dev (0 :: dev_t))
     (andthen (setattr E DNodes i A_nlink (0 :: nlink_t))
     (andthen (setattr E DNodes i A_size (0 :: off_t))
     (bind (time_now E) (\<lambda>t. andthen (setattr E DNodes i A_atime t)
     (bind (time_now E) (\<lambda>t. andthen (setattr E DNodes i A_mtime t)
     (bind (time_now E) (\<lambda>t. andthen (setattr E DNodes i A_ctime t)
     (ret \<lparr>nid = i, nkind = KNode\<rparr>))))))))))"

definition getnode :: "('s, 'h) env \<Rightarrow> nodeid \<Rightarrow> ('s, 'h, 'z, node) op" where
  "getnode E i =
     handle (bind (getattr E DNodes i A_mode) (\<lambda>m. ret \<lparr>nid = i, nkind = kind_of m\<rparr>))
       (on_missing 64 (throw ENotFound))"

text \<open>\<^verbatim>\<open>Node::cast<T>\<close> compares the dynamic class of the object.\<close>

definition cast :: "kind \<Rightarrow> node \<Rightarrow> ('w, node) m" where
  "cast k n = (if nkind n \<noteq> k then throw (EBadCast k) else ret n)"

definition link :: "('s, 'h) env \<Rightarrow> node \<Rightarrow> ('s, 'h, 'z, unit) op" where
  "link E n =
     bind (getattr E DNodes (nid n) A_nlink) (\<lambda>k :: nlink_t. setattr E DNodes (nid n) A_nlink (1 + k))"

text \<open>The virtual method \<^verbatim>\<open>remove\<close> of the four classes.\<close>

definition node_remove :: "('s, 'h) env \<Rightarrow> node \<Rightarrow> ('s, 'h, 'z, unit) op" where
  "node_remove E n = remove_register E DNodes (nid n)"

definition directory_remove :: "('s, 'h) env \<Rightarrow> node \<Rightarrow> ('s, 'h, 'z, unit) op" where
  "directory_remove E n = andthen (remove_register E DDirectories (nid n)) (node_remove E n)"

definition file_remove :: "('s, 'h) env \<Rightarrow> node \<Rightarrow> ('s, 'h, 'z, unit) op" where
  "file_remove E n = andthen (handle (source_remove E (nid n)) (\<lambda>_. ret ())) (node_remove E n)"

definition remove :: "('s, 'h) env \<Rightarrow> node \<Rightarrow> ('s, 'h, 'z, unit) op" where
  "remove E n =
     (case nkind n of KDirectory \<Rightarrow> directory_remove E n | KFile \<Rightarrow> file_remove E n
      | _ \<Rightarrow> node_remove E n)"

text \<open>The link count minus one is converted to a signed \<^verbatim>\<open>int\<close> before the test.\<close>

definition unlink :: "('s, 'h) env \<Rightarrow> node \<Rightarrow> ('s, 'h, 'z, unit) op" where
  "unlink E n =
     bind (getattr E DNodes (nid n) A_nlink) (\<lambda>k :: nlink_t.
       if sint (k - 1) \<le> 0 then remove E n
       else setattr E DNodes (nid n) A_nlink (k - 1))"

definition access :: "('s, 'h) env \<Rightarrow> scontext \<Rightarrow> node \<Rightarrow> mode_t \<Rightarrow> ('s, 'h, 'z, unit) op" where
  "access E sctx n mode =
     whenM (suid sctx \<noteq> 0)
       (bind (getattr E DNodes (nid n) A_mode) (\<lambda>fmode :: mode_t.
        bind (getattr E DNodes (nid n) A_uid) (\<lambda>uid.
        bind (if suid sctx = uid then ret (and (drop_bit 6 fmode) 7)
              else bind (getattr E DNodes (nid n) A_gid) (\<lambda>gid.
                if gid \<in> sgroups sctx then ret (and (drop_bit 3 fmode) 7)
                else ret (and fmode 7))) (\<lambda>fmode.
        whenM (and mode (not fmode) \<noteq> 0) (throw EAccess)))))"

section \<open>Directories (nodes/directory.cxx)\<close>

definition addchild :: "('s, 'h) env \<Rightarrow> node \<Rightarrow> string \<Rightarrow> node \<Rightarrow> ('s, 'h, 'z, unit) op" where
  "addchild E d name n =
     andthen (link E n)
     (handle
        (bind (handle
            (bind (getattrv E DDirectories (nid d) name) (\<lambda>_. ret True))
            (on_missing 64 (andthen (setattr E DDirectories (nid d) name (nid n)) (ret False)))) (\<lambda>exists.
         whenM exists (throw EExists)))
        (\<lambda>e. andthen (unlink E n) (throw e)))"

definition getchild :: "('s, 'h) env \<Rightarrow> node \<Rightarrow> string \<Rightarrow> ('s, 'h, 'z, node) op" where
  "getchild E d name =
     handle (bind (getattr E DDirectories (nid d) name) (getnode E)) (on_missing 64 (throw ENotFound))"

definition delchild :: "('s, 'h) env \<Rightarrow> node \<Rightarrow> string \<Rightarrow> ('s, 'h, 'z, unit) op" where
  "delchild E d name =
     bind (getchild E d name) (\<lambda>child.
     andthen (delattr E DDirectories (nid d) name)
     (unlink E child))"

definition getchildren :: "('s, 'h) env \<Rightarrow> node \<Rightarrow> ('s, 'h, 'z, string list) op" where
  "getchildren E d = getattrs E DDirectories (nid d)"

definition countchildren :: "('s, 'h) env \<Rightarrow> node \<Rightarrow> ('s, 'h, 'z, int) op" where
  "countchildren E d = countattrs E DDirectories (nid d)"

definition directory_create :: "('s, 'h) env \<Rightarrow> ('s, 'h, 'z, node) op" where
  "directory_create E =
     bind (node_create E) (\<lambda>n0.
     let n = \<lparr>nid = nid n0, nkind = KDirectory\<rparr> in
     andthen (setattr E DNodes (nid n) A_mode S_IFDIR)
     (andthen (addchild E n ''.'' n)
     (ret n)))"

section \<open>Files and symbolic links\<close>

definition file_create :: "('s, 'h) env \<Rightarrow> ('s, 'h, 'z, node) op" where
  "file_create E =
     bind (node_create E) (\<lambda>n0.
     let n = \<lparr>nid = nid n0, nkind = KFile\<rparr> in
     andthen (setattr E DNodes (nid n) A_mode S_IFREG) (ret n))"

definition symlink_create :: "('s, 'h) env \<Rightarrow> ('s, 'h, 'z, node) op" where
  "symlink_create E =
     bind (node_create E) (\<lambda>n0.
     let n = \<lparr>nid = nid n0, nkind = KSymlink\<rparr> in
     andthen (setattr E DNodes (nid n) A_mode S_IFLNK)
     (andthen (setattrv E DNodes (nid n) A_symlink '''') (ret n)))"

text \<open>\<^verbatim>\<open>T::create\<close> for the class \<^verbatim>\<open>T\<close> of a \<^verbatim>\<open>Path<T>\<close>.\<close>

definition create_kind :: "('s, 'h) env \<Rightarrow> kind \<Rightarrow> ('s, 'h, 'z, node) op" where
  "create_kind E k =
     (case k of KNode \<Rightarrow> node_create E | KFile \<Rightarrow> file_create E | KDirectory \<Rightarrow> directory_create E
      | KSymlink \<Rightarrow> symlink_create E)"

section \<open>The initial database (fsdb.cxx)\<close>

text \<open>
  The effect of \<^verbatim>\<open>Database::rebuild\<close> on the contents: \<^verbatim>\<open>catch(...)\<close> swallows a removal that throws, and what
  the removal has left is opened.
\<close>

definition db_remove :: "('s, 'h) env \<Rightarrow> db \<Rightarrow> ('s, 'h, 'z, unit) op" where
  "db_remove E d =
     bind (gets (\<lambda>w. b_remove (edb E) (dbs w d))) (\<lambda>r.
       case r of
         Inl _ \<Rightarrow> throw EDb
       | Inr s \<Rightarrow> modify (\<lambda>w. w\<lparr>dbs := (dbs w)(d := s)\<rparr>))"

definition db_create :: "('s, 'h) env \<Rightarrow> db \<Rightarrow> ('s, 'h, 'z, unit) op" where
  "db_create E d = modify (\<lambda>w. w\<lparr>dbs := (dbs w)(d := b_create (edb E) (dbs w d))\<rparr>)"

definition db_rebuild :: "('s, 'h) env \<Rightarrow> db \<Rightarrow> ('s, 'h, 'z, unit) op" where
  "db_rebuild E d = andthen (handle (db_remove E d) (\<lambda>_. ret ())) (db_create E d)"

definition fsdb_rebuild :: "('s, 'h) env \<Rightarrow> ('s, 'h, 'z, unit) op" where
  "fsdb_rebuild E =
     andthen (db_rebuild E DNodes)
     (andthen (db_rebuild E DDirectories)
     (andthen (db_rebuild E DMedia)
     (with_fstxn E
        (bind (directory_create E) (\<lambda>root.
         andthen (setattr E DNodes (nid root) A_mode (or S_IFDIR 0x1ED))
         (andthen (setattr E DNodes (nid root) A_uid (my_uid E))
         (andthen (setattr E DNodes (nid root) A_gid (my_gid E))
         (addchild E root ''..'' root))))))))"

end
