(* ===== verification/Node_Laws.thy ===== *)
theory Node_Laws
  imports Nodes
begin

text \<open>
  What the node operations do, and the invariant of the file system: the link count of every
  node is the number of directory entries that refer to it (\<^verbatim>\<open>.\<close> and \<^verbatim>\<open>..\<close> included),
  every entry holds the identifier of an existing node, and only directories have entries.
\<close>

section \<open>Computations that touch nothing but the host\<close>

named_theorems safe_rules

definition host_only :: "('s, 'h, 'z) world_scheme \<Rightarrow> ('s, 'h, 'z) world_scheme \<Rightarrow> bool" where
  "host_only w0 w \<longleftrightarrow> (\<exists>h. w = w0\<lparr>host := h\<rparr>)"

definition safe :: "('s, 'h, 'z, 'a) op \<Rightarrow> bool" where
  "safe m \<longleftrightarrow> (\<forall>w0. hoare (host_only w0) m (\<lambda>_. host_only w0) (\<lambda>e w. host_only w0 w \<and> e \<noteq> EStuck))"

lemma host_only_refl [simp]: "host_only w w"
  unfolding host_only_def by (rule exI [of _ "host w"]) simp

lemma safeI:
  assumes "\<And>w r w'. m w = (r, w') \<Longrightarrow> host_only w w' \<and> r \<noteq> Inl EStuck"
  shows "safe m"
  unfolding safe_def
proof (intro allI hoareI)
  fix w0 w w' a assume "host_only w0 w" and "m w = (Inr a, w')"
  with assms [of w "Inr a" w'] show "host_only w0 w'" by (auto simp: host_only_def)
next
  fix w0 w w' e assume "host_only w0 w" and "m w = (Inl e, w')"
  with assms [of w "Inl e" w'] show "host_only w0 w' \<and> e \<noteq> EStuck" by (auto simp: host_only_def)
qed

lemma safeD:
  assumes "safe m" and "m w = (r, w')"
  shows "host_only w w'" and "r \<noteq> Inl EStuck"
proof -
  have h: "hoare (host_only w) m (\<lambda>_. host_only w) (\<lambda>e w'. host_only w w' \<and> e \<noteq> EStuck)"
    using assms(1) by (simp add: safe_def)
  show "host_only w w'" and "r \<noteq> Inl EStuck"
    using assms(2) hoare_Inr [OF h, of w _ w'] hoare_Inl [OF h, of w _ w'] by (cases r; simp)+
qed

lemma safe_ret [safe_rules]: "safe (ret a)"
  by (rule safeI) auto

lemma safe_throw [safe_rules]: "e \<noteq> EStuck \<Longrightarrow> safe (throw e)"
  by (rule safeI) auto

lemma safe_gets [safe_rules]: "safe (gets f)"
  by (rule safeI) auto

lemma safe_hostM [safe_rules]: "safe (hostM f)"
  by (rule safeI) (auto simp: hostM_def host_only_def split: prod.splits)

lemma safe_bind [safe_rules]: "safe m \<Longrightarrow> (\<And>a. safe (f a)) \<Longrightarrow> safe (bind m f)"
  unfolding safe_def by (blast intro: hoare_bind)

lemma safe_andthen [safe_rules]: "safe m \<Longrightarrow> safe k \<Longrightarrow> safe (andthen m k)"
  unfolding andthen_def by (rule safe_bind)

lemma safe_if [safe_rules]: "safe m \<Longrightarrow> safe k \<Longrightarrow> safe (if c then m else k)"
  by simp

lemma safe_whenM [safe_rules]: "safe m \<Longrightarrow> safe (whenM c m)"
  by (simp add: whenM_def safe_ret)

lemma safe_handle [safe_rules]:
  assumes "safe m" and "\<And>e. e \<noteq> EStuck \<Longrightarrow> safe (h e)"
  shows "safe (handle m h)"
  unfolding safe_def
proof (intro allI hoare_handle)
  fix w0
  show "hoare (host_only w0) m (\<lambda>_. host_only w0) (\<lambda>e w. host_only w0 w \<and> e \<noteq> EStuck)"
    using assms(1) by (simp add: safe_def)
  show "hoare (\<lambda>w. host_only w0 w \<and> e \<noteq> EStuck) (h e) (\<lambda>_. host_only w0)
      (\<lambda>e w. host_only w0 w \<and> e \<noteq> EStuck)" if "e \<noteq> EStuck" for e
    using assms(2) [OF that] by (auto simp: safe_def intro: hoare_pre)
qed auto

lemma safe_sum [safe_rules]:
  "(\<And>e. safe (f e)) \<Longrightarrow> (\<And>a. safe (g a)) \<Longrightarrow> safe (case r of Inl e \<Rightarrow> f e | Inr a \<Rightarrow> g a)"
  by (simp split: sum.split)

lemma safe_prod [safe_rules]: "(\<And>a b. safe (f a b)) \<Longrightarrow> safe (case r of (a, b) \<Rightarrow> f a b)"
  by (simp split: prod.split)

lemma safe_option [safe_rules]:
  "safe m \<Longrightarrow> (\<And>a. safe (f a)) \<Longrightarrow> safe (case r of None \<Rightarrow> m | Some a \<Rightarrow> f a)"
  by (simp split: option.split)

lemma safe_getattrv [safe_rules]: "safe (getattrv E d i n)"
  by (rule safeI) (auto simp: getattrv_def split: sum.splits dberr.splits)

lemma safe_getattr [safe_rules]: "safe (getattr E d i n)"
  unfolding getattr_def by (intro safe_rules) simp_all

lemma safe_on_missing [safe_rules]: "safe k \<Longrightarrow> e \<noteq> EStuck \<Longrightarrow> safe (on_missing b k e)"
  by (auto simp: on_missing_def intro: safe_throw split: exn.split)

lemma safe_getmedium [safe_rules]: "safe (getmedium E i)"
  unfolding getmedium_def by (intro safe_rules) simp_all

lemma safe_rmdir_loop [safe_rules]: "safe (rmdir_loop E base_dir phid pos)"
proof (induction E base_dir phid pos rule: rmdir_loop.induct)
  case (1 E base_dir phid pos)
  show ?case
  proof (cases "find_last_of ''/'' phid pos")
    case None
    show ?thesis
      unfolding rmdir_loop.simps [of E base_dir phid pos] None option.case by (rule safe_ret)
  next
    case p1: (Some p1)
    show ?thesis
    proof (cases "find_last_not_of ''/'' phid (Some p1)")
      case None
      show ?thesis
        unfolding rmdir_loop.simps [of E base_dir phid pos] p1 None option.case by (rule safe_ret)
    next
      case (Some p2)
      note rec = "1" [OF p1 Some, of 0, simplified]
      show ?thesis
        unfolding rmdir_loop.simps [of E base_dir phid pos] p1 Some option.case
        by (intro safe_rules rec) simp_all
    qed
  qed
qed

lemma safe_insert_check [safe_rules]: "safe (insert_check E i)"
  unfolding insert_check_def by (intro safe_rules) simp_all

lemma safe_insert_insert [safe_rules]: "safe (insert_insert E i)"
  unfolding insert_insert_def by (intro safe_rules) simp_all

lemma safe_directory_delfile [safe_rules]: "safe (directory_delfile E i phid)"
  unfolding directory_delfile_def by (intro safe_rules)

lemma safe_delfile [safe_rules]: "safe (delfile E m phid)"
  unfolding delfile_def insert_delfile_def
  by (cases "mclass m") (auto intro!: safe_rules)

lemma safe_source_remove [safe_rules]: "safe (source_remove E f)"
  unfolding source_remove_def single_remove_def by (intro safe_rules) simp_all

section \<open>What the operations do\<close>

abbreviation mode_of :: "('s, 'h) env \<Rightarrow> ('s, 'h, 'z) world_scheme \<Rightarrow> nodeid \<Rightarrow> mode_t option" where
  "mode_of E w c \<equiv> wattr E w DNodes c A_mode"

abbreviation nlink_of :: "('s, 'h) env \<Rightarrow> ('s, 'h, 'z) world_scheme \<Rightarrow> nodeid \<Rightarrow> nlink_t option" where
  "nlink_of E w c \<equiv> wattr E w DNodes c A_nlink"

abbreviation entry :: "('s, 'h) env \<Rightarrow> ('s, 'h, 'z) world_scheme \<Rightarrow> nodeid \<Rightarrow> string \<Rightarrow> nodeid option" where
  "entry E w d n \<equiv> wattr E w DDirectories d n"

text \<open>The parts of the state node operations leave alone: transactions, clock, and the caller's own fields.\<close>

definition still :: "('s, 'h, 'z) world_scheme \<Rightarrow> (db \<Rightarrow> bool) \<times> nat \<times> 'z" where
  "still w = (txns w, ticks w, world.more w)"

lemma still_frame: "frame w' = frame w \<Longrightarrow> still w' = still w"
  by (simp add: frame_def still_def)

lemma still_host [simp]: "still (w\<lparr>host := h\<rparr>) = still w"
  by (simp add: still_def)

lemma still_put_attr [simp]: "lawful E \<Longrightarrow> still (put_attr E d i n v w) = still w"
  by (simp add: still_def)

lemma still_del_attr [simp]: "lawful E \<Longrightarrow> still (del_attr E d i n w) = still w"
  by (simp add: still_def)

lemma dview_attr: "dview E w' d = dview E w d \<Longrightarrow> attr E w' d = attr E w d"
  by (simp add: attr_def fun_eq_iff)

lemma getnode_Inr:
  "lawful E \<Longrightarrow> getnode E i w = (Inr n, w') \<longleftrightarrow>
     (\<exists>m. mode_of E w i = Some m \<and> n = \<lparr>nid = i, nkind = kind_of m\<rparr> \<and> w' = w)"
  by (auto simp: getnode_def handle_def bind_def getattr_eq wattr_def on_missing_def split: option.splits)

lemma getnode_eq:
  "lawful E \<Longrightarrow> mode_of E w i = Some m \<Longrightarrow> getnode E i w = (Inr \<lparr>nid = i, nkind = kind_of m\<rparr>, w)"
  by (simp add: getnode_Inr)

lemma safe_getnode [safe_rules]: "safe (getnode E i)"
  unfolding getnode_def by (intro safe_rules) simp_all

lemma reads_getnode [reads_rules]: "reads (getnode E i)"
  unfolding getnode_def by (intro reads_rules)

lemma reads_getchild [reads_rules]: "reads (getchild E d n)"
  unfolding getchild_def by (intro reads_rules)

lemma reads_cast [reads_rules]: "reads (cast k n)"
  unfolding cast_def by (intro reads_rules)

lemma reads_access [reads_rules]: "reads (access E sctx n mode)"
  unfolding access_def by (intro reads_rules)

lemma safe_getchild [safe_rules]: "safe (getchild E d n)"
  unfolding getchild_def by (intro safe_rules) simp_all

lemma safe_cast [safe_rules]: "safe (cast k n)"
  unfolding cast_def by (intro safe_rules) simp_all

lemma safe_access [safe_rules]: "safe (access E sctx n mode)"
  unfolding access_def by (intro safe_rules) simp_all

lemma getnode_missing: "lawful E \<Longrightarrow> attr E w DNodes i A_mode = None \<Longrightarrow> getnode E i w = (Inl ENotFound, w)"
  by (simp add: getnode_def handle_def bind_def getattr_eq on_missing_def)

lemma on_missing_throw_Inr [simp]: "on_missing b (throw x) e w \<noteq> (Inr a, w')"
  by (cases e) (auto simp: on_missing_def)

lemma getchild_Inr:
  "lawful E \<Longrightarrow> getchild E d name w = (Inr c, w') \<longleftrightarrow>
     (\<exists>i m. entry E w (nid d) name = Some i \<and> mode_of E w i = Some m
        \<and> c = \<lparr>nid = i, nkind = kind_of m\<rparr> \<and> w' = w)"
  unfolding getchild_def handle_result bind_result by (auto simp: getnode_Inr getattr_Inr)

lemma getchild_missing:
  "lawful E \<Longrightarrow> attr E w DDirectories (nid d) name = None \<Longrightarrow> getchild E d name w = (Inl ENotFound, w)"
  by (simp add: getchild_def handle_def bind_def getattr_eq on_missing_def)

lemma link_eq:
  "lawful E \<Longrightarrow> nlink_of E w (nid n) = Some k \<Longrightarrow>
     link E n w = (Inr (), put_attr E DNodes (nid n) A_nlink (enc E (1 + k)) w)"
  by (simp add: link_def getattr_Some setattr_eq)

text \<open>
  Removing a node deletes its register, and the register of its entries when the object is
  a directory. It never fails: what goes wrong in the medium is ignored.
\<close>

lemma remove_form:
  fixes w :: "('s, 'h, 'z) world_scheme" and E :: "('s, 'h) env"
  assumes "lawful E"
  shows "\<exists>w'. remove E n w = (Inr (), w') \<and> still w' = still w
     \<and> (\<forall>j m. attr E w' DNodes j m = (if j = nid n then None else attr E w DNodes (j :: nodeid) m))
     \<and> (\<forall>j m. attr E w' DDirectories j m =
          (if nkind n = KDirectory \<and> j = nid n then None else attr E w DDirectories (j :: nodeid) m))
     \<and> dview E w' DMedia = dview E w DMedia"
proof -
  have b: "8 dvd LENGTH(64)" by simp
  have base: "node_remove E n w = (Inr (), del_register E DNodes (nid n) w)" for w :: "('s, 'h, 'z) world_scheme"
    unfolding node_remove_def by (rule remove_register_eq [OF assms b])
  have still: "still (del_register E d (nid n) w) = still w" for d and w :: "('s, 'h, 'z) world_scheme"
    by (rule still_frame) (rule frame_del_register [OF assms b])
  note [simp] = attr_del_register [OF assms b] dview_del_register_other [OF assms b] still
  have simple: ?thesis if "remove E n = (node_remove E n :: ('s, 'h, 'z, unit) op)" "nkind n \<noteq> KDirectory"
    using that base [of w] by (intro exI [of _ "del_register E DNodes (nid n) w"]) simp
  show ?thesis
  proof (cases "nkind n")
    case KNode
    then show ?thesis by (intro simple) (simp_all add: remove_def)
  next
    case KSymlink
    then show ?thesis by (intro simple) (simp_all add: remove_def)
  next
    case KDirectory
    have "remove E n w = (Inr (), del_register E DNodes (nid n) (del_register E DDirectories (nid n) w))"
      using KDirectory base remove_register_eq [OF assms b, of DDirectories "nid n" w]
      by (simp add: remove_def directory_remove_def)
    then show ?thesis using KDirectory by simp
  next
    case KFile
    obtain r w1 where src: "source_remove E (nid n) w = (r, w1)" by fastforce
    then have w1: "host_only w w1" and r: "r \<noteq> Inl EStuck"
      using safeD [OF safe_source_remove] by blast+
    then have "handle (source_remove E (nid n)) (\<lambda>_. ret ()) w = (Inr (), w1)"
      using src by (cases r) (auto simp: handle_def)
    then have "remove E n w = (Inr (), del_register E DNodes (nid n) w1)"
      using KFile base by (simp add: remove_def file_remove_def)
    with w1 KFile show ?thesis by (auto simp: host_only_def)
  qed
qed

definition removed :: "('s, 'h) env \<Rightarrow> node \<Rightarrow> ('s, 'h, 'z) world_scheme \<Rightarrow> ('s, 'h, 'z) world_scheme" where
  "removed E n w = snd (remove E n w)"

lemma remove_eq: "lawful E \<Longrightarrow> remove E n w = (Inr (), removed E n w)"
  using remove_form [of E n w] by (auto simp: removed_def)

lemma removed_simps [simp]:
  assumes "lawful E"
  shows "still (removed E n w) = still w"
    and "attr E (removed E n w) DNodes (j :: nodeid) m = (if j = nid n then None else attr E w DNodes j m)"
    and "attr E (removed E n w) DDirectories (j :: nodeid) m =
          (if nkind n = KDirectory \<and> j = nid n then None else attr E w DDirectories j m)"
    and "dview E (removed E n w) DMedia = dview E w DMedia"
    and "wattr E (removed E n w) DNodes (j :: nodeid) m = (if j = nid n then None else wattr E w DNodes j m)"
    and "wattr E (removed E n w) DDirectories (j :: nodeid) m =
          (if nkind n = KDirectory \<and> j = nid n then None else wattr E w DDirectories j m)"
  using remove_form [OF assms, of n w] by (auto simp: removed_def wattr_def)

lemma unlink_eq:
  "lawful E \<Longrightarrow> nlink_of E w (nid n) = Some k \<Longrightarrow>
     unlink E n w = (Inr (), if sint (k - 1) \<le> 0 then removed E n w
                            else put_attr E DNodes (nid n) A_nlink (enc E (k - 1)) w)"
  by (simp add: unlink_def getattr_Some setattr_eq remove_eq)

lemma addchild_new:
  assumes "lawful E" and "nlink_of E w (nid n) = Some k" and "attr E w DDirectories (nid d) name = None"
  shows "addchild E d name n w = (Inr (),
     put_attr E DDirectories (nid d) name (enc E (nid n)) (put_attr E DNodes (nid n) A_nlink (enc E (1 + k)) w))"
  using assms
  by (simp add: addchild_def link_eq handle_def bind_def getattrv_eq on_missing_def setattr_eq)

lemma addchild_exists:
  assumes "lawful E" and "nlink_of E w (nid n) = Some k" and "attr E w DDirectories (nid d) name \<noteq> None"
  shows "addchild E d name n w = (Inl EExists,
     if sint k \<le> 0 then removed E n (put_attr E DNodes (nid n) A_nlink (enc E (1 + k)) w)
     else put_attr E DNodes (nid n) A_nlink (enc E k) (put_attr E DNodes (nid n) A_nlink (enc E (1 + k)) w))"
proof -
  let ?w1 = "put_attr E DNodes (nid n) A_nlink (enc E (1 + k)) w"
  have "unlink E n ?w1 = (Inr (), if sint k \<le> 0 then removed E n ?w1
      else put_attr E DNodes (nid n) A_nlink (enc E k) ?w1)"
    using unlink_eq [of E ?w1 n "1 + k"] assms(1) by simp
  then show ?thesis
    using assms
    by (auto simp: addchild_def link_eq handle_def bind_def getattrv_eq whenM_def)
qed

lemma delchild_eq:
  assumes "lawful E" and "entry E w (nid d) name = Some i" and "mode_of E w i = Some m"
    and "nlink_of E w i = Some k"
  shows "delchild E d name w = (Inr (),
     let w1 = del_attr E DDirectories (nid d) name w in
     if sint (k - 1) \<le> 0 then removed E \<lparr>nid = i, nkind = kind_of m\<rparr> w1
     else put_attr E DNodes i A_nlink (enc E (k - 1)) w1)"
proof -
  have child: "getchild E d name w = (Inr \<lparr>nid = i, nkind = kind_of m\<rparr>, w)"
    using assms by (simp add: getchild_Inr)
  have "attr E w DDirectories (nid d) name \<noteq> None"
    using assms(2) by (auto simp: wattr_def split: bind_splits)
  then show ?thesis
    using assms child by (auto simp: delchild_def delattr_eq unlink_eq Let_def)
qed

end
