(* ===== verification/Link_Counts.thy ===== *)
theory Link_Counts
  imports Node_Laws
begin

text \<open>
  The invariant of the directory tree. \<open>link_inv\<close>: the link count of every node is the
  number of directory entries that refer to it (\<^verbatim>\<open>.\<close> and \<^verbatim>\<open>..\<close> included), every entry
  holds the identifier of a node that has a link count, and only directories have entries.
  \<open>fs_inv\<close> adds that every directory is the target of an entry, \<open>dots_ok\<close> that a directory
  with entries has its \<^verbatim>\<open>.\<close> and \<^verbatim>\<open>..\<close>, and \<open>modes_ok\<close> that every node in the tree has
  its mode.
\<close>

section \<open>The invariant\<close>

definition refs :: "('s, 'h) env \<Rightarrow> ('s, 'h, 'z) world_scheme \<Rightarrow> nodeid \<Rightarrow> (nodeid \<times> string) set" where
  "refs E w c = {(d, n). entry E w d n = Some c}"

definition is_dir :: "('s, 'h) env \<Rightarrow> ('s, 'h, 'z) world_scheme \<Rightarrow> nodeid \<Rightarrow> bool" where
  "is_dir E w d \<longleftrightarrow> (\<exists>m. mode_of E w d = Some m \<and> S_ISDIR m)"

definition link_inv :: "('s, 'h) env \<Rightarrow> ('s, 'h, 'z) world_scheme \<Rightarrow> bool" where
  "link_inv E w \<longleftrightarrow>
     keys_ok E w DNodes TYPE(64)
   \<and> (\<forall>(d :: nodeid) n. attr E w DDirectories d n \<noteq> None \<longrightarrow> entry E w d n \<noteq> None)
   \<and> (\<forall>c. refs E w c \<noteq> {} \<longrightarrow> nlink_of E w c \<noteq> None)
   \<and> (\<forall>c k. nlink_of E w c = Some k \<longrightarrow> k = of_nat (card (refs E w c)))
   \<and> (\<forall>d n. entry E w d n \<noteq> None \<longrightarrow> is_dir E w d)"

definition fs_inv :: "('s, 'h) env \<Rightarrow> ('s, 'h, 'z) world_scheme \<Rightarrow> bool" where
  "fs_inv E w \<longleftrightarrow> link_inv E w \<and> (\<forall>d. is_dir E w d \<longrightarrow> refs E w d \<noteq> {})"

definition dots_ok :: "('s, 'h) env \<Rightarrow> ('s, 'h, 'z) world_scheme \<Rightarrow> bool" where
  "dots_ok E w \<longleftrightarrow>
     (\<forall>d n. entry E w d n \<noteq> None \<longrightarrow> entry E w d ''.'' = Some d \<and> entry E w d ''..'' \<noteq> None)"

definition modes_ok :: "('s, 'h) env \<Rightarrow> ('s, 'h, 'z) world_scheme \<Rightarrow> bool" where
  "modes_ok E w \<longleftrightarrow> (\<forall>c. refs E w c \<noteq> {} \<longrightarrow> mode_of E w c \<noteq> None)"

lemma link_invI:
  assumes "keys_ok E w DNodes TYPE(64)"
    and "\<And>d n. attr E w DDirectories (d :: nodeid) n \<noteq> None \<Longrightarrow> entry E w d n \<noteq> None"
    and "\<And>c. refs E w c \<noteq> {} \<Longrightarrow> nlink_of E w c \<noteq> None"
    and "\<And>c k. nlink_of E w c = Some k \<Longrightarrow> k = of_nat (card (refs E w c))"
    and "\<And>d n. entry E w d n \<noteq> None \<Longrightarrow> is_dir E w d"
  shows "link_inv E w"
  using assms by (simp add: link_inv_def)

lemma link_invD:
  assumes "link_inv E w"
  shows "keys_ok E w DNodes TYPE(64)"
    and "attr E w DDirectories (d :: nodeid) n \<noteq> None \<Longrightarrow> entry E w d n \<noteq> None"
    and "refs E w c \<noteq> {} \<Longrightarrow> nlink_of E w c \<noteq> None"
    and "nlink_of E w c = Some k \<Longrightarrow> k = of_nat (card (refs E w c))"
    and "entry E w d n \<noteq> None \<Longrightarrow> is_dir E w d"
  using assms unfolding link_inv_def by blast+

lemma refsI: "entry E w d n = Some c \<Longrightarrow> (d, n) \<in> refs E w c"
  by (simp add: refs_def)

lemma finite_refs:
  assumes "lawful E"
  shows "finite (refs E w c)"
proof -
  let ?f = "\<lambda>(d, n). getkey E (d :: nodeid) n"
  have "inj ?f" by (auto simp: inj_def getkey_inject)
  then have "finite (?f -` dom (dview E w DDirectories))"
    using lawful_finite [OF assms] by (rule finite_vimageI [rotated])
  moreover have "refs E w c \<subseteq> ?f -` dom (dview E w DDirectories)"
    by (auto simp: refs_def wattr_def attr_def split: bind_splits)
  ultimately show ?thesis by (rule finite_subset [rotated])
qed

section \<open>Keys of the database of nodes\<close>

lemma keys_ok_put: "lawful E \<Longrightarrow> keys_ok E w d TYPE('a::len) \<Longrightarrow>
    keys_ok E (put_attr E d (i :: 'a word) n v w) d TYPE('a)"
  by (rule put_attr_form [of E d i n v w]) (auto simp: keys_ok_def getkey_def)

lemma keys_ok_put_other: "lawful E \<Longrightarrow> d' \<noteq> d \<Longrightarrow>
    keys_ok E (put_attr E d i n v w) d' T = keys_ok E w d' T"
  by (simp add: keys_ok_def)

lemma keys_ok_del:
  assumes "lawful E" and "keys_ok E w d' T"
  shows "keys_ok E (del_attr E d i n w) d' T"
proof (cases "attr E w d i n = None \<or> d' \<noteq> d")
  case True
  then show ?thesis using assms by (auto simp: del_attr_None keys_ok_def)
next
  case False
  then have ne: "attr E w d i n \<noteq> None" by simp
  show ?thesis
    by (rule del_attr_form [OF assms(1) ne]) (use assms(2) False in \<open>auto simp: keys_ok_def\<close>)
qed

lemma keys_ok_cleanlogs [simp]: "keys_ok E (cleanlogs w) d T = keys_ok E w d T"
  by (simp add: keys_ok_def)

lemma keys_ok_host [simp]: "keys_ok E (w\<lparr>host := h\<rparr>) d T = keys_ok E w d T"
  by (simp add: keys_ok_def)

lemma keys_ok_ticks [simp]: "keys_ok E (w\<lparr>ticks := t\<rparr>) d T = keys_ok E w d T"
  by (simp add: keys_ok_def)

lemma keys_delattr [hoare_rules]:
  assumes "lawful E"
  shows "keeps (\<lambda>w. keys_ok E w d' T) (delattr E d i n)"
  by (rule hoareI) (use assms in \<open>auto simp: delattr_eq keys_ok_del split: option.splits\<close>)

lemma keys_remove_register:
  assumes "lawful E" and "8 dvd LENGTH('a::len)"
  shows "keeps (\<lambda>w. keys_ok E w d' T) (remove_register E d (i :: 'a word))"
proof -
  let ?I = "\<lambda>w. keys_ok E w d' T"
  have list: "keeps ?I (getattrs E d i)"
    by (rule hoareI) (simp_all add: getattrs_eq [OF assms])
  have del: "keeps ?I (delattr E d i n)" for n
    by (rule keys_delattr [OF assms(1)])
  have missing: "keeps ?I (on_missing LENGTH('a) (ret ()) e)" for e
    by (cases e) (auto simp: on_missing_def intro!: hoare_ret hoare_throw)
  have final: "keeps ?I (handle (delattr E d i '''') (on_missing LENGTH('a) (ret ())))"
    by (rule hoare_handle [where R' = "\<lambda>_. ?I"]) (auto intro: del missing)
  have clean: "keeps ?I (modify cleanlogs)"
    by (rule hoare_modify) simp
  show ?thesis
    unfolding remove_register_def
    by (intro hoare_bind [OF list] hoare_andthen [OF keeps_forM] hoare_andthen [OF final] del clean)
qed

lemma keys_del_register:
  "lawful E \<Longrightarrow> 8 dvd LENGTH('a::len) \<Longrightarrow> keys_ok E w d' T \<Longrightarrow>
     keys_ok E (del_register E d (i :: 'a word) w) d' T"
  using keys_remove_register [of E d' T d i] remove_register_eq [of E d i w]
  by (metis hoare_Inr)

lemma keys_removed:
  fixes w :: "('s, 'h, 'z) world_scheme"
  assumes "lawful E" and "keys_ok E w DNodes TYPE(64)"
  shows "keys_ok E (removed E n w) DNodes TYPE(64)"
proof -
  let ?I = "\<lambda>w :: ('s, 'h, 'z) world_scheme. keys_ok E w DNodes TYPE(64)"
  note reg = keys_remove_register [OF assms(1), where 'a = 64, simplified]
  have host: "keys_ok E w' DNodes TYPE(64)" if "host_only w w'" and "keys_ok E w DNodes TYPE(64)" for w w' :: "('s, 'h, 'z) world_scheme"
    using that by (auto simp: host_only_def)
  have src: "keeps ?I (source_remove E (nid n))"
    by (rule hoareI) (blast intro: host safeD(1) [OF safe_source_remove])+
  have base: "keeps ?I (node_remove E n)" unfolding node_remove_def by (rule reg)
  have dir: "keeps ?I (directory_remove E n)"
    unfolding directory_remove_def by (rule hoare_andthen [OF reg base])
  have fil: "keeps ?I (file_remove E n)"
    unfolding file_remove_def
    by (rule hoare_andthen [OF _ base], rule hoare_handle [OF src]) (auto intro: hoare_ret)
  have "keeps ?I (remove E n)"
    unfolding remove_def using base dir fil by (cases "nkind n") simp_all
  then show ?thesis using remove_eq [OF assms(1)] assms(2) by (rule hoare_Inr)
qed

section \<open>The invariant under changes of the databases\<close>

lemma is_dir_dbs [simp]: "is_dir E (cleanlogs w) = is_dir E w" "is_dir E (w\<lparr>ticks := t\<rparr>) = is_dir E w"
  "is_dir E (w\<lparr>host := h\<rparr>) = is_dir E w"
  by (simp_all add: is_dir_def fun_eq_iff)

lemma refs_dbs [simp]: "refs E (cleanlogs w) = refs E w" "refs E (w\<lparr>ticks := t\<rparr>) = refs E w"
  "refs E (w\<lparr>host := h\<rparr>) = refs E w"
  by (simp_all add: refs_def fun_eq_iff)

lemma link_inv_dbs [simp]: "link_inv E (cleanlogs w) = link_inv E w" "link_inv E (w\<lparr>ticks := t\<rparr>) = link_inv E w"
  "link_inv E (w\<lparr>host := h\<rparr>) = link_inv E w"
  by (simp_all add: link_inv_def)

lemma refs_put_node [simp]: "lawful E \<Longrightarrow> refs E (put_attr E DNodes i n v w) = refs E w"
  by (simp add: refs_def fun_eq_iff)

lemma refs_put_entry [simp]:
  "lawful E \<Longrightarrow> refs E (put_attr E DDirectories d n (enc E c) w) c' =
     (if c' = c then insert (d, n) (refs E w c') else refs E w c' - {(d, n)})"
  by (auto simp: refs_def)

lemma refs_del_entry [simp]:
  "lawful E \<Longrightarrow> refs E (del_attr E DDirectories d n w) c = refs E w c - {(d, n)}"
  by (auto simp: refs_def)

lemma refs_removed:
  "lawful E \<Longrightarrow> refs E (removed E n w) c =
     {r \<in> refs E w c. \<not> (nkind n = KDirectory \<and> fst r = nid n)}"
  by (auto simp: refs_def)

lemma is_dir_put_other [simp]:
  "lawful E \<Longrightarrow> d \<noteq> DNodes \<or> n \<noteq> A_mode \<Longrightarrow> is_dir E (put_attr E d (i :: nodeid) n v w) = is_dir E w"
  by (auto simp: is_dir_def fun_eq_iff)

lemma is_dir_del_entry [simp]: "lawful E \<Longrightarrow> is_dir E (del_attr E DDirectories (d :: nodeid) n w) = is_dir E w"
  by (auto simp: is_dir_def fun_eq_iff)

text \<open>Other attributes of a node do not matter, and its mode may change as long as a directory stays one.\<close>

lemma link_inv_put_node:
  assumes "lawful E" and inv: "link_inv E w" and "n \<noteq> A_nlink"
    and mode: "n = A_mode \<Longrightarrow> is_dir E w i \<Longrightarrow> \<exists>m :: mode_t. dec E v = Some m \<and> S_ISDIR m"
  shows "link_inv E (put_attr E DNodes (i :: nodeid) n v w)"
proof (rule link_invI)
  let ?w = "put_attr E DNodes i n v w"
  show "keys_ok E ?w DNodes TYPE(64)"
    using keys_ok_put [OF assms(1)] link_invD(1) [OF inv] by blast
  show "is_dir E ?w d" if "entry E ?w d m \<noteq> None" for d m
    using that assms(1) link_invD(5) [OF inv, of d m] mode by (auto simp: is_dir_def)
qed (use assms link_invD [OF inv] in \<open>auto split: if_splits\<close>)

lemma link_inv_add:
  assumes "lawful E" and inv: "link_inv E w" and k: "nlink_of E w c = Some k"
    and new: "attr E w DDirectories d name = None" and dir: "is_dir E w d"
  shows "link_inv E (put_attr E DDirectories d name (enc E c) (put_attr E DNodes c A_nlink (enc E (1 + k)) w))"
    (is "link_inv E ?w")
proof (rule link_invI)
  have fresh: "(d, name) \<notin> refs E w c'" for c'
    using new by (simp add: refs_def wattr_def)
  have card: "k = of_nat (card (refs E w c))" using link_invD(4) [OF inv k] .
  show "keys_ok E ?w DNodes TYPE(64)"
    using keys_ok_put [OF assms(1)] link_invD(1) [OF inv] assms(1) by (simp add: keys_ok_put_other)
  show "entry E ?w d' n \<noteq> None" if "attr E ?w DDirectories (d' :: nodeid) n \<noteq> None" for d' n
    using that assms(1) link_invD(2) [OF inv, of d' n] by (auto split: if_splits)
  show "nlink_of E ?w c' \<noteq> None" if "refs E ?w c' \<noteq> {}" for c'
    using that assms(1) link_invD(3) [OF inv, of c'] by (auto split: if_splits)
  show "k' = of_nat (card (refs E ?w c'))" if "nlink_of E ?w c' = Some k'" for c' k'
    using that assms(1) link_invD(4) [OF inv, of c' k'] fresh card
    by (auto simp: card_insert_if finite_refs split: if_splits)
  show "is_dir E ?w d'" if "entry E ?w d' n \<noteq> None" for d' n
    using that assms(1) link_invD(5) [OF inv, of d' n] dir by (auto split: if_splits)
qed

lemma sint_of_nat_small:
  assumes "n < 2 ^ 31"
  shows "sint (of_nat n :: 32 word) = int n"
proof -
  have "sint (of_nat n :: 32 word) = signed_take_bit 31 (int n)"
    using sint_sbintrunc' [of "int n", where 'a = 32] by simp
  also have "\<dots> = int n"
    by (rule signed_take_bit_int_eq_self) (use assms in auto)
  finally show ?thesis .
qed

text \<open>
  Deleting an entry; the node loses its register with its last entry, and it must have none
  of its own then.
\<close>

lemma link_inv_del:
  assumes "lawful E" and inv: "link_inv E w" and i: "entry E w d name = Some i"
    and k: "nlink_of E w i = Some k" and bound: "card (refs E w i) \<le> 2 ^ 31"
    and last: "\<And>n. card (refs E w i) = 1 \<Longrightarrow> entry E w i n \<noteq> None \<Longrightarrow> (i, n) = (d, name)"
  shows "link_inv E (let w1 = del_attr E DDirectories d name w in
     if sint (k - 1) \<le> 0 then removed E \<lparr>nid = i, nkind = kd\<rparr> w1
     else put_attr E DNodes i A_nlink (enc E (k - 1)) w1)"
proof -
  let ?w1 = "del_attr E DDirectories d name w"
  have fin: "finite (refs E w i)" by (rule finite_refs [OF assms(1)])
  have mem: "(d, name) \<in> refs E w i" using i by (rule refsI)
  then have pos: "0 < card (refs E w i)" using fin by (auto simp: card_gt_0_iff)
  have k1: "k - 1 = of_nat (card (refs E w i) - 1)"
    using link_invD(4) [OF inv k] pos by simp
  have sint: "sint (k - 1) = int (card (refs E w i) - 1)"
    unfolding k1 by (rule sint_of_nat_small) (use bound pos in simp)
  have other: "refs E w c - {(d, name)} = refs E w c" if "c \<noteq> i" for c
    using that i by (auto simp: refs_def)
  have keys: "keys_ok E ?w1 DNodes TYPE(64)"
    using keys_ok_del [OF assms(1) link_invD(1) [OF inv]] .
  show ?thesis
  proof (cases "card (refs E w i) = 1")
    case False
    then have "\<not> sint (k - 1) \<le> 0" using sint pos by simp
    moreover have "link_inv E (put_attr E DNodes i A_nlink (enc E (k - 1)) ?w1)" (is "link_inv E ?w2")
    proof (rule link_invI)
      show "keys_ok E ?w2 DNodes TYPE(64)" by (rule keys_ok_put [OF assms(1) keys])
      show "entry E ?w2 d' n \<noteq> None" if "attr E ?w2 DDirectories (d' :: nodeid) n \<noteq> None" for d' n
        using that assms(1) link_invD(2) [OF inv, of d' n] by (auto split: if_splits)
      show "nlink_of E ?w2 c \<noteq> None" if "refs E ?w2 c \<noteq> {}" for c
        using that assms(1) link_invD(3) [OF inv, of c] by auto
      show "k' = of_nat (card (refs E ?w2 c))" if "nlink_of E ?w2 c = Some k'" for c k'
        using that assms(1) link_invD(4) [OF inv, of c k'] k1 mem fin other
        by (auto split: if_splits)
      show "is_dir E ?w2 d'" if "entry E ?w2 d' n \<noteq> None" for d' n
        using that assms(1) link_invD(5) [OF inv, of d' n] by (auto split: if_splits)
    qed
    ultimately show ?thesis by (simp add: Let_def)
  next
    case True
    then have le: "sint (k - 1) \<le> 0" using sint by simp
    have none: "refs E w i - {(d, name)} = {}" using True mem by (auto simp: card_1_singleton_iff)
    have gone: "entry E w i n = None" if "(i, n) \<noteq> (d, name)" for n
      using last [OF True, of n] that by (cases "entry E w i n") auto
    then have empty: "entry E ?w1 i n = None" for n using assms(1) by auto
    have "link_inv E (removed E \<lparr>nid = i, nkind = kd\<rparr> ?w1)" (is "link_inv E ?w2")
    proof (rule link_invI)
      have refs2: "refs E ?w2 c = refs E ?w1 c" for c
        using assms(1) gone by (auto simp: refs_def split: if_splits)
      show "keys_ok E ?w2 DNodes TYPE(64)" by (rule keys_removed [OF assms(1) keys])
      show "entry E ?w2 d' n \<noteq> None" if "attr E ?w2 DDirectories (d' :: nodeid) n \<noteq> None" for d' n
        using that assms(1) link_invD(2) [OF inv, of d' n] by (auto split: if_splits)
      show "nlink_of E ?w2 c \<noteq> None" if "refs E ?w2 c \<noteq> {}" for c
        using that assms(1) link_invD(3) [OF inv, of c] none unfolding refs2 by auto
      show "k' = of_nat (card (refs E ?w2 c))" if "nlink_of E ?w2 c = Some k'" for c k'
        using that assms(1) link_invD(4) [OF inv, of c k'] other unfolding refs2 by (auto split: if_splits)
      show "is_dir E ?w2 d'" if "entry E ?w2 d' n \<noteq> None" for d' n
        using that assms(1) link_invD(5) [OF inv, of d' n] gone by (auto simp: is_dir_def split: if_splits)
    qed
    then show ?thesis using le by (simp add: Let_def)
  qed
qed

end
