(* ===== verification/PathCache.thy ===== *)
theory PathCache
  imports Link_Counts
begin

text \<open>
  Path resolution (\<^verbatim>\<open>pathcache.cxx\<close>): \<open>null_getnode\<close> walks the directories from the root,
  \<open>hash_getnode\<close> keeps the nodes it has met in a cache. The cache is a map from
  normalised paths to entries, a queue of entries in the order of their use, and a heap
  that maps the address of an entry to its \<^verbatim>\<open>data\<close>, or to \<open>None\<close> when it has been
  invalidated or freed. An iterator into the queue is modelled by the entry it points to,
  a \<^verbatim>\<open>shared_ptr\<close> by the address it holds.
  The dereference of a null pointer is modelled as \<open>EStuck\<close>.
\<close>

section \<open>The implementation without a cache\<close>

text \<open>The loop over the tokens: every parent is checked before the next step.\<close>

primrec null_walk :: "('s, 'h) env \<Rightarrow> scontext \<Rightarrow> string list \<Rightarrow> node \<Rightarrow> ('s, 'h, 'z, node) op" where
  "null_walk E sctx [] n = ret n"
| "null_walk E sctx (t # ts) n =
     andthen (access E sctx n X_OK)
     (bind (cast KDirectory n) (\<lambda>d.
      bind (getchild E d t) (\<lambda>n'.
      null_walk E sctx ts n')))"

definition null_getnode :: "('s, 'h) env \<Rightarrow> scontext \<Rightarrow> string \<Rightarrow> ('s, 'h, 'z, node) op" where
  "null_getnode E sctx path = bind (getnode E 0) (null_walk E sctx (tokenize ''/'' path))"

definition null_invalidate :: "('s, 'h) env \<Rightarrow> string \<Rightarrow> ('s, 'h, 'z, unit) op" where
  "null_invalidate E path = ret ()"

section \<open>The cache\<close>

definition PATHCACHE_MAX_ENTRIES :: int where "PATHCACHE_MAX_ENTRIES = 4096"

text \<open>\<^verbatim>\<open>PathCache_hash::CEntry::Data\<close>; a null \<^verbatim>\<open>parent\<close> is \<open>None\<close>.\<close>

record cdata =
  cd_path :: string
  cd_nodeid :: nodeid
  cd_parent :: "nat option"
  cd_uid :: uid_t
  cd_gid :: gid_t
  cd_mode :: mode_t

record pcache =
  pc_paths :: "string \<Rightarrow> nat option"
  pc_heap :: "nat \<Rightarrow> cdata option"
  pc_next :: nat
  pc_queue :: "nat list"
  pc_max :: int
  pc_n :: int
  pc_locked :: bool

definition new_pcache :: pcache where
  "new_pcache = \<lparr>pc_paths = Map.empty, pc_heap = Map.empty, pc_next = 0, pc_queue = [],
     pc_max = PATHCACHE_MAX_ENTRIES, pc_n = 0, pc_locked = False\<rparr>"

record ('s, 'h) pworld = "('s, 'h) cworld" +
  pcache :: pcache

type_synonym ('s, 'h, 'z, 'a) pop = "(('s, 'h, 'z) pworld_scheme, 'a) m"

definition upd_pc :: "(pcache \<Rightarrow> pcache) \<Rightarrow> ('s, 'h, 'z, unit) pop" where
  "upd_pc f = modify (\<lambda>w. w\<lparr>pcache := f (pcache w)\<rparr>)"

text \<open>\<^verbatim>\<open>cen->data\<close> of a valid entry.\<close>

definition deref :: "nat \<Rightarrow> ('s, 'h, 'z, cdata) pop" where
  "deref a = (\<lambda>w. case pc_heap (pcache w) a of None \<Rightarrow> (Inl EStuck, w) | Some d \<Rightarrow> (Inr d, w))"

definition blank :: cdata where
  "blank = \<lparr>cd_path = '''', cd_nodeid = 0, cd_parent = None, cd_uid = 0, cd_gid = 0, cd_mode = 0\<rparr>"

text \<open>
  \<^verbatim>\<open>paths.insert(value_type(path, new CEntry))\<close>: the address in the map and whether it is
  the new one. When the path is present the new entry is freed at once.
\<close>

definition insert_path :: "string \<Rightarrow> ('s, 'h, 'z, nat \<times> bool) pop" where
  "insert_path path = (\<lambda>w. case pc_paths (pcache w) path of
       Some a \<Rightarrow> (Inr (a, False), w)
     | None \<Rightarrow> (let c = pcache w; a = pc_next c in
         (Inr (a, True), w\<lparr>pcache := c\<lparr>pc_paths := (pc_paths c)(path \<mapsto> a),
            pc_heap := (pc_heap c)(a \<mapsto> blank), pc_next := Suc a\<rparr>\<rparr>)))"

text \<open>
  \<^verbatim>\<open>initEntry\<close>. The fields are stored together at the end; if an exception interrupts it,
  \<^verbatim>\<open>lookup\<close> drops the entry.
\<close>

definition init_entry :: "('s, 'h) env \<Rightarrow> nat \<Rightarrow> nat option \<Rightarrow> string list \<Rightarrow> ('s, 'h, 'z, unit) pop" where
  "init_entry E cen parent toks =
     bind (case parent of
         Some p \<Rightarrow>
           bind (deref p) (\<lambda>pd.
           bind (getnode E (cd_nodeid pd)) (\<lambda>pn.
           bind (cast KDirectory pn) (\<lambda>d.
           bind (getchild E d (last toks)) (\<lambda>n. ret (join ''/'' '''' toks, n)))))
       | None \<Rightarrow> bind (getnode E 0) (\<lambda>n. ret ('''', n))) (\<lambda>(path, n).
     bind (getattr E DNodes (nid n) A_uid) (\<lambda>uid.
     bind (getattr E DNodes (nid n) A_gid) (\<lambda>gid.
     bind (getattr E DNodes (nid n) A_mode) (\<lambda>mode.
     upd_pc (\<lambda>c. c\<lparr>
       pc_heap := (pc_heap c)(cen \<mapsto> \<lparr>cd_path = path, cd_nodeid = nid n, cd_parent = parent,
         cd_uid = uid, cd_gid = gid, cd_mode = mode\<rparr>),
       pc_queue := pc_queue c @ [cen], pc_n := pc_n c + 1\<rparr>)))))"

text \<open>\<^verbatim>\<open>paths.erase(it)\<close> for the entries a failed lookup has inserted, which are freed.\<close>

primrec drop_entries :: "(string \<times> nat) list \<Rightarrow> pcache \<Rightarrow> pcache" where
  "drop_entries [] c = c"
| "drop_entries (x # cens) c = drop_entries cens
     (c\<lparr>pc_paths := (pc_paths c)(fst x := None), pc_heap := (pc_heap c)(snd x := None)\<rparr>)"

text \<open>
  The body of \<^verbatim>\<open>catch(...)\<close> in \<^verbatim>\<open>lookup\<close>, for the stack \<open>cens\<close> of inserted entries, the
  last one first.
\<close>

definition lookup_cleanup :: "(string \<times> nat) list \<Rightarrow> exn \<Rightarrow> ('s, 'h, 'z, 'a) pop" where
  "lookup_cleanup cens e = andthen (upd_pc (drop_entries cens)) (throw e)"

text \<open>
  The first loop of \<^verbatim>\<open>lookup\<close> climbs from \<open>toks\<close> to the nearest cached ancestor, or to the
  root. It returns that ancestor, its tokens and the stack of the entries inserted below.
\<close>

function climb :: "('s, 'h) env \<Rightarrow> string list \<Rightarrow> (string \<times> nat) list \<Rightarrow>
    ('s, 'h, 'z, nat \<times> string list \<times> (string \<times> nat) list) pop" where
  "climb E toks cens =
     (let path = join ''/'' '''' toks in
      bind (insert_path path) (\<lambda>(a, new).
        if \<not> new then ret (a, toks, cens)
        else if toks = [] then
          andthen (handle (init_entry E a None []) (lookup_cleanup ((path, a) # cens)))
            (ret (a, [], cens))
        else climb E (butlast toks) ((path, a) # cens)))"
  by pat_completeness auto
termination
  by (relation "measure (\<lambda>(E, toks, cens). length toks)") (auto simp: length_greater_0_conv [symmetric] simp del: length_greater_0_conv)

declare climb.simps [simp del]

text \<open>The second loop descends again to \<open>toks1\<close> and initialises the entries on the stack.\<close>

fun fill :: "('s, 'h) env \<Rightarrow> string list \<Rightarrow> nat \<Rightarrow> string list \<Rightarrow> (string \<times> nat) list \<Rightarrow>
    ('s, 'h, 'z, nat) pop" where
  "fill E toks1 cen toks [] = ret cen"
| "fill E toks1 cen toks ((path, a) # cens) =
     (let toks' = take (Suc (length toks)) toks1 in
      andthen (handle (init_entry E a (Some cen) toks') (lookup_cleanup ((path, a) # cens)))
        (fill E toks1 a toks' cens))"

definition lookup :: "('s, 'h) env \<Rightarrow> string list \<Rightarrow> ('s, 'h, 'z, nat) pop" where
  "lookup E toks = bind (climb E toks []) (\<lambda>(cen, toks0, cens). fill E toks cen toks0 cens)"

definition set_parent :: "nat \<Rightarrow> nat \<Rightarrow> pcache \<Rightarrow> pcache" where
  "set_parent a p c = c\<lparr>pc_heap := (pc_heap c)(a := map_option (\<lambda>d. d\<lparr>cd_parent := Some p\<rparr>) (pc_heap c a))\<rparr>"

text \<open>
  The step of \<^verbatim>\<open>withPath\<close> from an entry to the one of the parent directory, whose tokens
  are \<open>toks\<close>; a pointer to an invalid entry is repaired.
\<close>

definition parent_entry :: "('s, 'h) env \<Rightarrow> nat \<Rightarrow> string list \<Rightarrow> ('s, 'h, 'z, nat) pop" where
  "parent_entry E cen toks =
     bind (deref cen) (\<lambda>d.
       case cd_parent d of
         None \<Rightarrow> throw EStuck
       | Some p \<Rightarrow>
           bind (gets (\<lambda>w. pc_heap (pcache w) p)) (\<lambda>data.
             case data of
               Some _ \<Rightarrow> ret p
             | None \<Rightarrow> bind (lookup E toks) (\<lambda>parent. andthen (upd_pc (set_parent cen parent)) (ret parent))))"

text \<open>\<^verbatim>\<open>withPath\<close>, from the entry of \<open>toks\<close> up to the root.\<close>

function with_path_loop :: "('s, 'h) env \<Rightarrow> (nat \<Rightarrow> ('s, 'h, 'z, unit) pop) \<Rightarrow> nat \<Rightarrow> string list \<Rightarrow>
    ('s, 'h, 'z, unit) pop" where
  "with_path_loop E f cen toks =
     andthen (f cen)
       (if toks = [] then ret ()
        else bind (parent_entry E cen (butlast toks)) (\<lambda>p. with_path_loop E f p (butlast toks)))"
  by pat_completeness auto
termination
  by (relation "measure (\<lambda>(E, f, cen, toks). length toks)") (auto simp: length_greater_0_conv [symmetric] simp del: length_greater_0_conv)

declare with_path_loop.simps [simp del]

definition with_path :: "('s, 'h) env \<Rightarrow> (nat \<Rightarrow> ('s, 'h, 'z, unit) pop) \<Rightarrow> string list \<Rightarrow> ('s, 'h, 'z, unit) pop" where
  "with_path E f toks = bind (lookup E toks) (\<lambda>cen. with_path_loop E f cen toks)"

definition check_access :: "scontext \<Rightarrow> nat \<Rightarrow> ('s, 'h, 'z, unit) pop" where
  "check_access sctx cen =
     bind (deref cen) (\<lambda>d.
       whenM (suid sctx \<noteq> 0 \<and>
           (if cd_uid d = suid sctx then and (cd_mode d) S_IXUSR = 0
            else if cd_gid d \<in> sgroups sctx then and (cd_mode d) S_IXGRP = 0
            else and (cd_mode d) S_IXOTH = 0))
         (throw EAccess))"

text \<open>\<^verbatim>\<open>delEntry\<close>; \<open>None\<close> when the entry is not valid.\<close>

definition del_entry :: "nat \<Rightarrow> pcache \<Rightarrow> pcache option" where
  "del_entry a c = map_option (\<lambda>d. c\<lparr>pc_queue := remove1 a (pc_queue c),
       pc_paths := (pc_paths c)(cd_path d := None), pc_heap := (pc_heap c)(a := None),
       pc_n := pc_n c - 1\<rparr>) (pc_heap c a)"

text \<open>\<^verbatim>\<open>while(nentries > maxentries) delEntry(queue.front())\<close>; \<^verbatim>\<open>front\<close> of an empty queue is undefined.\<close>

function evict :: "pcache \<Rightarrow> pcache option" where
  "evict c =
     (if pc_max c < pc_n c
      then (case pc_queue c of [] \<Rightarrow> None
            | a # q \<Rightarrow> (case del_entry a c of None \<Rightarrow> None | Some c' \<Rightarrow> evict c'))
      else Some c)"
  by pat_completeness auto
termination
  by (relation "measure (\<lambda>c. nat (pc_n c - pc_max c))") (auto simp: del_entry_def)

declare evict.simps [simp del]

definition upd_pc_opt :: "(pcache \<Rightarrow> pcache option) \<Rightarrow> ('s, 'h, 'z, unit) pop" where
  "upd_pc_opt f = (\<lambda>w. case f (pcache w) of None \<Rightarrow> (Inl EStuck, w) | Some c \<Rightarrow> (Inr (), w\<lparr>pcache := c\<rparr>))"

definition pc_lock :: "('s, 'h, 'z, unit) pop" where
  "pc_lock = upd_pc (\<lambda>c. c\<lparr>pc_locked := True\<rparr>)"

definition pc_unlock :: "('s, 'h, 'z, unit) pop" where
  "pc_unlock = upd_pc (\<lambda>c. c\<lparr>pc_locked := False\<rparr>)"

text \<open>The part of \<^verbatim>\<open>getnode\<close> that holds the mutex.\<close>

definition hash_lookup :: "('s, 'h) env \<Rightarrow> scontext \<Rightarrow> string list \<Rightarrow> ('s, 'h, 'z, nat) pop" where
  "hash_lookup E sctx toks =
     andthen (whenM (toks \<noteq> []) (with_path E (check_access sctx) (butlast toks)))
     (bind (lookup E toks) (\<lambda>cen.
      andthen (upd_pc (\<lambda>c. c\<lparr>pc_queue := remove1 cen (pc_queue c) @ [cen]\<rparr>))
      (andthen (upd_pc_opt evict)
      (ret cen))))"

definition hash_getnode :: "('s, 'h) env \<Rightarrow> scontext \<Rightarrow> string \<Rightarrow> ('s, 'h, 'z, node) pop" where
  "hash_getnode E sctx path =
     (let toks = tokenize ''/'' path in
      andthen pc_lock
      (bind (handle (hash_lookup E sctx toks) (\<lambda>e. andthen pc_unlock (throw e))) (\<lambda>cen.
       andthen pc_unlock
       (bind (deref cen) (\<lambda>d. getnode E (cd_nodeid d))))))"

definition hash_invalidate :: "('s, 'h) env \<Rightarrow> string \<Rightarrow> ('s, 'h, 'z, unit) pop" where
  "hash_invalidate E path =
     andthen pc_lock
     (andthen (handle
        (bind (gets (\<lambda>w. pc_paths (pcache w) (join ''/'' '''' (tokenize ''/'' path)))) (\<lambda>it.
           case it of None \<Rightarrow> ret () | Some a \<Rightarrow> upd_pc_opt (del_entry a)))
        (\<lambda>e. andthen pc_unlock (throw e)))
     pc_unlock)"

end
