(* ===== verification/PathCache_Laws.thy ===== *)
theory PathCache_Laws
  imports PathCache
begin

text \<open>
  The invariant of the path cache and what its operations do. \<open>pc_ok K stk\<close> holds of a
  cache in the middle of a lookup that has inserted the entries \<open>stk\<close> and not initialised
  them yet; between operations the stack is empty. \<open>K\<close> is what is known of the data of an
  initialised entry: nothing for the structural invariant, agreement with the databases for
  coherence. What lookups do is in \<open>PathCache_Lookup\<close>.
\<close>

section \<open>The invariant\<close>

abbreviation path_of :: "string list \<Rightarrow> string" where
  "path_of ts \<equiv> join ''/'' '''' ts"

definition good_toks :: "string list \<Rightarrow> bool" where
  "good_toks ts \<longleftrightarrow> (\<forall>t \<in> set ts. t \<noteq> [] \<and> (\<forall>x \<in> set t. x \<notin> set ''/''))"

lemma good_toks_tokenize [simp]: "good_toks (tokenize ''/'' path)"
  using tokens_parts [of _ "''/''" path] by (auto simp: good_toks_def tokenize_tokens)

lemma good_toks_sub: "good_toks ts \<Longrightarrow> set us \<subseteq> set ts \<Longrightarrow> good_toks us"
  by (auto simp: good_toks_def)

lemma good_toks_butlast [intro]: "good_toks ts \<Longrightarrow> good_toks (butlast ts)"
  by (erule good_toks_sub) (auto dest: in_set_butlastD)

lemma good_toks_take [intro]: "good_toks ts \<Longrightarrow> good_toks (take n ts)"
  by (erule good_toks_sub) (auto dest: in_set_takeD)

lemma tokens_path_of: "good_toks ts \<Longrightarrow> tokens ''/'' (path_of ts) = ts"
  unfolding good_toks_def by (rule tokens_join) auto

lemma path_of_inject: "good_toks ts \<Longrightarrow> good_toks us \<Longrightarrow> path_of ts = path_of us \<longleftrightarrow> ts = us"
  using tokens_path_of by metis

text \<open>The parent of an initialised entry is invalid, or the entry of the parent directory.\<close>

definition parent_ok :: "pcache \<Rightarrow> string list \<Rightarrow> nat option \<Rightarrow> bool" where
  "parent_ok c ts parent \<longleftrightarrow>
     (case parent of None \<Rightarrow> ts = []
      | Some p \<Rightarrow> ts \<noteq> [] \<and> p < pc_next c \<and>
          (\<forall>d. pc_heap c p = Some d \<longrightarrow> p \<in> set (pc_queue c) \<and> cd_path d = path_of (butlast ts)))"

definition entry_ok :: "(string list \<Rightarrow> cdata \<Rightarrow> bool) \<Rightarrow> pcache \<Rightarrow> cdata \<Rightarrow> bool" where
  "entry_ok K c d \<longleftrightarrow>
     (\<exists>ts. good_toks ts \<and> cd_path d = path_of ts \<and> K ts d \<and> parent_ok c ts (cd_parent d))"

definition pc_ok :: "(string list \<Rightarrow> cdata \<Rightarrow> bool) \<Rightarrow> (string \<times> nat) list \<Rightarrow> pcache \<Rightarrow> bool" where
  "pc_ok K stk c \<longleftrightarrow>
     distinct (pc_queue c) \<and> pc_n c = int (length (pc_queue c))
   \<and> distinct (map snd stk) \<and> set (pc_queue c) \<inter> snd ` set stk = {}
   \<and> dom (pc_heap c) = set (pc_queue c) \<union> snd ` set stk
   \<and> (\<forall>a \<in> dom (pc_heap c). a < pc_next c)
   \<and> (\<forall>p a. pc_paths c p = Some a \<longleftrightarrow> (p, a) \<in> set stk \<or>
        a \<in> set (pc_queue c) \<and> (\<exists>d. pc_heap c a = Some d \<and> cd_path d = p))
   \<and> (\<forall>a \<in> set (pc_queue c). \<forall>d. pc_heap c a = Some d \<longrightarrow> entry_ok K c d)"

lemma pc_okD:
  assumes "pc_ok K stk c"
  shows "distinct (pc_queue c)" and "pc_n c = int (length (pc_queue c))"
    and "distinct (map snd stk)" and "set (pc_queue c) \<inter> snd ` set stk = {}"
    and "dom (pc_heap c) = set (pc_queue c) \<union> snd ` set stk"
    and "\<And>a. a \<in> dom (pc_heap c) \<Longrightarrow> a < pc_next c"
    and "\<And>p a. pc_paths c p = Some a \<longleftrightarrow> (p, a) \<in> set stk \<or>
        a \<in> set (pc_queue c) \<and> (\<exists>d. pc_heap c a = Some d \<and> cd_path d = p)"
    and "\<And>a d. a \<in> set (pc_queue c) \<Longrightarrow> pc_heap c a = Some d \<Longrightarrow> entry_ok K c d"
  using assms unfolding pc_ok_def by blast+

lemma pc_okI:
  assumes "distinct (pc_queue c)" and "pc_n c = int (length (pc_queue c))"
    and "distinct (map snd stk)" and "set (pc_queue c) \<inter> snd ` set stk = {}"
    and "dom (pc_heap c) = set (pc_queue c) \<union> snd ` set stk"
    and "\<And>a. a \<in> dom (pc_heap c) \<Longrightarrow> a < pc_next c"
    and "\<And>p a. pc_paths c p = Some a \<longleftrightarrow> (p, a) \<in> set stk \<or>
        a \<in> set (pc_queue c) \<and> (\<exists>d. pc_heap c a = Some d \<and> cd_path d = p)"
    and "\<And>a d. a \<in> set (pc_queue c) \<Longrightarrow> pc_heap c a = Some d \<Longrightarrow> entry_ok K c d"
  shows "pc_ok K stk c"
  unfolding pc_ok_def using assms by (intro conjI ballI allI impI)

lemma pc_ok_new: "pc_ok K [] new_pcache"
  by (simp add: pc_ok_def new_pcache_def)

lemma parent_ok_locked [simp]: "parent_ok (c\<lparr>pc_locked := b\<rparr>) ts p = parent_ok c ts p"
  by (cases p) (simp_all add: parent_ok_def)

lemma entry_ok_locked [simp]: "entry_ok K (c\<lparr>pc_locked := b\<rparr>) d = entry_ok K c d"
  by (simp add: entry_ok_def)

lemma pc_ok_locked [simp]: "pc_ok K stk (c\<lparr>pc_locked := b\<rparr>) = pc_ok K stk c"
  by (simp add: pc_ok_def)

lemma pc_ok_weaken:
  assumes "pc_ok K stk c" and "\<And>ts d. K ts d \<Longrightarrow> K' ts d"
  shows "pc_ok K' stk c"
proof -
  have "entry_ok K' c d" if "entry_ok K c d" for d
    using that assms(2) unfolding entry_ok_def by blast
  then show ?thesis using assms(1) by (simp add: pc_ok_def)
qed

section \<open>Changes of the cache\<close>

definition push_path :: "string \<Rightarrow> pcache \<Rightarrow> pcache" where
  "push_path p c = c\<lparr>pc_paths := (pc_paths c)(p \<mapsto> pc_next c), pc_heap := (pc_heap c)(pc_next c \<mapsto> blank),
     pc_next := Suc (pc_next c)\<rparr>"

lemma entry_ok_push:
  assumes "entry_ok K c d" and "\<And>a. a \<in> dom (pc_heap c) \<Longrightarrow> a < pc_next c"
  shows "entry_ok K (push_path p c) d"
  using assms unfolding entry_ok_def parent_ok_def push_path_def
  by (fastforce split: option.splits)

lemma pc_ok_push:
  assumes ok: "pc_ok K stk c" and "pc_paths c p = None"
  shows "pc_ok K ((p, pc_next c) # stk) (push_path p c)"
proof (rule pc_okI)
  note D = pc_okD [OF ok]
  have fresh: "pc_next c \<notin> set (pc_queue c) \<union> snd ` set stk"
    using D(5,6) by blast
  then have heap: "pc_heap c (pc_next c) = None" using D(5) by blast
  show "pc_paths (push_path p c) q = Some a \<longleftrightarrow> (q, a) \<in> set ((p, pc_next c) # stk) \<or>
        a \<in> set (pc_queue (push_path p c)) \<and>
        (\<exists>d. pc_heap (push_path p c) a = Some d \<and> cd_path d = q)" for q a
    using D(7) [of q a] assms(2) fresh by (auto simp: push_path_def)
  show "entry_ok K (push_path p c) d"
    if "a \<in> set (pc_queue (push_path p c))" and "pc_heap (push_path p c) a = Some d" for a d
  proof -
    have "entry_ok K c d" using that fresh D(8) [of a d] by (auto simp: push_path_def split: if_splits)
    then show ?thesis using D(6) by (rule entry_ok_push)
  qed
  show "a < pc_next (push_path p c)" if "a \<in> dom (pc_heap (push_path p c))" for a
    using that D(6) [of a] by (auto simp: push_path_def less_Suc_eq split: if_splits)
qed (use pc_okD [OF ok] in \<open>auto simp: push_path_def\<close>)

text \<open>Initialising the entry on the top of the stack.\<close>

definition init_cell :: "nat \<Rightarrow> cdata \<Rightarrow> pcache \<Rightarrow> pcache" where
  "init_cell a d c = c\<lparr>pc_heap := (pc_heap c)(a \<mapsto> d), pc_queue := pc_queue c @ [a], pc_n := pc_n c + 1\<rparr>"

lemma parent_ok_init:
  assumes "parent_ok c ts parent" and "a \<notin> set (pc_queue c)" and "a \<in> dom (pc_heap c)"
  shows "parent_ok (init_cell a d c) ts parent"
  using assms unfolding parent_ok_def init_cell_def by (force split: option.splits)

lemma pc_ok_init:
  assumes ok: "pc_ok K ((p, a) # stk) c" and ts: "good_toks ts" "p = path_of ts" "cd_path d = p" "K ts d"
    and parent: "parent_ok c ts (cd_parent d)"
  shows "pc_ok K stk (init_cell a d c)"
proof (rule pc_okI)
  note D = pc_okD [OF ok]
  have a: "a \<notin> set (pc_queue c)" "a \<notin> snd ` set stk" "a \<in> dom (pc_heap c)"
    using D(3-5) by auto
  have uniq: "q = p" if "pc_paths c q = Some a" for q
    using that D(7) [of q a] a by force
  show "pc_paths (init_cell a d c) q = Some b \<longleftrightarrow> (q, b) \<in> set stk \<or>
        b \<in> set (pc_queue (init_cell a d c)) \<and>
        (\<exists>d'. pc_heap (init_cell a d c) b = Some d' \<and> cd_path d' = q)" for q b
    using D(7) [of q b] a ts(3) by (force simp: init_cell_def)
  show "entry_ok K (init_cell a d c) d'"
    if "b \<in> set (pc_queue (init_cell a d c))" and "pc_heap (init_cell a d c) b = Some d'" for b d'
  proof (cases "b = a")
    case True
    then have "d' = d" using that by (simp add: init_cell_def)
    then show ?thesis
      using ts parent_ok_init [OF parent a(1,3)] unfolding entry_ok_def by blast
  next
    case False
    then have "entry_ok K c d'" using that D(8) [of b d'] by (auto simp: init_cell_def)
    then show ?thesis
      using parent_ok_init [OF _ a(1,3)] unfolding entry_ok_def by blast
  qed
  show "b < pc_next (init_cell a d c)" if "b \<in> dom (pc_heap (init_cell a d c))" for b
    using that D(6) [of b] a(3) by (auto simp: init_cell_def split: if_splits)
qed (use pc_okD [OF ok] in \<open>auto simp: init_cell_def\<close>)

text \<open>Dropping the entry on the top of the stack.\<close>

definition drop_cell :: "string \<Rightarrow> nat \<Rightarrow> pcache \<Rightarrow> pcache" where
  "drop_cell p a c = c\<lparr>pc_paths := (pc_paths c)(p := None), pc_heap := (pc_heap c)(a := None)\<rparr>"

lemma pc_ok_drop:
  assumes ok: "pc_ok K ((p, a) # stk) c"
  shows "pc_ok K stk (drop_cell p a c)"
proof (rule pc_okI)
  note D = pc_okD [OF ok]
  have a: "a \<notin> set (pc_queue c)" "a \<notin> snd ` set stk" using D(3,4) by auto
  have pa: "pc_paths c p = Some a" using D(7) by simp
  show "pc_paths (drop_cell p a c) q = Some b \<longleftrightarrow> (q, b) \<in> set stk \<or>
        b \<in> set (pc_queue (drop_cell p a c)) \<and>
        (\<exists>d. pc_heap (drop_cell p a c) b = Some d \<and> cd_path d = q)" for q b
    using D(7) [of q b] a pa by (force simp: drop_cell_def)
  show "entry_ok K (drop_cell p a c) d"
    if "b \<in> set (pc_queue (drop_cell p a c))" and "pc_heap (drop_cell p a c) b = Some d" for b d
  proof -
    have "entry_ok K c d" using that D(8) [of b d] by (auto simp: drop_cell_def split: if_splits)
    then show ?thesis
      unfolding entry_ok_def parent_ok_def drop_cell_def by (fastforce split: option.splits)
  qed
qed (use pc_okD [OF ok] in \<open>auto simp: drop_cell_def\<close>)

lemma pc_ok_drop_entries: "pc_ok K stk c \<Longrightarrow> pc_ok K [] (drop_entries stk c)"
proof (induction stk arbitrary: c)
  case (Cons x stk)
  then show ?case using pc_ok_drop [of K "fst x" "snd x" stk c] by (simp add: drop_cell_def)
qed simp

text \<open>Removing an entry of the queue.\<close>

lemma del_entry_ok:
  assumes ok: "pc_ok K [] c" and a: "a \<in> set (pc_queue c)"
  shows "\<exists>c'. del_entry a c = Some c' \<and> pc_ok K [] c' \<and> pc_queue c' = remove1 a (pc_queue c)
     \<and> pc_heap c' = (pc_heap c)(a := None) \<and> pc_max c' = pc_max c \<and> pc_n c' = pc_n c - 1
     \<and> pc_locked c' = pc_locked c"
proof -
  note D = pc_okD [OF ok]
  obtain d where d: "pc_heap c a = Some d" using D(5) a by auto
  let ?c = "c\<lparr>pc_queue := remove1 a (pc_queue c), pc_paths := (pc_paths c)(cd_path d := None),
      pc_heap := (pc_heap c)(a := None), pc_n := pc_n c - 1\<rparr>"
  have q: "set (remove1 a (pc_queue c)) = set (pc_queue c) - {a}" using D(1) by simp
  have pa: "pc_paths c (cd_path d) = Some a" using D(7) d a by auto
  have "pc_ok K [] ?c"
  proof (rule pc_okI)
    show "pc_n ?c = int (length (pc_queue ?c))"
      using D(2) length_remove1_mem [OF a] by simp
    show "pc_paths ?c p = Some b \<longleftrightarrow> (p, b) \<in> set [] \<or>
        b \<in> set (pc_queue ?c) \<and> (\<exists>d. pc_heap ?c b = Some d \<and> cd_path d = p)" for p b
    proof (cases "b = a")
      case True
      then show ?thesis using D(7) [of p a] d by auto
    next
      case False
      then show ?thesis using D(7) [of p b] pa by (auto simp: q)
    qed
    show "entry_ok K ?c d'" if "b \<in> set (pc_queue ?c)" and "pc_heap ?c b = Some d'" for b d'
    proof -
      have "entry_ok K c d'" using that D(8) [of b d'] q by (auto split: if_splits)
      then show ?thesis
        unfolding entry_ok_def parent_ok_def using q by (fastforce split: option.splits)
    qed
  qed (use D q in auto)
  then show ?thesis using d by (simp add: del_entry_def)
qed

text \<open>Moving an entry to the back of the queue.\<close>

lemma pc_ok_promote:
  assumes ok: "pc_ok K [] c" and a: "a \<in> set (pc_queue c)"
  shows "pc_ok K [] (c\<lparr>pc_queue := remove1 a (pc_queue c) @ [a]\<rparr>)" (is "pc_ok K [] ?c")
proof (rule pc_okI)
  note D = pc_okD [OF ok]
  have q: "set (pc_queue ?c) = set (pc_queue c)" using D(1) a by auto
  show "pc_n ?c = int (length (pc_queue ?c))"
    using D(2) length_remove1_mem [OF a] by simp
  show "pc_paths ?c p = Some b \<longleftrightarrow> (p, b) \<in> set [] \<or>
      b \<in> set (pc_queue ?c) \<and> (\<exists>d. pc_heap ?c b = Some d \<and> cd_path d = p)" for p b
    using D(7) [of p b] q by auto
  show "entry_ok K ?c d" if "b \<in> set (pc_queue ?c)" and "pc_heap ?c b = Some d" for b d
  proof -
    have "entry_ok K c d" using that(2) D(8) [of b d] that(1) unfolding q by simp
    then show ?thesis unfolding entry_ok_def parent_ok_def q by (simp cong: option.case_cong)
  qed
qed (use pc_okD [OF ok] a in auto)

text \<open>Repairing the pointer to an invalid parent.\<close>

lemma pc_ok_set_parent:
  assumes ok: "pc_ok K [] c" and K: "\<And>ts d p. K ts (d\<lparr>cd_parent := p\<rparr>) = K ts d"
    and a: "pc_heap c a = Some d" "good_toks ts" "cd_path d = path_of ts" and "parent_ok c ts (Some p)"
  shows "pc_ok K [] (set_parent a p c)" (is "pc_ok K [] ?c")
proof (rule pc_okI)
  note D = pc_okD [OF ok]
  have parent: "parent_ok ?c us q" if "parent_ok c us q" for us q
    using that unfolding parent_ok_def set_parent_def by (fastforce split: option.splits)
  show "pc_paths ?c q = Some b \<longleftrightarrow> (q, b) \<in> set [] \<or>
      b \<in> set (pc_queue ?c) \<and> (\<exists>d. pc_heap ?c b = Some d \<and> cd_path d = q)" for q b
    using D(7) [of q b] a by (auto simp: set_parent_def)
  show "entry_ok K ?c d'" if "b \<in> set (pc_queue ?c)" and "pc_heap ?c b = Some d'" for b d'
  proof (cases "b = a")
    case True
    have "entry_ok K c d" using that True a D(8) [of a d] by (simp add: set_parent_def)
    then have "K ts d" using a path_of_inject unfolding entry_ok_def by metis
    moreover have "d' = d\<lparr>cd_parent := Some p\<rparr>" using that True a by (simp add: set_parent_def)
    ultimately show ?thesis
      using a parent [OF assms(6)] K unfolding entry_ok_def by auto
  next
    case False
    then have "entry_ok K c d'" using that D(8) [of b d'] by (simp add: set_parent_def)
    then show ?thesis using parent unfolding entry_ok_def by blast
  qed
qed (use pc_okD [OF ok] a in \<open>auto simp: set_parent_def\<close>)

text \<open>Eviction keeps the entries at the back of the queue.\<close>

lemma evict_ok:
  assumes "pc_ok K [] c" and "0 \<le> pc_max c"
  shows "\<exists>c' k. evict c = Some c' \<and> pc_ok K [] c' \<and> pc_n c' = min (pc_n c) (pc_max c)
     \<and> pc_max c' = pc_max c \<and> pc_locked c' = pc_locked c \<and> pc_queue c' = drop k (pc_queue c)
     \<and> (\<forall>a \<in> set (pc_queue c'). pc_heap c' a = pc_heap c a)"
  using assms
proof (induction c rule: evict.induct)
  case (1 c)
  note D = pc_okD [OF "1.prems"(1)]
  show ?case
  proof (cases "pc_max c < pc_n c")
    case False
    then show ?thesis using "1.prems" by (simp add: evict.simps exI [of _ 0])
  next
    case True
    then obtain a q where q: "pc_queue c = a # q"
      using "1.prems"(2) D(2) by (cases "pc_queue c") auto
    obtain c1 where c1: "del_entry a c = Some c1" "pc_ok K [] c1" "pc_queue c1 = q"
      "pc_heap c1 = (pc_heap c)(a := None)" "pc_max c1 = pc_max c" "pc_n c1 = pc_n c - 1"
      "pc_locked c1 = pc_locked c"
      using del_entry_ok [OF "1.prems"(1), of a] q by auto
    have max: "0 \<le> pc_max c1" using c1(5) "1.prems"(2) by simp
    obtain c' k where c': "evict c1 = Some c'" "pc_ok K [] c'" "pc_n c' = min (pc_n c1) (pc_max c1)"
      "pc_max c' = pc_max c1" "pc_locked c' = pc_locked c1" "pc_queue c' = drop k (pc_queue c1)"
      "\<forall>a \<in> set (pc_queue c'). pc_heap c' a = pc_heap c1 a"
      using "1.IH" [OF True q c1(1,2) max] by blast
    have "a \<notin> set (pc_queue c')"
      using D(1) q c'(6) c1(3) in_set_dropD by fastforce
    then have "\<forall>b \<in> set (pc_queue c'). pc_heap c' b = pc_heap c b"
      using c'(7) c1(4) by auto
    moreover have "evict c = Some c'" using True q c1(1) c'(1) by (subst evict.simps) simp
    moreover have "pc_queue c' = drop (Suc k) (pc_queue c)" using c'(6) c1(3) q by simp
    ultimately show ?thesis using c' c1 True by (intro exI [of _ c'] exI [of _ "Suc k"]) auto
  qed
qed

end
