(* ===== verification/PathCache_Lookup.thy ===== *)
theory PathCache_Lookup
  imports PathCache_Laws
begin

text \<open>
  Lookups through the path cache, for any promise \<open>K\<close> about the data of its entries that
  reading an entry establishes: the locale \<open>cache_content\<close> is the interface between the structure of the
  cache and what it holds. A lookup adds entries and keeps those that are there.
\<close>

section \<open>Reading the data of an entry\<close>

lemma pcache_fields [simp]:
  "attr E (w\<lparr>pcache := c\<rparr>) = attr E w" "wattr E (w\<lparr>pcache := c\<rparr>) = wattr E w"
  by (simp_all add: attr_def wattr_def fun_eq_iff)

lemma upd_pc_apply [simp]: "upd_pc f w = (Inr (), w\<lparr>pcache := f (pcache w)\<rparr>)"
  by (simp add: upd_pc_def)

text \<open>What \<open>init_entry\<close> reads, before it stores it.\<close>

definition init_read :: "('s, 'h) env \<Rightarrow> (nat \<times> nodeid) option \<Rightarrow> string list \<Rightarrow> ('s, 'h, 'z, cdata) op" where
  "init_read E par toks =
     bind (case par of
         Some (p, i) \<Rightarrow>
           bind (getnode E i) (\<lambda>pn.
           bind (cast KDirectory pn) (\<lambda>d.
           bind (getchild E d (last toks)) (\<lambda>n. ret (join ''/'' '''' toks, n))))
       | None \<Rightarrow> bind (getnode E 0) (\<lambda>n. ret ('''', n))) (\<lambda>(path, n).
     bind (getattr E DNodes (nid n) A_uid) (\<lambda>uid.
     bind (getattr E DNodes (nid n) A_gid) (\<lambda>gid.
     bind (getattr E DNodes (nid n) A_mode) (\<lambda>mode.
     ret \<lparr>cd_path = path, cd_nodeid = nid n, cd_parent = map_option fst par,
       cd_uid = uid, cd_gid = gid, cd_mode = mode\<rparr>))))"

lemma safe_init_read: "safe (init_read E par toks)"
  unfolding init_read_def by (intro safe_rules)

lemma init_read_Inl:
  assumes "init_read E par toks w = (Inl e, w')"
  shows "e \<noteq> EStuck"
  using safeD(2) [OF safe_init_read assms] by simp

lemma init_read_fields:
  assumes "lawful E" and "init_read E par toks w = (Inr d, w')"
  shows "cd_path d = (case par of None \<Rightarrow> '''' | Some _ \<Rightarrow> join ''/'' '''' toks)"
    and "cd_parent d = map_option fst par"
  using assms(2) unfolding init_read_def
  by (auto simp: bind_result split: option.splits prod.splits)

lemma init_cell_eq: "init_cell a d = (\<lambda>c. c\<lparr>pc_heap := (pc_heap c)(a \<mapsto> d), pc_queue := pc_queue c @ [a], pc_n := pc_n c + 1\<rparr>)"
  by (simp add: init_cell_def fun_eq_iff)

lemma init_entry_root:
  "init_entry E a None toks = bind (init_read E None toks) (\<lambda>d. upd_pc (init_cell a d))"
  by (simp add: init_entry_def init_read_def init_cell_eq bind_assoc del: upd_pc_apply)

lemma init_entry_child:
  "init_entry E a (Some p) toks =
     bind (deref p) (\<lambda>pd. bind (init_read E (Some (p, cd_nodeid pd)) toks) (\<lambda>d. upd_pc (init_cell a d)))"
  by (simp add: init_entry_def init_read_def init_cell_eq bind_assoc del: upd_pc_apply)

section \<open>Lookups\<close>

text \<open>The search permission that the data of an entry grants.\<close>

definition search_ok :: "scontext \<Rightarrow> cdata \<Rightarrow> bool" where
  "search_ok sctx d \<longleftrightarrow> suid sctx = 0 \<or>
     (if cd_uid d = suid sctx then and (cd_mode d) S_IXUSR \<noteq> 0
      else if cd_gid d \<in> sgroups sctx then and (cd_mode d) S_IXGRP \<noteq> 0
      else and (cd_mode d) S_IXOTH \<noteq> 0)"

lemma check_access_eq:
  "pc_heap (pcache w) a = Some d \<Longrightarrow>
     check_access sctx a w = (if search_ok sctx d then Inr () else Inl EAccess, w)"
  by (auto simp: check_access_def deref_def search_ok_def whenM_def bind_def)

text \<open>How a lookup changes the cache: it appends entries to the queue and keeps the others.\<close>

definition grows :: "pcache \<Rightarrow> pcache \<Rightarrow> bool" where
  "grows c c' \<longleftrightarrow>
     (\<exists>new. pc_queue c' = pc_queue c @ new) \<and> (\<forall>b \<in> set (pc_queue c). pc_heap c' b = pc_heap c b)
   \<and> pc_next c \<le> pc_next c' \<and> pc_max c' = pc_max c \<and> pc_locked c' = pc_locked c"

lemma grows_refl [simp]: "grows c c"
  by (simp add: grows_def)

lemma grows_trans: "grows c c1 \<Longrightarrow> grows c1 c2 \<Longrightarrow> grows c c2"
  unfolding grows_def by auto

lemma grows_push: "pc_ok K stk c \<Longrightarrow> grows c (push_path p c)"
  using pc_okD(5,6) [of K stk c] by (fastforce simp: grows_def push_path_def)

lemma grows_init: "a \<notin> set (pc_queue c) \<Longrightarrow> grows c (init_cell a d c)"
  by (auto simp: grows_def init_cell_def)

lemma grows_drop: "snd ` set stk \<inter> set (pc_queue c) = {} \<Longrightarrow> grows c (drop_entries stk c)"
proof (induction stk arbitrary: c)
  case (Cons x stk)
  let ?c = "drop_cell (fst x) (snd x) c"
  have "grows c ?c" using Cons.prems by (auto simp: grows_def drop_cell_def)
  moreover have "grows ?c (drop_entries stk ?c)"
    by (rule Cons.IH) (use Cons.prems in \<open>auto simp: drop_cell_def\<close>)
  ultimately show ?case by (simp add: drop_cell_def) (rule grows_trans)
qed simp

lemma drop_entries_grows: "pc_ok K stk c \<Longrightarrow> grows c (drop_entries stk c)"
  using pc_okD(4) [of K stk c] by (intro grows_drop) auto

text \<open>The entries above \<open>toks\<close> on the stack of a lookup of \<open>full\<close>.\<close>

definition stack_of :: "string list \<Rightarrow> string list \<Rightarrow> (string \<times> nat) list \<Rightarrow> bool" where
  "stack_of full toks cens \<longleftrightarrow>
     toks = take (length toks) full
   \<and> map fst cens = map (\<lambda>j. path_of (take j full)) [Suc (length toks)..<Suc (length full)]"

lemma stack_of_full: "stack_of full full []"
  by (simp add: stack_of_def)

lemma stack_of_climb:
  assumes "stack_of full toks cens" and "toks \<noteq> []"
  shows "stack_of full (butlast toks) ((path_of toks, a) # cens)"
proof -
  let ?n = "length toks"
  have "?n \<le> length full" using assms(1) by (metis length_take min.cobounded1 stack_of_def)
  moreover have "0 < ?n" using assms(2) by simp
  ultimately have "[?n..<Suc (length full)] = ?n # [Suc ?n..<Suc (length full)]"
    by (simp add: upt_rec)
  moreover have "butlast toks = take (?n - 1) full"
    using assms(1) \<open>?n \<le> length full\<close> by (metis butlast_take stack_of_def)
  ultimately show ?thesis
    using assms(1) \<open>0 < ?n\<close> \<open>?n \<le> length full\<close> by (auto simp: stack_of_def)
qed

lemma stack_of_fill:
  assumes "stack_of full toks ((p, a) # cens)"
  defines "toks' \<equiv> take (Suc (length toks)) full"
  shows "p = path_of toks'" and "stack_of full toks' cens" and "toks' \<noteq> []" and "butlast toks' = toks"
proof -
  let ?n = "length toks"
  have m: "p # map fst cens = map (\<lambda>j. path_of (take j full)) [Suc ?n..<Suc (length full)]"
    using assms(1) by (simp add: stack_of_def)
  then have n: "Suc ?n < Suc (length full)" by (cases "Suc ?n < Suc (length full)") auto
  then have "[Suc ?n..<Suc (length full)] = Suc ?n # [Suc (Suc ?n)..<Suc (length full)]"
    by (rule upt_conv_Cons)
  with m n show "p = path_of toks'" and "stack_of full toks' cens" and "toks' \<noteq> []"
    by (auto simp: toks'_def stack_of_def simp del: upt_Suc)
  show "butlast toks' = toks"
    using assms(1) n by (simp add: toks'_def butlast_take stack_of_def)
qed

lemma stack_of_nil:
  assumes "stack_of full toks []"
  shows "toks = full"
proof -
  have "[Suc (length toks)..<Suc (length full)] = []" and t: "toks = take (length toks) full"
    using assms by (auto simp: stack_of_def simp del: upt_Suc)
  then have "length full \<le> length toks" by (metis Suc_le_mono upt_eq_Nil_conv bot_nat_0.not_eq_extremum not_less_eq_eq zero_less_Suc)
  then show ?thesis using t by (metis take_all)
qed

section \<open>Computations that neither see nor change the cache\<close>

named_theorems blind_rules

definition blind :: "('s, 'h, 'z, 'a) pop \<Rightarrow> bool" where
  "blind m \<longleftrightarrow> (\<forall>w c. m (w\<lparr>pcache := c\<rparr>) = (fst (m w), w\<lparr>pcache := c\<rparr>))"

lemma blindD: "blind m \<Longrightarrow> m (w\<lparr>pcache := c\<rparr>) = (fst (m w), w\<lparr>pcache := c\<rparr>)"
  by (simp add: blind_def)

lemma blind_state: "blind m \<Longrightarrow> m w = (fst (m w), w)"
  using blindD [of m "pcache w" w] by simp

lemma blind_ret [blind_rules]: "blind (ret a)" and blind_throw [blind_rules]: "blind (throw e)"
  by (simp_all add: blind_def)

lemma blind_bind [blind_rules]:
  fixes m :: "('s, 'h, 'z, 'a) pop"
  assumes "blind m" and "\<And>a. blind (f a)"
  shows "blind (bind m f)"
  unfolding blind_def
proof (intro allI)
  fix w :: "('s, 'h, 'z) pworld_scheme" and c
  show "bind m f (w\<lparr>pcache := c\<rparr>) = (fst (bind m f w), w\<lparr>pcache := c\<rparr>)"
  proof (cases "fst (m w)")
    case (Inl e)
    then show ?thesis
      using blindD [OF assms(1), of c w] blind_state [OF assms(1), of w] by simp
  next
    case (Inr a)
    then show ?thesis
      using blindD [OF assms(1), of c w] blind_state [OF assms(1), of w] blindD [OF assms(2), of a c w]
      by simp
  qed
qed

lemma blind_andthen [blind_rules]: "blind m \<Longrightarrow> blind k \<Longrightarrow> blind (andthen m k)"
  unfolding andthen_def by (rule blind_bind)

lemma blind_handle [blind_rules]:
  fixes m :: "('s, 'h, 'z, 'a) pop"
  assumes "blind m" and "\<And>e. blind (h e)"
  shows "blind (handle m h)"
  unfolding blind_def
proof (intro allI)
  fix w :: "('s, 'h, 'z) pworld_scheme" and c
  show "handle m h (w\<lparr>pcache := c\<rparr>) = (fst (handle m h w), w\<lparr>pcache := c\<rparr>)"
  proof (cases "fst (m w)")
    case (Inr a)
    then show ?thesis
      using blindD [OF assms(1), of c w] blind_state [OF assms(1), of w] by simp
  next
    case (Inl e)
    then have "m (w\<lparr>pcache := c\<rparr>) = (Inl e, w\<lparr>pcache := c\<rparr>)" and "m w = (Inl e, w)"
      using blindD [OF assms(1), of c w] blind_state [OF assms(1), of w] by simp_all
    then show ?thesis
      using blindD [OF assms(2), of e c w] by (simp add: handle_def)
  qed
qed

lemma blind_whenM [blind_rules]: "blind m \<Longrightarrow> blind (whenM b m)"
  by (simp add: whenM_def blind_ret)

lemma blind_if [blind_rules]: "blind m \<Longrightarrow> blind k \<Longrightarrow> blind (if b then m else k)"
  by simp

lemma blind_option [blind_rules]:
  "blind m \<Longrightarrow> (\<And>a. blind (f a)) \<Longrightarrow> blind (case r of None \<Rightarrow> m | Some a \<Rightarrow> f a)"
  by (simp split: option.split)

lemma blind_prod [blind_rules]: "(\<And>a b. blind (f a b)) \<Longrightarrow> blind (case r of (a, b) \<Rightarrow> f a b)"
  by (simp split: prod.split)

lemma blind_getattrv [blind_rules]: "blind (getattrv E d i n)"
  by (auto simp: blind_def getattrv_def split: sum.split dberr.split)

lemma blind_getattr [blind_rules]: "blind (getattr E d i n)"
  unfolding getattr_def by (intro blind_rules)

lemma blind_on_missing [blind_rules]: "blind k \<Longrightarrow> blind (on_missing b k e)"
  by (auto simp: on_missing_def intro: blind_throw split: exn.split)

lemma blind_getnode [blind_rules]: "blind (getnode E i)"
  unfolding getnode_def by (intro blind_rules)

lemma blind_getchild [blind_rules]: "blind (getchild E d n)"
  unfolding getchild_def by (intro blind_rules)

lemma blind_cast [blind_rules]: "blind (cast k n)"
  unfolding cast_def by (intro blind_rules)

lemma blind_access [blind_rules]: "blind (access E sctx n mode)"
  unfolding access_def by (intro blind_rules)

lemma blind_null_walk [blind_rules]: "blind (null_walk E sctx ts n)"
  by (induction ts arbitrary: n) (simp_all add: blind_rules)

lemma blind_null_getnode [blind_rules]: "blind (null_getnode E sctx path)"
  unfolding null_getnode_def by (intro blind_rules)

lemma blind_init_read [blind_rules]: "blind (init_read E par toks)"
  unfolding init_read_def by (intro blind_rules)

section \<open>Paths that have an entry\<close>

text \<open>The names an entry connects, and a path that has an entry for the node \<open>i\<close>.\<close>

definition names_of :: "cdata \<Rightarrow> string \<times> nodeid" where
  "names_of d = (cd_path d, cd_nodeid d)"

lemma names_of_parent [simp]: "names_of (d\<lparr>cd_parent := q\<rparr>) = names_of d"
  by (simp add: names_of_def)

definition cached :: "pcache \<Rightarrow> string \<Rightarrow> nodeid \<Rightarrow> bool" where
  "cached c path i \<longleftrightarrow> (\<exists>b \<in> set (pc_queue c). map_option names_of (pc_heap c b) = Some (path_of (tokenize ''/'' path), i))"

section \<open>The interface of the contents\<close>

text \<open>
  \<open>K E w ts d\<close> is what the cache promises of the data of the entry for the tokens \<open>ts\<close>.
  It must not depend on the cache itself nor on the pointer to the parent, and reading an
  entry must establish it.
\<close>

locale cache_content =
  fixes K :: "('s, 'h) env \<Rightarrow> ('s, 'h, 'z) pworld_scheme \<Rightarrow> string list \<Rightarrow> cdata \<Rightarrow> bool"
  assumes K_cache: "K E (w\<lparr>pcache := c\<rparr>) = K E w"
    and K_parent: "K E w ts (d\<lparr>cd_parent := q\<rparr>) = K E w ts d"
    and K_root: "lawful E \<Longrightarrow> init_read E None [] w = (Inr d, w) \<Longrightarrow> K E w [] d"
    and K_child: "lawful E \<Longrightarrow> ts \<noteq> [] \<Longrightarrow> K E w (butlast ts) pd \<Longrightarrow>
        init_read E (Some (p, cd_nodeid pd)) ts w = (Inr d, w) \<Longrightarrow> K E w ts d"
begin

text \<open>Reading the entry of \<open>ts\<close> throws.\<close>

definition fails :: "('s, 'h) env \<Rightarrow> ('s, 'h, 'z) pworld_scheme \<Rightarrow> string list \<Rightarrow> bool" where
  "fails E w ts \<longleftrightarrow>
     (if ts = [] then isl (fst (init_read E None [] w))
      else \<exists>p pd. K E w (butlast ts) pd \<and> isl (fst (init_read E (Some (p, cd_nodeid pd)) ts w)))"

lemma fails_cache [simp]: "fails E (w\<lparr>pcache := c\<rparr>) = fails E w"
  unfolding fails_def by (rule ext) (simp add: K_cache blindD [OF blind_init_read])

definition entry_at :: "pcache \<Rightarrow> nat \<Rightarrow> string list \<Rightarrow> bool" where
  "entry_at c a ts \<longleftrightarrow> a \<in> set (pc_queue c) \<and> (\<exists>d. pc_heap c a = Some d \<and> cd_path d = path_of ts)"

lemma entry_at_grows: "entry_at c a ts \<Longrightarrow> grows c c' \<Longrightarrow> entry_at c' a ts"
  by (auto simp: entry_at_def grows_def)

lemma entry_at_ok:
  assumes "pc_ok (K E w) stk c" and "entry_at c a ts" and "good_toks ts"
  obtains d where "pc_heap c a = Some d" and "cd_path d = path_of ts" and "K E w ts d"
    and "parent_ok c ts (cd_parent d)"
proof -
  obtain d where d: "a \<in> set (pc_queue c)" "pc_heap c a = Some d" "cd_path d = path_of ts"
    using assms(2) by (auto simp: entry_at_def)
  with pc_okD(8) [OF assms(1)] have "entry_ok (K E w) c d" by blast
  then obtain us where "good_toks us" "cd_path d = path_of us" "K E w us d" "parent_ok c us (cd_parent d)"
    by (auto simp: entry_ok_def)
  moreover from this have "us = ts" using d(3) assms(3) path_of_inject by metis
  ultimately show thesis using that d by blast
qed

lemma cleanup_eq:
  "lookup_cleanup cens e w = (Inl e, w\<lparr>pcache := drop_entries cens (pcache w)\<rparr>)"
  by (simp add: lookup_cleanup_def)

lemma climb_spec:
  assumes "lawful E" and "pc_ok (K E w) cens (pcache w)" and "good_toks full" and "stack_of full toks cens"
  shows "\<exists>c. snd (climb E toks cens w) = w\<lparr>pcache := c\<rparr> \<and> grows (pcache w) c \<and>
    (case fst (climb E toks cens w) of
       Inl e \<Rightarrow> e \<noteq> EStuck \<and> pc_ok (K E w) [] c \<and> fails E w []
     | Inr (a, toks0, cens0) \<Rightarrow> pc_ok (K E w) cens0 c \<and> stack_of full toks0 cens0 \<and> entry_at c a toks0)"
  using assms(2,4)
proof (induction "length toks" arbitrary: toks cens w rule: less_induct)
  case less
  let ?c = "pcache w" and ?p = "path_of toks"
  note D = pc_okD [OF less.prems(1)]
  have good: "good_toks toks"
    using less.prems(2) assms(3) by (metis good_toks_take stack_of_def)
  show ?case
  proof (cases "pc_paths ?c ?p")
    case (Some a)
    have "(?p, a) \<notin> set cens"
    proof
      assume "(?p, a) \<in> set cens"
      then have "?p \<in> set (map fst cens)" by force
      moreover have "map fst cens = map (\<lambda>j. path_of (take j full)) [Suc (length toks)..<Suc (length full)]"
        using less.prems(2) by (simp add: stack_of_def del: upt_Suc)
      ultimately obtain j where j: "Suc (length toks) \<le> j" "j \<le> length full" "?p = path_of (take j full)"
        by (auto simp del: upt_Suc)
      then have "toks = take j full"
        using good assms(3) path_of_inject good_toks_take by metis
      then show False using j by (metis Suc_n_not_le_n length_take min.absorb2)
    qed
    then have "entry_at ?c a toks" using D(7) [of ?p a] Some by (auto simp: entry_at_def)
    moreover have "climb E toks cens w = (Inr (a, toks, cens), w)"
      using Some by (subst climb.simps) (simp add: insert_path_def bind_def Let_def)
    ultimately show ?thesis using less.prems by (intro exI [of _ ?c]) simp
  next
    case None
    let ?a = "pc_next ?c" and ?c1 = "push_path ?p ?c"
    let ?w1 = "w\<lparr>pcache := ?c1\<rparr>"
    have ok1: "pc_ok (K E w) ((?p, ?a) # cens) ?c1" by (rule pc_ok_push [OF less.prems(1) None])
    have g1: "grows ?c ?c1" by (rule grows_push [OF less.prems(1)])
    have ins: "insert_path ?p w = (Inr (?a, True), ?w1)"
      using None by (simp add: insert_path_def push_path_def Let_def)
    show ?thesis
    proof (cases "toks = []")
      case False
      have step: "climb E toks cens w = climb E (butlast toks) ((?p, ?a) # cens) ?w1"
        using ins False by (subst climb.simps) (simp add: Let_def)
      have "\<exists>c. snd (climb E (butlast toks) ((?p, ?a) # cens) ?w1) = ?w1\<lparr>pcache := c\<rparr> \<and> grows (pcache ?w1) c \<and>
        (case fst (climb E (butlast toks) ((?p, ?a) # cens) ?w1) of
           Inl e \<Rightarrow> e \<noteq> EStuck \<and> pc_ok (K E ?w1) [] c \<and> fails E ?w1 []
         | Inr (a, toks0, cens0) \<Rightarrow> pc_ok (K E ?w1) cens0 c \<and> stack_of full toks0 cens0 \<and> entry_at c a toks0)"
        by (rule less.hyps) (use False ok1 less.prems(2) in \<open>simp_all add: K_cache stack_of_climb\<close>)
      then show ?thesis
        unfolding step K_cache fails_cache using g1 by (auto intro: grows_trans)
    next
      case True
      let ?r = "init_read E None [] w"
      have r1: "init_read E None [] ?w1 = (fst ?r, ?w1)" by (rule blindD [OF blind_init_read])
      show ?thesis
      proof (cases "fst ?r")
        case (Inl e)
        have "e \<noteq> EStuck" using r1 Inl init_read_Inl by metis
        moreover have "climb E toks cens w = (Inl e, w\<lparr>pcache := drop_entries ((?p, ?a) # cens) ?c1\<rparr>)"
          using ins True r1 Inl \<open>e \<noteq> EStuck\<close>
          by (subst climb.simps) (simp add: init_entry_root cleanup_eq Let_def)
        moreover have "grows ?c (drop_entries ((?p, ?a) # cens) ?c1)"
          using grows_trans [OF g1 drop_entries_grows [OF ok1]] .
        ultimately show ?thesis
          using pc_ok_drop_entries [OF ok1] Inl by (auto simp: fails_def)
      next
        case (Inr d)
        have rd: "init_read E None [] w = (Inr d, w)"
          using blind_state [OF blind_init_read [of E None "[]"], where w = w] Inr by simp
        let ?c2 = "init_cell ?a d ?c1"
        have "K E w [] d" using K_root [OF assms(1) rd] .
        then have ok2: "pc_ok (K E w) cens ?c2"
          using pc_ok_init [OF ok1, of "[]" d] init_read_fields [OF assms(1) rd] True
          by (simp add: good_toks_def parent_ok_def)
        have "?a \<notin> set (pc_queue ?c1)" using pc_okD(4) [OF ok1] by auto
        then have g2: "grows ?c ?c2" using grows_trans [OF g1 grows_init] by blast
        have "climb E toks cens w = (Inr (?a, [], cens), w\<lparr>pcache := ?c2\<rparr>)"
          using ins True r1 Inr by (subst climb.simps) (simp add: init_entry_root Let_def)
        moreover have "entry_at ?c2 ?a []"
          using init_read_fields(1) [OF assms(1) rd] by (simp add: entry_at_def init_cell_def)
        ultimately show ?thesis using ok2 g2 less.prems(2) True by auto
      qed
    qed
  qed
qed

lemma fill_spec:
  assumes "lawful E" and "pc_ok (K E w) cens (pcache w)" and "good_toks full" and "stack_of full toks cens"
    and "entry_at (pcache w) cen toks"
  shows "\<exists>c. snd (fill E full cen toks cens w) = w\<lparr>pcache := c\<rparr> \<and> grows (pcache w) c \<and> pc_ok (K E w) [] c \<and>
    (case fst (fill E full cen toks cens w) of
       Inl e \<Rightarrow> e \<noteq> EStuck \<and> (\<exists>n. fails E w (take n full))
     | Inr a \<Rightarrow> entry_at c a full)"
  using assms(2,4,5)
proof (induction cens arbitrary: cen toks w)
  case Nil
  then show ?case using stack_of_nil [of full toks] by (intro exI [of _ "pcache w"]) auto
next
  case (Cons x cens)
  obtain p a where x: "x = (p, a)" by fastforce
  let ?c = "pcache w" and ?toks = "take (Suc (length toks)) full"
  have ok: "pc_ok (K E w) ((p, a) # cens) ?c" using Cons.prems(1) x by simp
  note st = stack_of_fill [of full toks p a cens, folded x, OF Cons.prems(2)]
  have good: "good_toks toks" and good': "good_toks ?toks"
    using Cons.prems(2) assms(3) by (metis good_toks_take stack_of_def, blast)
  obtain pd where pd: "pc_heap ?c cen = Some pd" "cd_path pd = path_of toks" "K E w toks pd"
    using entry_at_ok [OF ok Cons.prems(3) good] by blast
  let ?r = "init_read E (Some (cen, cd_nodeid pd)) ?toks w"
  have deref: "deref cen w = (Inr pd, w)" using pd by (simp add: deref_def)
  show ?case
  proof (cases "fst ?r")
    case (Inl e)
    have r: "?r = (Inl e, w)" using blind_state [OF blind_init_read, where w = w] Inl by metis
    then have "e \<noteq> EStuck" using init_read_Inl by metis
    have "init_entry E a (Some cen) ?toks w = (Inl e, w)"
      using deref r by (simp add: init_entry_child)
    then have run: "fill E full cen toks (x # cens) w = (Inl e, w\<lparr>pcache := drop_entries ((p, a) # cens) ?c\<rparr>)"
      using \<open>e \<noteq> EStuck\<close> x by (simp add: cleanup_eq Let_def)
    have "isl (fst ?r)" using Inl by simp
    then have "fails E w ?toks" unfolding fails_def st(4) using st(3) pd(3) by metis
    then show ?thesis
      using run \<open>e \<noteq> EStuck\<close> pc_ok_drop_entries [OF ok] drop_entries_grows [OF ok] by auto
  next
    case (Inr d)
    have r: "?r = (Inr d, w)" using blind_state [OF blind_init_read, where w = w] Inr by metis
    let ?c1 = "init_cell a d ?c"
    let ?w1 = "w\<lparr>pcache := ?c1\<rparr>"
    have Kd: "K E w ?toks d" using K_child [OF assms(1) st(3) _ r] pd(3) st(4) by simp
    have fields: "cd_path d = path_of ?toks" "cd_parent d = Some cen"
      using init_read_fields [OF assms(1) r] by simp_all
    have parent: "parent_ok ?c ?toks (cd_parent d)"
      using Cons.prems(3) pd pc_okD(6) [OF ok] st(3,4) fields(2)
      by (auto simp: parent_ok_def entry_at_def)
    have ok1: "pc_ok (K E w) cens ?c1"
      by (rule pc_ok_init [OF ok good' st(1) _ Kd parent]) (simp add: fields st(1))
    have "a \<notin> set (pc_queue ?c)" using pc_okD(4) [OF ok] by auto
    then have g1: "grows ?c ?c1" by (rule grows_init)
    have "entry_at ?c1 a ?toks" using fields by (simp add: entry_at_def init_cell_def)
    then have "\<exists>c. snd (fill E full a ?toks cens ?w1) = ?w1\<lparr>pcache := c\<rparr> \<and> grows (pcache ?w1) c \<and>
      pc_ok (K E ?w1) [] c \<and>
      (case fst (fill E full a ?toks cens ?w1) of
         Inl e \<Rightarrow> e \<noteq> EStuck \<and> (\<exists>n. fails E ?w1 (take n full))
       | Inr a \<Rightarrow> entry_at c a full)"
      by (intro Cons.IH) (use ok1 st(2) in \<open>simp_all add: K_cache\<close>)
    moreover have "fill E full cen toks (x # cens) w = fill E full a ?toks cens ?w1"
      using deref r x by (simp add: init_entry_child Let_def)
    ultimately show ?thesis
      unfolding K_cache fails_cache using g1 by (auto intro: grows_trans)
  qed
qed

lemma lookup_spec:
  assumes "lawful E" and "pc_ok (K E w) [] (pcache w)" and "good_toks toks"
  shows "\<exists>c. snd (lookup E toks w) = w\<lparr>pcache := c\<rparr> \<and> grows (pcache w) c \<and> pc_ok (K E w) [] c \<and>
    (case fst (lookup E toks w) of
       Inl e \<Rightarrow> e \<noteq> EStuck \<and> (\<exists>n. fails E w (take n toks))
     | Inr a \<Rightarrow> entry_at c a toks)"
proof -
  obtain r w1 where run: "climb E toks [] w = (r, w1)" by fastforce
  obtain c1 where w1: "w1 = w\<lparr>pcache := c1\<rparr>" and g1: "grows (pcache w) c1"
    and post: "case r of Inl e \<Rightarrow> e \<noteq> EStuck \<and> pc_ok (K E w) [] c1 \<and> fails E w []
      | Inr (a, toks0, cens0) \<Rightarrow> pc_ok (K E w) cens0 c1 \<and> stack_of toks toks0 cens0 \<and> entry_at c1 a toks0"
    using climb_spec [OF assms stack_of_full] run by auto
  show ?thesis
  proof (cases r)
    case (Inl e)
    then have "fails E w (take 0 toks)" using post by simp
    then have "\<exists>n. fails E w (take n toks)" ..
    then show ?thesis using Inl run w1 g1 post by (intro exI [of _ c1]) (simp add: lookup_def)
  next
    case (Inr x)
    obtain a toks0 cens0 where x: "x = (a, toks0, cens0)" by (cases x)
    have "\<exists>c. snd (fill E toks a toks0 cens0 w1) = w1\<lparr>pcache := c\<rparr> \<and> grows (pcache w1) c \<and>
      pc_ok (K E w1) [] c \<and>
      (case fst (fill E toks a toks0 cens0 w1) of
         Inl e \<Rightarrow> e \<noteq> EStuck \<and> (\<exists>n. fails E w1 (take n toks))
       | Inr a \<Rightarrow> entry_at c a toks)"
      by (rule fill_spec [OF assms(1) _ assms(3)]) (use post Inr x w1 in \<open>simp_all add: K_cache\<close>)
    moreover have "lookup E toks w = fill E toks a toks0 cens0 w1"
      using run Inr x by (simp add: lookup_def)
    ultimately obtain c where c: "snd (lookup E toks w) = w\<lparr>pcache := c\<rparr>" "grows c1 c" "pc_ok (K E w) [] c"
      and res: "case fst (lookup E toks w) of Inl e \<Rightarrow> e \<noteq> EStuck \<and> (\<exists>n. fails E w (take n toks))
        | Inr a \<Rightarrow> entry_at c a toks"
      unfolding w1 K_cache fails_cache by auto
    show ?thesis
      using c(1,3) res grows_trans [OF g1 c(2)] by blast
  qed
qed

text \<open>The entries stay where they are while their pointers to the parents are repaired.\<close>

definition appends :: "pcache \<Rightarrow> pcache \<Rightarrow> bool" where
  "appends c c' \<longleftrightarrow>
     (\<exists>new. pc_queue c' = pc_queue c @ new) \<and> pc_max c' = pc_max c \<and> pc_locked c' = pc_locked c
   \<and> (\<forall>b \<in> set (pc_queue c). map_option names_of (pc_heap c' b) = map_option names_of (pc_heap c b))"

lemma appends_refl [simp]: "appends c c"
  by (simp add: appends_def)

lemma appends_trans: "appends c c1 \<Longrightarrow> appends c1 c2 \<Longrightarrow> appends c c2"
  unfolding appends_def by force

lemma grows_appends: "grows c c' \<Longrightarrow> appends c c'"
  by (simp add: grows_def appends_def)

lemma appends_set_parent: "appends c (set_parent a p c)"
  by (auto simp: appends_def set_parent_def option.map_comp comp_def)

text \<open>Some prefix of the tokens cannot be resolved, or does not grant search permission.\<close>

definition refused :: "('s, 'h) env \<Rightarrow> ('s, 'h, 'z) pworld_scheme \<Rightarrow> scontext \<Rightarrow> string list \<Rightarrow> bool" where
  "refused E w sctx toks \<longleftrightarrow>
     (\<exists>n. fails E w (take n toks)) \<or> (\<exists>n d. K E w (take n toks) d \<and> \<not> search_ok sctx d)"

definition granted :: "('s, 'h) env \<Rightarrow> ('s, 'h, 'z) pworld_scheme \<Rightarrow> scontext \<Rightarrow> string list \<Rightarrow> bool" where
  "granted E w sctx toks \<longleftrightarrow> (\<forall>n. \<exists>d. K E w (take n toks) d \<and> search_ok sctx d)"

lemma take_snoc_cases: "take n (us @ [t]) = us @ [t] \<or> take n (us @ [t]) = take n us"
  by (cases "n \<le> length us") auto

lemma refused_snoc: "refused E w sctx us \<Longrightarrow> refused E w sctx (us @ [t])"
proof -
  have "take n us = take (min n (length us)) (us @ [t])" for n by (simp add: min_def)
  then show "refused E w sctx us \<Longrightarrow> refused E w sctx (us @ [t])"
    unfolding refused_def by metis
qed

lemma granted_snoc:
  "granted E w sctx us \<Longrightarrow> K E w (us @ [t]) d \<Longrightarrow> search_ok sctx d \<Longrightarrow> granted E w sctx (us @ [t])"
  unfolding granted_def using take_snoc_cases by metis

lemma refused_cache [simp]: "refused E (w\<lparr>pcache := c\<rparr>) = refused E w"
  by (rule ext)+ (simp add: refused_def K_cache)

lemma granted_cache [simp]: "granted E (w\<lparr>pcache := c\<rparr>) = granted E w"
  by (rule ext)+ (simp add: granted_def K_cache)

lemma refused_not_granted_here: "K E w toks d \<Longrightarrow> \<not> search_ok sctx d \<Longrightarrow> refused E w sctx toks"
  unfolding refused_def by (metis take_all order_refl)

text \<open>The pointer to the parent, repaired if it has to be.\<close>

lemma parent_entry_spec:
  assumes "lawful E" and ok: "pc_ok (K E w) [] (pcache w)" and good: "good_toks toks" and "toks \<noteq> []"
    and at: "entry_at (pcache w) cen toks"
  shows "\<exists>c. snd (parent_entry E cen (butlast toks) w) = w\<lparr>pcache := c\<rparr> \<and> appends (pcache w) c
     \<and> pc_ok (K E w) [] c
     \<and> (case fst (parent_entry E cen (butlast toks) w) of
          Inl e \<Rightarrow> e \<noteq> EStuck \<and> (\<exists>n. fails E w (take n (butlast toks)))
        | Inr p \<Rightarrow> entry_at c p (butlast toks))"
proof -
  obtain d where d: "pc_heap (pcache w) cen = Some d" "cd_path d = path_of toks" "K E w toks d"
    "parent_ok (pcache w) toks (cd_parent d)"
    using entry_at_ok [OF ok at good] by blast
  then obtain p where p: "cd_parent d = Some p"
    using \<open>toks \<noteq> []\<close> by (auto simp: parent_ok_def split: option.splits)
  have deref: "deref cen w = (Inr d, w)" using d(1) by (simp add: deref_def)
  show ?thesis
  proof (cases "pc_heap (pcache w) p")
    case (Some pd)
    then have "entry_at (pcache w) p (butlast toks)"
      using d(4) p by (simp add: parent_ok_def entry_at_def)
    then show ?thesis
      using ok deref p Some by (intro exI [of _ "pcache w"]) (simp add: parent_entry_def)
  next
    case None
    obtain r w1 where run: "lookup E (butlast toks) w = (r, w1)" by fastforce
    obtain c1 where w1: "w1 = w\<lparr>pcache := c1\<rparr>" and g1: "grows (pcache w) c1" and ok1: "pc_ok (K E w) [] c1"
      and post: "case r of Inl e \<Rightarrow> e \<noteq> EStuck \<and> (\<exists>n. fails E w (take n (butlast toks)))
        | Inr a \<Rightarrow> entry_at c1 a (butlast toks)"
      using lookup_spec [OF assms(1) ok good_toks_butlast [OF good]] run by auto
    show ?thesis
    proof (cases r)
      case (Inl e)
      then have "parent_entry E cen (butlast toks) w = (Inl e, w\<lparr>pcache := c1\<rparr>)"
        using deref p None run w1 by (simp add: parent_entry_def)
      then show ?thesis using Inl ok1 grows_appends [OF g1] post by auto
    next
      case (Inr p')
      then have at': "entry_at c1 p' (butlast toks)" using post by simp
      let ?c = "set_parent cen p' c1"
      have cen: "pc_heap c1 cen = Some d" using at g1 d(1) by (auto simp: entry_at_def grows_def)
      have par: "parent_ok c1 toks (Some p')"
        using at' \<open>toks \<noteq> []\<close> pc_okD(6) [OF ok1, of p'] by (auto simp: parent_ok_def entry_at_def)
      have ok2: "pc_ok (K E w) [] ?c"
        by (rule pc_ok_set_parent [OF ok1 K_parent cen good d(2) par])
      have at2: "entry_at ?c p' (butlast toks)" using at' by (auto simp: entry_at_def set_parent_def)
      have "parent_entry E cen (butlast toks) w = (Inr p', w\<lparr>pcache := ?c\<rparr>)"
        using deref p None run w1 Inr by (simp add: parent_entry_def)
      then show ?thesis
        using ok2 at2 appends_trans [OF grows_appends [OF g1] appends_set_parent]
        by (intro exI [of _ ?c]) simp
    qed
  qed
qed

lemma with_path_loop_spec:
  assumes "lawful E" and "pc_ok (K E w) [] (pcache w)" and "good_toks toks" and "entry_at (pcache w) cen toks"
  shows "\<exists>c. snd (with_path_loop E (check_access sctx) cen toks w) = w\<lparr>pcache := c\<rparr>
     \<and> appends (pcache w) c \<and> pc_ok (K E w) [] c
     \<and> (case fst (with_path_loop E (check_access sctx) cen toks w) of
          Inl e \<Rightarrow> e \<noteq> EStuck \<and> refused E w sctx toks
        | Inr _ \<Rightarrow> granted E w sctx toks)"
  using assms(2-4)
proof (induction toks arbitrary: cen w rule: rev_induct)
  case Nil
  let ?loop = "with_path_loop E (check_access sctx)"
  obtain d where d: "pc_heap (pcache w) cen = Some d" "K E w [] d"
    using entry_at_ok [OF Nil.prems(1,3,2)] by blast
  have run: "?loop cen [] w = (if search_ok sctx d then Inr () else Inl EAccess, w)"
    by (subst with_path_loop.simps) (simp add: check_access_eq [OF d(1)])
  have "granted E w sctx []" if "search_ok sctx d" using that d(2) by (auto simp: granted_def)
  moreover have "refused E w sctx []" if "\<not> search_ok sctx d"
    using d(2) that by (rule refused_not_granted_here)
  ultimately show ?case
    unfolding run using Nil.prems(1) by (intro exI [of _ "pcache w"]) simp
next
  case (snoc t us)
  let ?toks = "us @ [t]" and ?loop = "with_path_loop E (check_access sctx)"
  have good: "good_toks us" using snoc.prems(2) by (auto simp: good_toks_def)
  obtain d where d: "pc_heap (pcache w) cen = Some d" "K E w ?toks d"
    using entry_at_ok [OF snoc.prems(1,3,2)] by blast
  show ?case
  proof (cases "search_ok sctx d")
    case False
    then have "?loop cen ?toks w = (Inl EAccess, w)"
      by (subst with_path_loop.simps) (simp add: check_access_eq [OF d(1)])
    then show ?thesis
      using refused_not_granted_here [OF d(2) False] snoc.prems(1) by (intro exI [of _ "pcache w"]) simp
  next
    case True
    then have chk: "check_access sctx cen w = (Inr (), w)" by (simp add: check_access_eq [OF d(1)])
    have step: "?loop cen ?toks w = bind (parent_entry E cen us) (\<lambda>p. ?loop p us) w"
      by (subst with_path_loop.simps) (simp add: chk)
    obtain r w1 where pe: "parent_entry E cen us w = (r, w1)" by fastforce
    obtain c where w1: "w1 = w\<lparr>pcache := c\<rparr>" and ap: "appends (pcache w) c" and ok: "pc_ok (K E w) [] c"
      and post: "case r of Inl e \<Rightarrow> e \<noteq> EStuck \<and> (\<exists>n. fails E w (take n us)) | Inr p \<Rightarrow> entry_at c p us"
      using parent_entry_spec [OF assms(1) snoc.prems(1,2) _ snoc.prems(3)] pe
      unfolding butlast_snoc by auto
    show ?thesis
    proof (cases r)
      case (Inl e)
      then have "refused E w sctx us" using post by (simp add: refused_def)
      then show ?thesis
        using Inl pe w1 ap ok post unfolding step by (intro exI [of _ c]) (simp add: refused_snoc)
    next
      case (Inr p)
      have "\<exists>c2. snd (?loop p us w1) = w1\<lparr>pcache := c2\<rparr> \<and> appends (pcache w1) c2 \<and> pc_ok (K E w1) [] c2
        \<and> (case fst (?loop p us w1) of Inl e \<Rightarrow> e \<noteq> EStuck \<and> refused E w1 sctx us
          | Inr _ \<Rightarrow> granted E w1 sctx us)"
        by (rule snoc.IH) (use ok post Inr w1 good in \<open>simp_all add: K_cache\<close>)
      then obtain c2 where c2: "snd (?loop p us w1) = w\<lparr>pcache := c2\<rparr>" "appends c c2" "pc_ok (K E w) [] c2"
        and res: "case fst (?loop p us w1) of Inl e \<Rightarrow> e \<noteq> EStuck \<and> refused E w sctx us
          | Inr _ \<Rightarrow> granted E w sctx us"
        unfolding w1 K_cache refused_cache granted_cache by auto
      have run: "?loop cen ?toks w = ?loop p us w1" unfolding step using pe Inr by simp
      have "case fst (?loop p us w1) of Inl e \<Rightarrow> e \<noteq> EStuck \<and> refused E w sctx ?toks
          | Inr _ \<Rightarrow> granted E w sctx ?toks"
        using res refused_snoc granted_snoc [OF _ d(2) True] by (auto split: sum.splits)
      then show ?thesis
        unfolding run using c2(1,3) appends_trans [OF ap c2(2)] by blast
    qed
  qed
qed

lemma with_path_spec:
  assumes "lawful E" and "pc_ok (K E w) [] (pcache w)" and "good_toks toks"
  shows "\<exists>c. snd (with_path E (check_access sctx) toks w) = w\<lparr>pcache := c\<rparr>
     \<and> appends (pcache w) c \<and> pc_ok (K E w) [] c
     \<and> (case fst (with_path E (check_access sctx) toks w) of
          Inl e \<Rightarrow> e \<noteq> EStuck \<and> refused E w sctx toks
        | Inr _ \<Rightarrow> granted E w sctx toks)"
proof -
  obtain r w1 where run: "lookup E toks w = (r, w1)" by fastforce
  obtain c1 where w1: "w1 = w\<lparr>pcache := c1\<rparr>" and g1: "grows (pcache w) c1" and ok1: "pc_ok (K E w) [] c1"
    and post: "case r of Inl e \<Rightarrow> e \<noteq> EStuck \<and> (\<exists>n. fails E w (take n toks)) | Inr a \<Rightarrow> entry_at c1 a toks"
    using lookup_spec [OF assms] run by auto
  show ?thesis
  proof (cases r)
    case (Inl e)
    then have "refused E w sctx toks" using post by (simp add: refused_def)
    then show ?thesis
      using Inl run w1 ok1 grows_appends [OF g1] post by (intro exI [of _ c1]) (simp add: with_path_def)
  next
    case (Inr a)
    let ?loop = "with_path_loop E (check_access sctx) a toks w1"
    have "\<exists>c. snd ?loop = w1\<lparr>pcache := c\<rparr> \<and> appends (pcache w1) c \<and> pc_ok (K E w1) [] c
      \<and> (case fst ?loop of Inl e \<Rightarrow> e \<noteq> EStuck \<and> refused E w1 sctx toks | Inr _ \<Rightarrow> granted E w1 sctx toks)"
      by (rule with_path_loop_spec [OF assms(1) _ assms(3)]) (use ok1 post Inr w1 in \<open>simp_all add: K_cache\<close>)
    then obtain c where c: "snd ?loop = w\<lparr>pcache := c\<rparr>" "appends c1 c" "pc_ok (K E w) [] c"
      and res: "case fst ?loop of Inl e \<Rightarrow> e \<noteq> EStuck \<and> refused E w sctx toks | Inr _ \<Rightarrow> granted E w sctx toks"
      unfolding w1 K_cache refused_cache granted_cache by auto
    have "with_path E (check_access sctx) toks w = ?loop" using run Inr by (simp add: with_path_def)
    then show ?thesis using c res appends_trans [OF grows_appends [OF g1]] by metis
  qed
qed

text \<open>Promotion and eviction: the entry just used survives, and the cache is within its bound.\<close>

lemma promote_evict:
  fixes c :: pcache and a :: nat
  assumes ok: "pc_ok (K E w) [] c" and at: "entry_at c a toks" and max: "0 < pc_max c"
  defines "c1 \<equiv> c\<lparr>pc_queue := remove1 a (pc_queue c) @ [a]\<rparr>"
  shows "\<exists>c2. evict c1 = Some c2 \<and> pc_ok (K E w) [] c2 \<and> entry_at c2 a toks \<and> pc_n c2 \<le> pc_max c2
     \<and> pc_max c2 = pc_max c \<and> pc_locked c2 = pc_locked c \<and> pc_heap c2 a = pc_heap c a"
proof -
  have a: "a \<in> set (pc_queue c)" using at by (simp add: entry_at_def)
  have ok1: "pc_ok (K E w) [] c1" unfolding c1_def by (rule pc_ok_promote [OF ok a])
  obtain c2 k where c2: "evict c1 = Some c2" "pc_ok (K E w) [] c2" "pc_n c2 = min (pc_n c1) (pc_max c1)"
    "pc_max c2 = pc_max c1" "pc_locked c2 = pc_locked c1" "pc_queue c2 = drop k (pc_queue c1)"
    "\<forall>a \<in> set (pc_queue c2). pc_heap c2 a = pc_heap c1 a"
    using evict_ok [OF ok1] max by (auto simp: c1_def)
  have "0 < pc_n c1" using pc_okD(2) [OF ok1] by (simp add: c1_def)
  then have "0 < pc_n c2" using c2(3) max by (simp add: c1_def)
  then have "pc_queue c2 \<noteq> []" using pc_okD(2) [OF c2(2)] by auto
  then have "k < length (pc_queue c1)" using c2(6) by simp
  then have "a \<in> set (pc_queue c2)" unfolding c2(6) by (simp add: c1_def)
  moreover from this have "pc_heap c2 a = pc_heap c a" using c2(7) by (simp add: c1_def)
  ultimately have "entry_at c2 a toks \<and> pc_heap c2 a = pc_heap c a" using at by (simp add: entry_at_def)
  then show ?thesis using c2 by (auto simp: c1_def)
qed

lemma hash_lookup_spec:
  assumes "lawful E" and "pc_ok (K E w) [] (pcache w)" and "good_toks toks" and "0 < pc_max (pcache w)"
  shows "\<exists>c. snd (hash_lookup E sctx toks w) = w\<lparr>pcache := c\<rparr> \<and> pc_ok (K E w) [] c
     \<and> pc_max c = pc_max (pcache w) \<and> pc_locked c = pc_locked (pcache w)
     \<and> (case fst (hash_lookup E sctx toks w) of
          Inl e \<Rightarrow> e \<noteq> EStuck \<and> (toks \<noteq> [] \<and> refused E w sctx (butlast toks) \<or> (\<exists>n. fails E w (take n toks)))
        | Inr a \<Rightarrow> (toks \<noteq> [] \<longrightarrow> granted E w sctx (butlast toks)) \<and> entry_at c a toks \<and> pc_n c \<le> pc_max c)"
proof -
  let ?m = "whenM (toks \<noteq> []) (with_path E (check_access sctx) (butlast toks))"
  obtain r w1 where run: "?m w = (r, w1)" by fastforce
  have "\<exists>c1. w1 = w\<lparr>pcache := c1\<rparr> \<and> appends (pcache w) c1 \<and> pc_ok (K E w) [] c1 \<and>
    (case r of Inl e \<Rightarrow> e \<noteq> EStuck \<and> toks \<noteq> [] \<and> refused E w sctx (butlast toks)
     | Inr _ \<Rightarrow> toks \<noteq> [] \<longrightarrow> granted E w sctx (butlast toks))"
  proof (cases "toks = []")
    case True
    then show ?thesis using run assms(2) by (intro exI [of _ "pcache w"]) auto
  next
    case False
    then show ?thesis
      using with_path_spec [OF assms(1,2) good_toks_butlast [OF assms(3)], of sctx] run
      by (cases r) auto
  qed
  then obtain c1 where w1: "w1 = w\<lparr>pcache := c1\<rparr>" and ap: "appends (pcache w) c1" and ok1: "pc_ok (K E w) [] c1"
    and post: "case r of Inl e \<Rightarrow> e \<noteq> EStuck \<and> toks \<noteq> [] \<and> refused E w sctx (butlast toks)
     | Inr _ \<Rightarrow> toks \<noteq> [] \<longrightarrow> granted E w sctx (butlast toks)" by blast
  show ?thesis
  proof (cases r)
    case (Inl e)
    then have "hash_lookup E sctx toks w = (Inl e, w1)" using run by (simp add: hash_lookup_def)
    then show ?thesis using w1 ap ok1 post Inl by (auto simp: appends_def)
  next
    case (Inr u)
    obtain r2 w2 where run2: "lookup E toks w1 = (r2, w2)" by fastforce
    have ok1': "pc_ok (K E w1) [] (pcache w1)" using ok1 w1 by (simp add: K_cache)
    have "\<exists>c. snd (lookup E toks w1) = w1\<lparr>pcache := c\<rparr> \<and> grows (pcache w1) c \<and> pc_ok (K E w1) [] c \<and>
      (case fst (lookup E toks w1) of Inl e \<Rightarrow> e \<noteq> EStuck \<and> (\<exists>n. fails E w1 (take n toks))
       | Inr a \<Rightarrow> entry_at c a toks)"
      by (rule lookup_spec [OF assms(1) ok1' assms(3)])
    then obtain c2 where w2: "w2 = w\<lparr>pcache := c2\<rparr>" and g2: "grows c1 c2" and ok2: "pc_ok (K E w) [] c2"
      and post2: "case r2 of Inl e \<Rightarrow> e \<noteq> EStuck \<and> (\<exists>n. fails E w (take n toks)) | Inr a \<Rightarrow> entry_at c2 a toks"
      using run2 unfolding w1 K_cache fails_cache by auto
    have same: "pc_max c2 = pc_max (pcache w)" "pc_locked c2 = pc_locked (pcache w)"
      using ap grows_appends [OF g2] by (simp_all add: appends_def)
    show ?thesis
    proof (cases r2)
      case (Inl e)
      then have "hash_lookup E sctx toks w = (Inl e, w2)" using run Inr run2 by (simp add: hash_lookup_def)
      then show ?thesis using w2 ok2 same post2 Inl by auto
    next
      case (Inr a)
      let ?c3 = "c2\<lparr>pc_queue := remove1 a (pc_queue c2) @ [a]\<rparr>"
      have at: "entry_at c2 a toks" and "0 < pc_max c2" using post2 Inr same assms(4) by simp_all
      then obtain c4 where c4: "evict ?c3 = Some c4" "pc_ok (K E w) [] c4" "entry_at c4 a toks"
        "pc_n c4 \<le> pc_max c4" "pc_max c4 = pc_max c2" "pc_locked c4 = pc_locked c2"
        using promote_evict [OF ok2] by blast
      have "hash_lookup E sctx toks w = (Inr a, w\<lparr>pcache := c4\<rparr>)"
        using run \<open>r = Inr u\<close> run2 Inr w2 c4(1) by (simp add: hash_lookup_def upd_pc_opt_def)
      then show ?thesis using c4 same post \<open>r = Inr u\<close> by auto
    qed
  qed
qed

text \<open>The whole of \<^verbatim>\<open>getnode\<close>: the mutex is free again whatever happens.\<close>

lemma hash_getnode_spec:
  fixes path :: string
  assumes "lawful E" and "pc_ok (K E w) [] (pcache w)" and "0 < pc_max (pcache w)"
  defines "toks \<equiv> tokenize ''/'' path"
  shows "\<exists>c. snd (hash_getnode E sctx path w) = w\<lparr>pcache := c\<rparr> \<and> pc_ok (K E w) [] c
     \<and> pc_max c = pc_max (pcache w) \<and> \<not> pc_locked c
     \<and> ((\<exists>e. fst (hash_getnode E sctx path w) = Inl e \<and> e \<noteq> EStuck \<and>
           (toks \<noteq> [] \<and> refused E w sctx (butlast toks) \<or> (\<exists>n. fails E w (take n toks))))
       \<or> (\<exists>d. (toks \<noteq> [] \<longrightarrow> granted E w sctx (butlast toks)) \<and> K E w toks d
           \<and> fst (hash_getnode E sctx path w) = fst (getnode E (cd_nodeid d) w) \<and> pc_n c \<le> pc_max c))"
proof -
  let ?w0 = "w\<lparr>pcache := (pcache w)\<lparr>pc_locked := True\<rparr>\<rparr>"
  have good: "good_toks toks" by (simp add: toks_def)
  obtain r w1 where run: "hash_lookup E sctx toks ?w0 = (r, w1)" by fastforce
  have "\<exists>c. snd (hash_lookup E sctx toks ?w0) = ?w0\<lparr>pcache := c\<rparr> \<and> pc_ok (K E ?w0) [] c
     \<and> pc_max c = pc_max (pcache ?w0) \<and> pc_locked c = pc_locked (pcache ?w0)
     \<and> (case fst (hash_lookup E sctx toks ?w0) of
          Inl e \<Rightarrow> e \<noteq> EStuck \<and> (toks \<noteq> [] \<and> refused E ?w0 sctx (butlast toks) \<or> (\<exists>n. fails E ?w0 (take n toks)))
        | Inr a \<Rightarrow> (toks \<noteq> [] \<longrightarrow> granted E ?w0 sctx (butlast toks)) \<and> entry_at c a toks \<and> pc_n c \<le> pc_max c)"
    by (rule hash_lookup_spec [OF assms(1) _ good]) (use assms(2,3) in \<open>simp_all add: K_cache\<close>)
  then obtain c1 where w1: "w1 = w\<lparr>pcache := c1\<rparr>" and ok1: "pc_ok (K E w) [] c1"
    and max1: "pc_max c1 = pc_max (pcache w)"
    and post: "case r of
        Inl e \<Rightarrow> e \<noteq> EStuck \<and> (toks \<noteq> [] \<and> refused E w sctx (butlast toks) \<or> (\<exists>n. fails E w (take n toks)))
      | Inr a \<Rightarrow> (toks \<noteq> [] \<longrightarrow> granted E w sctx (butlast toks)) \<and> entry_at c1 a toks \<and> pc_n c1 \<le> pc_max c1"
    unfolding run K_cache fails_cache refused_cache granted_cache by auto
  let ?c2 = "c1\<lparr>pc_locked := False\<rparr>"
  show ?thesis
  proof (cases r)
    case (Inl e)
    then have "hash_getnode E sctx path w = (Inl e, w\<lparr>pcache := ?c2\<rparr>)"
      using run w1 post by (simp add: hash_getnode_def pc_lock_def pc_unlock_def Let_def flip: toks_def)
    then show ?thesis using ok1 max1 post Inl by (intro exI [of _ ?c2]) simp
  next
    case (Inr a)
    then have at: "entry_at c1 a toks" using post by simp
    obtain d where d: "pc_heap c1 a = Some d" "K E w toks d"
      using entry_at_ok [OF ok1 at good] by blast
    have "hash_getnode E sctx path w = getnode E (cd_nodeid d) (w\<lparr>pcache := ?c2\<rparr>)"
      using run Inr w1 d(1)
      by (simp add: hash_getnode_def pc_lock_def pc_unlock_def Let_def deref_def flip: toks_def)
    then have "hash_getnode E sctx path w = (fst (getnode E (cd_nodeid d) w), w\<lparr>pcache := ?c2\<rparr>)"
      using blindD [OF blind_getnode] by metis
    then show ?thesis using ok1 max1 post Inr d(2) by (intro exI [of _ ?c2]) auto
  qed
qed

end

section \<open>Lookups of paths that have an entry\<close>

context cache_content begin

lemma cached_appends: "cached c path i \<Longrightarrow> appends c c' \<Longrightarrow> cached c' path i"
  unfolding cached_def appends_def by force

lemma cached_grows: "cached c path i \<Longrightarrow> grows c c' \<Longrightarrow> cached c' path i"
  using cached_appends grows_appends by blast

text \<open>Such a path is answered with the node of its entry and with no other.\<close>

lemma cached_entry:
  assumes "pc_ok (K E w) [] c" and "cached c path i" and "entry_at c a (tokenize ''/'' path)"
  shows "\<exists>d. pc_heap c a = Some d \<and> cd_nodeid d = i"
proof -
  let ?p = "path_of (tokenize ''/'' path)"
  obtain b d where b: "b \<in> set (pc_queue c)" "pc_heap c b = Some d" "cd_path d = ?p" "cd_nodeid d = i"
    using assms(2) by (auto simp: cached_def names_of_def)
  obtain d' where a: "a \<in> set (pc_queue c)" "pc_heap c a = Some d'" "cd_path d' = ?p"
    using assms(3) by (auto simp: entry_at_def)
  have "pc_paths c ?p = Some a" and "pc_paths c ?p = Some b"
    using pc_okD(7) [OF assms(1)] a b by auto
  then show ?thesis using a(2) b(2,4) by simp
qed

lemma hash_lookup_cached:
  fixes path :: string
  defines "toks \<equiv> tokenize ''/'' path"
  assumes "lawful E" and ok: "pc_ok (K E w) [] (pcache w)" and "0 < pc_max (pcache w)" and "cached (pcache w) path i"
    and run: "hash_lookup E sctx toks w = (Inr a, w')"
  shows "\<exists>d. pc_heap (pcache w') a = Some d \<and> cd_nodeid d = i"
proof -
  let ?m = "whenM (toks \<noteq> []) (with_path E (check_access sctx) (butlast toks))"
  have good: "good_toks toks" by (simp add: toks_def)
  obtain u w1 where m: "?m w = (Inr u, w1)"
    using run by (auto simp: hash_lookup_def andthen_def bind_result)
  obtain c1 where w1: "w1 = w\<lparr>pcache := c1\<rparr>" and ap: "appends (pcache w) c1" and ok1: "pc_ok (K E w) [] c1"
  proof (cases "toks = []")
    case True
    then show thesis using that [of "pcache w"] m ok by simp
  next
    case False
    then show thesis
      using with_path_spec [OF assms(2) ok good_toks_butlast [OF good], of sctx] m that by (auto simp: whenM_def)
  qed
  obtain a2 w2 where l: "lookup E toks w1 = (Inr a2, w2)"
    using run m by (auto simp: hash_lookup_def andthen_def bind_result)
  have "pc_ok (K E w1) [] (pcache w1)" using ok1 w1 by (simp add: K_cache)
  from lookup_spec [OF assms(2) this good] obtain c2 where w2: "w2 = w\<lparr>pcache := c2\<rparr>" and g2: "grows c1 c2"
    and ok2: "pc_ok (K E w) [] c2" and at: "entry_at c2 a2 toks"
    using l w1 by (auto simp: K_cache)
  have max: "0 < pc_max c2" using assms(4) ap g2 by (simp add: appends_def grows_def)
  obtain c4 where c4: "evict (c2\<lparr>pc_queue := remove1 a2 (pc_queue c2) @ [a2]\<rparr>) = Some c4" "pc_heap c4 a2 = pc_heap c2 a2"
    using promote_evict [OF ok2 at max] by blast
  have "hash_lookup E sctx toks w = (Inr a2, w\<lparr>pcache := c4\<rparr>)"
    using m l w2 c4(1) by (simp add: hash_lookup_def upd_pc_opt_def)
  then have "a = a2" and "pcache w' = c4" using run by simp_all
  moreover have "\<exists>d. pc_heap c2 a2 = Some d \<and> cd_nodeid d = i"
    by (rule cached_entry [OF ok2 cached_grows [OF cached_appends [OF assms(5) ap] g2] at [unfolded toks_def]])
  ultimately show ?thesis using c4(2) by simp
qed

lemma hash_getnode_cached:
  assumes "lawful E" and "pc_ok (K E w) [] (pcache w)" and "0 < pc_max (pcache w)" and "cached (pcache w) path i"
    and "fst (hash_getnode E sctx path w) = Inr n"
  shows "nid n = i"
proof -
  let ?w0 = "w\<lparr>pcache := (pcache w)\<lparr>pc_locked := True\<rparr>\<rparr>" and ?toks = "tokenize ''/'' path"
  obtain a w1 where run: "hash_lookup E sctx ?toks ?w0 = (Inr a, w1)"
  proof (cases "hash_lookup E sctx ?toks ?w0")
    case (Pair r w1)
    then show thesis
      using assms(5) that by (cases r) (simp_all add: hash_getnode_def pc_lock_def pc_unlock_def Let_def bind_def handle_def split: if_splits)
  qed
  have "\<exists>d. pc_heap (pcache w1) a = Some d \<and> cd_nodeid d = i"
    by (rule hash_lookup_cached [OF assms(1) _ _ _ run]) (use assms(2-4) in \<open>simp_all add: K_cache cached_def\<close>)
  then show ?thesis
    using assms(5) run
    by (auto simp: hash_getnode_def pc_lock_def pc_unlock_def Let_def deref_def getnode_def bind_def handle_def
        on_missing_def split: prod.splits sum.splits exn.splits if_splits)
qed

end

text \<open>
  Dropping the entry of a path, for any property of the entries. The other entries are left.
\<close>

lemma hash_invalidate_any:
  assumes "pc_ok K [] (pcache w)"
  shows "\<exists>c. hash_invalidate E path w = (Inr (), w\<lparr>pcache := c\<rparr>) \<and> pc_ok K [] c
     \<and> pc_max c = pc_max (pcache w) \<and> \<not> pc_locked c \<and> pc_n c \<le> pc_n (pcache w)
     \<and> pc_paths c (path_of (tokenize ''/'' path)) = None
     \<and> (\<forall>q i. cached (pcache w) q i \<and> tokenize ''/'' q \<noteq> tokenize ''/'' path \<longrightarrow> cached c q i)"
proof -
  let ?c0 = "(pcache w)\<lparr>pc_locked := True\<rparr>" and ?p = "path_of (tokenize ''/'' path)"
  have ok0: "pc_ok K [] ?c0" using assms by simp
  show ?thesis
  proof (cases "pc_paths (pcache w) ?p")
    case None
    then have "hash_invalidate E path w = (Inr (), w\<lparr>pcache := (pcache w)\<lparr>pc_locked := False\<rparr>\<rparr>)"
      by (simp add: hash_invalidate_def pc_lock_def pc_unlock_def)
    then show ?thesis using assms None by (intro exI [of _ "(pcache w)\<lparr>pc_locked := False\<rparr>"]) (simp add: cached_def)
  next
    case (Some a)
    obtain d where a: "a \<in> set (pc_queue ?c0)" "pc_heap ?c0 a = Some d" "cd_path d = ?p"
      using pc_okD(7) [OF ok0, of ?p a] Some by auto
    obtain c1 where c1: "del_entry a ?c0 = Some c1" "pc_ok K [] c1" "pc_max c1 = pc_max ?c0"
      "pc_n c1 = pc_n ?c0 - 1"
      using del_entry_ok [OF ok0 a(1)] by blast
    have gone: "pc_paths c1 ?p = None" using c1(1) a by (auto simp: del_entry_def)
    have "cached c1 q i" if at: "cached (pcache w) q i" and other: "tokenize ''/'' q \<noteq> tokenize ''/'' path" for q i
    proof -
      obtain b e where b: "b \<in> set (pc_queue (pcache w))" "pc_heap (pcache w) b = Some e"
        "names_of e = (path_of (tokenize ''/'' q), i)"
        using at by (auto simp: cached_def)
      have "path_of (tokenize ''/'' q) \<noteq> ?p" using other path_of_inject by simp
      then have "b \<noteq> a" using a b by (auto simp: names_of_def)
      then show ?thesis using b c1(1) by (auto simp: cached_def del_entry_def intro!: bexI [of _ b])
    qed
    moreover have "hash_invalidate E path w = (Inr (), w\<lparr>pcache := c1\<lparr>pc_locked := False\<rparr>\<rparr>)"
      using Some c1(1) by (simp add: hash_invalidate_def pc_lock_def pc_unlock_def upd_pc_opt_def)
    ultimately show ?thesis using c1 gone by (intro exI [of _ "c1\<lparr>pc_locked := False\<rparr>"]) (simp add: cached_def)
  qed
qed

text \<open>
  If the entries satisfy a property except perhaps the one that is dropped, all the
  remaining ones satisfy it.
\<close>

lemma pc_ok_without:
  assumes ok: "pc_ok (\<lambda>ts d. ts = toks \<or> K ts d) [] c" and gone: "pc_paths c (path_of toks) = None"
  shows "pc_ok K [] c"
proof (rule pc_okI)
  note D = pc_okD [OF ok]
  show "entry_ok K c d" if "a \<in> set (pc_queue c)" and "pc_heap c a = Some d" for a d
  proof -
    have "entry_ok (\<lambda>ts d. ts = toks \<or> K ts d) c d" using that by (rule D(8))
    then obtain ts where ts: "good_toks ts" "cd_path d = path_of ts" "ts = toks \<or> K ts d" "parent_ok c ts (cd_parent d)"
      unfolding entry_ok_def by blast
    moreover have "pc_paths c (cd_path d) = Some a" using D(7) that by auto
    ultimately have "ts \<noteq> toks" using gone by auto
    then show ?thesis using ts by (auto simp: entry_ok_def)
  qed
qed (use pc_okD [OF ok] in auto)

end
