(* ===== verification/Access_Laws.thy ===== *)
theory Access_Laws
  imports Node_Laws
begin

text \<open>
  The permission check of \<^verbatim>\<open>Node::access\<close> (\<^verbatim>\<open>nodes/node.cxx\<close>), in terms of the bits of
  the mode: the superuser may do everything, and otherwise exactly one of the three classes
  of the mode decides.
\<close>

text \<open>The position of the class that applies to a caller.\<close>

definition class_shift :: "scontext \<Rightarrow> uid_t \<Rightarrow> gid_t \<Rightarrow> nat" where
  "class_shift sctx uid gid =
     (if suid sctx = uid then 6 else if gid \<in> sgroups sctx then 3 else 0)"

definition permits :: "scontext \<Rightarrow> mode_t \<Rightarrow> uid_t \<Rightarrow> gid_t \<Rightarrow> mode_t \<Rightarrow> bool" where
  "permits sctx m uid gid mode \<longleftrightarrow>
     suid sctx = 0 \<or> (\<forall>k. bit mode k \<longrightarrow> k < 3 \<and> bit m (k + class_shift sctx uid gid))"

lemma permits_root: "suid sctx = 0 \<Longrightarrow> permits sctx m uid gid mode"
  by (simp add: permits_def)

lemma bit_7: "bit (7 :: 'a::len word) k \<longleftrightarrow> k < 3 \<and> k < LENGTH('a)"
proof -
  have "(7 :: 'a word) = mask 3" by (simp add: mask_eq_exp_minus_1)
  then have "bit (7 :: 'a word) k \<longleftrightarrow> bit (mask 3 :: 'a word) k" by (rule arg_cong)
  then show ?thesis unfolding bit_mask_iff by auto
qed

lemma and_not_and_eq_0:
  fixes a x y :: "'a::len word"
  shows "and a (not (and x y)) = 0 \<longleftrightarrow> (\<forall>k < LENGTH('a). bit a k \<longrightarrow> bit x k \<and> bit y k)"
  by (auto simp: bit_eq_iff bit_simps)

lemma class_bits:
  fixes m mode :: mode_t
  assumes "s \<le> 6"
  shows "and mode (not (and (drop_bit s m) 7)) = 0 \<longleftrightarrow> (\<forall>k. bit mode k \<longrightarrow> k < 3 \<and> bit m (k + s))"
  unfolding and_not_and_eq_0 bit_7 bit_drop_bit_eq comp_def
  using bit_imp_le_length [of mode] by (metis add.commute)

lemma access_eq:
  assumes "lawful E" and "mode_of E w (nid n) = Some m"
    and "wattr E w DNodes (nid n) A_uid = Some uid" and "wattr E w DNodes (nid n) A_gid = Some gid"
  shows "access E sctx n mode w = (if permits sctx m uid gid mode then Inr () else Inl EAccess, w)"
proof -
  note get = getattr_Some [OF assms(1) assms(2)] getattr_Some [OF assms(1) assms(3)]
    getattr_Some [OF assms(1) assms(4)]
  have "access E sctx n mode w =
      (if suid sctx = 0 \<or> and mode (not (and (drop_bit (class_shift sctx uid gid) m) 7)) = 0
       then Inr () else Inl EAccess, w)"
    by (simp add: access_def whenM_def get class_shift_def)
  then show ?thesis
    by (subst (asm) class_bits) (auto simp: permits_def class_shift_def)
qed

lemma access_root: "suid sctx = 0 \<Longrightarrow> access E sctx n mode w = (Inr (), w)"
  by (simp add: access_def)

end
