(* ===== verification/Path_Resolution.thy ===== *)
theory Path_Resolution
  imports PathCache_Lookup Access_Laws
begin

text \<open>
  What a path means, and that both implementations of \<^verbatim>\<open>PathCache\<close> agree on it: \<open>resolve\<close>
  follows the directory entries from the root; the uncached implementation returns the node
  at the end of the path when every directory on the way grants search permission; the
  cached one returns the same node as long as the cache is coherent, that is, as long as the
  data it keeps are those of the databases.
\<close>

section \<open>The meaning of a path\<close>

definition step_to :: "('s, 'h) env \<Rightarrow> ('s, 'h, 'z) world_scheme \<Rightarrow> nodeid \<Rightarrow> string \<Rightarrow> nodeid option" where
  "step_to E w i t =
     (if is_dir E w i
      then Option.bind (entry E w i t) (\<lambda>j. if mode_of E w j = None then None else Some j)
      else None)"

definition resolve :: "('s, 'h) env \<Rightarrow> ('s, 'h, 'z) world_scheme \<Rightarrow> string list \<Rightarrow> nodeid option" where
  "resolve E w ts =
     foldl (\<lambda>r t. Option.bind r (\<lambda>i. step_to E w i t)) (if mode_of E w 0 = None then None else Some 0) ts"

lemma resolve_Nil: "resolve E w [] = (if mode_of E w 0 = None then None else Some 0)"
  by (simp add: resolve_def)

lemma resolve_snoc: "resolve E w (ts @ [t]) = Option.bind (resolve E w ts) (\<lambda>i. step_to E w i t)"
  by (simp add: resolve_def)

lemma resolve_mode: "resolve E w ts = Some i \<Longrightarrow> mode_of E w i \<noteq> None"
  by (cases ts rule: rev_cases)
    (auto simp: resolve_Nil resolve_snoc step_to_def split: if_splits bind_splits)

lemma resolve_take: "resolve E w (take n ts) = None \<Longrightarrow> resolve E w ts = None"
proof (induction ts rule: rev_induct)
  case (snoc t ts)
  then show ?case by (cases "n \<le> length ts") (auto simp: resolve_snoc)
qed simp

lemma resolve_pcache [simp]: "resolve E (w\<lparr>pcache := c\<rparr>) = resolve E w"
  by (rule ext) (simp add: resolve_def step_to_def is_dir_def cong: if_cong)

lemma kind_of_dir [simp]: "kind_of m = KDirectory \<longleftrightarrow> S_ISDIR m"
  by (auto simp: kind_of_def S_ISDIR_def S_ISREG_def S_ISLNK_def)

lemma kind_of_dir' [simp]: "KDirectory = kind_of m \<longleftrightarrow> S_ISDIR m"
  by (metis kind_of_dir)

lemma is_dir_kind: "mode_of E w i = Some m \<Longrightarrow> is_dir E w i \<longleftrightarrow> kind_of m = KDirectory"
  by (auto simp: is_dir_def)

section \<open>The uncached implementation\<close>

text \<open>The caller has search permission on a directory.\<close>

definition may_search :: "('s, 'h) env \<Rightarrow> ('s, 'h, 'z) world_scheme \<Rightarrow> scontext \<Rightarrow> nodeid \<Rightarrow> bool" where
  "may_search E w sctx i \<longleftrightarrow>
     suid sctx = 0 \<or> (\<exists>m uid gid. mode_of E w i = Some m \<and> wattr E w DNodes i A_uid = Some uid
       \<and> wattr E w DNodes i A_gid = Some gid \<and> permits sctx m uid gid X_OK)"

text \<open>Every node with a mode has an owner and a group.\<close>

definition owners_ok :: "('s, 'h) env \<Rightarrow> ('s, 'h, 'z) world_scheme \<Rightarrow> bool" where
  "owners_ok E w \<longleftrightarrow> (\<forall>c. mode_of E w c \<noteq> None \<longrightarrow>
     (\<exists>uid :: uid_t. wattr E w DNodes c A_uid = Some uid) \<and> (\<exists>gid :: gid_t. wattr E w DNodes c A_gid = Some gid))"

lemma access_search:
  assumes "lawful E" and "owners_ok E w" and "mode_of E w (nid n) \<noteq> None"
  shows "access E sctx n X_OK w = (if may_search E w sctx (nid n) then Inr () else Inl EAccess, w)"
proof -
  obtain m where m: "mode_of E w (nid n) = Some m" using assms(3) by auto
  obtain uid :: uid_t and gid :: gid_t where o: "wattr E w DNodes (nid n) A_uid = Some uid" "wattr E w DNodes (nid n) A_gid = Some gid"
    using assms(2) [unfolded owners_ok_def, rule_format, OF assms(3)] by auto
  note a = m o
  have "may_search E w sctx (nid n) \<longleftrightarrow> permits sctx m uid gid X_OK"
    unfolding may_search_def using a permits_root [of sctx] by (metis option.inject)
  then show ?thesis using access_eq [OF assms(1) a, of sctx X_OK] by simp
qed

lemma null_walk_Nil: "null_walk E sctx [] = ret"
  by (rule ext) simp

lemma null_walk_snoc:
  "null_walk E sctx (ts @ [t]) n = bind (null_walk E sctx ts n) (null_walk E sctx [t])"
  by (induction ts arbitrary: n) (simp_all add: andthen_def bind_assoc)

definition null_result :: "('s, 'h) env \<Rightarrow> ('s, 'h, 'z) world_scheme \<Rightarrow> scontext \<Rightarrow> string list \<Rightarrow> node \<Rightarrow> bool" where
  "null_result E w sctx ts n \<longleftrightarrow>
     resolve E w ts = Some (nid n) \<and> (\<exists>m. mode_of E w (nid n) = Some m \<and> nkind n = kind_of m)
   \<and> (\<forall>k < length ts. \<exists>i. resolve E w (take k ts) = Some i \<and> may_search E w sctx i)"

lemma null_result_snoc:
  "null_result E w sctx (ts @ [t]) n \<longleftrightarrow>
     (\<exists>i m. null_result E w sctx ts \<lparr>nid = i, nkind = KDirectory\<rparr> \<and> may_search E w sctx i
        \<and> entry E w i t = Some (nid n) \<and> mode_of E w (nid n) = Some m \<and> nkind n = kind_of m)"
  (is "?l \<longleftrightarrow> ?r")
proof
  assume ?l
  then have "\<exists>i. resolve E w (take (length ts) (ts @ [t])) = Some i \<and> may_search E w sctx i"
    unfolding null_result_def by (metis lessI length_append_singleton)
  then obtain i where i: "resolve E w ts = Some i" "may_search E w sctx i" by auto
  have "\<exists>i. resolve E w (take k ts) = Some i \<and> may_search E w sctx i" if "k < length ts" for k
    using \<open>?l\<close> that unfolding null_result_def
    by (metis length_append_singleton less_SucI less_imp_le_nat take_append append_Nil2 diff_is_0_eq take_0)
  then show ?r
    using \<open>?l\<close> i resolve_mode [OF i(1)]
    by (auto simp: null_result_def resolve_snoc step_to_def is_dir_def split: bind_splits if_splits)
next
  assume ?r
  then obtain i m where r: "null_result E w sctx ts \<lparr>nid = i, nkind = KDirectory\<rparr>" "may_search E w sctx i"
    "entry E w i t = Some (nid n)" "mode_of E w (nid n) = Some m" "nkind n = kind_of m" by blast
  then have "is_dir E w i" by (auto simp: null_result_def is_dir_def)
  then have "resolve E w (ts @ [t]) = Some (nid n)"
    using r by (simp add: resolve_snoc null_result_def step_to_def)
  then show ?l
    using r by (auto simp: null_result_def less_Suc_eq)
qed

lemma ex_dir_node:
  "(\<exists>d. P d \<and> nkind d = KDirectory \<and> Q (nid d)) \<longleftrightarrow> (\<exists>i. P \<lparr>nid = i, nkind = KDirectory\<rparr> \<and> Q i)"
proof
  assume "\<exists>d. P d \<and> nkind d = KDirectory \<and> Q (nid d)"
  then obtain d where "P d" "nkind d = KDirectory" "Q (nid d)" by blast
  moreover from this have "\<lparr>nid = nid d, nkind = KDirectory\<rparr> = d" by simp
  ultimately show "\<exists>i. P \<lparr>nid = i, nkind = KDirectory\<rparr> \<and> Q i" by metis
next
  assume "\<exists>i. P \<lparr>nid = i, nkind = KDirectory\<rparr> \<and> Q i"
  then obtain i where "P \<lparr>nid = i, nkind = KDirectory\<rparr>" "Q i" by blast
  then show "\<exists>d. P d \<and> nkind d = KDirectory \<and> Q (nid d)"
    by (intro exI [of _ "\<lparr>nid = i, nkind = KDirectory\<rparr>"]) simp
qed

lemma null_walk_result:
  assumes "lawful E" and "owners_ok E w"
  shows "bind (getnode E 0) (null_walk E sctx ts) w = (Inr n, w') \<longleftrightarrow> null_result E w sctx ts n \<and> w' = w"
proof (induction ts arbitrary: n w' rule: rev_induct)
  case Nil
  show ?case
    unfolding null_walk_Nil bind_ret_right
    using assms(1) by (auto simp: getnode_Inr null_result_def resolve_Nil)
next
  case (snoc t ts)
  have assoc: "bind (getnode E 0) (null_walk E sctx (ts @ [t])) =
      bind (bind (getnode E 0) (null_walk E sctx ts)) (null_walk E sctx [t])"
    unfolding bind_assoc by (rule arg_cong [where f = "bind (getnode E 0)"], rule ext, rule null_walk_snoc)
  have last: "null_walk E sctx [t] d w = (Inr n, w') \<longleftrightarrow>
      may_search E w sctx (nid d) \<and> nkind d = KDirectory \<and> w' = w
      \<and> (\<exists>m. entry E w (nid d) t = Some (nid n) \<and> mode_of E w (nid n) = Some m \<and> nkind n = kind_of m)"
    if "mode_of E w (nid d) \<noteq> None" for d n w'
    using access_search [OF assms that, of sctx] assms(1)
    by (auto simp: andthen_result bind_result getchild_Inr cast_def split: if_splits)
  have mode: "mode_of E w (nid d) \<noteq> None" if "null_result E w sctx ts d" for d
    using that by (auto simp: null_result_def)
  have "bind (getnode E 0) (null_walk E sctx (ts @ [t])) w = (Inr n, w') \<longleftrightarrow>
      (\<exists>d. null_result E w sctx ts d \<and> null_walk E sctx [t] d w = (Inr n, w'))"
    unfolding assoc bind_result [of "bind (getnode E 0) (null_walk E sctx ts)"] snoc.IH by auto
  also have "\<dots> \<longleftrightarrow> (\<exists>d. null_result E w sctx ts d \<and> may_search E w sctx (nid d) \<and> nkind d = KDirectory \<and> w' = w
      \<and> (\<exists>m. entry E w (nid d) t = Some (nid n) \<and> mode_of E w (nid n) = Some m \<and> nkind n = kind_of m))"
    using last mode by blast
  also have "\<dots> \<longleftrightarrow> null_result E w sctx (ts @ [t]) n \<and> w' = w"
    unfolding null_result_snoc
    using ex_dir_node [of "null_result E w sctx ts" "\<lambda>i. may_search E w sctx i \<and> w' = w
      \<and> (\<exists>m. entry E w i t = Some (nid n) \<and> mode_of E w (nid n) = Some m \<and> nkind n = kind_of m)"]
    by auto
  finally show ?case .
qed

section \<open>Coherence of the cache\<close>

text \<open>The data of an entry are those of the node at the end of its path.\<close>

definition matches :: "('s, 'h) env \<Rightarrow> ('s, 'h, 'z) world_scheme \<Rightarrow> string list \<Rightarrow> cdata \<Rightarrow> bool" where
  "matches E w ts d \<longleftrightarrow>
     resolve E w ts = Some (cd_nodeid d) \<and> mode_of E w (cd_nodeid d) = Some (cd_mode d)
   \<and> wattr E w DNodes (cd_nodeid d) A_uid = Some (cd_uid d)
   \<and> wattr E w DNodes (cd_nodeid d) A_gid = Some (cd_gid d)"

definition node_data :: "('s, 'h) env \<Rightarrow> ('s, 'h, 'z) world_scheme \<Rightarrow> nodeid \<Rightarrow> cdata \<Rightarrow> bool" where
  "node_data E w i d \<longleftrightarrow> cd_nodeid d = i \<and> mode_of E w i = Some (cd_mode d)
   \<and> wattr E w DNodes i A_uid = Some (cd_uid d) \<and> wattr E w DNodes i A_gid = Some (cd_gid d)"

lemma matches_node: "matches E w ts d \<longleftrightarrow> (\<exists>i. resolve E w ts = Some i \<and> node_data E w i d)"
  by (auto simp: matches_def node_data_def)

lemma init_read_root:
  assumes "lawful E" and "init_read E None [] w = (Inr d, w')"
  shows "resolve E w [] = Some 0" and "node_data E w 0 d"
  using assms
  by (auto simp: init_read_def bind_result getnode_Inr getattr_Inr resolve_Nil node_data_def)

lemma init_read_child:
  assumes "lawful E" and "init_read E (Some (p, i)) ts w = (Inr d, w')"
  shows "\<exists>j. step_to E w i (last ts) = Some j \<and> node_data E w j d"
  using assms
  by (auto simp: init_read_def cast_def bind_result getnode_Inr getchild_Inr getattr_Inr step_to_def
      is_dir_def node_data_def split: if_splits)

lemma init_read_root_ok:
  assumes "lawful E" and "owners_ok E w" and "mode_of E w 0 \<noteq> None"
  shows "\<not> isl (fst (init_read E None ts w))"
proof -
  obtain m where m: "mode_of E w 0 = Some m" using assms(3) by auto
  obtain uid :: uid_t and gid :: gid_t where o: "wattr E w DNodes (0 :: nodeid) A_uid = Some uid" "wattr E w DNodes (0 :: nodeid) A_gid = Some gid"
    using assms(2) [unfolded owners_ok_def, rule_format, OF assms(3)] by auto
  show ?thesis
    by (simp add: init_read_def getnode_eq [OF assms(1) m] getattr_Some [OF assms(1) m]
        getattr_Some [OF assms(1) o(1)] getattr_Some [OF assms(1) o(2)])
qed

lemma init_read_child_ok:
  assumes "lawful E" and "owners_ok E w" and "step_to E w i (last ts) = Some j"
  shows "\<not> isl (fst (init_read E (Some (p, i)) ts w))"
proof -
  from assms(3) obtain mi where mi: "mode_of E w i = Some mi" "S_ISDIR mi"
    and j: "entry E w i (last ts) = Some j" "mode_of E w j \<noteq> None"
    by (auto simp: step_to_def is_dir_def split: if_splits bind_splits)
  obtain m where m: "mode_of E w j = Some m" using j(2) by auto
  obtain uid :: uid_t and gid :: gid_t where o: "wattr E w DNodes j A_uid = Some uid" "wattr E w DNodes j A_gid = Some gid"
    using assms(2) [unfolded owners_ok_def, rule_format, OF j(2)] by auto
  have child: "getchild E \<lparr>nid = i, nkind = kind_of mi\<rparr> (last ts) w = (Inr \<lparr>nid = j, nkind = kind_of m\<rparr>, w)"
    using assms(1) j(1) m by (simp add: getchild_Inr)
  show ?thesis
    using mi(2)
    by (simp add: init_read_def cast_def getnode_eq [OF assms(1) mi(1)] child getattr_Some [OF assms(1) m]
        getattr_Some [OF assms(1) o(1)] getattr_Some [OF assms(1) o(2)])
qed

interpretation shape: cache_content "\<lambda>E w ts d. True"
  by unfold_locales auto

lemma matches_child:
  assumes "lawful E" and "ts \<noteq> []" and "matches E w (butlast ts) pd"
    and "init_read E (Some (p, cd_nodeid pd)) ts w = (Inr d, w')"
  shows "matches E w ts d"
proof -
  obtain j where j: "step_to E w (cd_nodeid pd) (last ts) = Some j" "node_data E w j d"
    using init_read_child [OF assms(1,4)] by blast
  have "resolve E w (butlast ts @ [last ts]) = Some j"
    using assms(3) j(1) by (simp add: resolve_snoc matches_def)
  then show ?thesis using assms(2) j(2) by (auto simp: matches_node)
qed

interpretation coherent: cache_content "matches"
proof unfold_locales
  show "matches E (w\<lparr>pcache := c\<rparr>) = matches E w"
    for E :: "('s, 'h) env" and w :: "('s, 'h, 'z) pworld_scheme" and c
    by (intro ext) (simp add: matches_def)
  show "matches E w ts (d\<lparr>cd_parent := q\<rparr>) = matches E w ts d"
    for E :: "('s, 'h) env" and w :: "('s, 'h, 'z) pworld_scheme" and ts d q
    by (simp add: matches_def)
  show "matches E w [] d" if "lawful E" and "init_read E None [] w = (Inr d, w)"
    for E :: "('s, 'h) env" and w :: "('s, 'h, 'z) pworld_scheme" and d
    using init_read_root [OF that] by (auto simp: matches_node)
  show "matches E w ts d" if "lawful E" and "ts \<noteq> []" and "matches E w (butlast ts) pd"
      and "init_read E (Some (p, cd_nodeid pd)) ts w = (Inr d, w)"
    for E :: "('s, 'h) env" and w :: "('s, 'h, 'z) pworld_scheme" and ts pd p d
    using that by (rule matches_child)
qed

text \<open>With an owner on every node, a lookup only fails where the path does not lead anywhere.\<close>

lemma fails_unresolved:
  assumes "lawful E" and "owners_ok E w" and "coherent.fails E w ts"
  shows "resolve E w ts = None"
proof (cases "ts = []")
  case True
  then show ?thesis
    using assms init_read_root_ok [OF assms(1,2), of "[]"]
    by (cases "mode_of E w 0") (simp_all add: coherent.fails_def resolve_Nil)
next
  case False
  then obtain p pd where pd: "matches E w (butlast ts) pd" "isl (fst (init_read E (Some (p, cd_nodeid pd)) ts w))"
    using assms(3) by (auto simp: coherent.fails_def)
  then have "step_to E w (cd_nodeid pd) (last ts) = None"
    using init_read_child_ok [OF assms(1,2)] by (cases "step_to E w (cd_nodeid pd) (last ts)") auto
  then have "resolve E w (butlast ts @ [last ts]) = None"
    using pd(1) by (simp add: resolve_snoc matches_def)
  then show ?thesis using False by simp
qed

lemma matches_search:
  assumes "matches E w ts d"
  shows "search_ok sctx d \<longleftrightarrow> may_search E w sctx (cd_nodeid d)"
proof -
  have bits: "and (cd_mode d) S_IXUSR \<noteq> 0 \<longleftrightarrow> bit (cd_mode d) 6"
    "and (cd_mode d) S_IXGRP \<noteq> 0 \<longleftrightarrow> bit (cd_mode d) 3"
    "and (cd_mode d) S_IXOTH \<noteq> 0 \<longleftrightarrow> bit (cd_mode d) 0"
    using and_exp_eq_0_iff_not_bit [of "cd_mode d" 6] and_exp_eq_0_iff_not_bit [of "cd_mode d" 3]
      and_exp_eq_0_iff_not_bit [of "cd_mode d" 0] by simp_all
  have one: "bit (X_OK :: mode_t) k \<longleftrightarrow> k = 0" for k by (simp add: bit_1_iff)
  show ?thesis
    using assms unfolding search_ok_def may_search_def permits_def class_shift_def bits matches_def
    by (auto simp: one)
qed

section \<open>The two implementations agree\<close>

definition pc_coherent :: "('s, 'h) env \<Rightarrow> ('s, 'h, 'z) pworld_scheme \<Rightarrow> bool" where
  "pc_coherent E w \<longleftrightarrow> pc_ok (matches E w) [] (pcache w) \<and> 0 < pc_max (pcache w)"

lemma granted_search:
  assumes "coherent.granted E w sctx (butlast ts)" and "k < length ts"
  shows "\<exists>i. resolve E w (take k ts) = Some i \<and> may_search E w sctx i"
proof -
  obtain d where "matches E w (take k (butlast ts)) d" "search_ok sctx d"
    using assms(1) by (auto simp: coherent.granted_def)
  moreover have "take k (butlast ts) = take k ts" using assms(2) by (simp add: take_butlast)
  ultimately show ?thesis using matches_search by (metis matches_def)
qed

lemma refused_blocks:
  assumes "lawful E" and "owners_ok E w" and "coherent.refused E w sctx (butlast ts)" and "ts \<noteq> []"
  shows "\<not> null_result E w sctx ts n"
proof
  assume res: "null_result E w sctx ts n"
  from assms(3) consider m where "coherent.fails E w (take m (butlast ts))"
    | m d where "matches E w (take m (butlast ts)) d" "\<not> search_ok sctx d"
    unfolding coherent.refused_def by blast
  then show False
  proof cases
    case (1 m)
    have "take m (butlast ts) = take (min m (length ts - 1)) ts"
      by (simp add: butlast_conv_take)
    then have "resolve E w ts = None"
      using fails_unresolved [OF assms(1,2) 1] resolve_take by metis
    then show False using res by (simp add: null_result_def)
  next
    case (2 m d)
    let ?k = "min m (length ts - 1)"
    have t: "take m (butlast ts) = take ?k ts" by (simp add: butlast_conv_take)
    have "?k < length ts" using assms(4) by (cases ts) auto
    then obtain i where "resolve E w (take ?k ts) = Some i" "may_search E w sctx i"
      using res unfolding null_result_def by blast
    then show False using 2 matches_search unfolding t by (metis matches_def option.inject)
  qed
qed

lemma hash_getnode_result:
  assumes "lawful E" and "owners_ok E w" and "pc_coherent E w"
  shows "fst (hash_getnode E sctx path w) = Inr n \<longleftrightarrow> null_result E w sctx (tokenize ''/'' path) n"
proof -
  let ?ts = "tokenize ''/'' path"
  have ok: "pc_ok (matches E w) [] (pcache w)" "0 < pc_max (pcache w)"
    using assms(3) by (simp_all add: pc_coherent_def)
  from coherent.hash_getnode_spec [OF assms(1) ok, of sctx path]
  consider e where "fst (hash_getnode E sctx path w) = Inl e"
      "?ts \<noteq> [] \<and> coherent.refused E w sctx (butlast ?ts) \<or> (\<exists>n. coherent.fails E w (take n ?ts))"
    | d where "?ts \<noteq> [] \<longrightarrow> coherent.granted E w sctx (butlast ?ts)" "matches E w ?ts d"
      "fst (hash_getnode E sctx path w) = fst (getnode E (cd_nodeid d) w)"
    by blast
  then show ?thesis
  proof cases
    case (1 e)
    have "\<not> null_result E w sctx ?ts n"
      using 1(2)
    proof
      assume "?ts \<noteq> [] \<and> coherent.refused E w sctx (butlast ?ts)"
      then show ?thesis using refused_blocks [OF assms(1,2)] by blast
    next
      assume "\<exists>m. coherent.fails E w (take m ?ts)"
      then have "resolve E w ?ts = None"
        using fails_unresolved [OF assms(1,2)] resolve_take by metis
      then show ?thesis by (simp add: null_result_def)
    qed
    then show ?thesis using 1(1) by simp
  next
    case (2 d)
    let ?i = "cd_nodeid d"
    have i: "resolve E w ?ts = Some ?i" "mode_of E w ?i = Some (cd_mode d)"
      using 2(2) by (simp_all add: matches_def)
    have search: "\<forall>k < length ?ts. \<exists>i. resolve E w (take k ?ts) = Some i \<and> may_search E w sctx i"
      using 2(1) granted_search by (metis length_0_conv less_nat_zero_code)
    have "fst (hash_getnode E sctx path w) = Inr \<lparr>nid = ?i, nkind = kind_of (cd_mode d)\<rparr>"
      using 2(3) getnode_eq [OF assms(1) i(2)] by simp
    moreover have "null_result E w sctx ?ts n \<longleftrightarrow> n = \<lparr>nid = ?i, nkind = kind_of (cd_mode d)\<rparr>"
      using i search by (auto simp: null_result_def)
    ultimately show ?thesis by auto
  qed
qed

text \<open>Lookups keep the cache coherent, and so does dropping an entry.\<close>

lemma hash_getnode_coherent:
  assumes "lawful E" and "pc_coherent E w"
  shows "\<exists>c. snd (hash_getnode E sctx path w) = w\<lparr>pcache := c\<rparr> \<and> pc_coherent E (w\<lparr>pcache := c\<rparr>)
     \<and> \<not> pc_locked c"
proof -
  have ok: "pc_ok (matches E w) [] (pcache w)" "0 < pc_max (pcache w)"
    using assms(2) by (simp_all add: pc_coherent_def)
  show ?thesis
    using coherent.hash_getnode_spec [OF assms(1) ok, of sctx path] ok(2)
    unfolding pc_coherent_def coherent.K_cache by auto
qed

lemma null_equals_hash:
  fixes w :: "('s, 'h, 'z) pworld_scheme"
  assumes "lawful E" and "owners_ok E w" and "pc_coherent E w"
  shows "fst (hash_getnode E sctx path w) = Inr n \<longleftrightarrow> fst (null_getnode E sctx path w) = Inr n"
proof -
  have "fst (null_getnode E sctx path w) = Inr n \<longleftrightarrow> null_result E w sctx (tokenize ''/'' path) n"
    using null_walk_result [OF assms(1,2), of sctx "tokenize ''/'' path" n w]
      blind_state [OF blind_null_getnode, of E sctx path w]
    unfolding null_getnode_def by (metis fst_conv prod.collapse)
  then show ?thesis using hash_getnode_result [OF assms, of sctx path n] by blast
qed

end
