(* ===== verification/Paths.thy ===== *)
theory Paths
  imports Path_Resolution
begin

text \<open>
  \<^verbatim>\<open>Path<T>\<close> (\<^verbatim>\<open>path.hxx\<close>): the directory and the leaf name a path denotes, and the
  creation of a node there. The constructor takes any \<^verbatim>\<open>PathCache\<close>; the locale
  \<open>path_cache\<close> states what the callers of that interface rely on, and it is interpreted on
  both implementations.
\<close>

record path =
  parent :: node
  leaf :: string

text \<open>The constructor, for the virtual method \<open>getn\<close> of the cache it is given.\<close>

definition path_new :: "(scontext \<Rightarrow> string \<Rightarrow> ('w, node) m) \<Rightarrow> scontext \<Rightarrow> string \<Rightarrow> ('w, path) m" where
  "path_new getn sctx p =
     (let (parentpath, leafname) = path_split p in
      bind (getn sctx parentpath) (\<lambda>n.
      bind (cast KDirectory n) (\<lambda>d.
      ret \<lparr>parent = d, leaf = leafname\<rparr>)))"

text \<open>\<^verbatim>\<open>Path<T>::create\<close>, where \<open>k\<close> is the class \<^verbatim>\<open>T\<close>.\<close>

definition path_create :: "('s, 'h) env \<Rightarrow> kind \<Rightarrow> path \<Rightarrow> scontext \<Rightarrow> ('s, 'h, 'z, node) op" where
  "path_create E k p sctx =
     andthen (access E sctx (parent p) (or W_OK X_OK))
     (bind (create_kind E k) (\<lambda>n.
      andthen (handle (addchild E (parent p) (leaf p) n) (\<lambda>e. andthen (remove E n) (throw e)))
      (ret n)))"

section \<open>The interface of a path cache\<close>

text \<open>A node object whose class is that of the mode stored in the database.\<close>

definition typed :: "('s, 'h) env \<Rightarrow> ('s, 'h, 'z) world_scheme \<Rightarrow> node \<Rightarrow> bool" where
  "typed E w n \<longleftrightarrow> (\<exists>m. mode_of E w (nid n) = Some m \<and> nkind n = kind_of m)"

lemma typed_getnode: "lawful E \<Longrightarrow> getnode E i w = (Inr n, w') \<Longrightarrow> typed E w n"
  by (auto simp: getnode_Inr typed_def)

lemma typed_dir: "typed E w n \<Longrightarrow> nkind n = KDirectory \<Longrightarrow> is_dir E w (nid n)"
  by (auto simp: typed_def is_dir_def)

locale path_cache =
  fixes ok :: "('s, 'h) env \<Rightarrow> ('s, 'h, 'z) pworld_scheme \<Rightarrow> bool"
    and getn :: "('s, 'h) env \<Rightarrow> scontext \<Rightarrow> string \<Rightarrow> ('s, 'h, 'z, node) pop"
    and inval :: "('s, 'h) env \<Rightarrow> string \<Rightarrow> ('s, 'h, 'z, unit) pop"
  assumes getn_law: "lawful E \<Longrightarrow> ok E w \<Longrightarrow> \<exists>c. snd (getn E sctx p w) = w\<lparr>pcache := c\<rparr>
        \<and> ok E (w\<lparr>pcache := c\<rparr>) \<and> fst (getn E sctx p w) \<noteq> Inl EStuck
        \<and> (\<forall>n. fst (getn E sctx p w) = Inr n \<longrightarrow> typed E w n)"
    and inval_law: "lawful E \<Longrightarrow> ok E w \<Longrightarrow> \<exists>c. inval E p w = (Inr (), w\<lparr>pcache := c\<rparr>) \<and> ok E (w\<lparr>pcache := c\<rparr>)"
begin

lemma path_new_result:
  assumes "lawful E" and "ok E w"
  shows "\<exists>c. snd (path_new (getn E) sctx p w) = w\<lparr>pcache := c\<rparr> \<and> ok E (w\<lparr>pcache := c\<rparr>)
     \<and> fst (path_new (getn E) sctx p w) \<noteq> Inl EStuck
     \<and> (\<forall>pt. fst (path_new (getn E) sctx p w) = Inr pt \<longrightarrow>
           nkind (parent pt) = KDirectory \<and> is_dir E w (nid (parent pt)) \<and> leaf pt = snd (path_split p))"
proof -
  obtain pp lf where split: "path_split p = (pp, lf)" by fastforce
  obtain r w1 where run: "getn E sctx pp w = (r, w1)" by fastforce
  obtain c where c: "w1 = w\<lparr>pcache := c\<rparr>" "ok E (w\<lparr>pcache := c\<rparr>)" "r \<noteq> Inl EStuck"
    "\<forall>n. r = Inr n \<longrightarrow> typed E w n"
    using getn_law [OF assms, of sctx pp] run by auto
  show ?thesis
  proof (cases r)
    case (Inl e)
    then show ?thesis using c run split by (intro exI [of _ c]) (simp add: path_new_def)
  next
    case (Inr n)
    then have "path_new (getn E) sctx p w =
        (if nkind n \<noteq> KDirectory then Inl (EBadCast KDirectory) else Inr \<lparr>parent = n, leaf = lf\<rparr>, w1)"
      using run split by (simp add: path_new_def cast_def)
    then show ?thesis using c Inr split typed_dir by (intro exI [of _ c]) auto
  qed
qed

end

lemma safe_null_walk [safe_rules]: "safe (null_walk E sctx ts n)"
  by (induction ts arbitrary: n) (simp_all add: safe_rules)

lemma null_walk_typed:
  assumes "lawful E"
  shows "null_walk E sctx ts n w = (Inr n', w') \<Longrightarrow> typed E w n \<Longrightarrow> typed E w n'"
proof (induction ts arbitrary: n)
  case Nil
  then show ?case by simp
next
  case (Cons t ts)
  from Cons.prems(1) obtain w1 d w2 n1 w3 where steps: "access E sctx n X_OK w = (Inr (), w1)"
    "cast KDirectory n w1 = (Inr d, w2)" "getchild E d t w2 = (Inr n1, w3)"
    "null_walk E sctx ts n1 w3 = (Inr n', w')"
    by (auto simp: andthen_result bind_result)
  have "w1 = w" by (rule readsD [OF reads_access steps(1)])
  moreover have "w2 = w1" by (rule readsD [OF reads_cast steps(2)])
  moreover have "w3 = w2" by (rule readsD [OF reads_getchild steps(3)])
  ultimately have child: "getchild E d t w = (Inr n1, w)"
    and rest: "null_walk E sctx ts n1 w = (Inr n', w')" using steps(3,4) by simp_all
  then have "typed E w n1" using assms by (auto simp: getchild_Inr typed_def)
  then show ?case using Cons.IH rest by blast
qed

lemma null_getnode_law:
  fixes w :: "('s, 'h, 'z) pworld_scheme"
  assumes "lawful E"
  shows "\<exists>c. snd (null_getnode E sctx p w) = w\<lparr>pcache := c\<rparr> \<and> fst (null_getnode E sctx p w) \<noteq> Inl EStuck
     \<and> (\<forall>n. fst (null_getnode E sctx p w) = Inr n \<longrightarrow> typed E w n)"
proof -
  have "safe (null_getnode E sctx p)" unfolding null_getnode_def by (intro safe_rules)
  then have "fst (null_getnode E sctx p w) \<noteq> Inl EStuck"
    using safeD(2) by (metis prod.collapse)
  moreover have state: "null_getnode E sctx p w = (fst (null_getnode E sctx p w), w)"
    by (rule blind_state [OF blind_null_getnode])
  moreover have "typed E w n" if "fst (null_getnode E sctx p w) = Inr n" for n
  proof -
    have "null_getnode E sctx p w = (Inr n, w)" using that state by simp
    then obtain r w1 where "getnode E 0 w = (Inr r, w1)"
      and walk: "null_walk E sctx (tokenize ''/'' p) r w1 = (Inr n, w)"
      by (auto simp: null_getnode_def bind_result)
    then have "typed E w r" and "w1 = w"
      using typed_getnode [OF assms] readsD [OF reads_getnode] by blast+
    then show ?thesis using null_walk_typed [OF assms] walk by blast
  qed
  moreover have "snd (null_getnode E sctx p w) = w\<lparr>pcache := pcache w\<rparr>"
    using state by (metis pworld.surjective pworld.update_convs(1) snd_conv)
  ultimately show ?thesis by blast
qed

interpretation null_cache: path_cache "\<lambda>E w. True" null_getnode null_invalidate
proof unfold_locales
  show "\<exists>c. null_invalidate E p w = (Inr (), w\<lparr>pcache := c\<rparr>) \<and> True"
    for E :: "('s, 'h) env" and w :: "('s, 'h, 'z) pworld_scheme" and p
    by (intro exI [of _ "pcache w"]) (simp add: null_invalidate_def)
qed (use null_getnode_law in auto)

text \<open>The cache of \<^verbatim>\<open>PathCache_hash\<close> is in order: structure and bound.\<close>

definition pc_inv :: "('s, 'h) env \<Rightarrow> ('s, 'h, 'z) pworld_scheme \<Rightarrow> bool" where
  "pc_inv E w \<longleftrightarrow> pc_ok (\<lambda>_ _. True) [] (pcache w) \<and> 0 < pc_max (pcache w)"

lemma hash_getnode_law:
  assumes "lawful E" and "pc_inv E w"
  shows "\<exists>c. snd (hash_getnode E sctx p w) = w\<lparr>pcache := c\<rparr> \<and> pc_inv E (w\<lparr>pcache := c\<rparr>)
     \<and> fst (hash_getnode E sctx p w) \<noteq> Inl EStuck
     \<and> (\<forall>n. fst (hash_getnode E sctx p w) = Inr n \<longrightarrow> typed E w n)"
proof -
  have ok: "pc_ok (\<lambda>_ _. True) [] (pcache w)" "0 < pc_max (pcache w)"
    using assms(2) by (simp_all add: pc_inv_def)
  have node: "fst (getnode E i w) \<noteq> Inl EStuck" "fst (getnode E i w) = Inr n \<Longrightarrow> typed E w n" for i n
    using safeD(2) [OF safe_getnode, of E i w] typed_getnode [OF assms(1), of i w] by (metis prod.collapse)+
  show ?thesis
    using shape.hash_getnode_spec [OF assms(1) ok, of sctx p] ok(2) node
    unfolding pc_inv_def by fastforce
qed

interpretation hash_cache: path_cache pc_inv hash_getnode hash_invalidate
proof unfold_locales
  show "\<exists>c. snd (hash_getnode E sctx p w) = w\<lparr>pcache := c\<rparr> \<and> pc_inv E (w\<lparr>pcache := c\<rparr>)
      \<and> fst (hash_getnode E sctx p w) \<noteq> Inl EStuck
      \<and> (\<forall>n. fst (hash_getnode E sctx p w) = Inr n \<longrightarrow> typed E w n)"
    if "lawful E" and "pc_inv E w" for E :: "('s, 'h) env" and w :: "('s, 'h, 'z) pworld_scheme" and sctx p
    using that by (rule hash_getnode_law)
  show "\<exists>c. hash_invalidate E p w = (Inr (), w\<lparr>pcache := c\<rparr>) \<and> pc_inv E (w\<lparr>pcache := c\<rparr>)"
    if "lawful E" and "pc_inv E w" for E :: "('s, 'h) env" and w :: "('s, 'h, 'z) pworld_scheme" and p
    using that hash_invalidate_any [of "\<lambda>_ _. True" w E p] by (auto simp: pc_inv_def)
qed

end
