(* ===== verification/Fs.thy ===== *)
theory Fs
  imports Paths
begin

text \<open>
  The file system operations (\<^verbatim>\<open>offlinefs/fs.cxx\<close>, class \<^verbatim>\<open>FS\<close>). Every handler takes the
  environment, the identity of the caller (\<^verbatim>\<open>fuse_get_context()\<close>) and its arguments, and
  returns the value of the C++ method, together with what it writes through its pointer
  arguments. A handler that does not catch an exception returns it.
\<close>

section \<open>State\<close>

definition MAX_OPEN_FILES :: nat where "MAX_OPEN_FILES = 512"

record ('s, 'h) fsworld = "('s, 'h) pworld" +
  open_files :: "nat \<Rightarrow> source option"
  defmedium :: string

type_synonym ('s, 'h, 'z, 'a) fop = "(('s, 'h, 'z) fsworld_scheme, 'a) m"
type_synonym caller = "uid_t \<times> gid_t"

section \<open>Error codes\<close>

abbreviation EPERM :: int where "EPERM \<equiv> 1"
abbreviation EIO :: int where "EIO \<equiv> 5"
abbreviation EBADF :: int where "EBADF \<equiv> 9"
abbreviation EACCES :: int where "EACCES \<equiv> 13"
abbreviation EEXIST :: int where "EEXIST \<equiv> 17"
abbreviation ENOTDIR :: int where "ENOTDIR \<equiv> 20"
abbreviation EISDIR :: int where "EISDIR \<equiv> 21"
abbreviation EINVAL :: int where "EINVAL \<equiv> 22"
abbreviation ENFILE :: int where "ENFILE \<equiv> 23"
abbreviation ENOTEMPTY :: int where "ENOTEMPTY \<equiv> 39"
abbreviation ENOATTR :: int where "ENOATTR \<equiv> 61"

definition errcode :: "exn \<Rightarrow> int" where
  "errcode e =
     (case e of ENotFound \<Rightarrow> - ENOENT
      | EBadCast KDirectory \<Rightarrow> - ENOTDIR
      | EBadCast KSymlink \<Rightarrow> - EINVAL
      | EBadCast KFile \<Rightarrow> - EINVAL
      | EExists \<Rightarrow> - EEXIST
      | EAccess \<Rightarrow> - EACCES
      | _ \<Rightarrow> - EIO)"

text \<open>\<^verbatim>\<open>try { FsTxn txns(dbs); body } catch(exception& e) { return errcode(e); }\<close>\<close>

definition handler :: "('s, 'h) env \<Rightarrow> ('s, 'h, 'z, int) fop \<Rightarrow> ('s, 'h, 'z, int) fop" where
  "handler E body = handle (with_fstxn E body) (\<lambda>e. ret (errcode e))"

section \<open>Helpers\<close>

definition userctx :: "('s, 'h) env \<Rightarrow> caller \<Rightarrow> ('s, 'h, 'z, scontext) fop" where
  "userctx E ctx = sc_get E (fst ctx) (snd ctx)"

definition getsource :: "('s, 'h) env \<Rightarrow> node \<Rightarrow> string \<Rightarrow> 32 word \<Rightarrow> ('s, 'h, 'z, source) fop" where
  "getsource E f phid flags =
     handle (source_getsource E (nid f) flags)
       (on_missing 64
         (bind (gets defmedium) (\<lambda>label.
          bind (getmedium_label E label) (\<lambda>m.
          andthen (addfile m phid)
          (andthen (setattrv E DNodes (nid f) A_source ''single'')
          (andthen (setattr E DNodes (nid f) A_mediumid (mid m))
          (andthen (setattrv E DNodes (nid f) A_phid phid)
          (source_getsource E (nid f) flags))))))))"

definition check_sticky_bit :: "('s, 'h) env \<Rightarrow> scontext \<Rightarrow> node \<Rightarrow> node \<Rightarrow> ('s, 'h, 'z, unit) op" where
  "check_sticky_bit E sctx d n =
     bind (getattr E DNodes (nid d) A_mode) (\<lambda>m :: mode_t.
       whenM (and m S_ISVTX \<noteq> 0 \<and> suid sctx \<noteq> 0)
         (bind (getattr E DNodes (nid d) A_uid) (\<lambda>duid.
          whenM (suid sctx \<noteq> duid)
            (bind (getattr E DNodes (nid n) A_uid) (\<lambda>nuid.
             whenM (suid sctx \<noteq> nuid) (throw EAccess))))))"

text \<open>\<^verbatim>\<open>n->setattr<off::time_t>(name,time(NULL))\<close>\<close>

definition stamp :: "('s, 'h) env \<Rightarrow> node \<Rightarrow> string \<Rightarrow> ('s, 'h, 'z, unit) op" where
  "stamp E n name = bind (time_now E) (\<lambda>t. setattr E DNodes (nid n) name t)"

text \<open>The two updates of the parent's times at the end of most handlers.\<close>

definition touch_parent :: "('s, 'h) env \<Rightarrow> node \<Rightarrow> ('s, 'h, 'z, unit) op" where
  "touch_parent E d = andthen (stamp E d A_ctime) (stamp E d A_mtime)"

abbreviation getnode_path :: "('s, 'h) env \<Rightarrow> scontext \<Rightarrow> string \<Rightarrow> ('s, 'h, 'z, node) pop" where
  "getnode_path E sctx p \<equiv> hash_getnode E sctx p"

section \<open>Construction and destruction\<close>

text \<open>The constructor of the member \<open>scache\<close> ends with a call of \<^verbatim>\<open>uptodate\<close>.\<close>

definition fs_new :: "('s, 'h) env \<Rightarrow> string \<Rightarrow> ('s, 'h, 'z, unit) fop" where
  "fs_new E medium =
     andthen (modify (\<lambda>w. w\<lparr>scache := new_scache, pcache := new_pcache, open_files := Map.empty,
       defmedium := medium\<rparr>))
     (sc_uptodate E)"

definition fs_delete :: "('s, 'h) env \<Rightarrow> ('s, 'h, 'z, unit) fop" where
  "fs_delete E = forM [0..<MAX_OPEN_FILES] (\<lambda>i.
     bind (gets (\<lambda>w. open_files w i)) (\<lambda>s.
       case s of None \<Rightarrow> ret () | Some s \<Rightarrow> single_close E s))"

section \<open>Reading attributes and directories\<close>

record stat_buf =
  st_ino :: "64 word"
  st_dev :: dev_t
  st_nlink :: nlink_t
  st_mode :: mode_t
  st_uid :: uid_t
  st_gid :: gid_t
  st_size :: off_t
  st_atime :: time_t
  st_mtime :: time_t
  st_ctime :: time_t
  st_blocks :: int

text \<open>Division of a signed 64-bit integer, which truncates.\<close>

definition blocks_of :: "off_t \<Rightarrow> int" where
  "blocks_of s = (if sint s < 0 then - ((- sint s) div 512) else sint s div 512)"

text \<open>On an error the contents of the buffer are of no use to the caller and left out.\<close>

definition fs_getattr :: "('s, 'h) env \<Rightarrow> caller \<Rightarrow> string \<Rightarrow> ('s, 'h, 'z, int \<times> stat_buf option) fop" where
  "fs_getattr E ctx p =
     handle (with_fstxn E (
       bind (userctx E ctx) (\<lambda>sctx.
       bind (getnode_path E sctx p) (\<lambda>n.
       bind (getattr E DNodes (nid n) A_dev) (\<lambda>dev.
       bind (getattr E DNodes (nid n) A_nlink) (\<lambda>nlink.
       bind (getattr E DNodes (nid n) A_mode) (\<lambda>mode.
       bind (getattr E DNodes (nid n) A_uid) (\<lambda>uid.
       bind (getattr E DNodes (nid n) A_gid) (\<lambda>gid.
       bind (getattr E DNodes (nid n) A_size) (\<lambda>size.
       bind (getattr E DNodes (nid n) A_atime) (\<lambda>atime.
       bind (getattr E DNodes (nid n) A_mtime) (\<lambda>mtime.
       bind (getattr E DNodes (nid n) A_ctime) (\<lambda>ctime.
       ret (0, Some \<lparr>st_ino = nid n, st_dev = dev, st_nlink = nlink, st_mode = mode, st_uid = uid,
         st_gid = gid, st_size = size, st_atime = atime, st_mtime = mtime, st_ctime = ctime,
         st_blocks = blocks_of size\<rparr>))))))))))))))
       (\<lambda>e. ret (errcode e, None))"

text \<open>The names given to \<^verbatim>\<open>filler\<close>.\<close>

definition fs_readdir :: "('s, 'h) env \<Rightarrow> caller \<Rightarrow> string \<Rightarrow> ('s, 'h, 'z, int \<times> string list) fop" where
  "fs_readdir E ctx p =
     handle (with_fstxn E (
       bind (userctx E ctx) (\<lambda>sctx.
       bind (getnode_path E sctx p) (\<lambda>n0.
       bind (cast KDirectory n0) (\<lambda>n.
       andthen (access E sctx n (or R_OK X_OK))
       (andthen (stamp E n A_atime)
       (bind (getchildren E n) (\<lambda>l.
       ret (0, l)))))))))
       (\<lambda>e. ret (errcode e, []))"

text \<open>What \<^verbatim>\<open>readlink\<close> and \<^verbatim>\<open>getxattr\<close> leave in a buffer: \<^verbatim>\<open>memcpy(buf,b.data,MIN(size,b.size))\<close>.\<close>

definition memcpy_min :: "bytes \<Rightarrow> bytes \<Rightarrow> bytes" where
  "memcpy_min buf b = take (length buf) b @ drop (length b) buf"

definition fs_readlink :: "('s, 'h) env \<Rightarrow> caller \<Rightarrow> string \<Rightarrow> bytes \<Rightarrow> ('s, 'h, 'z, int \<times> bytes) fop" where
  "fs_readlink E ctx p buf =
     handle (with_fstxn E (
       bind (userctx E ctx) (\<lambda>sctx.
       bind (getnode_path E sctx p) (\<lambda>n0.
       bind (cast KSymlink n0) (\<lambda>n.
       bind (getattrv E DNodes (nid n) A_symlink) (\<lambda>target.
       ret (0, (let b = memcpy_min buf target in
         if length target < length buf then b[length target := CHR 0x00] else b))))))))
       (\<lambda>e. ret (errcode e, buf))"

section \<open>Creating and removing nodes\<close>

definition fs_mknod :: "('s, 'h) env \<Rightarrow> caller \<Rightarrow> string \<Rightarrow> mode_t \<Rightarrow> dev_t \<Rightarrow> ('s, 'h, 'z, int) fop" where
  "fs_mknod E ctx pathname mode dev = handler E (
     bind (userctx E ctx) (\<lambda>sctx.
     bind (path_new (getnode_path E) sctx pathname) (\<lambda>p.
     bind (path_create E KNode p sctx) (\<lambda>n.
     andthen (setattr E DNodes (nid n) A_uid (fst ctx))
     (andthen (setattr E DNodes (nid n) A_gid (snd ctx))
     (andthen (setattr E DNodes (nid n) A_mode mode)
     (andthen (whenM (S_ISCHR mode \<or> S_ISBLK mode) (setattr E DNodes (nid n) A_dev dev))
     (andthen (touch_parent E (parent p))
     (ret 0)))))))))"

definition fs_mkdir :: "('s, 'h) env \<Rightarrow> caller \<Rightarrow> string \<Rightarrow> mode_t \<Rightarrow> ('s, 'h, 'z, int) fop" where
  "fs_mkdir E ctx pathname mode = handler E (
     bind (userctx E ctx) (\<lambda>sctx.
     bind (path_new (getnode_path E) sctx pathname) (\<lambda>p.
     bind (path_create E KDirectory p sctx) (\<lambda>n.
     andthen (addchild E n ''..'' (parent p))
     (andthen (setattr E DNodes (nid n) A_uid (fst ctx))
     (andthen (setattr E DNodes (nid n) A_gid (snd ctx))
     (andthen (setattr E DNodes (nid n) A_mode (or S_IFDIR mode))
     (andthen (touch_parent E (parent p))
     (ret 0)))))))))"

definition fs_unlink :: "('s, 'h) env \<Rightarrow> caller \<Rightarrow> string \<Rightarrow> ('s, 'h, 'z, int) fop" where
  "fs_unlink E ctx pathname = handler E (
     bind (userctx E ctx) (\<lambda>sctx.
     bind (path_new (getnode_path E) sctx pathname) (\<lambda>p.
     andthen (access E sctx (parent p) (or W_OK X_OK))
     (bind (getchild E (parent p) (leaf p)) (\<lambda>n.
     andthen (check_sticky_bit E sctx (parent p) n)
     (bind (getattr E DNodes (nid n) A_mode) (\<lambda>m.
       if S_ISDIR m then ret (- EISDIR)
       else
         andthen (hash_invalidate E pathname)
         (andthen (stamp E n A_ctime)
         (andthen (delchild E (parent p) (leaf p))
         (andthen (touch_parent E (parent p))
         (ret 0)))))))))))"

definition fs_rmdir :: "('s, 'h) env \<Rightarrow> caller \<Rightarrow> string \<Rightarrow> ('s, 'h, 'z, int) fop" where
  "fs_rmdir E ctx pathname = handler E (
     bind (userctx E ctx) (\<lambda>sctx.
     bind (path_new (getnode_path E) sctx pathname) (\<lambda>p.
     andthen (access E sctx (parent p) (or X_OK W_OK))
     (bind (bind (getchild E (parent p) (leaf p)) (cast KDirectory)) (\<lambda>n.
     andthen (check_sticky_bit E sctx (parent p) n)
     (bind (countchildren E n) (\<lambda>count.
       if 2 < count then ret (- ENOTEMPTY)
       else
         andthen (delchild E n ''.'')
         (andthen (delchild E n ''..'')
         (andthen (delchild E (parent p) (leaf p))
         (andthen (hash_invalidate E pathname)
         (andthen (touch_parent E (parent p))
         (ret 0))))))))))))"

definition fs_symlink :: "('s, 'h) env \<Rightarrow> caller \<Rightarrow> string \<Rightarrow> string \<Rightarrow> ('s, 'h, 'z, int) fop" where
  "fs_symlink E ctx oldpath newpath = handler E (
     bind (userctx E ctx) (\<lambda>sctx.
     bind (path_new (getnode_path E) sctx newpath) (\<lambda>p.
     bind (path_create E KSymlink p sctx) (\<lambda>sl.
     andthen (setattr E DNodes (nid sl) A_uid (fst ctx))
     (andthen (setattr E DNodes (nid sl) A_gid (snd ctx))
     (andthen (setattrv E DNodes (nid sl) A_symlink oldpath)
     (andthen (touch_parent E (parent p))
     (ret 0))))))))"

section \<open>Renaming and linking\<close>

text \<open>
  The loop of \<^verbatim>\<open>rename\<close> that climbs from the directory \<open>n\<close> to the root, looking for
  \<open>src\<close>. It need not end when the directories form a cycle: then its value is \<open>None\<close>.
\<close>

partial_function (option) below :: "('s, 'h) env \<Rightarrow> nodeid \<Rightarrow> node \<Rightarrow> ('s, 'h, 'z) world_scheme \<Rightarrow> (exn + bool) option" where
  [code]: "below E src n w =
     (if nid n = 0 then Some (Inr False)
      else if nid n = src then Some (Inr True)
      else (case fst (bind (getchild E n ''..'') (cast KDirectory) w) of
              Inl e \<Rightarrow> Some (Inl e)
            | Inr n' \<Rightarrow> below E src n' w))"

definition is_below :: "('s, 'h) env \<Rightarrow> nodeid \<Rightarrow> node \<Rightarrow> ('s, 'h, 'z, bool) op" where
  "is_below E src n = (\<lambda>w. case below E src n w of
     None \<Rightarrow> (Inl EStuck, w) | Some (Inl e) \<Rightarrow> (Inl e, w) | Some (Inr b) \<Rightarrow> (Inr b, w))"

text \<open>
  What \<^verbatim>\<open>rename\<close> does when the destination exists: \<open>Some code\<close> is an early return, \<open>None\<close>
  means that the destination has been removed.
\<close>

definition rename_over :: "('s, 'h) env \<Rightarrow> scontext \<Rightarrow> path \<Rightarrow> node \<Rightarrow> node \<Rightarrow> string \<Rightarrow> ('s, 'h, 'z, int option) pop" where
  "rename_over E sctx dstpath src dst newpath =
     andthen (check_sticky_bit E sctx (parent dstpath) dst)
     (bind (getattr E DNodes (nid src) A_mode) (\<lambda>smode.
      bind (if S_ISDIR smode then
          bind (getattr E DNodes (nid dst) A_mode) (\<lambda>dmode.
            if \<not> S_ISDIR dmode then ret (Some (- ENOTDIR))
            else
              bind (bind (getnode E (nid (parent dstpath))) (cast KDirectory)) (\<lambda>n.
              bind (is_below E (nid src) n) (\<lambda>sub.
                if sub then ret (Some (- EINVAL))
                else
                  bind (bind (getnode E (nid dst)) (cast KDirectory)) (\<lambda>d.
                  bind (countchildren E d) (\<lambda>count.
                    if 2 < count then ret (Some (- ENOTEMPTY))
                    else
                      andthen (delchild E d ''.'')
                      (andthen (delchild E d ''..'')
                      (ret None)))))))
        else
          bind (getattr E DNodes (nid dst) A_mode) (\<lambda>dmode.
            if S_ISDIR dmode then ret (Some (- EISDIR)) else ret None)) (\<lambda>early.
        case early of
          Some code \<Rightarrow> ret (Some code)
        | None \<Rightarrow>
            andthen (hash_invalidate E newpath)
            (andthen (stamp E dst A_ctime)
            (andthen (delchild E (parent dstpath) (leaf dstpath))
            (ret None))))))"

text \<open>The rest: \<open>src\<close> gets its new parent and its new name.\<close>

definition rename_relink :: "('s, 'h) env \<Rightarrow> path \<Rightarrow> path \<Rightarrow> node \<Rightarrow> string \<Rightarrow> ('s, 'h, 'z, int) pop" where
  "rename_relink E srcpath dstpath src oldpath =
     bind (getattr E DNodes (nid src) A_mode) (\<lambda>smode.
     andthen (whenM (S_ISDIR smode)
       (andthen (delchild E src ''..'') (addchild E src ''..'' (parent dstpath))))
     (andthen (hash_invalidate E oldpath)
     (andthen (stamp E src A_ctime)
     (andthen (addchild E (parent dstpath) (leaf dstpath) src)
     (andthen (delchild E (parent srcpath) (leaf srcpath))
     (andthen (touch_parent E (parent srcpath))
     (andthen (touch_parent E (parent dstpath))
     (ret 0))))))))"

definition fs_rename :: "('s, 'h) env \<Rightarrow> caller \<Rightarrow> string \<Rightarrow> string \<Rightarrow> ('s, 'h, 'z, int) fop" where
  "fs_rename E ctx oldpath newpath = handler E (
     bind (userctx E ctx) (\<lambda>sctx.
     bind (path_new (getnode_path E) sctx oldpath) (\<lambda>srcpath.
     bind (path_new (getnode_path E) sctx newpath) (\<lambda>dstpath.
     bind (getchild E (parent srcpath) (leaf srcpath)) (\<lambda>src.
     bind (handle (bind (getchild E (parent dstpath) (leaf dstpath)) (\<lambda>n. ret (Some n)))
             (\<lambda>e. if e = ENotFound then ret None else throw e)) (\<lambda>dst.
       if dst \<noteq> None \<and> oldpath = newpath then ret 0
       else
         andthen (access E sctx (parent srcpath) (or X_OK W_OK))
         (andthen (access E sctx (parent dstpath) (or X_OK W_OK))
         (andthen (check_sticky_bit E sctx (parent srcpath) src)
         (bind (case dst of None \<Rightarrow> ret None
                | Some n \<Rightarrow> rename_over E sctx dstpath src n newpath) (\<lambda>early.
           case early of
             Some code \<Rightarrow> ret code
           | None \<Rightarrow> rename_relink E srcpath dstpath src oldpath))))))))))"

definition fs_link :: "('s, 'h) env \<Rightarrow> caller \<Rightarrow> string \<Rightarrow> string \<Rightarrow> ('s, 'h, 'z, int) fop" where
  "fs_link E ctx oldpath newpath = handler E (
     bind (userctx E ctx) (\<lambda>sctx.
     bind (path_new (getnode_path E) sctx newpath) (\<lambda>p.
     andthen (access E sctx (parent p) W_OK)
     (bind (getnode_path E sctx oldpath) (\<lambda>n.
     andthen (stamp E n A_ctime)
     (andthen (addchild E (parent p) (leaf p) n)
     (andthen (touch_parent E (parent p))
     (ret 0))))))))"

end
