(* ===== verification/Tree_Ops.thy ===== *)
theory Tree_Ops
  imports Link_Counts
begin

text \<open>
  The operations on nodes and directories under the invariant of the tree: creating a node,
  adding and deleting an entry, and the initial database.
\<close>

section \<open>States with the same databases\<close>

definition same_db :: "('s, 'h) env \<Rightarrow> ('s, 'h, 'z) world_scheme \<Rightarrow> ('s, 'h, 'z) world_scheme \<Rightarrow> bool" where
  "same_db E w w' \<longleftrightarrow> (\<forall>d. dview E w' d = dview E w d)"

lemma same_db_refl [simp]: "same_db E w w"
  by (simp add: same_db_def)

lemma same_db_attr: "same_db E w w' \<Longrightarrow> attr E w' = attr E w"
  by (simp add: same_db_def attr_def fun_eq_iff)

lemma same_db_wattr: "same_db E w w' \<Longrightarrow> wattr E w' = wattr E w"
  by (simp add: same_db_def wattr_def attr_def fun_eq_iff)

lemma same_db_is_dir: "same_db E w w' \<Longrightarrow> is_dir E w' = is_dir E w"
  by (simp add: is_dir_def fun_eq_iff same_db_wattr)

lemma same_db_refs: "same_db E w w' \<Longrightarrow> refs E w' = refs E w"
  by (simp add: refs_def fun_eq_iff same_db_wattr)

lemma same_db_keys: "same_db E w w' \<Longrightarrow> keys_ok E w' d T = keys_ok E w d T"
  by (simp add: keys_ok_def same_db_def)

lemma same_db_link_inv: "same_db E w w' \<Longrightarrow> link_inv E w' = link_inv E w"
  unfolding link_inv_def
  by (simp only: same_db_keys same_db_attr same_db_wattr same_db_refs same_db_is_dir)

lemma same_db_fs_inv: "same_db E w w' \<Longrightarrow> fs_inv E w' = fs_inv E w"
  unfolding fs_inv_def by (simp only: same_db_link_inv same_db_refs same_db_is_dir)

lemma fs_inv_link: "fs_inv E w \<Longrightarrow> link_inv E w"
  by (simp add: fs_inv_def)

lemma fs_inv_dir: "fs_inv E w \<Longrightarrow> is_dir E w d \<Longrightarrow> refs E w d \<noteq> {}"
  by (simp add: fs_inv_def)

lemma fs_inv_no_entries: "fs_inv E w \<Longrightarrow> refs E w c = {} \<Longrightarrow> entry E w c n = None"
  using link_invD(5) [of E w c n] by (cases "entry E w c n") (auto simp: fs_inv_def)

section \<open>Attributes of nodes\<close>

lemma fs_inv_put_node:
  assumes "lawful E" and "fs_inv E w" and "n \<noteq> A_nlink"
    and "n = A_mode \<Longrightarrow> \<exists>m :: mode_t. dec E v = Some m \<and> (is_dir E w i \<longrightarrow> S_ISDIR m)
           \<and> (S_ISDIR m \<longrightarrow> refs E w i \<noteq> {})"
  shows "fs_inv E (put_attr E DNodes (i :: nodeid) n v w)"
proof -
  have "link_inv E (put_attr E DNodes i n v w)"
    using assms by (intro link_inv_put_node fs_inv_link) auto
  moreover have "refs E w d \<noteq> {}" if "is_dir E (put_attr E DNodes i n v w) d" for d
    using that assms fs_inv_dir [OF assms(2), of d] by (auto simp: is_dir_def split: if_splits)
  ultimately show ?thesis using assms(1) by (simp add: fs_inv_def)
qed

section \<open>Entries\<close>

text \<open>The link count of a node that is referred to.\<close>

lemma nlink_refs:
  assumes "fs_inv E w" and "refs E w c \<noteq> {}"
  shows "nlink_of E w c = Some (of_nat (card (refs E w c)))"
  using link_invD(3,4) [OF fs_inv_link [OF assms(1)], of c] assms(2)
  by (cases "nlink_of E w c") auto

definition add_entry :: "('s, 'h) env \<Rightarrow> nodeid \<Rightarrow> string \<Rightarrow> nodeid \<Rightarrow> nlink_t \<Rightarrow>
    ('s, 'h, 'z) world_scheme \<Rightarrow> ('s, 'h, 'z) world_scheme" where
  "add_entry E d name c k w =
     put_attr E DDirectories d name (enc E c) (put_attr E DNodes c A_nlink (enc E (1 + k)) w)"

lemma add_entry_simps [simp]:
  assumes "lawful E"
  shows "still (add_entry E d name c k w) = still w"
    and "attr E (add_entry E d name c k w) DNodes (j :: nodeid) n =
          (if j = c \<and> n = A_nlink then Some (enc E (1 + k)) else attr E w DNodes j n)"
    and "attr E (add_entry E d name c k w) DDirectories (j :: nodeid) n =
          (if j = d \<and> n = name then Some (enc E c) else attr E w DDirectories j n)"
    and "wattr E (add_entry E d name c k w) DNodes (j :: nodeid) n =
          (if j = c \<and> n = A_nlink then dec E (enc E (1 + k)) else wattr E w DNodes j n)"
    and "wattr E (add_entry E d name c k w) DDirectories (j :: nodeid) n =
          (if j = d \<and> n = name then dec E (enc E c) else wattr E w DDirectories j n)"
    and "is_dir E (add_entry E d name c k w) = is_dir E w"
  using assms by (simp_all add: add_entry_def)

lemma refs_add_entry:
  assumes "lawful E" and "attr E w DDirectories d name = None"
  shows "refs E (add_entry E d name c k w) c' =
     (if c' = c then insert (d, name) (refs E w c) else refs E w c')"
  using assms by (auto simp: add_entry_def refs_def wattr_def)

lemma fs_inv_add_entry:
  assumes "lawful E" and "fs_inv E w" and "nlink_of E w c = Some k"
    and "attr E w DDirectories d name = None" and "is_dir E w d"
  shows "fs_inv E (add_entry E d name c k w)"
proof -
  have "link_inv E (add_entry E d name c k w)"
    unfolding add_entry_def using assms by (intro link_inv_add fs_inv_link)
  moreover have "refs E (add_entry E d name c k w) d' \<noteq> {}" if "is_dir E w d'" for d'
    using fs_inv_dir [OF assms(2) that] refs_add_entry [OF assms(1,4)] by auto
  ultimately show ?thesis using assms(1) by (simp add: fs_inv_def)
qed

text \<open>States whose node and directory attributes agree.\<close>

definition same_tree :: "('s, 'h) env \<Rightarrow> ('s, 'h, 'z) world_scheme \<Rightarrow> ('s, 'h, 'z) world_scheme \<Rightarrow> bool" where
  "same_tree E w w' \<longleftrightarrow>
     (\<forall>(j :: nodeid) m. attr E w' DNodes j m = attr E w DNodes j m)
   \<and> (\<forall>(j :: nodeid) m. attr E w' DDirectories j m = attr E w DDirectories j m)"

lemma same_tree_wattr:
  assumes "same_tree E w w'"
  shows "wattr E w' DNodes (j :: nodeid) m = wattr E w DNodes j m"
    and "wattr E w' DDirectories (j :: nodeid) m = wattr E w DDirectories j m"
  using assms by (simp_all add: same_tree_def wattr_def)

lemma same_tree_fs_inv:
  assumes "same_tree E w w'" and "keys_ok E w' DNodes TYPE(64)" and inv: "fs_inv E w"
  shows "fs_inv E w'"
proof -
  note same = same_tree_wattr [OF assms(1)]
  have refs: "refs E w' = refs E w" by (simp add: refs_def fun_eq_iff same)
  have dir: "is_dir E w' = is_dir E w" by (simp add: is_dir_def fun_eq_iff same)
  show ?thesis
    using inv assms(1,2) unfolding fs_inv_def link_inv_def same_tree_def refs dir same by simp
qed

text \<open>
  Removing a node. \<open>w1\<close> is the state in which it happens; it differs from \<open>w\<close> in the
  attributes of the node at most. Nothing refers to the node but, if it is a new directory,
  its own \<^verbatim>\<open>.\<close>
\<close>

lemma fs_inv_removed:
  assumes "lawful E" and inv: "fs_inv E w"
    and keys: "keys_ok E w1 DNodes TYPE(64)"
    and nodes: "\<And>j m. j \<noteq> nid n \<Longrightarrow> attr E w1 DNodes (j :: nodeid) m = attr E w DNodes j m"
    and dirs: "\<And>j m. attr E w1 DDirectories (j :: nodeid) m = attr E w DDirectories j m"
    and self: "refs E w (nid n) \<subseteq> {(nid n, ''.'')}"
    and kind: "refs E w (nid n) \<noteq> {} \<Longrightarrow> nkind n = KDirectory"
    and only: "\<And>m. m \<noteq> ''.'' \<Longrightarrow> entry E w (nid n) m = None"
    and dot: "\<And>c. entry E w (nid n) ''.'' = Some c \<Longrightarrow> c = nid n"
  shows "fs_inv E (removed E n w1)"
proof -
  let ?w2 = "removed E n w1"
  note L = link_invD [OF fs_inv_link [OF inv]]
  have wnodes: "wattr E ?w2 DNodes j m = (if j = nid n then None else wattr E w DNodes j m)" for j m
    using assms(1) nodes by (simp add: wattr_def)
  have wdirs: "wattr E ?w2 DDirectories j m =
      (if nkind n = KDirectory \<and> j = nid n then None else wattr E w DDirectories j m)" for j :: nodeid and m
    using assms(1) dirs by (simp add: wattr_def)
  have entries: "entry E ?w2 d m = (if d = nid n then None else entry E w d m)" for d m
  proof (cases "d = nid n \<and> nkind n \<noteq> KDirectory")
    case True
    then have none: "refs E w (nid n) = {}" using kind by blast
    have "entry E w (nid n) m = None"
      using fs_inv_no_entries [OF inv none] .
    then show ?thesis using True by (simp add: wdirs)
  qed (auto simp: wdirs)
  have refs: "refs E ?w2 c = (if c = nid n then {} else refs E w c)" for c
  proof (cases "c = nid n")
    case True
    then show ?thesis using self by (auto simp: refs_def entries)
  next
    case False
    then have "entry E w (nid n) m \<noteq> Some c" for m using only [of m] dot by (cases "m = ''.''") auto
    then show ?thesis using False by (auto simp: refs_def entries)
  qed
  have dir: "is_dir E ?w2 d \<longleftrightarrow> d \<noteq> nid n \<and> is_dir E w d" for d
    by (simp add: is_dir_def wnodes)
  have "link_inv E ?w2"
  proof (rule link_invI)
    show "keys_ok E ?w2 DNodes TYPE(64)" by (rule keys_removed [OF assms(1) keys])
    show "entry E ?w2 d m \<noteq> None" if "attr E ?w2 DDirectories (d :: nodeid) m \<noteq> None" for d m
    proof -
      have a: "entry E w d m \<noteq> None" and "\<not> (nkind n = KDirectory \<and> d = nid n)"
        using that assms(1) dirs L(2) [of d m] by (auto split: if_splits)
      then show ?thesis by (simp add: wdirs)
    qed
    show "nlink_of E ?w2 c \<noteq> None" if "refs E ?w2 c \<noteq> {}" for c
      using that L(3) [of c] unfolding refs wnodes by (auto split: if_splits)
    show "k = of_nat (card (refs E ?w2 c))" if "nlink_of E ?w2 c = Some k" for c k
      using that L(4) [of c k] unfolding refs wnodes by (auto split: if_splits)
    show "is_dir E ?w2 d" if "entry E ?w2 d m \<noteq> None" for d m
      using that L(5) [of d m] unfolding entries dir by (auto split: if_splits)
  qed
  moreover have "refs E ?w2 d \<noteq> {}" if "is_dir E ?w2 d" for d
    using that fs_inv_dir [OF inv, of d] unfolding refs dir by auto
  ultimately show ?thesis by (simp add: fs_inv_def)
qed

section \<open>Adding an entry\<close>

lemma getattr_None:
  fixes i :: "'a::len word"
  assumes "lawful E" and "(wattr E w d i n :: 'b::len word option) = None"
  shows "\<exists>e. (getattr E d i n :: ('s, 'h, 'z, 'b word) op) w = (Inl e, w) \<and> e \<noteq> EStuck"
  using assms by (auto simp: getattr_eq wattr_def split: option.splits bind_splits)

lemma addchild_cases:
  fixes w :: "('a, 'b, 'c) world_scheme" and E :: "('a, 'b) env"
  assumes "lawful E" and inv: "fs_inv E w" and dir: "is_dir E w (nid d)"
    and bound: "card (refs E w (nid n)) < 2 ^ 31"
  obtains (new) k where "attr E w DDirectories (nid d) name = None" and "nlink_of E w (nid n) = Some k"
      and "addchild E d name n w = (Inr (), add_entry E (nid d) name (nid n) k w)"
      and "fs_inv E (add_entry E (nid d) name (nid n) k w)"
  | (exists) w' k where "attr E w DDirectories (nid d) name \<noteq> None"
      and "addchild E d name n w = (Inl EExists, w')" and "fs_inv E w'" and "still w' = still w"
      and "refs E w (nid n) \<noteq> {} \<Longrightarrow> same_tree E w w'"
      and "refs E w (nid n) = {} \<Longrightarrow> w' = removed E n (put_attr E DNodes (nid n) A_nlink (enc E (1 + k :: nlink_t)) w)"
  | (nolink) e where "nlink_of E w (nid n) = None" and "addchild E d name n w = (Inl e, w)" and "e \<noteq> EStuck"
proof (cases "nlink_of E w (nid n)")
  case None
  then obtain e where "(getattr E DNodes (nid n) A_nlink :: ('a, 'b, 'c, nlink_t) op) w = (Inl e, w)" "e \<noteq> EStuck"
    using getattr_None [OF assms(1), of w DNodes "nid n" A_nlink] by blast
  then have "addchild E d name n w = (Inl e, w)" by (simp add: addchild_def link_def)
  then show thesis using nolink None \<open>e \<noteq> EStuck\<close> by blast
next
  case (Some k)
  show thesis
  proof (cases "attr E w DDirectories (nid d) name")
    case None
    have "addchild E d name n w = (Inr (), add_entry E (nid d) name (nid n) k w)"
      using addchild_new [OF assms(1) Some None] by (simp add: add_entry_def)
    then show thesis using new None Some fs_inv_add_entry [OF assms(1) inv Some None dir] by blast
  next
    case (Some b)
    let ?w1 = "put_attr E DNodes (nid n) A_nlink (enc E (1 + k)) w"
    let ?w2 = "put_attr E DNodes (nid n) A_nlink (enc E k) ?w1"
    have k: "nlink_of E w (nid n) = Some k" by (rule \<open>nlink_of E w (nid n) = Some k\<close>)
    have kc: "k = of_nat (card (refs E w (nid n)))" using link_invD(4) [OF fs_inv_link [OF inv] k] .
    have sint: "sint k = int (card (refs E w (nid n)))" unfolding kc by (rule sint_of_nat_small [OF bound])
    have fin: "finite (refs E w (nid n))" by (rule finite_refs [OF assms(1)])
    have ex: "addchild E d name n w = (Inl EExists, if refs E w (nid n) = {} then removed E n ?w1 else ?w2)"
      using addchild_exists [OF assms(1) k, of d name] Some sint fin by (simp add: card_gt_0_iff)
    have keys: "keys_ok E (put_attr E DNodes (nid n) A_nlink v w') DNodes TYPE(64)"
      if "keys_ok E w' DNodes TYPE(64)" for v and w' :: "('a, 'b, 'c) world_scheme"
      using that by (rule keys_ok_put [OF assms(1)])
    note keys0 = link_invD(1) [OF fs_inv_link [OF inv]]
    show thesis
    proof (cases "refs E w (nid n) = {}")
      case True
      have "fs_inv E (removed E n ?w1)"
        by (rule fs_inv_removed [OF assms(1) inv keys [OF keys0]])
          (use True assms(1) fs_inv_no_entries [OF inv True] in auto)
      then show thesis using exists [of "removed E n ?w1" k] ex True Some assms(1) by simp
    next
      case False
      obtain b' where b': "attr E w DNodes (nid n) A_nlink = Some b'" "dec E b' = Some k"
        using k by (auto simp: wattr_def split: bind_splits)
      have "enc E k = b'" using enc_dec [OF b'(2)] by simp
      then have same: "same_tree E w ?w2" using assms(1) b'(1) by (simp add: same_tree_def)
      have "fs_inv E ?w2" by (rule same_tree_fs_inv [OF same keys [OF keys [OF keys0]] inv])
      then show thesis using exists [of ?w2] ex False Some same assms(1) by simp
    qed
  qed
qed

section \<open>Deleting an entry\<close>

text \<open>
  Either there is no such entry (or its node has lost its mode) and nothing happens, or the
  entry is gone and the node, if that was the last entry for it.
\<close>

lemma refs_without_entry:
  assumes "\<And>j m. entry E w' j m = (if j = d \<and> m = name then None else entry E w j m)"
  shows "refs E w' c = refs E w c - {(d, name)}"
  by (auto simp: refs_def assms)

lemma delchild_cases:
  fixes w :: "('a, 'b, 'c) world_scheme" and E :: "('a, 'b) env"
  assumes "lawful E" and inv: "fs_inv E w" and bound: "\<And>i. card (refs E w i) \<le> 2 ^ 31"
    and last: "\<And>i n. entry E w (nid d) name = Some i \<Longrightarrow> card (refs E w i) = 1 \<Longrightarrow>
                 entry E w i n \<noteq> None \<Longrightarrow> (i, n) = (nid d, name)"
  obtains (none) e where "delchild E d name w = (Inl e, w)" and "e \<noteq> EStuck"
      and "entry E w (nid d) name = None \<or> (\<exists>i. entry E w (nid d) name = Some i \<and> mode_of E w i = None)"
  | (gone) i w' where "delchild E d name w = (Inr (), w')" and "entry E w (nid d) name = Some i"
      and "fs_inv E w'" and "still w' = still w"
      and "\<And>c. refs E w' c = refs E w c - {(nid d, name)}"
      and "\<And>j m. entry E w' j m = (if j = nid d \<and> m = name then None else entry E w j m)"
      and "\<And>j m. j \<noteq> i \<Longrightarrow> attr E w' DNodes (j :: nodeid) m = attr E w DNodes j m"
      and "\<And>m. card (refs E w i) \<noteq> 1 \<Longrightarrow> m \<noteq> A_nlink \<Longrightarrow> attr E w' DNodes i m = attr E w DNodes i m"
      and "\<And>m. card (refs E w i) = 1 \<Longrightarrow> attr E w' DNodes i m = None"
proof (cases "entry E w (nid d) name")
  case None
  then have "attr E w DDirectories (nid d) name = None"
    using link_invD(2) [OF fs_inv_link [OF inv]] by blast
  then have "delchild E d name w = (Inl ENotFound, w)"
    using assms(1) by (simp add: delchild_def getchild_missing)
  then show thesis using none None by blast
next
  case (Some i)
  show thesis
  proof (cases "mode_of E w i")
    case None
    then obtain e where "getattr E DNodes i A_mode w = (Inl e :: exn + mode_t, w)" "e \<noteq> EStuck"
      using getattr_None [OF assms(1)] by blast
    then have "\<exists>e. getnode E i w = (Inl e, w) \<and> e \<noteq> EStuck"
      by (cases e) (auto simp: getnode_def on_missing_def)
    then have "\<exists>e. getchild E d name w = (Inl e, w) \<and> e \<noteq> EStuck"
      using getattr_Some [OF assms(1) Some]
      by (auto simp: getchild_def on_missing_def split: exn.split)
    then show thesis using none Some None by (auto simp: delchild_def)
  next
    case m: (Some m)
    have mem: "(nid d, name) \<in> refs E w i" using Some by (rule refsI)
    then have k: "nlink_of E w i = Some (of_nat (card (refs E w i)))"
      by (intro nlink_refs [OF inv]) auto
    let ?k = "of_nat (card (refs E w i)) :: nlink_t"
    let ?w1 = "del_attr E DDirectories (nid d) name w"
    let ?n = "\<lparr>nid = i, nkind = kind_of m\<rparr>"
    let ?w2 = "if sint (?k - 1) \<le> 0 then removed E ?n ?w1 else put_attr E DNodes i A_nlink (enc E (?k - 1)) ?w1"
    have fin: "finite (refs E w i)" by (rule finite_refs [OF assms(1)])
    have pos: "0 < card (refs E w i)" using mem fin by (auto simp: card_gt_0_iff)
    then have "?k - 1 = of_nat (card (refs E w i) - 1)" by simp
    then have "sint (?k - 1) = int (card (refs E w i) - 1)"
      using sint_of_nat_small [of "card (refs E w i) - 1"] bound [of i] pos by simp
    then have zero: "sint (?k - 1) \<le> 0 \<longleftrightarrow> card (refs E w i) = 1" using pos by auto
    have run: "delchild E d name w = (Inr (), ?w2)"
      using delchild_eq [OF assms(1) Some m k] by (simp add: Let_def)
    have link: "link_inv E ?w2"
      using link_inv_del [OF assms(1) fs_inv_link [OF inv] Some k bound last [OF Some], of "kind_of m"]
      by (simp add: Let_def)
    have void: "entry E ?w1 i n = None" if "card (refs E w i) = 1" for n
      using assms(1) last [OF Some that, of n] by (cases "entry E w i n") auto
    have dirs: "entry E ?w2 j n = (if j = nid d \<and> n = name then None else entry E w j n)"
      for j n
    proof (cases "card (refs E w i) = 1 \<and> j = i")
      case True
      then have "entry E ?w2 j n = None"
        using assms(1) void zero by auto
      moreover have "entry E ?w1 j n = None" using void True by simp
      ultimately show ?thesis using assms(1) by simp
    next
      case False
      then show ?thesis using assms(1) zero by auto
    qed
    have refs: "refs E ?w2 c = refs E w c - {(nid d, name)}" for c
      by (rule refs_without_entry) (rule dirs)
    have others: "attr E ?w2 DNodes j n = attr E w DNodes j n" if "j \<noteq> i" for j n
      using that assms(1) by simp
    have kept: "attr E ?w2 DNodes i n = attr E w DNodes i n" if "card (refs E w i) \<noteq> 1" "n \<noteq> A_nlink" for n
      using that assms(1) zero by simp
    have lost: "attr E ?w2 DNodes i n = None" if "card (refs E w i) = 1" for n
      using that assms(1) zero by simp
    have inv2: "fs_inv E ?w2"
      unfolding fs_inv_def
    proof (intro conjI allI impI link)
      fix c
      assume c: "is_dir E ?w2 c"
      then obtain mc where mc: "mode_of E ?w2 c = Some mc" "S_ISDIR mc" unfolding is_dir_def by blast
      then have "attr E ?w2 DNodes c A_mode \<noteq> None"
        unfolding wattr_def by (metis bind_eq_None_conv option.distinct(1))
      then have "\<not> (c = i \<and> card (refs E w i) = 1)" using lost by auto
      then have "attr E ?w2 DNodes c A_mode = attr E w DNodes c A_mode"
        using others kept by (cases "c = i") auto
      then have "is_dir E w c" using mc unfolding is_dir_def wattr_def by metis
      then have ne: "refs E w c \<noteq> {}" by (rule fs_inv_dir [OF inv])
      show "refs E ?w2 c \<noteq> {}"
      proof (cases "c = i")
        case True
        then have "1 < card (refs E w i)" using \<open>\<not> (c = i \<and> card (refs E w i) = 1)\<close> pos by simp
        then show ?thesis
          unfolding refs True using mem fin by (metis card_Diff_singleton card.empty diff_is_0_eq not_less)
      next
        case False
        then have "(nid d, name) \<notin> refs E w c" using Some by (auto simp: refs_def)
        then show ?thesis using ne unfolding refs by simp
      qed
    qed
    have still: "still ?w2 = still w" using assms(1) by simp
    show thesis by (rule gone [OF run Some inv2 still refs dirs others kept lost])
  qed
qed

section \<open>Creating nodes\<close>

text \<open>There is an identifier left: the largest one is not in use.\<close>

definition ids_left :: "('s, 'h) env \<Rightarrow> ('s, 'h, 'z) world_scheme \<Rightarrow> bool" where
  "ids_left E w \<longleftrightarrow> (\<forall>m. attr E w DNodes (- 1 :: nodeid) m = None)"

text \<open>What is left alone when node \<open>i\<close> is created.\<close>

definition created :: "('s, 'h) env \<Rightarrow> nodeid \<Rightarrow> ('s, 'h, 'z) world_scheme \<Rightarrow> ('s, 'h, 'z) world_scheme \<Rightarrow> bool" where
  "created E i w w' \<longleftrightarrow>
     (\<forall>m. attr E w DNodes i m = None) \<and> world.more w' = world.more w \<and> txns w' = txns w
   \<and> (\<forall>j m. j \<noteq> i \<longrightarrow> attr E w' DNodes (j :: nodeid) m = attr E w DNodes j m)
   \<and> (\<forall>j m. j \<noteq> i \<longrightarrow> attr E w' DDirectories (j :: nodeid) m = attr E w DDirectories j m)"

lemma host_to_db_top: "8 dvd LENGTH('a::len) \<Longrightarrow> host_to_db E (- 1 :: 'a word) = - 1"
proof -
  assume b: "8 dvd LENGTH('a)"
  have all: "be n (256 ^ n - 1) = rev (be n (256 ^ n - 1))" for n
  proof -
    have "be n (256 ^ n - 1) = replicate n (char_of (255 :: nat))"
    proof (induction n)
      case (Suc n)
      let ?x = "256 ^ n - 1 :: nat"
      have x: "256 ^ Suc n - 1 = 256 * ?x + 255" by (simp add: algebra_simps)
      have "(char_of (256 * ?x + 255) :: char) = char_of (255 :: nat)"
        unfolding char_of_quasi_inj by simp
      then have "be (Suc n) (256 * ?x + 255) = be n ?x @ [char_of (255 :: nat)]"
        by (simp only: be.simps) simp
      then show ?case unfolding x Suc.IH by (simp add: replicate_append_same)
    qed simp
    then show ?thesis by simp
  qed
  have u: "unat (- 1 :: 'a word) = 256 ^ nbytes TYPE('a) - 1"
    using pow256 [OF b] by (simp add: unsigned_minus_1_eq_mask mask_eq_exp_minus_1)
  have "bswap (- 1 :: 'a word) = - 1"
    using word_of_be [OF b, of "- 1"] unfolding bswap_def u by (metis all)
  then show ?thesis by (simp add: host_to_db_def)
qed

lemma node_create_form:
  assumes "lawful E" and inv: "fs_inv E w" and ids: "ids_left E w"
  shows "\<exists>i w'. node_create E w = (Inr \<lparr>nid = i, nkind = KNode\<rparr>, w') \<and> created E i w w'
     \<and> (\<forall>m. attr E w' DDirectories i m = None) \<and> mode_of E w' i = None \<and> nlink_of E w' i = Some 0
     \<and> refs E w' i = {} \<and> fs_inv E w'"
proof -
  have b: "8 dvd LENGTH(64)" by simp
  note L = link_invD [OF fs_inv_link [OF inv]]
  have top: "attr E w DNodes (host_to_db E (- 1) :: nodeid) m = None" for m
    using ids unfolding host_to_db_top [OF b] ids_left_def by blast
  obtain i :: nodeid and w1 where reg: "createregister E DNodes w = (Inr i, w1)"
    and fresh: "\<forall>m. attr E w DNodes i m = None" and fr: "frame w1 = frame w"
    and other: "\<forall>d'. d' \<noteq> DNodes \<longrightarrow> dview E w1 d' = dview E w d'"
    and upd: "dview E w1 DNodes = (dview E w DNodes)(getkey E i '''' \<mapsto> '''')"
    using createregister_form [OF assms(1) b L(1) top] by blast
  let ?put = "put_attr E DNodes i"
  obtain t1 t2 t3 w2 where w2: "w2 = ?put A_size (enc E (0 :: off_t)) (?put A_nlink (enc E (0 :: nlink_t)) (?put A_dev (enc E (0 :: dev_t)) w1))"
    and t: "t1 = clock E (ticks w2)" "t2 = clock E (Suc (ticks w2))" "t3 = clock E (Suc (Suc (ticks w2)))" by simp
  let ?w3 = "?put A_ctime (enc E t3) ((?put A_mtime (enc E t2) ((?put A_atime (enc E t1)
      (w2\<lparr>ticks := Suc (ticks w2)\<rparr>))\<lparr>ticks := Suc (Suc (ticks w2))\<rparr>))\<lparr>ticks := Suc (Suc (Suc (ticks w2)))\<rparr>)"
  have run: "node_create E w = (Inr \<lparr>nid = i, nkind = KNode\<rparr>, ?w3)"
    using reg assms(1) by (simp add: node_create_def setattr_eq time_now_def t flip: w2)
  have a1: "attr E w1 DNodes j m = (if j = i \<and> m = '''' then Some '''' else attr E w DNodes j m)" for j :: nodeid and m
    using upd by (simp add: attr_def getkey_inject [OF b])
  have d1: "attr E w1 DDirectories j m = attr E w DDirectories j m" for j :: nodeid and m
    using other by (simp add: attr_def)
  have keys1: "keys_ok E w1 DNodes TYPE(64)"
    using L(1) upd by (auto simp: keys_ok_def getkey_def)
  have A_ne: "A_mode \<noteq> ''''" "A_nlink \<noteq> ''''" by (simp_all add: A_defs)
  have nodir: "\<not> is_dir E w i" using fresh by (simp add: is_dir_def wattr_def)
  have noent: "attr E w DDirectories i m = None" for m
    using L(2,5) [of i m] nodir by blast
  have norefs: "refs E w i = {}" using L(3) [of i] fresh by (auto simp: wattr_def)
  have cr: "created E i w ?w3"
    using fresh fr assms(1) a1 d1 by (simp add: created_def frame_def w2)
  have n3: "attr E ?w3 DNodes j m = attr E w DNodes j m" if "j \<noteq> i" for j :: nodeid and m
    using cr that by (simp add: created_def)
  have e3: "attr E ?w3 DDirectories j m = attr E w DDirectories j m" for j :: nodeid and m
    using assms(1) d1 by (simp add: w2)
  have m3: "mode_of E ?w3 i = None" using assms(1) a1 fresh A_ne by (simp add: w2 wattr_def)
  have l3: "nlink_of E ?w3 i = Some 0" using assms(1) by (simp add: w2)
  have refs: "refs E ?w3 = refs E w" using e3 by (simp add: refs_def wattr_def fun_eq_iff)
  have dir: "is_dir E ?w3 d \<longleftrightarrow> is_dir E w d" for d
    using n3 [of d] m3 nodir by (cases "d = i") (simp_all add: is_dir_def wattr_def)
  have "keys_ok E ?w3 DNodes TYPE(64)"
    using keys1 assms(1) by (simp add: w2 keys_ok_put)
  then have "link_inv E ?w3"
  proof (rule link_invI)
    show "entry E ?w3 d m \<noteq> None" if "attr E ?w3 DDirectories (d :: nodeid) m \<noteq> None" for d m
      using that L(2) [of d m] by (simp add: wattr_def e3)
    show "nlink_of E ?w3 c \<noteq> None" if "refs E ?w3 c \<noteq> {}" for c
      using that L(3) [of c] norefs n3 [of c] unfolding refs by (cases "c = i") (auto simp: wattr_def)
    show "k = of_nat (card (refs E ?w3 c))" if "nlink_of E ?w3 c = Some k" for c k
      using that L(4) [of c k] norefs n3 [of c] l3 unfolding refs by (cases "c = i") (auto simp: wattr_def)
    show "is_dir E ?w3 d" if "entry E ?w3 d m \<noteq> None" for d m
      using that L(5) [of d m] unfolding dir by (simp add: wattr_def e3)
  qed
  then have "fs_inv E ?w3" using fs_inv_dir [OF inv] by (simp add: fs_inv_def refs dir)
  then show ?thesis using run cr e3 noent m3 l3 norefs refs by auto
qed

lemma created_trans_node:
  assumes "lawful E" and "created E i w w'"
  shows "created E i w (put_attr E DNodes i n v w')"
  using assms by (simp add: created_def)

lemma created_is_dir: "created E i w w' \<Longrightarrow> is_dir E w d \<Longrightarrow> d \<noteq> i \<and> is_dir E w' d"
  by (cases "d = i") (auto simp: created_def is_dir_def wattr_def)

lemma created_entry: "created E i w w' \<Longrightarrow> j \<noteq> i \<Longrightarrow> entry E w' j m = entry E w j m"
  by (simp add: created_def wattr_def)

text \<open>The state of a node just created by \<^verbatim>\<open>T::create\<close>.\<close>

definition new_node :: "('s, 'h) env \<Rightarrow> node \<Rightarrow> ('s, 'h, 'z) world_scheme \<Rightarrow> bool" where
  "new_node E n w \<longleftrightarrow> nlink_of E w (nid n) \<noteq> None
   \<and> (if nkind n = KDirectory
      then is_dir E w (nid n) \<and> refs E w (nid n) = {(nid n, ''.'')}
      else refs E w (nid n) = {})
   \<and> (\<forall>m. attr E w DDirectories (nid n) m \<noteq> None \<longrightarrow> nkind n = KDirectory \<and> m = ''.'')
   \<and> (nkind n = KSymlink \<longrightarrow> mode_of E w (nid n) = Some S_IFLNK)"

text \<open>What \<^verbatim>\<open>Node::create\<close> leaves behind.\<close>

definition bare :: "('s, 'h) env \<Rightarrow> nodeid \<Rightarrow> ('s, 'h, 'z) world_scheme \<Rightarrow> bool" where
  "bare E i w \<longleftrightarrow> fs_inv E w \<and> (\<forall>m. attr E w DDirectories i m = None) \<and> mode_of E w i = None
   \<and> nlink_of E w i = Some 0 \<and> refs E w i = {}"

lemma bare_new:
  "bare E i w \<Longrightarrow> kd = KNode \<Longrightarrow> new_node E \<lparr>nid = i, nkind = kd\<rparr> w"
  by (simp add: bare_def new_node_def)

lemma bare_put:
  assumes "lawful E" and bare: "bare E i w" and "kd \<noteq> KDirectory" and "n \<noteq> A_nlink"
    and mode: "n = A_mode \<Longrightarrow> \<exists>m :: mode_t. dec E v = Some m \<and> \<not> S_ISDIR m"
    and link: "kd = KSymlink \<Longrightarrow> n = A_mode \<and> v = enc E S_IFLNK"
  shows "fs_inv E (put_attr E DNodes i n v w)"
    and "new_node E \<lparr>nid = i, nkind = kd\<rparr> (put_attr E DNodes i n v w)"
proof -
  have "\<not> is_dir E w i" using bare by (simp add: bare_def is_dir_def)
  then show "fs_inv E (put_attr E DNodes i n v w)"
    using mode bare by (intro fs_inv_put_node [OF assms(1) _ assms(4)]) (auto simp: bare_def)
  show "new_node E \<lparr>nid = i, nkind = kd\<rparr> (put_attr E DNodes i n v w)"
    using assms by (auto simp: bare_def new_node_def)
qed

lemma bare_directory:
  assumes "lawful E" and bare: "bare E i w"
  defines "w1 \<equiv> put_attr E DNodes i A_mode (enc E S_IFDIR) w"
  defines "w2 \<equiv> add_entry E i ''.'' i 0 w1"
  shows "addchild E \<lparr>nid = i, nkind = KDirectory\<rparr> ''.'' \<lparr>nid = i, nkind = KDirectory\<rparr> w1 = (Inr (), w2)"
    and "fs_inv E w2" and "new_node E \<lparr>nid = i, nkind = KDirectory\<rparr> w2"
proof -
  have inv: "fs_inv E w" and e: "attr E w DDirectories i m = None" and k: "nlink_of E w i = Some 0"
    and r: "refs E w i = {}" and nd: "\<not> is_dir E w i" for m
    using bare by (simp_all add: bare_def is_dir_def)
  have new: "attr E w1 DDirectories i ''.'' = None" and k1: "nlink_of E w1 i = Some 0"
    using e k assms(1) by (simp_all add: w1_def)
  have dir1: "is_dir E w1 d \<longleftrightarrow> d = i \<or> is_dir E w d" for d
    using assms(1) by (auto simp: w1_def is_dir_def S_ISDIR_def)
  show "addchild E \<lparr>nid = i, nkind = KDirectory\<rparr> ''.'' \<lparr>nid = i, nkind = KDirectory\<rparr> w1 = (Inr (), w2)"
    using addchild_new [OF assms(1), of w1 "\<lparr>nid = i, nkind = KDirectory\<rparr>" 0 "\<lparr>nid = i, nkind = KDirectory\<rparr>" "''.''"] new k1
    by (simp add: w2_def add_entry_def)
  have refs1: "refs E w1 = refs E w" using assms(1) by (simp add: w1_def)
  have refs2: "refs E w2 c = (if c = i then insert (i, ''.'') (refs E w i) else refs E w c)" for c
    unfolding w2_def refs_add_entry [OF assms(1) new] refs1 ..
  have link1: "link_inv E w1"
    unfolding w1_def by (rule link_inv_put_node [OF assms(1) fs_inv_link [OF inv]]) (use nd in auto)
  have "link_inv E w2"
    unfolding w2_def add_entry_def by (rule link_inv_add [OF assms(1) link1 k1 new]) (simp add: dir1)
  moreover have "refs E w2 d \<noteq> {}" if "is_dir E w2 d" for d
  proof -
    have "d = i \<or> is_dir E w d" using that assms(1) dir1 by (simp add: w2_def)
    then show ?thesis using fs_inv_dir [OF inv] by (auto simp: refs2)
  qed
  ultimately show "fs_inv E w2" by (simp add: fs_inv_def)
  show "new_node E \<lparr>nid = i, nkind = KDirectory\<rparr> w2"
    using assms(1) refs2 [of i] r dir1 [of i] e by (auto simp: new_node_def w2_def w1_def)
qed

lemma create_kind_form:
  assumes "lawful E" and "fs_inv E w" and "ids_left E w"
  shows "\<exists>n w'. create_kind E k w = (Inr n, w') \<and> nkind n = k \<and> created E (nid n) w w'
     \<and> fs_inv E w' \<and> new_node E n w'"
proof -
  obtain i w1 where run: "node_create E w = (Inr \<lparr>nid = i, nkind = KNode\<rparr>, w1)"
    and cr: "created E i w w1" and bare: "bare E i w1"
    using node_create_form [OF assms] by (auto simp: bare_def)
  have inv1: "fs_inv E w1" using bare by (simp add: bare_def)
  let ?w2 = "\<lambda>m. put_attr E DNodes i A_mode (enc E (m :: mode_t)) w1"
  have cr2: "created E i w (?w2 m)" for m by (rule created_trans_node [OF assms(1) cr])
  show ?thesis
  proof (cases k)
    case KNode
    then show ?thesis using run cr inv1 bare_new [OF bare] by (auto simp: create_kind_def)
  next
    case KFile
    have "create_kind E k w = (Inr \<lparr>nid = i, nkind = KFile\<rparr>, ?w2 S_IFREG)"
      using KFile run assms(1) by (simp add: create_kind_def file_create_def setattr_eq Let_def)
    moreover have "fs_inv E (?w2 S_IFREG)" and "new_node E \<lparr>nid = i, nkind = KFile\<rparr> (?w2 S_IFREG)"
      by (rule bare_put [OF assms(1) bare, of KFile]; simp add: S_ISDIR_def)+
    ultimately show ?thesis using cr2 KFile by auto
  next
    case KSymlink
    let ?w3 = "put_attr E DNodes i A_symlink '''' (?w2 S_IFLNK)"
    have "create_kind E k w = (Inr \<lparr>nid = i, nkind = KSymlink\<rparr>, ?w3)"
      using KSymlink run assms(1) by (simp add: create_kind_def symlink_create_def setattr_eq setattrv_eq Let_def)
    moreover have n2: "fs_inv E (?w2 S_IFLNK)" "new_node E \<lparr>nid = i, nkind = KSymlink\<rparr> (?w2 S_IFLNK)"
      by (rule bare_put [OF assms(1) bare, of KSymlink]; simp add: S_ISDIR_def)+
    moreover have "fs_inv E ?w3" by (rule fs_inv_put_node [OF assms(1) n2(1)]) auto
    moreover have "new_node E \<lparr>nid = i, nkind = KSymlink\<rparr> ?w3"
      using n2(2) assms(1) by (auto simp: new_node_def)
    moreover have "created E i w ?w3" by (rule created_trans_node [OF assms(1) cr2])
    ultimately show ?thesis using KSymlink by auto
  next
    case KDirectory
    note dir = bare_directory [OF assms(1) bare]
    have "create_kind E k w = (Inr \<lparr>nid = i, nkind = KDirectory\<rparr>, add_entry E i ''.'' i 0 (?w2 S_IFDIR))"
      using KDirectory run assms(1) dir(1) by (simp add: create_kind_def directory_create_def setattr_eq Let_def)
    moreover have "created E i w (add_entry E i ''.'' i 0 (?w2 S_IFDIR))"
      using cr2 [of S_IFDIR] assms(1) by (simp add: created_def still_def add_entry_def)
    ultimately show ?thesis using dir(2,3) KDirectory by auto
  qed
qed

end
