(* ===== verification/Path_Ops.thy ===== *)
theory Path_Ops
  imports Paths Tree_Ops
begin

text \<open>
  \<^verbatim>\<open>Path<T>::create\<close> under the invariant of the tree, the scope of a transaction, and the
  initial database.
\<close>

section \<open>Creating a node at a path\<close>

lemma new_node_refs:
  assumes "new_node E n w"
  shows "refs E w (nid n) \<subseteq> {(nid n, ''.'')}" and "refs E w (nid n) \<noteq> {} \<Longrightarrow> nkind n = KDirectory"
    and "m \<noteq> ''.'' \<Longrightarrow> entry E w (nid n) m = None"
    and "entry E w (nid n) ''.'' = Some c \<Longrightarrow> c = nid n"
proof -
  show sub: "refs E w (nid n) \<subseteq> {(nid n, ''.'')}" and "refs E w (nid n) \<noteq> {} \<Longrightarrow> nkind n = KDirectory"
    using assms by (auto simp: new_node_def split: if_splits)
  have "attr E w DDirectories (nid n) m = None" if "m \<noteq> ''.''"
    using assms that unfolding new_node_def by blast
  then show "m \<noteq> ''.'' \<Longrightarrow> entry E w (nid n) m = None"
    by (simp add: wattr_def)
  show "c = nid n" if c: "entry E w (nid n) ''.'' = Some c"
  proof -
    have "attr E w DDirectories (nid n) ''.'' \<noteq> None" using c by (rule wattr_attr)
    then have "nkind n = KDirectory" using assms by (auto simp: new_node_def)
    then have "(nid n, ''.'') \<in> refs E w (nid n)" using assms by (auto simp: new_node_def)
    then show ?thesis using c by (simp add: refs_def)
  qed
qed

text \<open>
  Either the caller may not write to the directory, or the name is taken and the tree is as
  before, or the node exists under its name.
\<close>

lemma path_create_cases:
  fixes w :: "('a, 'b, 'c) world_scheme" and E :: "('a, 'b) env"
  assumes "lawful E" and inv: "fs_inv E w" and ids: "ids_left E w" and dir: "is_dir E w (nid (parent p))"
  obtains (denied) e where "path_create E k p sctx w = (Inl e, w)" and "e \<noteq> EStuck"
      and "fst (access E sctx (parent p) (or W_OK X_OK) w) = Inl e"
  | (exists) w' where "path_create E k p sctx w = (Inl EExists, w')" and "fs_inv E w'"
      and "same_tree E w w'" and "world.more w' = world.more w" and "txns w' = txns w"
      and "attr E w DDirectories (nid (parent p)) (leaf p) \<noteq> None"
      and "fst (access E sctx (parent p) (or W_OK X_OK) w) = Inr ()"
  | (ok) n w1 kk where "path_create E k p sctx w = (Inr n, add_entry E (nid (parent p)) (leaf p) (nid n) kk w1)"
      and "fs_inv E (add_entry E (nid (parent p)) (leaf p) (nid n) kk w1)"
      and "nkind n = k" and "created E (nid n) w w1" and "fs_inv E w1" and "new_node E n w1"
      and "nlink_of E w1 (nid n) = Some kk" and "attr E w DDirectories (nid (parent p)) (leaf p) = None"
      and "fst (access E sctx (parent p) (or W_OK X_OK) w) = Inr ()"
proof -
  obtain r w0 where acc: "access E sctx (parent p) (or W_OK X_OK) w = (r, w0)" by fastforce
  have w0: "w0 = w" by (rule readsD [OF reads_access acc])
  show thesis
  proof (cases r)
    case (Inl e)
    then have "e \<noteq> EStuck" using safeD(2) [OF safe_access acc] by simp
    then show thesis using denied acc w0 Inl by (simp add: path_create_def)
  next
    case (Inr u)
    obtain n w1 where cr: "create_kind E k w = (Inr n, w1)" and kind: "nkind n = k"
      and created: "created E (nid n) w w1" and inv1: "fs_inv E w1" and new: "new_node E n w1"
      using create_kind_form [OF assms(1-3)] by blast
    have dir1: "is_dir E w1 (nid (parent p))" and pn: "nid (parent p) \<noteq> nid n"
      using created_is_dir [OF created dir] by simp_all
    have ent: "attr E w1 DDirectories (nid (parent p)) m = attr E w DDirectories (nid (parent p)) m" for m
      using created pn by (simp add: created_def)
    note R = new_node_refs [OF new]
    have "card (refs E w1 (nid n)) \<le> card {(nid n, ''.'')}" by (rule card_mono [OF _ R(1)]) simp
    then have bound: "card (refs E w1 (nid n)) < 2 ^ 31" by simp
    have step: "path_create E k p sctx w =
        andthen (handle (addchild E (parent p) (leaf p) n) (\<lambda>e. andthen (remove E n) (throw e))) (ret n) w1"
      using acc w0 Inr cr by (simp add: path_create_def)
    show thesis
    proof (cases rule: addchild_cases [OF assms(1) inv1 dir1 bound, of "leaf p"])
      case (1 kk)
      have run: "path_create E k p sctx w = (Inr n, add_entry E (nid (parent p)) (leaf p) (nid n) kk w1)"
        unfolding step using 1(3) by simp
      show thesis
        by (rule ok [OF run 1(4) kind created inv1 new 1(2)]) (use 1(1) ent acc Inr in simp_all)
    next
      case (2 w2 kk)
      let ?w3 = "removed E n w2"
      let ?put = "put_attr E DNodes (nid n) A_nlink (enc E (1 + kk)) w1"
      have run: "path_create E k p sctx w = (Inl EExists, ?w3)"
        unfolding step using 2(2) by (simp add: remove_eq [OF assms(1)])
      have others: "attr E w2 DNodes (j :: nodeid) m = attr E w1 DNodes j m" if "j \<noteq> nid n" for j m
        using that 2(5,6) assms(1) by (cases "refs E w1 (nid n) = {}") (auto simp: same_tree_def)
      have dirs: "attr E w2 DDirectories (j :: nodeid) m = attr E w1 DDirectories j m" for j m
      proof (cases "refs E w1 (nid n) = {}")
        case True
        then have "nkind n \<noteq> KDirectory" using new by (auto simp: new_node_def)
        then show ?thesis using 2(6) [OF True] assms(1) by simp
      next
        case False
        then show ?thesis using 2(5) by (simp add: same_tree_def)
      qed
      have keys: "keys_ok E w2 DNodes TYPE(64)"
        using link_invD(1) [OF fs_inv_link [OF 2(3)]] .
      have inv3: "fs_inv E ?w3"
        by (rule fs_inv_removed [OF assms(1) inv1 keys others dirs R])
      have same: "same_tree E w ?w3"
        unfolding same_tree_def
      proof (intro conjI allI)
        fix j :: nodeid and m
        show "attr E ?w3 DNodes j m = attr E w DNodes j m"
          using created others assms(1) by (auto simp: created_def)
        show "attr E ?w3 DDirectories j m = attr E w DDirectories j m"
        proof (cases "j = nid n")
          case True
          have "\<not> is_dir E w (nid n)" using created by (auto simp: created_def is_dir_def wattr_def)
          then have none: "attr E w DDirectories (nid n) m = None"
            using link_invD(2,5) [OF fs_inv_link [OF inv], of "nid n" m] by blast
          have "nkind n = KDirectory \<or> attr E w1 DDirectories (nid n) m = None"
            using new unfolding new_node_def by blast
          then show ?thesis using True none dirs assms(1) by auto
        next
          case False
          then show ?thesis using created dirs assms(1) by (simp add: created_def)
        qed
      qed
      have still: "still ?w3 = still w1" using assms(1) 2(4) by simp
      show thesis
        by (rule exists [OF run inv3 same])
          (use still created 2(1) ent acc Inr in \<open>simp_all add: still_def created_def\<close>)
    next
      case (3 e)
      then show thesis using new by (simp add: new_node_def)
    qed
  qed
qed

section \<open>Transactions\<close>

lemma dview_begin [simp]: "lawful E \<Longrightarrow> dview E (fstxn_begin E w) d = dview E w d"
  by (cases d) (simp_all add: fstxn_begin_def txn_begin_def)

lemma dview_commit [simp]: "lawful E \<Longrightarrow> dview E (fstxn_commit E w) d = dview E w d"
  by (cases d) (simp_all add: fstxn_commit_def txn_commit_def)

lemma same_db_begin: "lawful E \<Longrightarrow> same_db E w (fstxn_begin E w)"
  and same_db_commit: "lawful E \<Longrightarrow> same_db E w (fstxn_commit E w)"
  by (simp_all add: same_db_def)

lemma more_txn [simp]: "world.more (fstxn_begin E w) = world.more w" "world.more (fstxn_commit E w) = world.more w"
  by (simp_all add: fstxn_begin_def txn_begin_def fstxn_commit_def txn_commit_def)

lemma txns_commit: "txns (fstxn_commit E w) d = False"
  by (cases d) (simp_all add: fstxn_commit_def txn_commit_def)

lemma with_fstxn_hoare:
  assumes "\<And>w. P w \<Longrightarrow> P' (fstxn_begin E w)" and "hoare P' m Q' R'"
    and "\<And>a w. Q' a w \<Longrightarrow> Q a (fstxn_commit E w)" and "\<And>e w. R' e w \<Longrightarrow> R e (fstxn_commit E w)"
  shows "hoare P (with_fstxn E m) Q R"
proof (rule hoareI)
  fix w a w' assume "P w" and "with_fstxn E m w = (Inr a, w')"
  then show "Q a w'"
    using assms(1,3) hoare_Inr [OF assms(2)] by (auto simp: with_fstxn_def split: prod.splits)
next
  fix w e w' assume "P w" and "with_fstxn E m w = (Inl e, w')"
  then show "R e w'"
    using assms(1,4) hoare_Inl [OF assms(2)] by (auto simp: with_fstxn_def split: prod.splits)
qed

end
