(* ===== verification/Fs_Inv.thy ===== *)
theory Fs_Inv
  imports Fs Path_Ops
begin

text \<open>
  The handlers keep the file system in order: the invariant of the tree, of the path cache
  and of the cache of security contexts, on every way out of a handler.
\<close>

section \<open>The invariant of the file system\<close>

definition caches_ok :: "('s, 'h) env \<Rightarrow> ('s, 'h, 'z) pworld_scheme \<Rightarrow> bool" where
  "caches_ok E w \<longleftrightarrow> pc_inv E w \<and> sc_inv (scache w)"

definition fsys :: "('s, 'h) env \<Rightarrow> ('s, 'h, 'z) pworld_scheme \<Rightarrow> bool" where
  "fsys E w \<longleftrightarrow> fs_inv E w \<and> caches_ok E w"

lemma more_caches:
  assumes "world.more w' = world.more w"
  shows "scache w' = scache w" and "pcache w' = pcache w" and "caches_ok E w' = caches_ok E w"
proof -
  show "scache w' = scache w" and "pcache w' = pcache w"
    using assms by (cases w; cases w'; simp)+
  then show "caches_ok E w' = caches_ok E w" by (simp add: caches_ok_def pc_inv_def)
qed

text \<open>
  Predicates that depend on the databases only (\<open>db_pred\<close>), and on the entries, modes and
  link counts only (\<open>tree_pred\<close>).
\<close>

definition db_pred :: "('s, 'h) env \<Rightarrow> (('s, 'h, 'z) world_scheme \<Rightarrow> bool) \<Rightarrow> bool" where
  "db_pred E P \<longleftrightarrow> (\<forall>w w'. same_db E w w' \<longrightarrow> P w \<longrightarrow> P w')"

definition tree_pred :: "('s, 'h) env \<Rightarrow> (('s, 'h, 'z) world_scheme \<Rightarrow> bool) \<Rightarrow> bool" where
  "tree_pred E P \<longleftrightarrow> (\<forall>w w'. entry E w' = entry E w \<and> mode_of E w' = mode_of E w
     \<and> nlink_of E w' = nlink_of E w \<longrightarrow> P w \<longrightarrow> P w')"

lemma tree_db: "tree_pred E P \<Longrightarrow> db_pred E P"
  unfolding tree_pred_def db_pred_def by (simp add: same_db_wattr)

lemma tree_predD:
  "tree_pred E P \<Longrightarrow> entry E w' = entry E w \<Longrightarrow> mode_of E w' = mode_of E w \<Longrightarrow> nlink_of E w' = nlink_of E w \<Longrightarrow>
     P w \<Longrightarrow> P w'"
  unfolding tree_pred_def by blast

lemma tree_pred_True [intro!, simp]: "tree_pred E (\<lambda>w. True)"
  by (simp add: tree_pred_def)

lemma tree_pred_const [intro!, simp]: "tree_pred E (\<lambda>w. b)"
  by (simp add: tree_pred_def)

lemma tree_pred_conj [intro!]: "tree_pred E P \<Longrightarrow> tree_pred E Q \<Longrightarrow> tree_pred E (\<lambda>w. P w \<and> Q w)"
  unfolding tree_pred_def by blast

lemma db_pred_conj [intro!]: "db_pred E P \<Longrightarrow> db_pred E Q \<Longrightarrow> db_pred E (\<lambda>w. P w \<and> Q w)"
  unfolding db_pred_def by blast

lemma tree_pred_is_dir [intro!]: "tree_pred E (\<lambda>w. is_dir E w d)"
  by (simp add: tree_pred_def is_dir_def fun_eq_iff)

lemma tree_pred_entry [intro!]: "tree_pred E (\<lambda>w. Q (entry E w))"
  by (simp add: tree_pred_def)

lemma refs_entry: "refs E w = (\<lambda>c. {(d, n). entry E w d n = Some c})"
  by (simp add: refs_def fun_eq_iff)

lemma tree_pred_refs [intro!]: "tree_pred E (\<lambda>w. Q (refs E w))"
  by (simp add: tree_pred_def refs_entry)

lemma tree_pred_nlink [intro!]: "tree_pred E (\<lambda>w. Q (nlink_of E w))"
  by (simp add: tree_pred_def)

lemma tree_pred_mode [intro!]: "tree_pred E (\<lambda>w. Q (mode_of E w))"
  by (simp add: tree_pred_def)

lemma db_pred_ids [intro!]: "db_pred E (ids_left E)"
  unfolding db_pred_def ids_left_def by (simp add: same_db_attr)

text \<open>Predicates that may also look at the path cache.\<close>

definition cache_pred :: "('s, 'h) env \<Rightarrow> (('s, 'h, 'z) pworld_scheme \<Rightarrow> bool) \<Rightarrow> bool" where
  "cache_pred E P \<longleftrightarrow> (\<forall>w w'. same_db E w w' \<longrightarrow> pcache w' = pcache w \<longrightarrow> P w \<longrightarrow> P w')"

lemma db_cache_pred: "db_pred E P \<Longrightarrow> cache_pred E P"
  unfolding db_pred_def cache_pred_def by blast

lemma cache_pred_conj: "cache_pred E P \<Longrightarrow> cache_pred E Q \<Longrightarrow> cache_pred E (\<lambda>w. P w \<and> Q w)"
  unfolding cache_pred_def by blast

text \<open>The assertions of the proofs below.\<close>

definition inorder :: "('s, 'h) env \<Rightarrow> (('s, 'h, 'z) pworld_scheme \<Rightarrow> bool) \<Rightarrow> ('s, 'h, 'z) pworld_scheme \<Rightarrow> bool" where
  "inorder E P w \<longleftrightarrow> fsys E w \<and> P w"

definition failed :: "('s, 'h) env \<Rightarrow> exn \<Rightarrow> ('s, 'h, 'z) pworld_scheme \<Rightarrow> bool" where
  "failed E e w \<longleftrightarrow> fsys E w \<and> e \<noteq> EStuck"

lemma sys_same_cache:
  assumes "cache_pred E P" and "same_db E w w'" and "pcache w' = pcache w" and "caches_ok E w'" and "inorder E P w"
  shows "inorder E P w'"
  using assms same_db_fs_inv [OF assms(2)] by (auto simp: inorder_def fsys_def cache_pred_def)

lemma sys_same_db:
  assumes "db_pred E P" and "same_db E w w'" and "caches_ok E w'" and "inorder E P w"
  shows "inorder E P w'"
  using assms same_db_fs_inv [OF assms(2)] by (auto simp: inorder_def fsys_def db_pred_def)

section \<open>Triples of the operations\<close>

lemma inorder_begin:
  assumes "lawful E" and "cache_pred E P" and "inorder E P w"
  shows "inorder E P (fstxn_begin E w)"
  by (rule sys_same_cache [OF assms(2) same_db_begin [OF assms(1)] more_caches(2) [OF more_txn(1)] _ assms(3)])
    (use assms(3) in \<open>simp add: inorder_def fsys_def more_caches(3) [OF more_txn(1)]\<close>)

lemma fsys_commit: "lawful E \<Longrightarrow> fsys E w \<Longrightarrow> fsys E (fstxn_commit E w)"
  using same_db_fs_inv [OF same_db_commit [of E w]] by (simp add: fsys_def more_caches(3) [OF more_txn(2)])

lemma triple_scope:
  assumes "lawful E" and "db_pred E P" and "hoare (inorder E P) body (\<lambda>_. inorder E (\<lambda>_. True)) (failed E)"
  shows "hoare (inorder E P) (with_fstxn E body) (\<lambda>_. inorder E (\<lambda>_. True)) (failed E)"
  by (rule with_fstxn_hoare [OF inorder_begin [OF assms(1) db_cache_pred [OF assms(2)]] assms(3)])
    (auto simp: inorder_def failed_def fsys_commit [OF assms(1)])

lemma triple_reads:
  assumes "reads m" and "safe m" and "\<And>w. P w \<Longrightarrow> fsys E w"
  shows "hoare P m (\<lambda>_. P) (failed E)"
proof (rule hoareI)
  fix w a w' assume "P w" and "m w = (Inr a, w')"
  then show "P w'" using readsD [OF assms(1)] by blast
next
  fix w e w' assume "P w" and m: "m w = (Inl e, w')"
  moreover have "e \<noteq> EStuck" using safeD(2) [OF assms(2) m] by simp
  ultimately show "failed E e w'" using readsD [OF assms(1) m] assms(3) by (simp add: failed_def)
qed

lemma triple_getattr:
  assumes "lawful E"
  shows "hoare (inorder E P) (getattr E d i n) (\<lambda>v. inorder E (\<lambda>w. P w \<and> wattr E w d i n = Some v)) (failed E)"
proof (rule hoareI)
  fix w a w' assume "inorder E P w" and "getattr E d i n w = (Inr a, w')"
  then show "inorder E (\<lambda>w. P w \<and> wattr E w d i n = Some a) w'"
    using getattr_Inr [OF assms, of d i n w a w'] by (auto simp: inorder_def)
next
  fix w e w' assume "inorder E P w" and m: "getattr E d i n w = (Inl e, w')"
  then show "failed E e w'"
    using safeD(2) [OF safe_getattr m] getattr_stateD [OF m] by (auto simp: failed_def inorder_def)
qed

lemma triple_getchild:
  assumes "lawful E"
  shows "hoare (inorder E P) (getchild E d n)
     (\<lambda>c. inorder E (\<lambda>w. P w \<and> entry E w (nid d) n = Some (nid c) \<and> typed E w c)) (failed E)"
proof (rule hoareI)
  fix w c w' assume "inorder E P w" and "getchild E d n w = (Inr c, w')"
  then show "inorder E (\<lambda>w. P w \<and> entry E w (nid d) n = Some (nid c) \<and> typed E w c) w'"
    using getchild_Inr [OF assms, of d n w c w'] by (auto simp: inorder_def typed_def)
next
  fix w e w' assume "inorder E P w" and m: "getchild E d n w = (Inl e, w')"
  then show "failed E e w'"
    using safeD(2) [OF safe_getchild m] readsD [OF reads_getchild m] by (auto simp: failed_def inorder_def)
qed

lemma triple_cast:
  "hoare (inorder E P) (cast k n) (\<lambda>c. inorder E (\<lambda>w. P w \<and> c = n \<and> nkind n = k)) (failed E)"
  unfolding cast_def by (intro hoare_rules) (auto simp: inorder_def failed_def)

text \<open>Reading the context of the caller changes the clock and its cache.\<close>

lemma sc_uptodate_db: "sc_uptodate E w = (r, w') \<Longrightarrow> dbs w' = dbs w \<and> pcache w' = pcache (w :: ('s, 'h, 'z) pworld_scheme)"
  by (auto simp: sc_uptodate_def bind_result time_now_def whenM_def split: if_splits)

lemma sc_get_db:
  assumes "sc_get E uid gid w = (r, w')"
  shows "dbs w' = dbs w \<and> pcache w' = pcache (w :: ('s, 'h, 'z) pworld_scheme)"
proof -
  have ctx: "new_scontext E uid gid w1 = (x, w2) \<Longrightarrow> w2 = w1" for w1 :: "('s, 'h, 'z) pworld_scheme" and x w2
    by (rule new_scontext_state)
  have look: "dbs w2 = dbs w1 \<and> pcache w2 = pcache w1" if "sc_lookup E uid gid w1 = (x, w2)"
    for w1 w2 :: "('s, 'h, 'z) pworld_scheme" and x
    using that unfolding sc_lookup_def andthen_result bind_result handle_result
    by (auto dest!: sc_uptodate_db ctx simp: bind_result andthen_result handle_result
        split: option.splits)
  show ?thesis
    using assms unfolding sc_get_def andthen_result bind_result handle_result
    by (auto dest!: look simp: andthen_result bind_result handle_result)
qed

lemma triple_userctx_at:
  assumes "cache_pred E P"
  shows "hoare (inorder E P) (userctx E ctx) (\<lambda>_. inorder E P) (failed E)"
proof -
  have step: "inorder E P w' \<and> r \<noteq> Inl EStuck" if w: "inorder E P w" and run: "sc_get E uid gid w = (r, w')"
    for w w' and r uid gid
  proof -
    have same: "same_db E w w'" and pc: "pcache w' = pcache w"
      using sc_get_db [OF run] by (simp_all add: same_db_def)
    have "sc_inv (scache w)" using w by (simp add: inorder_def fsys_def caches_ok_def)
    then have "sc_inv (scache w') \<and> r \<noteq> Inl EStuck"
      by (cases rule: sc_get_cases [of w E uid gid]) (use run in auto)
    moreover from this have "caches_ok E w'" using w pc by (simp add: inorder_def fsys_def caches_ok_def pc_inv_def)
    ultimately show ?thesis using sys_same_cache [OF assms same pc _ w] by blast
  qed
  show ?thesis
    unfolding userctx_def
  proof (rule hoareI)
    fix w a w' assume "inorder E P w" and "sc_get E (fst ctx) (snd ctx) w = (Inr a, w')"
    then show "inorder E P w'" using step by blast
  next
    fix w e w' assume "inorder E P w" and "sc_get E (fst ctx) (snd ctx) w = (Inl e, w')"
    then have "inorder E P w' \<and> (Inl e :: exn + scontext) \<noteq> Inl EStuck" by (rule step)
    then show "failed E e w'" by (simp add: failed_def inorder_def)
  qed
qed

lemmas triple_userctx = triple_userctx_at [OF db_cache_pred]

text \<open>The path cache, through its interface.\<close>

lemma pcache_db [simp]: "same_db E w (w\<lparr>pcache := c\<rparr>)"
  by (simp add: same_db_def)

lemma triple_getnode_path:
  assumes "lawful E" and "db_pred E P"
  shows "hoare (inorder E P) (getnode_path E sctx p) (\<lambda>n. inorder E (\<lambda>w. P w \<and> typed E w n)) (failed E)"
proof -
  have step: "inorder E P w' \<and> fst (getnode_path E sctx p w) \<noteq> Inl EStuck
      \<and> (\<forall>n. fst (getnode_path E sctx p w) = Inr n \<longrightarrow> typed E w' n)"
    if w: "inorder E P w" and w': "snd (getnode_path E sctx p w) = w'" for w w'
  proof -
    have "pc_inv E w" using w by (simp add: inorder_def fsys_def caches_ok_def)
    from hash_getnode_law [OF assms(1) this, of sctx p] obtain c where c: "w' = w\<lparr>pcache := c\<rparr>"
      "pc_inv E (w\<lparr>pcache := c\<rparr>)" "fst (getnode_path E sctx p w) \<noteq> Inl EStuck"
      "\<forall>n. fst (getnode_path E sctx p w) = Inr n \<longrightarrow> typed E w n" using w' by auto
    have "caches_ok E w'" using c w by (simp add: inorder_def fsys_def caches_ok_def)
    moreover have "typed E w' n = typed E w n" for n using c(1) by (simp add: typed_def wattr_def attr_def)
    ultimately show ?thesis using sys_same_db [OF assms(2) _ _ w] c by simp
  qed
  show ?thesis
  proof (rule hoareI)
    fix w a w' assume "inorder E P w" and "getnode_path E sctx p w = (Inr a, w')"
    then show "inorder E (\<lambda>w. P w \<and> typed E w a) w'" using step [of w w'] by (simp add: inorder_def)
  next
    fix w e w' assume "inorder E P w" and "getnode_path E sctx p w = (Inl e, w')"
    then show "failed E e w'" using step [of w w'] by (simp add: inorder_def failed_def)
  qed
qed

lemma triple_path_new:
  assumes "lawful E" and "db_pred E P"
  shows "hoare (inorder E P) (path_new (getnode_path E) sctx p)
     (\<lambda>pt. inorder E (\<lambda>w. P w \<and> is_dir E w (nid (parent pt)) \<and> nkind (parent pt) = KDirectory)) (failed E)"
proof -
  have one: "hoare (inorder E P) (bind (getnode_path E sctx pp) (\<lambda>n. bind (cast KDirectory n) (\<lambda>d. ret \<lparr>parent = d, leaf = lf\<rparr>)))
     (\<lambda>pt. inorder E (\<lambda>w. P w \<and> is_dir E w (nid (parent pt)) \<and> nkind (parent pt) = KDirectory)) (failed E)" for pp lf
    by (rule hoare_bind [OF triple_getnode_path [OF assms] hoare_bind [OF triple_cast]])
      (auto simp: inorder_def dest: typed_dir intro!: hoare_ret)
  show ?thesis
    using one unfolding path_new_def by (cases "path_split p") simp
qed

lemma triple_path_new_leaf:
  assumes "lawful E" and "db_pred E P"
  shows "hoare (inorder E P) (path_new (getnode_path E) sctx p)
     (\<lambda>pt. inorder E (\<lambda>w. P w \<and> leaf pt = snd (path_split p))) (failed E)"
proof (rule hoareI)
  fix w pt w' assume w: "inorder E P w" and run: "path_new (getnode_path E) sctx p w = (Inr pt, w')"
  then have "inorder E P w'"
    using hoare_Inr [OF triple_path_new [OF assms], of sctx p w pt w'] by (simp add: inorder_def)
  moreover have "leaf pt = snd (path_split p)"
    using run by (cases "path_split p") (auto simp: path_new_def bind_result)
  ultimately show "inorder E (\<lambda>w. P w \<and> leaf pt = snd (path_split p)) w'" by (simp add: inorder_def)
qed (rule hoare_Inl [OF triple_path_new [OF assms]])

lemma triple_invalidate:
  assumes "db_pred E P"
  shows "hoare (inorder E P) (hash_invalidate E p) (\<lambda>_. inorder E P) (failed E)"
proof -
  have step: "\<exists>c. hash_invalidate E p w = (Inr (), w\<lparr>pcache := c\<rparr>) \<and> inorder E P (w\<lparr>pcache := c\<rparr>)" if w: "inorder E P w" for w
  proof -
    have inv: "pc_inv E w" using w by (simp add: inorder_def fsys_def caches_ok_def)
    then obtain c where c: "hash_invalidate E p w = (Inr (), w\<lparr>pcache := c\<rparr>)" "pc_inv E (w\<lparr>pcache := c\<rparr>)"
      using hash_invalidate_any [of "\<lambda>_ _. True" w E p] by (auto simp: pc_inv_def)
    then have "caches_ok E (w\<lparr>pcache := c\<rparr>)" using w by (simp add: inorder_def fsys_def caches_ok_def)
    then show ?thesis using sys_same_db [OF assms pcache_db _ w] c(1) by blast
  qed
  show ?thesis
  proof (rule hoareI)
    fix w a w' assume "inorder E P w" and "hash_invalidate E p w = (Inr a, w')"
    then show "inorder E P w'" using step [of w] by auto
  next
    fix w e w' assume "inorder E P w" and "hash_invalidate E p w = (Inl e, w')"
    then show "failed E e w'" using step [of w] by auto
  qed
qed

text \<open>Attributes of nodes.\<close>

lemma same_tree_putI:
  assumes "lawful E" and "n \<noteq> A_nlink" and "n \<noteq> A_mode"
  shows "entry E (put_attr E DNodes (i :: nodeid) n v w) = entry E w"
    and "mode_of E (put_attr E DNodes (i :: nodeid) n v w) = mode_of E w"
    and "nlink_of E (put_attr E DNodes (i :: nodeid) n v w) = nlink_of E w"
  using assms by (auto simp: fun_eq_iff)

lemma caches_ok_put [simp]: "lawful E \<Longrightarrow> caches_ok E (put_attr E d i n v w) = caches_ok E w"
  by (rule more_caches(3)) simp

lemma triple_setattrv:
  assumes "lawful E" and "tree_pred E P" and "n \<noteq> A_nlink" and "n \<noteq> A_mode"
  shows "hoare (inorder E P) (setattrv E DNodes (i :: nodeid) n v) (\<lambda>_. inorder E P) (failed E)"
proof (rule hoareI)
  fix w a w' assume w: "inorder E P w" and "setattrv E DNodes i n v w = (Inr a, w')"
  then have w': "w' = put_attr E DNodes i n v w" using assms(1) by (simp add: setattrv_eq)
  have "fs_inv E w'"
    unfolding w' using w assms(3,4) by (intro fs_inv_put_node [OF assms(1)]) (auto simp: inorder_def fsys_def)
  moreover have "P w'"
    unfolding w' using w by (intro tree_predD [OF assms(2) same_tree_putI [OF assms(1,3,4)]]) (simp add: inorder_def)
  ultimately show "inorder E P w'" using w assms(1) by (simp add: inorder_def fsys_def w')
qed (simp add: setattrv_eq assms(1))

lemma triple_setattr:
  "lawful E \<Longrightarrow> tree_pred E P \<Longrightarrow> n \<noteq> A_nlink \<Longrightarrow> n \<noteq> A_mode \<Longrightarrow>
     hoare (inorder E P) (setattr E DNodes (i :: nodeid) n v) (\<lambda>_. inorder E P) (failed E)"
  unfolding setattr_def by (rule triple_setattrv)

lemma triple_time:
  assumes "db_pred E P"
  shows "hoare (inorder E P) (time_now E) (\<lambda>_. inorder E P) (failed E)"
proof (rule hoareI)
  fix w a w' assume w: "inorder E P w" and "time_now E w = (Inr a, w')"
  then have w': "w' = w\<lparr>ticks := Suc (ticks w)\<rparr>" by (simp add: time_now_def)
  show "inorder E P w'"
    by (rule sys_same_db [OF assms _ _ w]) (use w in \<open>auto simp: w' same_db_def inorder_def fsys_def caches_ok_def pc_inv_def\<close>)
qed (simp add: time_now_def)

lemma triple_stamp:
  assumes "lawful E" and "tree_pred E P" and "n \<noteq> A_nlink" and "n \<noteq> A_mode"
  shows "hoare (inorder E P) (stamp E c n) (\<lambda>_. inorder E P) (failed E)"
  unfolding stamp_def
  by (rule hoare_bind [OF triple_time [OF tree_db [OF assms(2)]] triple_setattr [OF assms]])

lemma time_names [simp]:
  "A_ctime \<noteq> A_nlink" "A_ctime \<noteq> A_mode" "A_mtime \<noteq> A_nlink" "A_mtime \<noteq> A_mode" "A_atime \<noteq> A_nlink"
  "A_atime \<noteq> A_mode" "A_uid \<noteq> A_nlink" "A_uid \<noteq> A_mode" "A_gid \<noteq> A_nlink" "A_gid \<noteq> A_mode"
  "A_dev \<noteq> A_nlink" "A_dev \<noteq> A_mode" "A_symlink \<noteq> A_nlink" "A_symlink \<noteq> A_mode"
  by (simp_all add: A_defs)

lemma triple_touch_parent:
  assumes "lawful E" and "tree_pred E P"
  shows "hoare (inorder E P) (touch_parent E d) (\<lambda>_. inorder E P) (failed E)"
  unfolding touch_parent_def
  by (rule hoare_andthen [OF triple_stamp [OF assms] triple_stamp [OF assms]]) simp_all

lemma triple_setmode:
  assumes "lawful E" and "\<And>w. P w \<Longrightarrow> is_dir E w i \<Longrightarrow> S_ISDIR m" and "\<And>w. P w \<Longrightarrow> S_ISDIR m \<Longrightarrow> refs E w i \<noteq> {}"
  shows "hoare (inorder E P) (setattr E DNodes (i :: nodeid) A_mode (m :: mode_t)) (\<lambda>_. inorder E (\<lambda>_. True)) (failed E)"
proof (rule hoareI)
  fix w a w' assume w: "inorder E P w" and "setattr E DNodes i A_mode m w = (Inr a, w')"
  then have w': "w' = put_attr E DNodes i A_mode (enc E m) w" using assms(1) by (simp add: setattr_eq)
  have "A_mode \<noteq> A_nlink" by (simp add: A_defs)
  then have "fs_inv E w'"
    unfolding w' using w assms by (intro fs_inv_put_node [OF assms(1)]) (auto simp: inorder_def fsys_def)
  then show "inorder E (\<lambda>_. True) w'" using w assms(1) by (simp add: inorder_def fsys_def w')
qed (simp add: setattr_eq assms(1))

end
