(* ===== verification/Fs_Handlers.thy ===== *)
theory Fs_Handlers
  imports Fs_Inv
begin

text \<open>
  Every handler that changes the tree answers with a code, closes its transactions and keeps
  the invariant of the file system, whatever fails on the way.
\<close>

section \<open>Creating a node\<close>

text \<open>No node has as many entries as a signed link count can hold.\<close>

definition few :: "('s, 'h) env \<Rightarrow> ('s, 'h, 'z) world_scheme \<Rightarrow> bool" where
  "few E w \<longleftrightarrow> (\<forall>c. card (refs E w c) < 2 ^ 31)"

lemma tree_pred_few [intro!]: "tree_pred E (few E)"
  by (simp add: tree_pred_def few_def refs_entry)

lemma few_card: "few E w \<Longrightarrow> card (refs E w c) < 2 ^ 31"
  by (simp add: few_def)

text \<open>What is known of a node \<open>n\<close> of class \<open>k\<close> that \<open>path_create\<close> has entered in \<open>d\<close>.\<close>

definition entered :: "('s, 'h) env \<Rightarrow> kind \<Rightarrow> nodeid \<Rightarrow> node \<Rightarrow> ('s, 'h, 'z) world_scheme \<Rightarrow> bool" where
  "entered E k d n w \<longleftrightarrow> few E w \<and> is_dir E w d \<and> refs E w (nid n) \<noteq> {} \<and> nkind n = k
     \<and> (is_dir E w (nid n) \<longleftrightarrow> k = KDirectory)"

lemma tree_pred_entered [intro!]: "tree_pred E (entered E k d n)"
  by (simp add: tree_pred_def entered_def few_def refs_entry is_dir_def fun_eq_iff)

lemma created_refs:
  assumes inv: "fs_inv E w" and cr: "created E (nid n) w w1" and new: "new_node E n w1" and "c \<noteq> nid n"
  shows "refs E w1 c = refs E w c"
proof -
  have "entry E w (nid n) m = None" for m
  proof -
    have "\<not> is_dir E w (nid n)" using cr by (auto simp: created_def is_dir_def wattr_def)
    then show ?thesis using link_invD(5) [OF fs_inv_link [OF inv], of "nid n" m] by blast
  qed
  moreover have "entry E w1 (nid n) m \<noteq> Some c" for m
    using new_node_refs(3,4) [OF new] assms(4) by (cases "m = ''.''") auto
  moreover have "entry E w1 j m = entry E w j m" if "j \<noteq> nid n" for j m
    using created_entry [OF cr that] .
  ultimately show ?thesis unfolding refs_def by (metis option.distinct(1))
qed

lemma path_create_entered:
  assumes "lawful E" and inv: "fs_inv E w" and "few E w" and "is_dir E w (nid (parent p))"
    and cr: "created E (nid n) w w1" and inv1: "fs_inv E w1" and new: "new_node E n w1" and "nkind n = k"
    and free: "attr E w DDirectories (nid (parent p)) (leaf p) = None"
  shows "entered E k (nid (parent p)) n (add_entry E (nid (parent p)) (leaf p) (nid n) kk w1)"
proof -
  let ?d = "nid (parent p)" and ?w2 = "add_entry E (nid (parent p)) (leaf p) (nid n) kk w1"
  have dir: "is_dir E w1 ?d" "?d \<noteq> nid n" using created_is_dir [OF cr assms(4)] by simp_all
  then have free1: "attr E w1 DDirectories ?d (leaf p) = None" using cr free by (simp add: created_def)
  note R = refs_add_entry [OF assms(1) free1, of "nid n" kk]
  have sub: "refs E w1 (nid n) \<subseteq> {(nid n, ''.'')}" by (rule new_node_refs(1) [OF new])
  have small: "card (refs E ?w2 c) < 2 ^ 31" for c
  proof (cases "c = nid n")
    case True
    have "card (refs E ?w2 c) \<le> card {(?d, leaf p), (nid n, ''.'')}"
      unfolding R by (rule card_mono) (use sub True in auto)
    also have "\<dots> < 2 ^ 31" by (simp add: card_insert_if)
    finally show ?thesis .
  next
    case False
    then show ?thesis
      using few_card [OF assms(3), of c] created_refs [OF inv cr new False] by (simp add: R)
  qed
  moreover have "is_dir E w1 (nid n) \<longleftrightarrow> k = KDirectory"
    using new fs_inv_dir [OF inv1, of "nid n"] assms(8) by (auto simp: new_node_def split: if_splits)
  ultimately show ?thesis
    using assms(1,8) dir R by (auto simp: entered_def few_def)
qed

lemma more_add_entry [simp]: "lawful E \<Longrightarrow> world.more (add_entry E d n c k w) = world.more w"
  by (simp add: add_entry_def)

lemma triple_path_create:
  fixes E :: "('s, 'h) env"
  assumes "lawful E"
  shows "hoare (inorder E (\<lambda>w. (few E w \<and> ids_left E w) \<and> is_dir E w (nid (parent p)) \<and> nkind (parent p) = KDirectory))
     (path_create E k p sctx) (\<lambda>n. inorder E (entered E k (nid (parent p)) n))
     (failed E :: exn \<Rightarrow> ('s, 'h, 'z) pworld_scheme \<Rightarrow> bool)"
proof -
  have "case path_create E k p sctx w of
      (Inr n, w') \<Rightarrow> inorder E (entered E k (nid (parent p)) n) w' | (Inl e, w') \<Rightarrow> failed E e w'"
    if w: "inorder E (\<lambda>w. (few E w \<and> ids_left E w) \<and> is_dir E w (nid (parent p)) \<and> nkind (parent p) = KDirectory) w"
    for w :: "('s, 'h, 'z) pworld_scheme"
  proof -
    have inv: "fs_inv E w" and c: "caches_ok E w" and few: "few E w" and ids: "ids_left E w"
      and dir: "is_dir E w (nid (parent p))" using w by (simp_all add: inorder_def fsys_def)
    show ?thesis
    proof (cases rule: path_create_cases [OF assms inv ids dir, of k sctx])
      case (1 e)
      then show ?thesis using inv c by (simp add: failed_def fsys_def)
    next
      case (2 w')
      then show ?thesis using c more_caches(3) [OF 2(4)] by (simp add: failed_def fsys_def)
    next
      case (3 n w1 kk)
      let ?w2 = "add_entry E (nid (parent p)) (leaf p) (nid n) kk w1"
      have "world.more ?w2 = world.more w" using assms 3(4) by (simp add: created_def)
      then have "caches_ok E ?w2" using c more_caches(3) by blast
      moreover have "entered E k (nid (parent p)) n ?w2"
        by (rule path_create_entered [OF assms inv few dir 3(4-6) 3(3) 3(8)])
      ultimately show ?thesis using 3(1,2) by (simp add: inorder_def fsys_def)
    qed
  qed
  then show ?thesis unfolding hoare_def by blast
qed

section \<open>What a handler guarantees\<close>

text \<open>It answers with a code, in order and with all transactions closed.\<close>

definition answers :: "('s, 'h) env \<Rightarrow> ('s, 'h, 'z, 'a) pop \<Rightarrow> ('s, 'h, 'z) pworld_scheme \<Rightarrow> bool" where
  "answers E h w \<longleftrightarrow> (\<exists>r w'. h w = (Inr r, w') \<and> fsys E w' \<and> (\<forall>d. \<not> txns w' d))"

lemma answersI:
  assumes "lawful E" and "db_pred E P" and body: "hoare (inorder E P) body (\<lambda>_. inorder E (\<lambda>_. True)) (failed E)"
    and "fsys E w" and "P w"
  shows "answers E (handle (with_fstxn E body) (\<lambda>e. ret (code e))) w"
proof -
  let ?h = "handle (with_fstxn E body) (\<lambda>e. ret (code e))"
  have h: "hoare (inorder E P) ?h (\<lambda>_. inorder E (\<lambda>_. True)) (\<lambda>_ _. False)"
    by (rule hoare_handle [OF triple_scope [OF assms(1-3)]]) (auto simp: failed_def inorder_def intro: hoare_ret)
  obtain r w' where run: "?h w = (r, w')" by fastforce
  have "fsys E w' \<and> r \<noteq> Inl e" for e
    using hoare_Inr [OF h, of w _ w'] hoare_Inl [OF h, of w _ w'] run assms(4,5)
    by (cases r) (auto simp: inorder_def)
  moreover have "\<not> txns w' d" for d
    using run txns_commit [of E] by (auto simp: handle_result with_fstxn_def split: prod.splits)
  ultimately show ?thesis using run by (cases r) (auto simp: answers_def)
qed

lemma handler_answers:
  "lawful E \<Longrightarrow> db_pred E P \<Longrightarrow> hoare (inorder E P) body (\<lambda>_. inorder E (\<lambda>_. True)) (failed E) \<Longrightarrow> fsys E w \<Longrightarrow> P w
     \<Longrightarrow> answers E (handler E body) w"
  unfolding handler_def by (rule answersI)

lemma hoare_drop: "hoare (inorder E P) m (\<lambda>_. inorder E Q) (failed E) \<Longrightarrow> hoare (inorder E P) m (\<lambda>_. inorder E (\<lambda>_. True)) (failed E)"
  by (erule hoare_weaken) (auto simp: inorder_def)

lemma hoare_drop_to:
  "hoare (inorder E P) m (\<lambda>a. inorder E (\<lambda>w. Q w \<and> Q' a w)) (failed E) \<Longrightarrow>
     hoare (inorder E P) m (\<lambda>_. inorder E Q) (failed E)"
  by (erule hoare_weaken) (auto simp: inorder_def)

lemma hoare_sys_pre: "hoare (inorder E P') m Q R \<Longrightarrow> (\<And>w. P w \<Longrightarrow> P' w) \<Longrightarrow> hoare (inorder E P) m Q R"
  by (erule hoare_pre) (simp add: inorder_def)

lemma sys_code: "hoare (inorder E P) (ret c) (\<lambda>_. inorder E (\<lambda>_. True)) (failed E)"
  by (rule hoare_ret) (simp add: inorder_def)

text \<open>Most handlers end with the times of the parent and the code.\<close>

lemma touch_tail:
  "lawful E \<Longrightarrow> tree_pred E P \<Longrightarrow>
     hoare (inorder E P) (andthen (touch_parent E d) (ret c)) (\<lambda>_. inorder E (\<lambda>_. True)) (failed E)"
  by (rule hoare_andthen [OF triple_touch_parent sys_code])

definition roomy :: "('s, 'h) env \<Rightarrow> ('s, 'h, 'z) world_scheme \<Rightarrow> bool" where
  "roomy E w \<longleftrightarrow> few E w \<and> ids_left E w"

lemma db_pred_roomy [intro!]: "db_pred E (roomy E)"
  unfolding roomy_def by (intro db_pred_conj tree_db tree_pred_few db_pred_ids)

lemma triple_create:
  assumes "lawful E"
    and tail: "\<And>p n. nkind n = k \<Longrightarrow> nkind (parent p) = KDirectory \<Longrightarrow>
        hoare (inorder E (entered E k (nid (parent p)) n)) (f p n) (\<lambda>_. inorder E (\<lambda>_. True)) (failed E)"
  shows "hoare (inorder E (roomy E))
     (bind (userctx E ctx) (\<lambda>sctx. bind (path_new (getnode_path E) sctx pathname) (\<lambda>p.
        bind (path_create E k p sctx) (f p)))) (\<lambda>_. inorder E (\<lambda>_. True)) (failed E)"
proof (rule hoare_bind [OF triple_userctx [OF db_pred_roomy] hoare_bind [OF triple_path_new [OF assms(1) db_pred_roomy]]])
  fix sctx p
  show "hoare (inorder E (\<lambda>w. roomy E w \<and> is_dir E w (nid (parent p)) \<and> nkind (parent p) = KDirectory))
      (bind (path_create E k p sctx) (f p)) (\<lambda>_. inorder E (\<lambda>_. True)) (failed E)"
  proof (cases "nkind (parent p) = KDirectory")
    case True
    have "hoare (inorder E (entered E k (nid (parent p)) n)) (f p n) (\<lambda>_. inorder E (\<lambda>_. True)) (failed E)" for n
    proof (cases "nkind n = k")
      case False
      then show ?thesis by (simp add: hoare_def inorder_def entered_def)
    qed (rule tail [OF _ True])
    then show ?thesis
      unfolding roomy_def by (rule hoare_bind [OF triple_path_create [OF assms(1)]])
  qed (simp add: hoare_def inorder_def)
qed

section \<open>Entries\<close>

lemma triple_addchild:
  fixes E :: "('s, 'h) env" and Q :: "('s, 'h, 'z) pworld_scheme \<Rightarrow> bool"
  assumes "lawful E" and "\<And>w. P w \<Longrightarrow> is_dir E w (nid d) \<and> card (refs E w (nid n)) < 2 ^ 31"
    and "\<And>w k. P w \<Longrightarrow> attr E w DDirectories (nid d) name = None \<Longrightarrow> Q (add_entry E (nid d) name (nid n) k w)"
  shows "hoare (inorder E P) (addchild E d name n) (\<lambda>_. inorder E Q) (failed E)"
proof -
  have "case addchild E d name n w of (Inr _, w') \<Rightarrow> inorder E Q w' | (Inl e, w') \<Rightarrow> failed E e w'"
    if w: "inorder E P w" for w :: "('s, 'h, 'z) pworld_scheme"
  proof -
    have inv: "fs_inv E w" and c: "caches_ok E w" and P: "P w" using w by (simp_all add: inorder_def fsys_def)
    have dir: "is_dir E w (nid d)" and small: "card (refs E w (nid n)) < 2 ^ 31"
      using assms(2) [OF P] by simp_all
    show ?thesis
    proof (cases rule: addchild_cases [OF assms(1) inv dir small, of name])
      case (1 k)
      have "caches_ok E (add_entry E (nid d) name (nid n) k w)"
        using c more_caches(3) [of "add_entry E (nid d) name (nid n) k w" w E] assms(1) by simp
      then show ?thesis using 1 assms(3) [OF P] by (simp add: inorder_def fsys_def)
    next
      case (2 w' k)
      have "world.more w' = world.more w" using 2(4) by (simp add: still_def)
      then show ?thesis using 2(2,3) c more_caches(3) by (auto simp: failed_def fsys_def)
    next
      case (3 e)
      then show ?thesis using inv c by (simp add: failed_def fsys_def)
    qed
  qed
  then show ?thesis unfolding hoare_def by blast
qed

lemma triple_delchild:
  fixes E :: "('s, 'h) env" and Q :: "('s, 'h, 'z) pworld_scheme \<Rightarrow> bool"
  assumes "lawful E" and few: "\<And>w. P w \<Longrightarrow> few E w"
    and last: "\<And>w i n. P w \<Longrightarrow> fs_inv E w \<Longrightarrow> entry E w (nid d) name = Some i \<Longrightarrow> card (refs E w i) = 1 \<Longrightarrow>
                 entry E w i n \<noteq> None \<Longrightarrow> (i, n) = (nid d, name)"
    and Q: "\<And>w w'. P w \<Longrightarrow> fs_inv E w \<Longrightarrow> entry E w (nid d) name \<noteq> None \<Longrightarrow>
       (\<And>j m. entry E w' j m = (if j = nid d \<and> m = name then None else entry E w j m)) \<Longrightarrow> Q w'"
  shows "hoare (inorder E P) (delchild E d name) (\<lambda>_. inorder E Q) (failed E)"
proof -
  have "case delchild E d name w of (Inr _, w') \<Rightarrow> inorder E Q w' | (Inl e, w') \<Rightarrow> failed E e w'"
    if w: "inorder E P w" for w :: "('s, 'h, 'z) pworld_scheme"
  proof -
    have inv: "fs_inv E w" and c: "caches_ok E w" and P: "P w" using w by (simp_all add: inorder_def fsys_def)
    have small: "card (refs E w i) \<le> 2 ^ 31" for i
      using few_card [OF few [OF P], of i] by simp
    show ?thesis
    proof (rule delchild_cases [OF assms(1) inv small, of d name])
      show "(i, n) = (nid d, name)" if "entry E w (nid d) name = Some i" and "card (refs E w i) = 1"
        and "entry E w i n \<noteq> None" for i n
        using that by (rule last [OF P inv])
    next
      fix e assume 1: "delchild E d name w = (Inl e, w)" "e \<noteq> EStuck"
      then show ?thesis using inv c by (simp add: failed_def fsys_def)
    next
      fix i w' assume 2: "delchild E d name w = (Inr (), w')" "fs_inv E w'" "still w' = still w"
        and e: "entry E w (nid d) name = Some i" and ent:
        "\<And>j m. entry E w' j m = (if j = nid d \<and> m = name then None else entry E w j m)"
      have "world.more w' = world.more w" using 2(3) by (simp add: still_def)
      then have "caches_ok E w'" using c more_caches(3) by blast
      moreover have "Q w'" by (rule Q [OF P inv _ ent]) (simp add: e)
      ultimately show ?thesis using 2(1,2) by (simp add: inorder_def fsys_def)
    qed
  qed
  then show ?thesis unfolding hoare_def by blast
qed

section \<open>mknod, symlink and mkdir\<close>

lemma sys_any: "hoare (inorder E (\<lambda>_. True)) m Q R \<Longrightarrow> hoare (inorder E P) m Q R"
  by (erule hoare_sys_pre) simp

lemma when_any: "(c \<Longrightarrow> hoare P m (\<lambda>_. P) R) \<Longrightarrow> hoare P (whenM c m) (\<lambda>_. P) R"
  by (rule hoare_whenM)

lemma triple_mknod:
  assumes "lawful E"
  shows "hoare (inorder E (roomy E))
     (bind (userctx E ctx) (\<lambda>sctx. bind (path_new (getnode_path E) sctx pathname) (\<lambda>p.
       bind (path_create E KNode p sctx) (\<lambda>n.
       andthen (setattr E DNodes (nid n) A_uid (fst ctx))
       (andthen (setattr E DNodes (nid n) A_gid (snd ctx))
       (andthen (setattr E DNodes (nid n) A_mode mode)
       (andthen (whenM (S_ISCHR mode \<or> S_ISBLK mode) (setattr E DNodes (nid n) A_dev dev))
       (andthen (touch_parent E (parent p))
       (ret (0 :: int)))))))))) (\<lambda>_. inorder E (\<lambda>_. True)) (failed E)"
proof (rule triple_create [OF assms])
  fix p :: path and n :: node
  show "hoare (inorder E (entered E KNode (nid (parent p)) n))
     (andthen (setattr E DNodes (nid n) A_uid (fst ctx))
     (andthen (setattr E DNodes (nid n) A_gid (snd ctx))
     (andthen (setattr E DNodes (nid n) A_mode mode)
     (andthen (whenM (S_ISCHR mode \<or> S_ISBLK mode) (setattr E DNodes (nid n) A_dev dev))
     (andthen (touch_parent E (parent p)) (ret (0 :: int))))))) (\<lambda>_. inorder E (\<lambda>_. True)) (failed E)"
    by (intro hoare_andthen [OF triple_setattr [OF assms tree_pred_entered]]
        hoare_andthen [OF triple_setmode [OF assms]] hoare_andthen [OF when_any]
        triple_setattr [OF assms] touch_tail [OF assms])
      (auto simp: entered_def)
qed

lemma triple_symlink:
  assumes "lawful E"
  shows "hoare (inorder E (roomy E))
     (bind (userctx E ctx) (\<lambda>sctx. bind (path_new (getnode_path E) sctx newpath) (\<lambda>p.
       bind (path_create E KSymlink p sctx) (\<lambda>sl.
       andthen (setattr E DNodes (nid sl) A_uid (fst ctx))
       (andthen (setattr E DNodes (nid sl) A_gid (snd ctx))
       (andthen (setattrv E DNodes (nid sl) A_symlink oldpath)
       (andthen (touch_parent E (parent p))
       (ret (0 :: int))))))))) (\<lambda>_. inorder E (\<lambda>_. True)) (failed E)"
  by (rule triple_create [OF assms], intro hoare_andthen [OF triple_setattr [OF assms tree_pred_entered]]
      hoare_andthen [OF triple_setattrv [OF assms tree_pred_entered]] touch_tail [OF assms tree_pred_entered])
    simp_all

lemma isdir_or: "and mode S_IFMT = 0 \<Longrightarrow> S_ISDIR (or S_IFDIR mode)"
  by (simp add: S_ISDIR_def bit.conj_disj_distrib2)

lemma triple_mkdir:
  assumes "lawful E" and "and mode S_IFMT = 0"
  shows "hoare (inorder E (roomy E))
     (bind (userctx E ctx) (\<lambda>sctx. bind (path_new (getnode_path E) sctx pathname) (\<lambda>p.
       bind (path_create E KDirectory p sctx) (\<lambda>n.
       andthen (addchild E n ''..'' (parent p))
       (andthen (setattr E DNodes (nid n) A_uid (fst ctx))
       (andthen (setattr E DNodes (nid n) A_gid (snd ctx))
       (andthen (setattr E DNodes (nid n) A_mode (or S_IFDIR mode))
       (andthen (touch_parent E (parent p))
       (ret (0 :: int)))))))))) (\<lambda>_. inorder E (\<lambda>_. True)) (failed E)"
proof (rule triple_create [OF assms(1)])
  fix p :: path and n :: node
  let ?Q = "\<lambda>w. refs E w (nid n) \<noteq> {}"
  have "hoare (inorder E (entered E KDirectory (nid (parent p)) n)) (addchild E n ''..'' (parent p))
      (\<lambda>_. inorder E ?Q) (failed E)"
    by (rule triple_addchild [OF assms(1)]) (use assms(1) in \<open>auto simp: entered_def few_def refs_add_entry\<close>)
  then show "hoare (inorder E (entered E KDirectory (nid (parent p)) n))
     (andthen (addchild E n ''..'' (parent p))
     (andthen (setattr E DNodes (nid n) A_uid (fst ctx))
     (andthen (setattr E DNodes (nid n) A_gid (snd ctx))
     (andthen (setattr E DNodes (nid n) A_mode (or S_IFDIR mode))
     (andthen (touch_parent E (parent p)) (ret (0 :: int))))))) (\<lambda>_. inorder E (\<lambda>_. True)) (failed E)"
    by (rule hoare_andthen, intro hoare_andthen [OF triple_setattr [OF assms(1)]]
        hoare_andthen [OF triple_setmode [OF assms(1)]] touch_tail [OF assms(1)])
      (auto simp: isdir_or [OF assms(2)])
qed

end
