(* ===== verification/Fs_Unlink.thy ===== *)
theory Fs_Unlink
  imports Fs_Handlers
begin

text \<open>
  The handlers that add and remove names of existing nodes (\<^verbatim>\<open>link\<close>, \<^verbatim>\<open>unlink\<close>, \<^verbatim>\<open>rmdir\<close>)
  keep the file system in order.
\<close>

section \<open>Checks\<close>

lemma reads_check_sticky_bit [reads_rules]: "reads (check_sticky_bit E sctx d n)"
  unfolding check_sticky_bit_def by (intro reads_rules)

lemma safe_check_sticky_bit [safe_rules]: "safe (check_sticky_bit E sctx d n)"
  unfolding check_sticky_bit_def by (intro safe_rules) simp_all

lemma inorder_fsys: "inorder E P w \<Longrightarrow> fsys E w"
  by (simp add: inorder_def)

lemma triple_access: "hoare (inorder E P) (access E sctx n mode) (\<lambda>_. inorder E P) (failed E)"
  by (rule triple_reads [OF reads_access safe_access]) (rule inorder_fsys)

lemma triple_sticky: "hoare (inorder E P) (check_sticky_bit E sctx d n) (\<lambda>_. inorder E P) (failed E)"
  by (rule triple_reads [OF reads_check_sticky_bit safe_check_sticky_bit]) (rule inorder_fsys)

section \<open>link\<close>

lemma triple_link:
  assumes "lawful E"
  shows "hoare (inorder E (few E))
     (bind (userctx E ctx) (\<lambda>sctx. bind (path_new (getnode_path E) sctx newpath) (\<lambda>p.
       andthen (access E sctx (parent p) W_OK)
       (bind (getnode_path E sctx oldpath) (\<lambda>n.
       andthen (stamp E n A_ctime)
       (andthen (addchild E (parent p) (leaf p) n)
       (andthen (touch_parent E (parent p)) (ret (0 :: int))))))))) (\<lambda>_. inorder E (\<lambda>_. True)) (failed E)"
proof (rule hoare_bind [OF triple_userctx [OF tree_db [OF tree_pred_few]]
      hoare_bind [OF triple_path_new [OF assms tree_db [OF tree_pred_few]]]])
  fix sctx p
  let ?P = "\<lambda>w. few E w \<and> is_dir E w (nid (parent p)) \<and> nkind (parent p) = KDirectory"
  have tree: "tree_pred E ?P" by (intro tree_pred_conj tree_pred_few tree_pred_is_dir tree_pred_const)
  have add: "hoare (inorder E ?P) (andthen (addchild E (parent p) (leaf p) n) (andthen (touch_parent E (parent p)) (ret (0 :: int))))
      (\<lambda>_. inorder E (\<lambda>_. True)) (failed E)" for n
    by (rule hoare_andthen [OF triple_addchild [OF assms]], assumption?)
      (auto simp: few_def intro!: touch_tail [OF assms])
  have "hoare (inorder E ?P) (bind (getnode_path E sctx oldpath) (\<lambda>n.
      andthen (stamp E n A_ctime) (andthen (addchild E (parent p) (leaf p) n)
        (andthen (touch_parent E (parent p)) (ret (0 :: int)))))) (\<lambda>_. inorder E (\<lambda>_. True)) (failed E)"
    by (rule hoare_bind [OF triple_getnode_path [OF assms tree_db [OF tree]]],
        rule hoare_andthen [OF hoare_sys_pre [OF triple_stamp [OF assms tree]] add]) simp_all
  then show "hoare (inorder E ?P) (andthen (access E sctx (parent p) W_OK) (bind (getnode_path E sctx oldpath) (\<lambda>n.
      andthen (stamp E n A_ctime) (andthen (addchild E (parent p) (leaf p) n)
        (andthen (touch_parent E (parent p)) (ret (0 :: int))))))) (\<lambda>_. inorder E (\<lambda>_. True)) (failed E)"
    by (rule hoare_andthen [OF triple_access])
qed

section \<open>unlink\<close>

text \<open>The entry to delete refers to a node that is no directory.\<close>

definition unlinkable :: "('s, 'h) env \<Rightarrow> nodeid \<Rightarrow> string \<Rightarrow> ('s, 'h, 'z) world_scheme \<Rightarrow> bool" where
  "unlinkable E d name w \<longleftrightarrow> few E w \<and> (\<forall>i. entry E w d name = Some i \<longrightarrow> \<not> is_dir E w i)"

lemma tree_pred_unlinkable [intro!]: "tree_pred E (unlinkable E d name)"
  by (simp add: tree_pred_def unlinkable_def few_def refs_entry is_dir_def fun_eq_iff)

lemma triple_delchild_file:
  assumes "lawful E"
  shows "hoare (inorder E (unlinkable E (nid d) name)) (delchild E d name) (\<lambda>_. inorder E (\<lambda>_. True)) (failed E)"
proof (rule triple_delchild [OF assms])
  show "(i, n) = (nid d, name)"
    if "unlinkable E (nid d) name w" and inv: "fs_inv E w" and "entry E w (nid d) name = Some i"
      and "entry E w i n \<noteq> None" for w :: "('a, 'b, 'c) pworld_scheme" and i n
    using that link_invD(5) [OF fs_inv_link [OF inv], of i n] by (simp add: unlinkable_def)
qed (simp_all add: unlinkable_def)

lemma triple_unlink:
  assumes "lawful E"
  shows "hoare (inorder E (few E))
     (bind (userctx E ctx) (\<lambda>sctx. bind (path_new (getnode_path E) sctx pathname) (\<lambda>p.
       andthen (access E sctx (parent p) (or W_OK X_OK))
       (bind (getchild E (parent p) (leaf p)) (\<lambda>n.
       andthen (check_sticky_bit E sctx (parent p) n)
       (bind (getattr E DNodes (nid n) A_mode) (\<lambda>m.
         if S_ISDIR m then ret (- EISDIR)
         else
           andthen (hash_invalidate E pathname)
           (andthen (stamp E n A_ctime)
           (andthen (delchild E (parent p) (leaf p))
           (andthen (touch_parent E (parent p))
           (ret 0))))))))))) (\<lambda>_. inorder E (\<lambda>_. True)) (failed E)"
proof (rule hoare_bind [OF triple_userctx [OF tree_db [OF tree_pred_few]]
      hoare_bind [OF hoare_drop_to [OF triple_path_new [OF assms tree_db [OF tree_pred_few]]]
      hoare_andthen [OF triple_access hoare_bind [OF triple_getchild [OF assms]
      hoare_andthen [OF triple_sticky hoare_bind [OF triple_getattr [OF assms] hoare_if]]]]]])
  fix sctx p n and m :: mode_t
  let ?u = "unlinkable E (nid (parent p)) (leaf p)"
  assume m: "\<not> S_ISDIR m"
  have "hoare (inorder E ?u)
     (andthen (hash_invalidate E pathname) (andthen (stamp E n A_ctime) (andthen (delchild E (parent p) (leaf p))
       (andthen (touch_parent E (parent p)) (ret (0 :: int)))))) (\<lambda>_. inorder E (\<lambda>_. True)) (failed E)"
    by (intro hoare_andthen [OF triple_invalidate [OF tree_db [OF tree_pred_unlinkable]]]
        hoare_andthen [OF triple_stamp [OF assms tree_pred_unlinkable]]
        hoare_andthen [OF triple_delchild_file [OF assms]] touch_tail [OF assms]) simp_all
  then show "hoare (inorder E (\<lambda>w. (few E w \<and> entry E w (nid (parent p)) (leaf p) = Some (nid n) \<and> typed E w n)
        \<and> mode_of E w (nid n) = Some m))
     (andthen (hash_invalidate E pathname) (andthen (stamp E n A_ctime) (andthen (delchild E (parent p) (leaf p))
       (andthen (touch_parent E (parent p)) (ret (0 :: int)))))) (\<lambda>_. inorder E (\<lambda>_. True)) (failed E)"
    by (rule hoare_sys_pre) (use m in \<open>auto simp: unlinkable_def is_dir_def\<close>)
qed (auto intro: sys_code)

section \<open>rmdir\<close>

text \<open>No entry has an empty name.\<close>

definition names_ok :: "('s, 'h) env \<Rightarrow> ('s, 'h, 'z) world_scheme \<Rightarrow> bool" where
  "names_ok E w \<longleftrightarrow> (\<forall>d. entry E w d '''' = None)"

text \<open>
  What \<^verbatim>\<open>rmdir\<close> relies on before it starts, and before each of its three deletions: the
  directory \<open>n\<close> has the name \<open>name\<close> in \<open>d\<close> and no entries but \<^verbatim>\<open>.\<close> and \<^verbatim>\<open>..\<close>.
\<close>

definition dirs_ok :: "('s, 'h) env \<Rightarrow> ('s, 'h, 'z) world_scheme \<Rightarrow> bool" where
  "dirs_ok E w \<longleftrightarrow> few E w \<and> dots_ok E w \<and> names_ok E w"

definition hollow :: "('s, 'h) env \<Rightarrow> string set \<Rightarrow> nodeid \<Rightarrow> string \<Rightarrow> nodeid \<Rightarrow> ('s, 'h, 'z) world_scheme \<Rightarrow> bool" where
  "hollow E S d name n w \<longleftrightarrow> few E w \<and> entry E w d name = Some n
     \<and> (\<forall>m. entry E w n m \<noteq> None \<longrightarrow> m \<in> S)
     \<and> (\<forall>c m. entry E w c m \<noteq> None \<longrightarrow> (c \<noteq> n \<or> ''.'' \<in> S) \<longrightarrow> entry E w c ''.'' = Some c)"

lemma tree_pred_dirs_ok [intro!]: "tree_pred E (dirs_ok E)"
  by (simp add: tree_pred_def dirs_ok_def few_def refs_entry dots_ok_def names_ok_def)

lemma tree_pred_hollow [intro!]: "tree_pred E (hollow E S d name n)"
  by (simp add: tree_pred_def hollow_def few_def refs_entry)

lemma few_without:
  assumes "lawful E" and "few E w"
    and "\<And>j m. entry E w' j m = (if j = d \<and> m = name then None else entry E w j m)"
  shows "few E w'"
  unfolding few_def
proof
  fix c
  have "card (refs E w' c) \<le> card (refs E w c)"
    unfolding refs_without_entry [OF assms(3)] by (rule card_Diff1_le)
  then show "card (refs E w' c) < 2 ^ 31" using few_card [OF assms(2), of c] by simp
qed

lemma two_refs:
  assumes "lawful E" and "entry E w d name = Some i" and "entry E w d' name' = Some i" and "card (refs E w i) = 1"
  shows "d' = d \<and> name' = name"
proof -
  obtain x where "refs E w i = {x}" using assms(4) by (auto simp: card_1_singleton_iff)
  moreover have "(d, name) \<in> refs E w i" and "(d', name') \<in> refs E w i"
    using assms(2,3) by (auto intro: refsI)
  ultimately show ?thesis by auto
qed

lemma triple_del_dot:
  fixes E :: "('s, 'h) env"
  assumes "lawful E" and "name \<noteq> ''.''" and "name \<noteq> ''..''"
  shows "hoare (inorder E (hollow E {''.'', ''..''} d name (nid n)))
     (delchild E n ''.'') (\<lambda>_. inorder E (hollow E {''..''} d name (nid n)))
     (failed E :: exn \<Rightarrow> ('s, 'h, 'z) pworld_scheme \<Rightarrow> bool)"
proof (rule triple_delchild [OF assms(1)])
  fix w :: "('s, 'h, 'z) pworld_scheme"
  assume h: "hollow E {''.'', ''..''} d name (nid n) w"
  then show "few E w" by (simp add: hollow_def)
  have e: "entry E w d name = Some (nid n)" using h by (simp add: hollow_def)
  show "(i, m) = (nid n, ''.'')" if "entry E w (nid n) ''.'' = Some i" and c: "card (refs E w i) = 1" for i m
  proof -
    have "entry E w (nid n) ''.'' = Some (nid n)" using h that(1) unfolding hollow_def by blast
    then have "i = nid n" using that(1) by simp
    then show ?thesis using two_refs [OF assms(1) that(1) _ c, of d name] e assms(2) by simp
  qed
  show "hollow E {''..''} d name (nid n) w'"
    if w': "\<And>j m. entry E w' j m = (if j = nid n \<and> m = ''.'' then None else entry E w j m)"
    for w' :: "('s, 'h, 'z) pworld_scheme"
    using h few_without [OF assms(1) _ w'] assms(2) unfolding hollow_def w' by auto blast+
qed

lemma triple_del_dotdot:
  fixes E :: "('s, 'h) env"
  assumes "lawful E" and "name \<noteq> ''.''" and "name \<noteq> ''..''"
  shows "hoare (inorder E (hollow E {''..''} d name (nid n)))
     (delchild E n ''..'') (\<lambda>_. inorder E (hollow E {} d name (nid n)))
     (failed E :: exn \<Rightarrow> ('s, 'h, 'z) pworld_scheme \<Rightarrow> bool)"
proof (rule triple_delchild [OF assms(1)])
  fix w :: "('s, 'h, 'z) pworld_scheme"
  assume h: "hollow E {''..''} d name (nid n) w"
  then show "few E w" by (simp add: hollow_def)
  have e: "entry E w d name = Some (nid n)" using h by (simp add: hollow_def)
  show "(i, m) = (nid n, ''..'')" if i: "entry E w (nid n) ''..'' = Some i" and c: "card (refs E w i) = 1"
    and m: "entry E w i m \<noteq> None" for i m
  proof (cases "i = nid n")
    case True
    then show ?thesis using two_refs [OF assms(1) i _ c, of d name] e assms(3) by simp
  next
    case False
    then have "entry E w i ''.'' = Some i" using h m unfolding hollow_def by blast
    then show ?thesis using two_refs [OF assms(1) i _ c] by blast
  qed
  show "hollow E {} d name (nid n) w'"
    if w': "\<And>j m. entry E w' j m = (if j = nid n \<and> m = ''..'' then None else entry E w j m)"
    for w' :: "('s, 'h, 'z) pworld_scheme"
    using h few_without [OF assms(1) _ w'] assms(3) unfolding hollow_def w' by auto blast+
qed

lemma triple_del_hollow:
  fixes E :: "('s, 'h) env"
  assumes "lawful E"
  shows "hoare (inorder E (hollow E {} (nid d) name i)) (delchild E d name) (\<lambda>_. inorder E (\<lambda>_. True))
     (failed E :: exn \<Rightarrow> ('s, 'h, 'z) pworld_scheme \<Rightarrow> bool)"
  by (rule triple_delchild [OF assms]) (auto simp: hollow_def)

lemma triple_count:
  assumes "lawful E"
  shows "hoare (inorder E P) (countchildren E n)
     (\<lambda>c. inorder E (\<lambda>w. P w \<and> c = int (card (attr_names E w DDirectories (nid n))))) (failed E)"
  unfolding countchildren_def
  by (rule hoareI) (simp_all add: countattrs_eq [OF assms] inorder_def)

lemma hollow_start:
  assumes "lawful E" and "dirs_ok E w" and "entry E w d name = Some n" and small: "card (attr_names E w DDirectories n) \<le> 2"
  shows "hollow E {''.'', ''..''} d name n w"
proof -
  have dots: "entry E w c ''.'' = Some c \<and> entry E w c ''..'' \<noteq> None" if "entry E w c m \<noteq> None" for c m
    using assms(2) that unfolding dirs_ok_def dots_ok_def by blast
  have "m \<in> {''.'', ''..''}" if m: "entry E w n m \<noteq> None" for m
  proof (rule ccontr)
    assume new: "m \<notin> {''.'', ''..''}"
    have a: "k \<in> attr_names E w DDirectories n" if "entry E w n k \<noteq> None" for k
    proof -
      have "k \<noteq> ''''" using assms(2) that by (auto simp: dirs_ok_def names_ok_def)
      then show ?thesis using that wattr_attr by (auto simp: attr_names_def)
    qed
    have sub: "{''.'', ''..'', m} \<subseteq> attr_names E w DDirectories n"
      using a dots [OF m] m by auto
    have "card {''.'', ''..'', m} \<le> card (attr_names E w DDirectories n)"
      by (rule card_mono [OF finite_attr_names [OF assms(1)] sub])
    moreover have "card {''.'', ''..'', m} = 3" using new by (auto simp: card_insert_if)
    ultimately show False using small by simp
  qed
  then show ?thesis
    using assms(2,3) dots unfolding hollow_def dirs_ok_def by blast
qed

lemma triple_getdir:
  assumes "lawful E"
  shows "hoare (inorder E P) (bind (getchild E d n) (cast KDirectory))
     (\<lambda>c. inorder E (\<lambda>w. P w \<and> entry E w (nid d) n = Some (nid c))) (failed E)"
  by (rule hoare_bind [OF triple_getchild [OF assms]], rule hoare_weaken, rule triple_cast)
    (assumption, auto simp: inorder_def)

lemma triple_rmdir:
  assumes "lawful E" and leaf: "snd (path_split pathname) \<notin> {''.'', ''..''}"
  shows "hoare (inorder E (dirs_ok E))
     (bind (userctx E ctx) (\<lambda>sctx. bind (path_new (getnode_path E) sctx pathname) (\<lambda>p.
       andthen (access E sctx (parent p) (or X_OK W_OK))
       (bind (bind (getchild E (parent p) (leaf p)) (cast KDirectory)) (\<lambda>n.
       andthen (check_sticky_bit E sctx (parent p) n)
       (bind (countchildren E n) (\<lambda>count.
         if 2 < count then ret (- ENOTEMPTY)
         else
           andthen (delchild E n ''.'')
           (andthen (delchild E n ''..'')
           (andthen (delchild E (parent p) (leaf p))
           (andthen (hash_invalidate E pathname)
           (andthen (touch_parent E (parent p))
           (ret 0)))))))))))) (\<lambda>_. inorder E (\<lambda>_. True)) (failed E)"
proof (rule hoare_bind [OF triple_userctx [OF tree_db [OF tree_pred_dirs_ok]]
      hoare_bind [OF triple_path_new_leaf [OF assms(1) tree_db [OF tree_pred_dirs_ok]]
      hoare_andthen [OF triple_access hoare_bind [OF triple_getdir [OF assms(1)]
      hoare_andthen [OF triple_sticky hoare_bind [OF triple_count [OF assms(1)] hoare_if]]]]]])
  fix sctx p n and count :: int
  let ?d = "nid (parent p)"
  let ?del = "andthen (delchild E n ''.'') (andthen (delchild E n ''..'') (andthen (delchild E (parent p) (leaf p))
       (andthen (hash_invalidate E pathname) (andthen (touch_parent E (parent p)) (ret (0 :: int))))))"
  assume small: "\<not> 2 < count"
  have tail: "hoare (inorder E (hollow E {''.'', ''..''} ?d (leaf p) (nid n))) ?del
      (\<lambda>_. inorder E (\<lambda>_. True)) (failed E)" if "leaf p \<notin> {''.'', ''..''}"
    using that
    by (intro hoare_andthen [OF triple_del_dot [OF assms(1)]] hoare_andthen [OF triple_del_dotdot [OF assms(1)]]
        hoare_andthen [OF triple_del_hollow [OF assms(1)]]
        hoare_andthen [OF triple_invalidate [OF tree_db [OF tree_pred_True]]] touch_tail [OF assms(1)]) auto
  let ?P = "\<lambda>w. ((dirs_ok E w \<and> leaf p = snd (path_split pathname))
        \<and> entry E w ?d (leaf p) = Some (nid n)) \<and> count = int (card (attr_names E w DDirectories (nid n)))"
  show "hoare (inorder E ?P) ?del (\<lambda>_. inorder E (\<lambda>_. True)) (failed E)"
  proof (cases "leaf p = snd (path_split pathname)")
    case True
    then have "leaf p \<notin> {''.'', ''..''}" using leaf by simp
    then show ?thesis
      by (rule hoare_sys_pre [OF tail]) (use small in \<open>auto simp: not_less intro!: hollow_start [OF assms(1)]\<close>)
  qed (simp add: hoare_def inorder_def)
qed (auto intro: sys_code)

end
