(* ===== verification/Fs_Attrs.thy ===== *)
theory Fs_Attrs
  imports Fs
begin

text \<open>
  The handlers of \<^verbatim>\<open>offlinefs/fs.cxx\<close> that change the attributes of a node or check access
  to it: \<^verbatim>\<open>chmod\<close>, \<^verbatim>\<open>chown\<close>, \<^verbatim>\<open>utimens\<close>, \<^verbatim>\<open>access\<close>, \<^verbatim>\<open>opendir\<close> and the extended attributes.
\<close>

section \<open>Owner and mode\<close>

definition fs_chmod :: "('s, 'h) env \<Rightarrow> caller \<Rightarrow> string \<Rightarrow> mode_t \<Rightarrow> ('s, 'h, 'z, int) fop" where
  "fs_chmod E ctx pathname mode = handler E (
     bind (userctx E ctx) (\<lambda>sctx.
     bind (getnode_path E sctx pathname) (\<lambda>n.
     bind (if suid sctx \<noteq> 0
           then bind (getattr E DNodes (nid n) A_gid) (\<lambda>fgid.
                bind (getattr E DNodes (nid n) A_uid) (\<lambda>fuid.
                  if suid sctx \<noteq> fuid then ret None
                  else if fgid \<notin> sgroups sctx then ret (Some (and mode (not S_ISGID)))
                  else ret (Some mode)))
           else ret (Some mode)) (\<lambda>allowed.
       case allowed of
         None \<Rightarrow> ret (- EPERM)
       | Some mode \<Rightarrow>
           andthen (stamp E n A_ctime)
           (bind (getattr E DNodes (nid n) A_mode) (\<lambda>old.
            andthen (setattr E DNodes (nid n) A_mode (or (and mode (not S_IFMT)) (and old S_IFMT)))
            (andthen (hash_invalidate E pathname)
            (ret 0))))))))"

text \<open>The group part of \<^verbatim>\<open>chown\<close>; \<open>True\<close> means that the caller may not change it.\<close>

definition chown_group :: "('s, 'h) env \<Rightarrow> scontext \<Rightarrow> node \<Rightarrow> gid_t \<Rightarrow> ('s, 'h, 'z, bool) op" where
  "chown_group E sctx n grp =
     bind (if suid sctx \<noteq> 0
           then bind (getattr E DNodes (nid n) A_uid) (\<lambda>fuid.
                  if suid sctx \<noteq> fuid \<or> grp \<notin> sgroups sctx then ret True
                  else bind (getattr E DNodes (nid n) A_mode) (\<lambda>m :: mode_t.
                    andthen (whenM (and m S_IFREG \<noteq> 0)
                      (let m1 = and m (not S_ISUID);
                           m2 = (if and m1 S_IXGRP \<noteq> 0 then and m1 (not S_ISGID) else m1)
                       in setattr E DNodes (nid n) A_mode m2))
                    (ret False)))
           else ret False) (\<lambda>denied.
       if denied then ret True
       else andthen (setattr E DNodes (nid n) A_gid grp) (ret False))"

definition fs_chown :: "('s, 'h) env \<Rightarrow> caller \<Rightarrow> string \<Rightarrow> uid_t \<Rightarrow> gid_t \<Rightarrow> ('s, 'h, 'z, int) fop" where
  "fs_chown E ctx pathname owner grp = handler E (
     bind (userctx E ctx) (\<lambda>sctx.
     bind (getnode_path E sctx pathname) (\<lambda>n.
     bind (if owner \<noteq> - 1
           then bind (getattr E DNodes (nid n) A_uid) (\<lambda>fuid.
                  if owner = fuid then ret False
                  else if suid sctx \<noteq> 0 then ret True
                  else andthen (setattr E DNodes (nid n) A_uid owner) (ret False))
           else ret False) (\<lambda>denied.
     if denied then ret (- EPERM)
     else bind (if grp \<noteq> - 1
           then bind (getattr E DNodes (nid n) A_gid) (\<lambda>fgid.
                  if grp = fgid then ret False else chown_group E sctx n grp)
           else ret False) (\<lambda>denied.
       if denied then ret (- EPERM)
       else
         andthen (stamp E n A_ctime)
         (andthen (hash_invalidate E pathname)
         (ret 0)))))))"

section \<open>Extended attributes\<close>

definition XATTR_CREATE :: int where "XATTR_CREATE = 1"
definition XATTR_REPLACE :: int where "XATTR_REPLACE = 2"

text \<open>\<^verbatim>\<open>catch(Node::EAttrNotFound&)\<close> followed by \<^verbatim>\<open>catch(exception&)\<close>\<close>

definition xattr_error :: "exn \<Rightarrow> int" where
  "xattr_error e = (case e of EAttrNotFound b _ \<Rightarrow> if b = 64 then - ENOATTR else errcode e | _ \<Rightarrow> errcode e)"

text \<open>\<^verbatim>\<open>string(name).find("offlinefs.")==0\<close>\<close>

definition is_reserved :: "string \<Rightarrow> bool" where
  "is_reserved name \<longleftrightarrow> take 10 name = ''offlinefs.''"

text \<open>The condition under which a caller may not change an attribute.\<close>

definition xattr_denied :: "('s, 'h) env \<Rightarrow> scontext \<Rightarrow> node \<Rightarrow> string \<Rightarrow> ('s, 'h, 'z, bool) op" where
  "xattr_denied E sctx n name =
     (if suid sctx \<noteq> 0
      then if is_reserved name then ret True
           else bind (getattr E DNodes (nid n) A_uid) (\<lambda>fuid. ret (suid sctx \<noteq> fuid))
      else ret False)"

definition fs_setxattr :: "('s, 'h) env \<Rightarrow> caller \<Rightarrow> string \<Rightarrow> string \<Rightarrow> bytes \<Rightarrow> int \<Rightarrow> ('s, 'h, 'z, int) fop" where
  "fs_setxattr E ctx pathname name val flags =
     handle (with_fstxn E (
       bind (userctx E ctx) (\<lambda>sctx.
       bind (getnode_path E sctx pathname) (\<lambda>n.
       bind (xattr_denied E sctx n name) (\<lambda>denied.
         if denied then ret (- EACCES)
         else
           andthen (stamp E n A_ctime)
           (bind (if flags = 0 then ret None
                  else if flags = XATTR_CREATE
                  then handle (bind (getattrv E DNodes (nid n) name) (\<lambda>_. ret (Some (- EEXIST))))
                         (on_missing 64 (ret None))
                  else if flags = XATTR_REPLACE
                  then bind (getattrv E DNodes (nid n) name) (\<lambda>_. ret None)
                  else ret (Some (- EINVAL))) (\<lambda>early.
             case early of
               Some code \<Rightarrow> ret code
             | None \<Rightarrow>
                 andthen (setattrv E DNodes (nid n) name val)
                 (andthen (whenM (name = A_uid \<or> name = A_gid \<or> name = A_mode) (hash_invalidate E pathname))
                 (ret 0)))))))))
       (\<lambda>e. ret (xattr_error e))"

definition fs_getxattr :: "('s, 'h) env \<Rightarrow> caller \<Rightarrow> string \<Rightarrow> string \<Rightarrow> bytes \<Rightarrow> ('s, 'h, 'z, int \<times> bytes) fop" where
  "fs_getxattr E ctx pathname name buf =
     handle (with_fstxn E (
       bind (userctx E ctx) (\<lambda>sctx.
       bind (getnode_path E sctx pathname) (\<lambda>n.
       bind (getattrv E DNodes (nid n) name) (\<lambda>b.
       ret (int (length b), memcpy_min buf b))))))
       (\<lambda>e. ret (xattr_error e, buf))"

text \<open>The loop of \<^verbatim>\<open>listxattr\<close>: the count of bytes so far, and what has been copied.\<close>

fun list_loop :: "nat \<Rightarrow> string list \<Rightarrow> nat \<Rightarrow> bytes \<Rightarrow> nat \<times> bytes" where
  "list_loop sz [] count out = (count, out)"
| "list_loop sz (n # ns) count out =
     (let namesize = length n + 1; count' = count + namesize
      in list_loop sz ns count' (if count' \<le> sz then out @ n @ [CHR 0x00] else out))"

definition fs_listxattr :: "('s, 'h) env \<Rightarrow> caller \<Rightarrow> string \<Rightarrow> nat \<Rightarrow> ('s, 'h, 'z, int \<times> bytes) fop" where
  "fs_listxattr E ctx pathname sz =
     handle (with_fstxn E (
       bind (userctx E ctx) (\<lambda>sctx.
       bind (getnode_path E sctx pathname) (\<lambda>n.
       bind (getattrs E DNodes (nid n)) (\<lambda>l.
       ret (case list_loop sz l 0 [] of (count, out) \<Rightarrow> (int count, out)))))))
       (\<lambda>e. ret (errcode e, []))"

definition fs_removexattr :: "('s, 'h) env \<Rightarrow> caller \<Rightarrow> string \<Rightarrow> string \<Rightarrow> ('s, 'h, 'z, int) fop" where
  "fs_removexattr E ctx pathname name =
     handle (with_fstxn E (
       bind (userctx E ctx) (\<lambda>sctx.
       bind (getnode_path E sctx pathname) (\<lambda>n.
       bind (xattr_denied E sctx n name) (\<lambda>denied.
         if denied then ret (- EACCES)
         else
           andthen (stamp E n A_ctime)
           (andthen (delattr E DNodes (nid n) name)
           (ret 0)))))))
       (\<lambda>e. ret (xattr_error e))"

section \<open>Times and access\<close>

definition fs_utimens :: "('s, 'h) env \<Rightarrow> caller \<Rightarrow> string \<Rightarrow> (time_t \<times> time_t) option \<Rightarrow> ('s, 'h, 'z, int) fop" where
  "fs_utimens E ctx pathname tv = handler E (
     bind (userctx E ctx) (\<lambda>sctx.
     bind (getnode_path E sctx pathname) (\<lambda>n.
       case tv of
         Some (atime, mtime) \<Rightarrow>
           bind (if suid sctx \<noteq> 0
                 then bind (getattr E DNodes (nid n) A_uid) (\<lambda>fuid. ret (suid sctx \<noteq> fuid))
                 else ret False) (\<lambda>denied.
             if denied then ret (- EACCES)
             else
               andthen (setattr E DNodes (nid n) A_atime atime)
               (andthen (setattr E DNodes (nid n) A_mtime mtime)
               (ret 0)))
       | None \<Rightarrow>
           andthen (access E sctx n W_OK)
           (andthen (stamp E n A_atime)
           (andthen (stamp E n A_mtime)
           (ret 0))))))"

definition fs_access :: "('s, 'h) env \<Rightarrow> caller \<Rightarrow> string \<Rightarrow> mode_t \<Rightarrow> ('s, 'h, 'z, int) fop" where
  "fs_access E ctx pathname mode =
     handle (with_fstxn E (
       bind (userctx E ctx) (\<lambda>sctx.
       bind (getnode_path E sctx pathname) (\<lambda>n.
       andthen (access E sctx n mode) (ret 0)))))
       (\<lambda>e. ret (if e = ENotFound then - EACCES else errcode e))"

definition fs_opendir :: "('s, 'h) env \<Rightarrow> caller \<Rightarrow> string \<Rightarrow> ('s, 'h, 'z, int) fop" where
  "fs_opendir E ctx pathname = handler E (
     bind (userctx E ctx) (\<lambda>sctx.
     bind (getnode_path E sctx pathname) (\<lambda>n0.
     bind (cast KDirectory n0) (\<lambda>n.
     andthen (access E sctx n (or R_OK X_OK))
     (ret 0)))))"

end
