(* ===== verification/Fs_Attr_Laws.thy ===== *)
theory Fs_Attr_Laws
  imports Fs_Unlink Fs_Attrs
begin

text \<open>
  The handlers that change attributes keep the file system in order: \<^verbatim>\<open>chmod\<close> never changes
  the type of a node, and a caller other than the superuser never reaches a reserved attribute
  by \<^verbatim>\<open>setxattr\<close> or \<^verbatim>\<open>removexattr\<close>.
\<close>

section \<open>Modes\<close>

lemma chmod_type: "and (or (and m (not S_IFMT)) (and old S_IFMT)) S_IFMT = and old (S_IFMT :: mode_t)"
  by (rule bit_word_eqI) (auto simp: bit_simps)

lemma mask_type:
  assumes "and S_IFMT k = 0"
  shows "and (and m (not k)) S_IFMT = and m (S_IFMT :: mode_t)"
proof (rule bit_word_eqI)
  fix n assume "n < LENGTH(32)"
  have "\<not> (bit S_IFMT n \<and> bit k n)" using assms by (metis bit_0_eq bit_and_iff bot_apply bot_bool_def)
  then show "bit (and (and m (not k)) S_IFMT) n = bit (and m S_IFMT) n"
    by (auto simp: bit_and_iff bit_not_iff dest: bit_imp_le_length)
qed

lemma S_ISDIR_type: "and m S_IFMT = and m' S_IFMT \<Longrightarrow> S_ISDIR m = S_ISDIR m'"
  by (simp add: S_ISDIR_def)

text \<open>Reading a mode and writing one with the same type.\<close>

lemma triple_remode:
  assumes "lawful E" and "S_ISDIR m' = S_ISDIR m"
  shows "hoare (inorder E (\<lambda>w. P w \<and> mode_of E w i = Some m)) (setattr E DNodes (i :: nodeid) A_mode (m' :: mode_t))
     (\<lambda>_. inorder E (\<lambda>_. True)) (failed E)"
proof -
  let ?Q = "\<lambda>w. (P w \<and> mode_of E w i = Some m) \<and> fs_inv E w"
  have "hoare (inorder E ?Q) (setattr E DNodes i A_mode m') (\<lambda>_. inorder E (\<lambda>_. True)) (failed E)"
    by (rule triple_setmode [OF assms(1)]) (use assms(2) fs_inv_dir in \<open>auto simp: is_dir_def\<close>)
  then show ?thesis by (rule hoare_pre) (auto simp: inorder_def fsys_def)
qed

section \<open>The caller\<close>

lemma triple_caller:
  assumes "db_pred E P"
  shows "hoare (inorder E P) (userctx E ctx) (\<lambda>s. inorder E (\<lambda>w. P w \<and> suid s = fst ctx)) (failed E)"
proof (rule hoareI)
  fix w s w' assume w: "inorder E P w" and run: "userctx E ctx w = (Inr s, w')"
  have "sc_inv (scache w)" using w by (simp add: inorder_def fsys_def caches_ok_def)
  then have "suid s = fst ctx"
    by (cases rule: sc_get_cases [of w E "fst ctx" "snd ctx"])
      (use run in \<open>auto simp: userctx_def sctx_for_def\<close>)
  then show "inorder E (\<lambda>w. P w \<and> suid s = fst ctx) w'"
    using hoare_Inr [OF triple_userctx [OF assms] run w] by (simp add: inorder_def)
qed (rule hoare_Inl [OF triple_userctx [OF assms]])

text \<open>What most attribute handlers begin with.\<close>

lemma triple_target:
  assumes "lawful E" and "\<And>sctx n. suid sctx = fst ctx \<Longrightarrow> hoare (inorder E (\<lambda>_. True)) (f sctx n) Q (failed E)"
  shows "hoare (inorder E (\<lambda>_. True))
     (bind (userctx E ctx) (\<lambda>sctx. bind (getnode_path E sctx p) (f sctx))) Q (failed E)"
proof (rule hoare_bind [OF triple_caller [OF tree_db [OF tree_pred_True]]])
  fix sctx :: scontext
  let ?P = "\<lambda>w. True \<and> suid sctx = fst ctx"
  have P: "db_pred E ?P" by (simp add: db_pred_def)
  show "hoare (inorder E ?P) (bind (getnode_path E sctx p) (f sctx)) Q (failed E)"
  proof (cases "suid sctx = fst ctx")
    case True
    show ?thesis
      by (rule hoare_bind [OF triple_getnode_path [OF assms(1) P]]) (rule sys_any [OF assms(2) [OF True]])
  qed (simp add: hoare_def inorder_def)
qed

section \<open>chmod and chown\<close>

lemma triple_chmod:
  assumes "lawful E"
  shows "hoare (inorder E (\<lambda>_. True))
     (bind (userctx E ctx) (\<lambda>sctx.
     bind (getnode_path E sctx pathname) (\<lambda>n.
     bind (if suid sctx \<noteq> 0
           then bind (getattr E DNodes (nid n) A_gid) (\<lambda>fgid.
                bind (getattr E DNodes (nid n) A_uid) (\<lambda>fuid.
                  if suid sctx \<noteq> fuid then ret None
                  else if fgid \<notin> sgroups sctx then ret (Some (and mode (not S_ISGID)))
                  else ret (Some mode)))
           else ret (Some mode)) (\<lambda>allowed.
       case allowed of
         None \<Rightarrow> ret (- EPERM)
       | Some mode \<Rightarrow>
           andthen (stamp E n A_ctime)
           (bind (getattr E DNodes (nid n) A_mode) (\<lambda>old.
            andthen (setattr E DNodes (nid n) A_mode (or (and mode (not S_IFMT)) (and old S_IFMT)))
            (andthen (hash_invalidate E pathname)
            (ret 0)))))))) (\<lambda>_. inorder E (\<lambda>_. True)) (failed E)"
proof (rule triple_target [OF assms], rule hoare_bind)
  fix sctx :: scontext and n and allowed :: "mode_t option"
  have "hoare (inorder E (\<lambda>_. True)) (andthen (stamp E n A_ctime)
           (bind (getattr E DNodes (nid n) A_mode) (\<lambda>old.
            andthen (setattr E DNodes (nid n) A_mode (or (and mode (not S_IFMT)) (and old S_IFMT)))
            (andthen (hash_invalidate E pathname) (ret 0))))) (\<lambda>_. inorder E (\<lambda>_. True)) (failed E)" for mode
    by (rule hoare_andthen [OF triple_stamp [OF assms tree_pred_True]], simp, simp,
        rule hoare_bind [OF triple_getattr [OF assms]],
        rule hoare_andthen [OF triple_remode [OF assms S_ISDIR_type [OF chmod_type]]],
        rule hoare_andthen [OF triple_invalidate [OF tree_db [OF tree_pred_True]] sys_code])
  then show "hoare (inorder E (\<lambda>_. True)) (case allowed of
         None \<Rightarrow> ret (- EPERM)
       | Some mode \<Rightarrow>
           andthen (stamp E n A_ctime)
           (bind (getattr E DNodes (nid n) A_mode) (\<lambda>old.
            andthen (setattr E DNodes (nid n) A_mode (or (and mode (not S_IFMT)) (and old S_IFMT)))
            (andthen (hash_invalidate E pathname)
            (ret 0))))) (\<lambda>_. inorder E (\<lambda>_. True)) (failed E)"
    by (cases allowed) (auto intro: sys_code)
next
  fix sctx :: scontext and n
  show "hoare (inorder E (\<lambda>_. True)) (if suid sctx \<noteq> 0
           then bind (getattr E DNodes (nid n) A_gid) (\<lambda>fgid.
                bind (getattr E DNodes (nid n) A_uid) (\<lambda>fuid.
                  if suid sctx \<noteq> fuid then ret None
                  else if fgid \<notin> sgroups sctx then ret (Some (and mode (not S_ISGID)))
                  else ret (Some mode)))
           else ret (Some mode)) (\<lambda>_. inorder E (\<lambda>_. True)) (failed E)"
    by (rule triple_reads) (intro reads_rules, intro safe_rules, rule inorder_fsys)
qed

lemma unmask_dir: "S_ISDIR (and m (not S_ISUID)) = S_ISDIR m" "S_ISDIR (and m (not S_ISGID)) = S_ISDIR m"
  by (rule S_ISDIR_type [OF mask_type], simp)+

lemma chown_mode_type:
  "S_ISDIR (let m1 = and m (not S_ISUID) in if and m1 S_IXGRP \<noteq> 0 then and m1 (not S_ISGID) else m1) = S_ISDIR m"
  by (simp only: Let_def unmask_dir if_distrib [of S_ISDIR] if_cancel)

abbreviation ordered :: "('s, 'h) env \<Rightarrow> ('s, 'h, 'z, 'a) pop \<Rightarrow> bool" where
  "ordered E m \<equiv> hoare (inorder E (\<lambda>_. True)) m (\<lambda>_. inorder E (\<lambda>_. True)) (failed E)"

named_theorems ordered_rules

lemma ordered_bind [ordered_rules]: "ordered E m \<Longrightarrow> (\<And>a. ordered E (f a)) \<Longrightarrow> ordered E (bind m f)"
  by (rule hoare_bind)

lemma ordered_andthen [ordered_rules]: "ordered E m \<Longrightarrow> ordered E k \<Longrightarrow> ordered E (andthen m k)"
  by (rule hoare_andthen)

lemma ordered_if [ordered_rules]: "(c \<Longrightarrow> ordered E m) \<Longrightarrow> (\<not> c \<Longrightarrow> ordered E k) \<Longrightarrow> ordered E (if c then m else k)"
  by simp

lemma ordered_when [ordered_rules]: "(c \<Longrightarrow> ordered E m) \<Longrightarrow> ordered E (whenM c m)"
  by (rule when_any)

lemma ordered_option [ordered_rules]:
  "ordered E m \<Longrightarrow> (\<And>a. ordered E (f a)) \<Longrightarrow> ordered E (case r of None \<Rightarrow> m | Some a \<Rightarrow> f a)"
  by (simp split: option.split)

lemma ordered_prod [ordered_rules]: "(\<And>a b. ordered E (f a b)) \<Longrightarrow> ordered E (case r of (a, b) \<Rightarrow> f a b)"
  by (simp split: prod.split)

lemma ordered_ret [ordered_rules]: "ordered E (ret c)"
  by (rule sys_code)

lemma ordered_reads: "reads m \<Longrightarrow> safe m \<Longrightarrow> ordered E m"
  by (rule triple_reads [OF _ _ inorder_fsys])

lemma ordered_getattrv [ordered_rules]: "ordered E (getattrv E' d i n)"
  by (intro ordered_reads reads_rules safe_rules)

lemma ordered_getattr [ordered_rules]: "ordered E (getattr E' d i n)"
  by (intro ordered_reads reads_rules safe_rules)

lemma ordered_access [ordered_rules]: "ordered E (access E' sctx n mode)"
  by (intro ordered_reads reads_rules safe_rules)

lemma ordered_cast [ordered_rules]: "ordered E (cast k n)"
  by (intro ordered_reads reads_rules safe_rules)

lemma ordered_stamp [ordered_rules]: "lawful E \<Longrightarrow> n \<noteq> A_nlink \<Longrightarrow> n \<noteq> A_mode \<Longrightarrow> ordered E (stamp E c n)"
  by (rule triple_stamp [OF _ tree_pred_True])

lemma ordered_setattr [ordered_rules]:
  "lawful E \<Longrightarrow> n \<noteq> A_nlink \<Longrightarrow> n \<noteq> A_mode \<Longrightarrow> ordered E (setattr E DNodes (i :: nodeid) n v)"
  by (rule triple_setattr [OF _ tree_pred_True])

lemma ordered_setattrv [ordered_rules]:
  "lawful E \<Longrightarrow> n \<noteq> A_nlink \<Longrightarrow> n \<noteq> A_mode \<Longrightarrow> ordered E (setattrv E DNodes (i :: nodeid) n v)"
  by (rule triple_setattrv [OF _ tree_pred_True])

lemma ordered_invalidate [ordered_rules]: "ordered E (hash_invalidate E p)"
  by (rule triple_invalidate [OF tree_db [OF tree_pred_True]])

lemma ordered_target:
  "lawful E \<Longrightarrow> (\<And>sctx n. suid sctx = fst ctx \<Longrightarrow> ordered E (f sctx n)) \<Longrightarrow>
     ordered E (bind (userctx E ctx) (\<lambda>sctx. bind (getnode_path E sctx p) (f sctx)))"
  by (rule triple_target)

lemma ordered_chown_group [ordered_rules]:
  assumes "lawful E"
  shows "ordered E (chown_group E sctx n grp)"
proof -
  let ?m1 = "\<lambda>m :: mode_t. and m (not S_ISUID)"
  have mode: "ordered E (bind (getattr E DNodes (nid n) A_mode) (\<lambda>m :: mode_t.
      andthen (whenM (and m S_IFREG \<noteq> 0)
        (let m1 = ?m1 m; m2 = (if and m1 S_IXGRP \<noteq> 0 then and m1 (not S_ISGID) else m1)
         in setattr E DNodes (nid n) A_mode m2)) (ret False)))"
  proof (rule hoare_bind [OF triple_getattr [OF assms]])
    fix m :: mode_t
    let ?m2 = "let m1 = ?m1 m in if and m1 S_IXGRP \<noteq> 0 then and m1 (not S_ISGID) else m1"
    have "hoare (inorder E (\<lambda>w. True \<and> mode_of E w (nid n) = Some m)) (setattr E DNodes (nid n) A_mode ?m2)
        (\<lambda>_. inorder E (\<lambda>_. True)) (failed E)"
      by (rule triple_remode [OF assms chown_mode_type])
    then show "hoare (inorder E (\<lambda>w. True \<and> mode_of E w (nid n) = Some m))
        (andthen (whenM (and m S_IFREG \<noteq> 0) (let m1 = ?m1 m; m2 = (if and m1 S_IXGRP \<noteq> 0 then and m1 (not S_ISGID) else m1)
         in setattr E DNodes (nid n) A_mode m2)) (ret False)) (\<lambda>_. inorder E (\<lambda>_. True)) (failed E)"
      unfolding Let_def by (intro hoare_andthen [OF hoare_whenM sys_code]) (simp_all add: inorder_def)
  qed
  show ?thesis
    unfolding chown_group_def by (intro ordered_rules mode assms) (simp_all add: A_defs)
qed

lemma chown_ordered:
  assumes "lawful E"
  shows "ordered E (
     bind (userctx E ctx) (\<lambda>sctx.
     bind (getnode_path E sctx pathname) (\<lambda>n.
     bind (if owner \<noteq> - 1
           then bind (getattr E DNodes (nid n) A_uid) (\<lambda>fuid.
                  if owner = fuid then ret False
                  else if suid sctx \<noteq> 0 then ret True
                  else andthen (setattr E DNodes (nid n) A_uid owner) (ret False))
           else ret False) (\<lambda>denied.
     if denied then ret (- EPERM)
     else bind (if grp \<noteq> - 1
           then bind (getattr E DNodes (nid n) A_gid) (\<lambda>fgid.
                  if grp = fgid then ret False else chown_group E sctx n grp)
           else ret False) (\<lambda>denied.
       if denied then ret (- EPERM)
       else
         andthen (stamp E n A_ctime)
         (andthen (hash_invalidate E pathname)
         (ret (0 :: int))))))))"
  by (rule ordered_target [OF assms], intro ordered_rules assms) simp_all

section \<open>utimens and access\<close>

lemma utimens_ordered:
  assumes "lawful E"
  shows "ordered E (
     bind (userctx E ctx) (\<lambda>sctx.
     bind (getnode_path E sctx pathname) (\<lambda>n.
       case tv of
         Some (atime, mtime) \<Rightarrow>
           bind (if suid sctx \<noteq> 0
                 then bind (getattr E DNodes (nid n) A_uid) (\<lambda>fuid. ret (suid sctx \<noteq> fuid))
                 else ret False) (\<lambda>denied.
             if denied then ret (- EACCES)
             else
               andthen (setattr E DNodes (nid n) A_atime atime)
               (andthen (setattr E DNodes (nid n) A_mtime mtime)
               (ret 0)))
       | None \<Rightarrow>
           andthen (access E sctx n W_OK)
           (andthen (stamp E n A_atime)
           (andthen (stamp E n A_mtime)
           (ret (0 :: int)))))))"
  by (rule ordered_target [OF assms], intro ordered_rules assms) simp_all

section \<open>Extended attributes\<close>

lemma reserved_names: "is_reserved A_nlink" "is_reserved A_mode"
  by (simp_all add: is_reserved_def A_defs)

lemma is_dir_del_node [simp]:
  "lawful E \<Longrightarrow> n \<noteq> A_mode \<Longrightarrow> is_dir E (del_attr E DNodes (i :: nodeid) n w) = is_dir E w"
  by (auto simp: is_dir_def fun_eq_iff)

lemma refs_del_node [simp]: "lawful E \<Longrightarrow> refs E (del_attr E DNodes (i :: nodeid) n w) = refs E w"
  by (simp add: refs_def fun_eq_iff)

lemma fs_inv_del_node:
  assumes "lawful E" and "fs_inv E w" and "n \<noteq> A_nlink" and "n \<noteq> A_mode"
  shows "fs_inv E (del_attr E DNodes (i :: nodeid) n w)"
proof -
  note inv = fs_inv_link [OF assms(2)]
  have "link_inv E (del_attr E DNodes i n w)"
    by (rule link_invI)
      (use assms link_invD [OF inv] keys_ok_del [OF assms(1)] in simp_all)
  then show ?thesis using assms fs_inv_dir [OF assms(2)] by (simp add: fs_inv_def)
qed

lemma ordered_delattr:
  assumes "lawful E" and "n \<noteq> A_nlink" and "n \<noteq> A_mode"
  shows "ordered E (delattr E DNodes (i :: nodeid) n)"
proof (rule hoareI)
  fix w a w' assume w: "inorder E (\<lambda>_. True) w" and "delattr E DNodes i n w = (Inr a, w')"
  then have w': "w' = del_attr E DNodes i n w" using assms(1) by (simp add: delattr_eq split: option.splits)
  then have "caches_ok E w'" using w more_caches(3) [of w' w E] assms(1) by (simp add: inorder_def fsys_def)
  then show "inorder E (\<lambda>_. True) w'"
    using w fs_inv_del_node [OF assms(1) _ assms(2,3), of w i] by (simp add: inorder_def fsys_def w')
next
  fix w e w' assume "inorder E (\<lambda>_. True) w" and "delattr E DNodes i n w = (Inl e, w')"
  then show "failed E e w'" using assms(1) by (auto simp: delattr_eq inorder_def failed_def split: option.splits)
qed

text \<open>An attribute that the guard lets a caller other than the superuser change is not reserved.\<close>

lemma xattr_guard:
  assumes "suid sctx \<noteq> 0"
  shows "hoare (inorder E (\<lambda>_. True)) (xattr_denied E sctx n name)
     (\<lambda>denied. inorder E (\<lambda>_. \<not> denied \<longrightarrow> \<not> is_reserved name)) (failed E)"
proof (rule hoareI)
  fix w denied w' assume w: "inorder E (\<lambda>_. True) w" and run: "xattr_denied E sctx n name w = (Inr denied, w')"
  have r: "reads (xattr_denied E sctx n name)" unfolding xattr_denied_def by (intro reads_rules)
  have "denied" if "is_reserved name" using run that assms by (simp add: xattr_denied_def)
  then show "inorder E (\<lambda>_. \<not> denied \<longrightarrow> \<not> is_reserved name) w'"
    using w readsD [OF r run] by (auto simp: inorder_def)
next
  fix w e w' assume w: "inorder E (\<lambda>_. True) w" and run: "xattr_denied E sctx n name w = (Inl e, w')"
  have "reads (xattr_denied E sctx n name)" and "safe (xattr_denied E sctx n name)"
    unfolding xattr_denied_def by (intro reads_rules, intro safe_rules)
  from hoare_Inl [OF ordered_reads [OF this] run w] show "failed E e w'" .
qed

lemma ordered_guarded:
  assumes "suid sctx \<noteq> 0" and "\<not> is_reserved name \<Longrightarrow> ordered E m"
  shows "ordered E (bind (xattr_denied E sctx n name) (\<lambda>denied. if denied then ret c else m))"
proof (rule hoare_bind [OF xattr_guard [OF assms(1)]])
  fix denied
  show "hoare (inorder E (\<lambda>_. \<not> denied \<longrightarrow> \<not> is_reserved name)) (if denied then ret c else m)
      (\<lambda>_. inorder E (\<lambda>_. True)) (failed E)"
  proof (cases "denied \<or> \<not> is_reserved name")
    case True
    then have "ordered E (if denied then ret c else m)" using assms(2) by (intro ordered_if ordered_ret) simp
    then show ?thesis by (rule sys_any)
  qed (simp add: hoare_def inorder_def)
qed

lemma setxattr_ordered:
  assumes "lawful E" and "fst ctx \<noteq> 0"
  shows "ordered E (
       bind (userctx E ctx) (\<lambda>sctx.
       bind (getnode_path E sctx pathname) (\<lambda>n.
       bind (xattr_denied E sctx n name) (\<lambda>denied.
         if denied then ret (- EACCES)
         else
           andthen (stamp E n A_ctime)
           (bind (if flags = 0 then ret None
                  else if flags = XATTR_CREATE
                  then handle (bind (getattrv E DNodes (nid n) name) (\<lambda>_. ret (Some (- EEXIST))))
                         (on_missing 64 (ret None))
                  else if flags = XATTR_REPLACE
                  then bind (getattrv E DNodes (nid n) name) (\<lambda>_. ret None)
                  else ret (Some (- EINVAL))) (\<lambda>early.
             case early of
               Some code \<Rightarrow> ret code
             | None \<Rightarrow>
                 andthen (setattrv E DNodes (nid n) name val)
                 (andthen (whenM (name = A_uid \<or> name = A_gid \<or> name = A_mode) (hash_invalidate E pathname))
                 (ret (0 :: int)))))))))"
proof (rule ordered_target [OF assms(1)], rule ordered_guarded)
  fix sctx :: scontext and n :: node
  assume "suid sctx = fst ctx"
  then show "suid sctx \<noteq> 0" using assms(2) by simp
next
  fix n :: node
  assume "\<not> is_reserved name"
  then have names: "name \<noteq> A_nlink" "name \<noteq> A_mode" using reserved_names by auto
  have check: "ordered E (if flags = 0 then ret None
                  else if flags = XATTR_CREATE
                  then handle (bind (getattrv E DNodes (nid n) name) (\<lambda>_. ret (Some (- EEXIST))))
                         (on_missing 64 (ret None))
                  else if flags = XATTR_REPLACE
                  then bind (getattrv E DNodes (nid n) name) (\<lambda>_. ret None)
                  else ret (Some (- EINVAL)))"
    by (rule ordered_reads) (intro reads_rules, intro safe_rules, simp_all)
  show "ordered E (andthen (stamp E n A_ctime)
           (bind (if flags = 0 then ret None
                  else if flags = XATTR_CREATE
                  then handle (bind (getattrv E DNodes (nid n) name) (\<lambda>_. ret (Some (- EEXIST))))
                         (on_missing 64 (ret None))
                  else if flags = XATTR_REPLACE
                  then bind (getattrv E DNodes (nid n) name) (\<lambda>_. ret None)
                  else ret (Some (- EINVAL))) (\<lambda>early.
             case early of
               Some code \<Rightarrow> ret code
             | None \<Rightarrow>
                 andthen (setattrv E DNodes (nid n) name val)
                 (andthen (whenM (name = A_uid \<or> name = A_gid \<or> name = A_mode) (hash_invalidate E pathname))
                 (ret (0 :: int))))))"
    by (rule ordered_andthen [OF ordered_stamp], rule assms(1), simp, simp, rule ordered_bind [OF check],
        intro ordered_rules assms(1) names)
qed

lemma removexattr_ordered:
  assumes "lawful E" and "fst ctx \<noteq> 0"
  shows "ordered E (
       bind (userctx E ctx) (\<lambda>sctx.
       bind (getnode_path E sctx pathname) (\<lambda>n.
       bind (xattr_denied E sctx n name) (\<lambda>denied.
         if denied then ret (- EACCES)
         else
           andthen (stamp E n A_ctime)
           (andthen (delattr E DNodes (nid n) name)
           (ret 0))))))"
proof (rule ordered_target [OF assms(1)], rule ordered_guarded)
  fix sctx :: scontext and n :: node
  assume "suid sctx = fst ctx"
  then show "suid sctx \<noteq> 0" using assms(2) by simp
next
  fix n :: node
  assume "\<not> is_reserved name"
  then have "name \<noteq> A_nlink" "name \<noteq> A_mode" using reserved_names by auto
  then show "ordered E (andthen (stamp E n A_ctime) (andthen (delattr E DNodes (nid n) name) (ret 0)))"
    by (intro ordered_rules ordered_delattr assms(1)) simp_all
qed

end
