(* ===== verification/Tree_Spec.thy ===== *)
theory Tree_Spec
  imports Fs_Attr_Laws
begin

text \<open>
  The abstract file system: which node each name of each directory refers to, and the mode of
  every node. What a handler promises is a relation between the tree before, the code it answers
  with and the tree after; a handler that answers with an error has not changed the tree. The
  last part ties the states of the program to their trees.
\<close>

section \<open>Trees\<close>

record ftree =
  fdirs :: "nodeid \<Rightarrow> string \<Rightarrow> nodeid option"
  fmodes :: "nodeid \<Rightarrow> mode_t option"

definition put_name :: "nodeid \<Rightarrow> string \<Rightarrow> nodeid \<Rightarrow> ftree \<Rightarrow> ftree" where
  "put_name d n c t = t\<lparr>fdirs := (fdirs t)(d := (fdirs t d)(n \<mapsto> c))\<rparr>"

definition put_mode :: "nodeid \<Rightarrow> mode_t \<Rightarrow> ftree \<Rightarrow> ftree" where
  "put_mode i m t = t\<lparr>fmodes := (fmodes t)(i \<mapsto> m)\<rparr>"

text \<open>A node goes with its last name.\<close>

definition del_name :: "nodeid \<Rightarrow> string \<Rightarrow> ftree \<Rightarrow> ftree" where
  "del_name d n t =
     \<lparr>fdirs = (fdirs t)(d := (fdirs t d)(n := None)),
      fmodes = (\<lambda>i. if fdirs t d n = Some i \<and> (\<forall>d' n'. fdirs t d' n' = Some i \<longrightarrow> d' = d \<and> n' = n)
                    then None else fmodes t i)\<rparr>"

text \<open>The node that the components of a path lead to from the root.\<close>

definition walk :: "ftree \<Rightarrow> string list \<Rightarrow> nodeid option" where
  "walk t ts = foldl (\<lambda>r n. Option.bind r (\<lambda>i. fdirs t i n)) (Some 0) ts"

definition the_dir :: "ftree \<Rightarrow> string \<Rightarrow> nodeid option" where
  "the_dir t p = walk t (tokenize ''/'' (fst (path_split p)))"

definition the_leaf :: "string \<Rightarrow> string" where
  "the_leaf p = snd (path_split p)"

text \<open>A node that the tree does not know.\<close>

definition unused :: "nodeid \<Rightarrow> ftree \<Rightarrow> bool" where
  "unused i t \<longleftrightarrow> fmodes t i = None \<and> fdirs t i = Map.empty \<and> (\<forall>d n. fdirs t d n \<noteq> Some i)"

section \<open>What the handlers promise\<close>

text \<open>\<^verbatim>\<open>mknod\<close>: a new node of the given mode under a free name\<close>

definition mknod_spec :: "string \<Rightarrow> mode_t \<Rightarrow> ftree \<Rightarrow> int \<Rightarrow> ftree \<Rightarrow> bool" where
  "mknod_spec p m t code t' \<longleftrightarrow>
     code < 0 \<and> t' = t
   \<or> code = 0 \<and> (\<exists>d i. the_dir t p = Some d \<and> fdirs t d (the_leaf p) = None \<and> unused i t
       \<and> t' = put_mode i m (put_name d (the_leaf p) i t))"

text \<open>\<^verbatim>\<open>symlink\<close>: the same, with the mode of a symbolic link\<close>

definition symlink_spec :: "string \<Rightarrow> ftree \<Rightarrow> int \<Rightarrow> ftree \<Rightarrow> bool" where
  "symlink_spec p t code t' \<longleftrightarrow>
     code < 0 \<and> t' = t
   \<or> code = 0 \<and> (\<exists>d i. the_dir t p = Some d \<and> fdirs t d (the_leaf p) = None \<and> unused i t
       \<and> t' = put_mode i S_IFLNK (put_name d (the_leaf p) i t))"

text \<open>\<^verbatim>\<open>mkdir\<close>: a new directory that knows itself and its parent\<close>

definition mkdir_spec :: "string \<Rightarrow> mode_t \<Rightarrow> ftree \<Rightarrow> int \<Rightarrow> ftree \<Rightarrow> bool" where
  "mkdir_spec p m t code t' \<longleftrightarrow>
     code < 0 \<and> t' = t
   \<or> code = 0 \<and> (\<exists>d i. the_dir t p = Some d \<and> fdirs t d (the_leaf p) = None \<and> unused i t
       \<and> t' = put_mode i (or S_IFDIR m) (put_name i ''..'' d (put_name d (the_leaf p) i (put_name i ''.'' i t))))"

text \<open>\<^verbatim>\<open>link\<close>: another name for the node that the old path leads to\<close>

definition link_spec :: "string \<Rightarrow> string \<Rightarrow> ftree \<Rightarrow> int \<Rightarrow> ftree \<Rightarrow> bool" where
  "link_spec old p t code t' \<longleftrightarrow>
     code < 0 \<and> t' = t
   \<or> code = 0 \<and> (\<exists>d i. the_dir t p = Some d \<and> fdirs t d (the_leaf p) = None
       \<and> walk t (tokenize ''/'' old) = Some i \<and> fmodes t i \<noteq> None
       \<and> t' = put_name d (the_leaf p) i t)"

text \<open>\<^verbatim>\<open>unlink\<close>: one name less, for a node that is no directory\<close>

definition unlink_spec :: "string \<Rightarrow> ftree \<Rightarrow> int \<Rightarrow> ftree \<Rightarrow> bool" where
  "unlink_spec p t code t' \<longleftrightarrow>
     code < 0 \<and> t' = t
   \<or> code = 0 \<and> (\<exists>d i m. the_dir t p = Some d \<and> fdirs t d (the_leaf p) = Some i \<and> fmodes t i = Some m \<and> \<not> S_ISDIR m
       \<and> t' = del_name d (the_leaf p) t)"

text \<open>
  \<^verbatim>\<open>chmod\<close>: the permissions asked for and the type as it was. \<open>uid\<close> is the caller, \<open>own\<close> the owner of
  every node: the superuser gets the mode \<open>m\<close> asked for, the owner gets it or, outside the group of the
  node, gets it without the set-group-id bit, and nobody else gets anything.
\<close>

definition granted :: "uid_t \<Rightarrow> uid_t option \<Rightarrow> mode_t \<Rightarrow> mode_t \<Rightarrow> bool" where
  "granted uid own m m' \<longleftrightarrow> uid = 0 \<and> m' = m \<or> own = Some uid \<and> m' \<in> {m, and m (not S_ISGID)}"

definition chmod_spec :: "uid_t \<Rightarrow> (nodeid \<Rightarrow> uid_t option) \<Rightarrow> string \<Rightarrow> mode_t \<Rightarrow> ftree \<Rightarrow> int \<Rightarrow> ftree \<Rightarrow> bool" where
  "chmod_spec uid own p m t code t' \<longleftrightarrow>
     code < 0 \<and> t' = t
   \<or> code = 0 \<and> (\<exists>i old m'. walk t (tokenize ''/'' p) = Some i \<and> fmodes t i = Some old \<and> granted uid (own i) m m'
       \<and> t' = put_mode i (or (and m' (not S_IFMT)) (and old S_IFMT)) t)"

section \<open>The tree of a state\<close>

definition ftree_of :: "('s, 'h) env \<Rightarrow> ('s, 'h, 'z) world_scheme \<Rightarrow> ftree" where
  "ftree_of E w = \<lparr>fdirs = entry E w, fmodes = mode_of E w\<rparr>"

lemma ftree_of_sel [simp]: "fdirs (ftree_of E w) = entry E w" "fmodes (ftree_of E w) = mode_of E w"
  by (simp_all add: ftree_of_def)

lemma ftree_ofI: "entry E w = fdirs t \<Longrightarrow> mode_of E w = fmodes t \<Longrightarrow> ftree_of E w = t"
  by (simp add: ftree_of_def)

lemma resolve_walk: "resolve E w ts = Some i \<Longrightarrow> walk (ftree_of E w) ts = Some i"
proof (induction ts arbitrary: i rule: rev_induct)
  case Nil
  then show ?case by (simp add: resolve_Nil walk_def split: if_splits)
next
  case (snoc n ts)
  then show ?case
    by (auto simp: resolve_snoc walk_def step_to_def split: bind_splits if_splits)
qed

lemma tree_pred_ftree [intro!]: "tree_pred E (\<lambda>w. Q (ftree_of E w))"
  by (simp add: tree_pred_def ftree_of_def)

lemma ftree_same_db: "same_db E w w' \<Longrightarrow> ftree_of E w' = ftree_of E w"
  by (simp add: ftree_of_def same_db_wattr)

end
