(* ===== verification/Fs_Refine.thy ===== *)
theory Fs_Refine
  imports Tree_Spec
begin

text \<open>
  The handlers do to the tree what the specification says: a simulation, step by step, between
  the program's states and their trees.
\<close>

section \<open>Steps that leave the tree alone\<close>

named_theorems kept_rules

definition kept :: "('s, 'h) env \<Rightarrow> ('s, 'h, 'z, 'a) pop \<Rightarrow> bool" where
  "kept E m \<longleftrightarrow> (\<forall>w. ftree_of E (snd (m w)) = ftree_of E w)"

lemma keptI: "(\<And>w r w'. m w = (r, w') \<Longrightarrow> ftree_of E w' = ftree_of E w) \<Longrightarrow> kept E m"
  unfolding kept_def by (metis prod.collapse)

lemma keptD: "kept E m \<Longrightarrow> m w = (r, w') \<Longrightarrow> ftree_of E w' = ftree_of E w"
  unfolding kept_def by (metis snd_conv)

lemma kept_reads [kept_rules]: "reads m \<Longrightarrow> kept E m"
  by (rule keptI) (drule (1) readsD, simp)

lemma kept_bind: "kept E m \<Longrightarrow> (\<And>a. kept E (f a)) \<Longrightarrow> kept E (bind m f)"
proof (rule keptI)
  fix w r w' assume m: "kept E m" and f: "\<And>a. kept E (f a)" and run: "bind m f w = (r, w')"
  obtain x w1 where x: "m w = (x, w1)" by fastforce
  have "ftree_of E w' = ftree_of E w1"
    using run x keptD [OF f] by (cases x) (auto simp: bind_def)
  then show "ftree_of E w' = ftree_of E w" using keptD [OF m x] by simp
qed

lemma kept_pcache: "(\<And>w. \<exists>c. snd (m w) = w\<lparr>pcache := c\<rparr>) \<Longrightarrow> kept E m"
  unfolding kept_def by (metis ftree_same_db pcache_db)

lemma kept_userctx: "kept E (userctx E' ctx)"
  unfolding userctx_def by (rule keptI) (auto dest!: sc_get_db intro!: ftree_same_db simp: same_db_def)

lemma ftree_put_node:
  "lawful E \<Longrightarrow> n \<noteq> A_mode \<Longrightarrow> ftree_of E (put_attr E DNodes (i :: nodeid) n v w) = ftree_of E w"
  by (simp add: ftree_of_def fun_eq_iff)

lemma kept_setattrv: "lawful E \<Longrightarrow> n \<noteq> A_mode \<Longrightarrow> kept E (setattrv E DNodes (i :: nodeid) n v)"
  by (rule keptI) (auto simp: setattrv_eq ftree_put_node)

lemma kept_setattr: "lawful E \<Longrightarrow> n \<noteq> A_mode \<Longrightarrow> kept E (setattr E DNodes (i :: nodeid) n v)"
  unfolding setattr_def by (rule kept_setattrv)

lemma kept_time: "kept E (time_now E')"
  by (rule keptI) (auto simp: time_now_def intro!: ftree_same_db simp: same_db_def)

lemma kept_stamp: "lawful E \<Longrightarrow> n \<noteq> A_mode \<Longrightarrow> kept E (stamp E c n)"
  unfolding stamp_def by (intro kept_bind kept_time kept_setattr)

lemma kept_touch: "lawful E \<Longrightarrow> kept E (touch_parent E d)"
  unfolding touch_parent_def andthen_def by (intro kept_bind kept_stamp) simp_all

section \<open>Following the tree\<close>

text \<open>A failure that has not changed the tree, and a triple about a step that does not.\<close>

definition lost :: "('s, 'h) env \<Rightarrow> ftree \<Rightarrow> exn \<Rightarrow> ('s, 'h, 'z) pworld_scheme \<Rightarrow> bool" where
  "lost E t e w \<longleftrightarrow> failed E e w \<and> ftree_of E w = t"

lemma track:
  assumes "hoare (inorder E P) m Q (failed E)" and "kept E m" and "\<And>w. P w \<Longrightarrow> ftree_of E w = t"
  shows "hoare (inorder E P) m Q (lost E t)"
proof (rule hoareI)
  fix w e w' assume w: "inorder E P w" and run: "m w = (Inl e, w')"
  then have "ftree_of E w = t" using assms(3) by (simp add: inorder_def)
  then show "lost E t e w'" using hoare_Inl [OF assms(1) run w] keptD [OF assms(2) run] by (simp add: lost_def)
qed (rule hoare_Inr [OF assms(1)])

text \<open>Steps that cannot fail.\<close>

definition sure :: "('w, 'a) m \<Rightarrow> bool" where
  "sure m \<longleftrightarrow> (\<forall>w. \<not> isl (fst (m w)))"

lemma sure_hoare: "hoare P m Q R \<Longrightarrow> sure m \<Longrightarrow> hoare P m Q R'"
proof (rule hoareI)
  fix w e w' assume "sure m" and "m w = (Inl e, w')"
  then have "\<not> isl (Inl e :: exn + 'b)" unfolding sure_def by (metis fst_conv)
  then show "R' e w'" by simp
qed (rule hoare_Inr)

lemma sure_bind: "sure m \<Longrightarrow> (\<And>a. sure (f a)) \<Longrightarrow> sure (bind m f)"
  unfolding sure_def
proof
  fix w assume m: "\<forall>w. \<not> isl (fst (m w))" and f: "\<And>a. \<forall>w. \<not> isl (fst (f a w))"
  obtain x w1 where x: "m w = (x, w1)" by fastforce
  then obtain a where "x = Inr a" using m by (metis fst_conv isl_def sum.exhaust)
  then show "\<not> isl (fst (bind m f w))" using x f by (simp add: bind_def)
qed

lemma sure_setattr: "lawful E \<Longrightarrow> sure (setattr E d i n v)" and sure_setattrv: "lawful E \<Longrightarrow> sure (setattrv E d i n b)"
  by (simp_all add: sure_def setattr_eq setattrv_eq)

lemma sure_time: "sure (time_now E)"
  by (simp add: sure_def time_now_def)

lemma sure_stamp: "lawful E \<Longrightarrow> sure (stamp E c n)"
  unfolding stamp_def by (intro sure_bind sure_time sure_setattr)

lemma sure_touch: "lawful E \<Longrightarrow> sure (touch_parent E d)"
  unfolding touch_parent_def andthen_def by (intro sure_bind sure_stamp)

section \<open>The beginning: the directory of the path\<close>

definition good_cache :: "('s, 'h) env \<Rightarrow> ('s, 'h, 'z) pworld_scheme \<Rightarrow> bool" where
  "good_cache E w \<longleftrightarrow> pc_coherent E w \<and> owners_ok E w"

lemma resolve_same_db: "same_db E w w' \<Longrightarrow> resolve E w' = resolve E w"
proof -
  assume same: "same_db E w w'"
  have "step_to E w' i n = step_to E w i n" for i n
    using same by (simp add: step_to_def same_db_wattr same_db_is_dir)
  then show ?thesis using same by (simp add: resolve_def same_db_wattr fun_eq_iff)
qed

lemma cache_pred_good:
  fixes E :: "('s, 'h) env"
  shows "cache_pred E (good_cache E :: ('s, 'h, 'z) pworld_scheme \<Rightarrow> bool)"
proof -
  have "matches E w' = matches E w" if "same_db E w w'" for w w' :: "('s, 'h, 'z) pworld_scheme"
    using that by (simp add: matches_def fun_eq_iff resolve_same_db same_db_wattr)
  then show ?thesis
    unfolding cache_pred_def good_cache_def pc_coherent_def owners_ok_def by (simp add: same_db_wattr)
qed

text \<open>The state before a handler, for a precondition \<open>P\<close> of its own, and after its \<^verbatim>\<open>Path\<close>.\<close>

definition before :: "('s, 'h) env \<Rightarrow> (('s, 'h, 'z) pworld_scheme \<Rightarrow> bool) \<Rightarrow> ftree \<Rightarrow> ('s, 'h, 'z) pworld_scheme \<Rightarrow> bool" where
  "before E P t w \<longleftrightarrow> (P w \<and> ftree_of E w = t) \<and> good_cache E w"

definition at_dir :: "('s, 'h) env \<Rightarrow> (('s, 'h, 'z) pworld_scheme \<Rightarrow> bool) \<Rightarrow> ftree \<Rightarrow> string \<Rightarrow> path \<Rightarrow> ('s, 'h, 'z) pworld_scheme \<Rightarrow> bool" where
  "at_dir E P t p pt w \<longleftrightarrow> (P w \<and> ftree_of E w = t) \<and> is_dir E w (nid (parent pt)) \<and> nkind (parent pt) = KDirectory
     \<and> the_dir t p = Some (nid (parent pt)) \<and> leaf pt = the_leaf p"

lemma db_pred_ftree: "db_pred E P \<Longrightarrow> db_pred E (\<lambda>w. P w \<and> ftree_of E w = t)"
  by (intro db_pred_conj tree_db [OF tree_pred_ftree])

lemma cache_pred_before: "db_pred E P \<Longrightarrow> cache_pred E (before E P t)"
  unfolding before_def by (intro cache_pred_conj db_cache_pred db_pred_ftree cache_pred_good)

lemma before_tree: "before E P t w \<Longrightarrow> ftree_of E w = t" and at_dir_tree: "at_dir E P t p pt w \<Longrightarrow> ftree_of E w = t"
  by (simp_all add: before_def at_dir_def)

lemma getnode_tree:
  assumes "lawful E" and "good_cache E w" and "getnode_path E sctx p w = (Inr n, w')"
  shows "walk (ftree_of E w) (tokenize ''/'' p) = Some (nid n)"
proof -
  have "fst (getnode_path E sctx p w) = Inr n" using assms(3) by simp
  then have "resolve E w (tokenize ''/'' p) = Some (nid n)"
    using assms(1,2) by (simp add: hash_getnode_result good_cache_def null_result_def)
  then show ?thesis by (rule resolve_walk)
qed

lemma kept_getnode: "lawful E \<Longrightarrow> pc_inv E w \<Longrightarrow> getnode_path E sctx p w = (r, w') \<Longrightarrow> ftree_of E w' = ftree_of E w"
  using hash_getnode_law [of E w sctx p] by (auto intro!: ftree_same_db)

lemma refine_path:
  assumes "lawful E" and "db_pred E P"
  shows "hoare (inorder E (before E P t)) (path_new (getnode_path E) sctx p) (\<lambda>pt. inorder E (at_dir E P t p pt)) (lost E t)"
proof -
  let ?P = "\<lambda>w. P w \<and> ftree_of E w = t"
  have P: "db_pred E ?P" by (rule db_pred_ftree [OF assms(2)])
  note T = triple_path_new [OF assms(1) P, of sctx p]
  have keep: "ftree_of E w' = t" if "inorder E (before E P t) w" and run: "path_new (getnode_path E) sctx p w = (r, w')"
    for w r and w' :: "('a, 'b, 'c) pworld_scheme"
  proof -
    have pc: "pc_inv E w" and t: "ftree_of E w = t" using that(1) by (auto simp: inorder_def fsys_def caches_ok_def before_def)
    obtain pp lf where sp: "path_split p = (pp, lf)" by fastforce
    obtain r0 w0 where g: "getnode_path E sctx pp w = (r0, w0)" by fastforce
    have "w' = w0" using run g unfolding path_new_def sp by (auto simp: bind_result cast_def split: if_splits)
    then show ?thesis using kept_getnode [OF assms(1) pc g] t by simp
  qed
  show ?thesis
  proof (rule hoareI)
    fix w pt w' assume w: "inorder E (before E P t) w" and run: "path_new (getnode_path E) sctx p w = (Inr pt, w')"
    obtain pp lf where sp: "path_split p = (pp, lf)" by fastforce
    then obtain n w0 where g: "getnode_path E sctx pp w = (Inr n, w0)" "parent pt = n" "leaf pt = lf"
      using run by (auto simp: path_new_def bind_result cast_def split: if_splits)
    have good: "good_cache E w" and t: "ftree_of E w = t" using w by (auto simp: inorder_def before_def)
    have "walk (ftree_of E w) (tokenize ''/'' pp) = Some (nid (parent pt))"
      using getnode_tree [OF assms(1) good g(1)] g(2) by simp
    then have d: "the_dir t p = Some (nid (parent pt))" "leaf pt = the_leaf p"
      using g(3) by (simp_all add: the_dir_def the_leaf_def sp t)
    have "inorder E ?P w" using w by (simp add: inorder_def before_def)
    from hoare_Inr [OF T run this] d show "inorder E (at_dir E P t p pt) w'"
      by (simp add: inorder_def at_dir_def)
  next
    fix w e w' assume w: "inorder E (before E P t) w" and run: "path_new (getnode_path E) sctx p w = (Inl e, w')"
    then have "inorder E ?P w" by (simp add: inorder_def before_def)
    from hoare_Inl [OF T run this] keep [OF w run] show "lost E t e w'" by (simp add: lost_def)
  qed
qed

lemma good_getnode:
  assumes "lawful E" and "good_cache E w" and run: "getnode_path E sctx p w = (r, w')"
  shows "good_cache E w'"
proof -
  obtain c where c: "w' = w\<lparr>pcache := c\<rparr>" "pc_coherent E w'"
    using hash_getnode_coherent [OF assms(1), of w sctx p] assms(2) run by (auto simp: good_cache_def)
  then have "same_db E w w'" by (simp add: same_db_def)
  then have "owners_ok E w'" using assms(2) by (simp add: good_cache_def owners_ok_def same_db_wattr)
  then show ?thesis using c(2) by (simp add: good_cache_def)
qed

text \<open>The first of two paths leaves the cache as good as it was.\<close>

lemma refine_path_good:
  assumes "lawful E" and "db_pred E P"
  shows "hoare (inorder E (before E P t)) (path_new (getnode_path E) sctx p) (\<lambda>pt. inorder E (before E (at_dir E P t p pt) t)) (lost E t)"
proof (rule hoareI)
  fix w pt w' assume w: "inorder E (before E P t) w" and run: "path_new (getnode_path E) sctx p w = (Inr pt, w')"
  obtain pp lf where sp: "path_split p = (pp, lf)" by fastforce
  then obtain n w0 where "getnode_path E sctx pp w = (Inr n, w0)" and "w' = w0"
    using run by (auto simp: path_new_def bind_result cast_def split: if_splits)
  moreover have "good_cache E w" using w by (simp add: inorder_def before_def)
  ultimately have "good_cache E w'" using good_getnode [OF assms(1)] by blast
  then show "inorder E (before E (at_dir E P t p pt) t) w'"
    using hoare_Inr [OF refine_path [OF assms] run w] by (simp add: inorder_def before_def at_dir_def)
qed (rule hoare_Inl [OF refine_path [OF assms]])

lemma refine_userctx:
  assumes "db_pred E P"
  shows "hoare (inorder E (before E P t)) (userctx E ctx) (\<lambda>_. inorder E (before E P t)) (lost E t)"
  by (rule track [OF triple_userctx_at [OF cache_pred_before [OF assms]] kept_userctx before_tree])

lemma refine_caller:
  assumes "db_pred E P"
  shows "hoare (inorder E (before E P t)) (userctx E ctx) (\<lambda>s. inorder E (\<lambda>w. before E P t w \<and> suid s = fst ctx)) (lost E t)"
proof (rule hoareI)
  fix w s w' assume w: "inorder E (before E P t) w" and run: "userctx E ctx w = (Inr s, w')"
  have "inorder E (\<lambda>_. True) w" using w by (simp add: inorder_def)
  then have "suid s = fst ctx"
    using hoare_Inr [OF triple_caller [OF tree_db [OF tree_pred_True]] run] by (simp add: inorder_def)
  then show "inorder E (\<lambda>w. before E P t w \<and> suid s = fst ctx) w'"
    using hoare_Inr [OF refine_userctx [OF assms] run w] by (simp add: inorder_def)
qed (rule hoare_Inl [OF refine_userctx [OF assms]])

text \<open>The same with a cache that a second path can use.\<close>

lemma refine_start_good:
  assumes "lawful E" and "db_pred E P" and "\<And>sctx pt. hoare (inorder E (before E (at_dir E P t p pt) t)) (f sctx pt) Q (lost E t)"
  shows "hoare (inorder E (before E P t)) (bind (userctx E ctx) (\<lambda>sctx. bind (path_new (getnode_path E) sctx p) (f sctx)))
     Q (lost E t)"
  by (rule hoare_bind [OF refine_userctx [OF assms(2)] hoare_bind [OF refine_path_good [OF assms(1,2)] assms(3)]])

lemma refine_start:
  assumes "lawful E" and "db_pred E P" and "\<And>sctx pt. hoare (inorder E (at_dir E P t p pt)) (f sctx pt) Q (lost E t)"
  shows "hoare (inorder E (before E P t)) (bind (userctx E ctx) (\<lambda>sctx. bind (path_new (getnode_path E) sctx p) (f sctx)))
     Q (lost E t)"
  by (rule hoare_bind [OF refine_userctx [OF assms(2)] hoare_bind [OF refine_path [OF assms(1,2)] assms(3)]])


section \<open>The end: times, code and transactions\<close>

lemma errcode_neg: "errcode e < 0"
  by (cases e) (simp_all add: errcode_def ENOENT_def split: kind.split)

lemma refine_touch:
  "lawful E \<Longrightarrow> hoare (inorder E (\<lambda>w. ftree_of E w = t')) (touch_parent E d) (\<lambda>_. inorder E (\<lambda>w. ftree_of E w = t')) R"
  by (rule sure_hoare [OF triple_touch_parent [OF _ tree_pred_ftree] sure_touch])

text \<open>The code and the tree at the end of a handler.\<close>

abbreviation ends :: "('s, 'h) env \<Rightarrow> int \<Rightarrow> ftree \<Rightarrow> int \<Rightarrow> ('s, 'h, 'z) pworld_scheme \<Rightarrow> bool" where
  "ends E c t' \<equiv> \<lambda>c'. inorder E (\<lambda>w. c' = c \<and> ftree_of E w = t')"

lemma refine_ret: "hoare (inorder E (\<lambda>w. ftree_of E w = t')) (ret c) (ends E c t') R"
  by (rule hoare_ret) (simp add: inorder_def)

lemma refine_tail:
  "lawful E \<Longrightarrow> hoare (inorder E (\<lambda>w. ftree_of E w = t')) (andthen (touch_parent E d) (ret c)) (ends E c t') R"
  by (rule hoare_andthen [OF refine_touch refine_ret])

lemma ends_spec:
  "hoare P m (ends E c t') R \<Longrightarrow> S c t' \<Longrightarrow> hoare P m (\<lambda>c. inorder E (\<lambda>w. S c (ftree_of E w))) R"
  by (erule hoare_weaken) (auto simp: inorder_def)

lemma refine_refused:
  "(\<And>w. P w \<Longrightarrow> ftree_of E w = t) \<Longrightarrow> S c t \<Longrightarrow>
     hoare (inorder E P) (ret c) (\<lambda>c. inorder E (\<lambda>w. S c (ftree_of E w))) (lost E t)"
  by (rule hoare_ret) (simp add: inorder_def)

lemma ftree_commit: "lawful E \<Longrightarrow> ftree_of E (fstxn_commit E w) = ftree_of E w"
  by (rule ftree_same_db [OF same_db_commit])

text \<open>A handler that follows its specification from every tree does so from the tree it is given.\<close>

definition follows :: "('s, 'h) env \<Rightarrow> (ftree \<Rightarrow> 'a \<Rightarrow> ftree \<Rightarrow> bool) \<Rightarrow> ('s, 'h, 'z, 'a) pop \<Rightarrow> ('s, 'h, 'z) pworld_scheme \<Rightarrow> bool" where
  "follows E S h w \<longleftrightarrow>
     (\<exists>c w'. h w = (Inr c, w') \<and> S (ftree_of E w) c (ftree_of E w') \<and> fsys E w' \<and> (\<forall>d. \<not> txns w' d))"

lemma coded_follows:
  assumes "lawful E" and "db_pred E P" and fail: "\<And>t e. S t (code e) t" and "fsys E w" and "P w" and "good_cache E w"
    and body: "hoare (inorder E (before E P (ftree_of E w))) body (\<lambda>c. inorder E (\<lambda>w'. S (ftree_of E w) c (ftree_of E w')))
       (lost E (ftree_of E w))"
  shows "follows E S (handle (with_fstxn E body) (\<lambda>e. ret (code e))) w"
proof -
  let ?t = "ftree_of E w" and ?h = "handle (with_fstxn E body) (\<lambda>e. ret (code e))"
  let ?S = "\<lambda>c. inorder E (\<lambda>w'. S ?t c (ftree_of E w'))"
  have scope: "hoare (inorder E (before E P ?t)) (with_fstxn E body) ?S (lost E ?t)"
    by (rule with_fstxn_hoare [OF inorder_begin [OF assms(1) cache_pred_before [OF assms(2)]] body])
      (auto simp: inorder_def lost_def failed_def ftree_commit [OF assms(1)] fsys_commit [OF assms(1)])
  have h: "hoare (inorder E (before E P ?t)) ?h ?S (\<lambda>_ _. False)"
    by (rule hoare_handle [OF scope]) (auto simp: lost_def failed_def inorder_def fail intro: hoare_ret)
  have w: "inorder E (before E P ?t) w" using assms(4,5,6) by (simp add: inorder_def before_def)
  obtain r w' where run: "?h w = (r, w')" by fastforce
  obtain c where c: "r = Inr c" using hoare_Inl [OF h, of w _ w'] run w by (cases r) auto
  then have "?S c w'" using hoare_Inr [OF h, of w c w'] run w by simp
  moreover have "\<not> txns w' d" for d
    using run txns_commit [of E] by (auto simp: handle_result with_fstxn_def split: prod.splits)
  ultimately show ?thesis using run c by (simp add: follows_def inorder_def)
qed

lemma handler_follows:
  assumes "lawful E" and "db_pred E P" and "\<And>t e. S t (errcode e) t" and "fsys E w" and "P w" and "good_cache E w"
    and "hoare (inorder E (before E P (ftree_of E w))) body (\<lambda>c. inorder E (\<lambda>w'. S (ftree_of E w) c (ftree_of E w')))
       (lost E (ftree_of E w))"
  shows "follows E S (handler E body) w"
  unfolding handler_def by (rule coded_follows [OF assms])

section \<open>Removing a name\<close>

lemma sole_name:
  assumes "lawful E" and "entry E w d name = Some i"
  shows "card (refs E w i) = 1 \<longleftrightarrow> (\<forall>d' n'. entry E w d' n' = Some i \<longrightarrow> d' = d \<and> n' = name)"
proof
  assume one: "card (refs E w i) = 1"
  show "\<forall>d' n'. entry E w d' n' = Some i \<longrightarrow> d' = d \<and> n' = name"
    by (intro allI impI) (rule two_refs [OF assms _ one])
next
  assume "\<forall>d' n'. entry E w d' n' = Some i \<longrightarrow> d' = d \<and> n' = name"
  then have "refs E w i = {(d, name)}" using assms(2) unfolding refs_def by blast
  then show "card (refs E w i) = 1" by simp
qed

lemma refine_delchild:
  fixes E :: "('s, 'h) env"
  assumes "lawful E" and few: "\<And>w. P w \<Longrightarrow> few E w" and tree: "\<And>w. P w \<Longrightarrow> ftree_of E w = t"
    and last: "\<And>w i n. P w \<Longrightarrow> fs_inv E w \<Longrightarrow> entry E w (nid d) name = Some i \<Longrightarrow> card (refs E w i) = 1 \<Longrightarrow>
                 entry E w i n \<noteq> None \<Longrightarrow> (i, n) = (nid d, name)"
  shows "hoare (inorder E P) (delchild E d name) (\<lambda>_. inorder E (\<lambda>w. ftree_of E w = del_name (nid d) name t))
     (lost E t :: exn \<Rightarrow> ('s, 'h, 'z) pworld_scheme \<Rightarrow> bool)"
proof -
  have "case delchild E d name w of (Inr _, w') \<Rightarrow> inorder E (\<lambda>w. ftree_of E w = del_name (nid d) name t) w' | (Inl e, w') \<Rightarrow> lost E t e w'"
    if w: "inorder E P w" for w :: "('s, 'h, 'z) pworld_scheme"
  proof -
    have inv: "fs_inv E w" and c: "caches_ok E w" and P: "P w" using w by (simp_all add: inorder_def fsys_def)
    have t: "t = \<lparr>fdirs = entry E w, fmodes = mode_of E w\<rparr>" using tree [OF P] by (simp add: ftree_of_def)
    have small: "card (refs E w i) \<le> 2 ^ 31" for i
      using few_card [OF few [OF P], of i] by simp
    show ?thesis
    proof (rule delchild_cases [OF assms(1) inv small, of d name])
      show "(i, n) = (nid d, name)" if "entry E w (nid d) name = Some i" and "card (refs E w i) = 1"
        and "entry E w i n \<noteq> None" for i n
        using that by (rule last [OF P inv])
    next
      fix e assume 1: "delchild E d name w = (Inl e, w)" "e \<noteq> EStuck"
      then show ?thesis using inv c by (simp add: lost_def failed_def fsys_def tree [OF P])
    next
      fix i w' assume run: "delchild E d name w = (Inr (), w')" and e: "entry E w (nid d) name = Some i" and inv': "fs_inv E w'"
        and st: "still w' = still w"
        and ent: "\<And>j m. entry E w' j m = (if j = nid d \<and> m = name then None else entry E w j m)"
        and other: "\<And>j m. j \<noteq> i \<Longrightarrow> attr E w' DNodes (j :: nodeid) m = attr E w DNodes j m"
        and kept: "\<And>m. card (refs E w i) \<noteq> 1 \<Longrightarrow> m \<noteq> A_nlink \<Longrightarrow> attr E w' DNodes i m = attr E w DNodes i m"
        and gone: "\<And>m. card (refs E w i) = 1 \<Longrightarrow> attr E w' DNodes i m = None"
      have "world.more w' = world.more w" using st by (simp add: still_def)
      then have "caches_ok E w'" using c more_caches(3) by blast
      moreover have "mode_of E w' j = (if j = i \<and> card (refs E w i) = 1 then None else mode_of E w j)" for j
        using other [of j A_mode] kept [of A_mode] gone [of A_mode] by (cases "j = i") (simp_all add: wattr_def)
      then have "ftree_of E w' = del_name (nid d) name t"
        unfolding ftree_of_def del_name_def t sole_name [OF assms(1) e] ent
        by (simp add: fun_eq_iff e) blast
      ultimately show ?thesis using run inv' by (simp add: inorder_def fsys_def)
    qed
  qed
  then show ?thesis unfolding hoare_def by blast
qed

lemma tree_pred_at_dir: "tree_pred E P \<Longrightarrow> tree_pred E (at_dir E P t p pt)"
  unfolding at_dir_def by (intro tree_pred_conj tree_pred_ftree tree_pred_is_dir tree_pred_const)

text \<open>What \<^verbatim>\<open>unlink\<close> has found: the directory, its entry and the node's mode.\<close>

definition found :: "('s, 'h) env \<Rightarrow> ftree \<Rightarrow> string \<Rightarrow> path \<Rightarrow> node \<Rightarrow> mode_t \<Rightarrow> ('s, 'h, 'z) pworld_scheme \<Rightarrow> bool" where
  "found E t p pt n m w \<longleftrightarrow> at_dir E (few E) t p pt w
     \<and> entry E w (nid (parent pt)) (leaf pt) = Some (nid n) \<and> mode_of E w (nid n) = Some m"

lemma tree_pred_found: "tree_pred E (found E t p pt n m)"
  unfolding found_def by (intro tree_pred_conj tree_pred_at_dir tree_pred_few tree_pred_entry tree_pred_mode)

section \<open>unlink\<close>

lemma refine_reads: "reads m \<Longrightarrow> safe m \<Longrightarrow> (\<And>w. P w \<Longrightarrow> ftree_of E w = t) \<Longrightarrow> hoare (inorder E P) m (\<lambda>_. inorder E P) (lost E t)"
  by (rule track [OF triple_reads [OF _ _ inorder_fsys] kept_reads])

lemma refine_invalidate:
  assumes "tree_pred E P"
  shows "hoare (inorder E P) (hash_invalidate E p) (\<lambda>_. inorder E P) R"
proof (rule hoareI)
  fix w e w' assume w: "inorder E P w" and run: "hash_invalidate E p w = (Inl e, w')"
  have "pc_ok (\<lambda>_ _. True) [] (pcache w)" using w by (simp add: inorder_def fsys_def caches_ok_def pc_inv_def)
  from hash_invalidate_any [OF this, of E p] run show "R e w'" by auto
qed (rule hoare_Inr [OF triple_invalidate [OF tree_db [OF assms]]])

lemma refine_getattr:
  "lawful E \<Longrightarrow> (\<And>w. P w \<Longrightarrow> ftree_of E w = t) \<Longrightarrow>
     hoare (inorder E P) (getattr E d i n) (\<lambda>v. inorder E (\<lambda>w. P w \<and> wattr E w d i n = Some v)) (lost E t)"
  by (rule track [OF triple_getattr kept_reads [OF reads_getattr]])

lemma refine_getchild:
  "lawful E \<Longrightarrow> (\<And>w. P w \<Longrightarrow> ftree_of E w = t) \<Longrightarrow>
     hoare (inorder E P) (getchild E d n)
       (\<lambda>c. inorder E (\<lambda>w. P w \<and> entry E w (nid d) n = Some (nid c) \<and> typed E w c)) (lost E t)"
  by (rule track [OF triple_getchild kept_reads [OF reads_getchild]])

lemma found_del:
  assumes "found E t p pt n m w" and "\<not> S_ISDIR m"
  shows "unlink_spec p t 0 (del_name (nid (parent pt)) (leaf pt) t)"
  using assms unfolding found_def at_dir_def unlink_spec_def by auto

lemma refine_unlink:
  fixes E :: "('s, 'h) env"
  assumes "lawful E"
  shows "hoare (inorder E (before E (few E) t))
     (bind (userctx E ctx) (\<lambda>sctx. bind (path_new (getnode_path E) sctx pathname) (\<lambda>p.
       andthen (access E sctx (parent p) (or W_OK X_OK))
       (bind (getchild E (parent p) (leaf p)) (\<lambda>n.
       andthen (check_sticky_bit E sctx (parent p) n)
       (bind (getattr E DNodes (nid n) A_mode) (\<lambda>m.
         if S_ISDIR m then ret (- EISDIR)
         else
           andthen (hash_invalidate E pathname)
           (andthen (stamp E n A_ctime)
           (andthen (delchild E (parent p) (leaf p))
           (andthen (touch_parent E (parent p))
           (ret 0)))))))))))
     (\<lambda>c. inorder E (\<lambda>w. unlink_spec pathname t c (ftree_of E w))) (lost E t :: exn \<Rightarrow> ('s, 'h, 'z) fsworld_scheme \<Rightarrow> bool)"
proof (rule refine_start [OF assms tree_db [OF tree_pred_few]],
    rule hoare_andthen [OF refine_reads [OF reads_access safe_access at_dir_tree]
      hoare_bind [OF refine_getchild [OF assms at_dir_tree]
      hoare_andthen [OF refine_reads [OF reads_check_sticky_bit safe_check_sticky_bit]
      hoare_bind [OF refine_getattr [OF assms] hoare_if]]]])
  fix sctx :: scontext and pt n and m :: mode_t
  let ?L = "lost E t :: exn \<Rightarrow> ('s, 'h, 'z) fsworld_scheme \<Rightarrow> bool"
  let ?P = "at_dir E (few E) t pathname pt"
  let ?f = "found E t pathname pt n m :: ('s, 'h, 'z) fsworld_scheme \<Rightarrow> bool"
  have tree: "ftree_of E w = t" if "?f w" for w :: "('s, 'h, 'z) fsworld_scheme"
    using that by (simp add: found_def at_dir_def)
  assume m: "\<not> S_ISDIR m"
  have del: "hoare (inorder E ?f) (delchild E (parent pt) (leaf pt))
      (\<lambda>_. inorder E (\<lambda>w. ftree_of E w = del_name (nid (parent pt)) (leaf pt) t)) ?L"
  proof (rule refine_delchild [OF assms _ tree])
    show "(i, k) = (nid (parent pt), leaf pt)"
      if "?f w" and inv: "fs_inv E w" and "entry E w (nid (parent pt)) (leaf pt) = Some i" and "entry E w i k \<noteq> None"
      for w :: "('s, 'h, 'z) fsworld_scheme" and i k
      using that m link_invD(5) [OF fs_inv_link [OF inv], of i k] by (simp add: found_def is_dir_def)
  qed (simp add: found_def at_dir_def)
  have "hoare (inorder E ?f)
     (andthen (hash_invalidate E pathname) (andthen (stamp E n A_ctime) (andthen (delchild E (parent pt) (leaf pt))
       (andthen (touch_parent E (parent pt)) (ret 0)))))
     (\<lambda>c. inorder E (\<lambda>w. unlink_spec pathname t c (ftree_of E w))) ?L"
  proof (cases "\<exists>w :: ('s, 'h, 'z) fsworld_scheme. ?f w")
    case True
    then have spec: "unlink_spec pathname t 0 (del_name (nid (parent pt)) (leaf pt) t)" using found_del m by blast
    show ?thesis
      by (rule hoare_andthen [OF refine_invalidate [OF tree_pred_found]
            hoare_andthen [OF track [OF triple_stamp [OF assms tree_pred_found] kept_stamp [OF assms] tree]
            hoare_andthen [OF del ends_spec [where S = "unlink_spec pathname t", OF refine_tail [OF assms] spec]]]]) simp_all
  qed (simp add: hoare_def inorder_def)
  then show "hoare (inorder E (\<lambda>w. (?P w \<and> entry E w (nid (parent pt)) (leaf pt) = Some (nid n) \<and> typed E w n)
       \<and> mode_of E w (nid n) = Some m))
     (andthen (hash_invalidate E pathname) (andthen (stamp E n A_ctime) (andthen (delchild E (parent pt) (leaf pt))
       (andthen (touch_parent E (parent pt)) (ret 0)))))
     (\<lambda>c. inorder E (\<lambda>w. unlink_spec pathname t c (ftree_of E w))) ?L"
    by (rule hoare_sys_pre) (simp add: found_def)
qed (auto simp: at_dir_def unlink_spec_def intro: refine_refused)

end
