(* ===== verification/Fs_Refine_Create.thy ===== *)
theory Fs_Refine_Create
  imports Fs_Refine
begin

text \<open>
  The simulation for the handlers that create nodes (\<^verbatim>\<open>mknod\<close>, \<^verbatim>\<open>symlink\<close>, \<^verbatim>\<open>mkdir\<close>), give a
  node another name (\<^verbatim>\<open>link\<close>) and change its mode (\<^verbatim>\<open>chmod\<close>).
\<close>

section \<open>A new node in the tree\<close>

definition seed :: "kind \<Rightarrow> nodeid \<Rightarrow> ftree \<Rightarrow> ftree" where
  "seed k i t = (if k = KDirectory then put_name i ''.'' i t else t)"

definition placed :: "('s, 'h) env \<Rightarrow> ftree \<Rightarrow> string \<Rightarrow> kind \<Rightarrow> nodeid \<Rightarrow> nodeid \<Rightarrow> ('s, 'h, 'z) world_scheme \<Rightarrow> bool" where
  "placed E t p k d i w \<longleftrightarrow> the_dir t p = Some d \<and> fdirs t d (the_leaf p) = None \<and> unused i t \<and> d \<noteq> i
     \<and> entry E w = fdirs (put_name d (the_leaf p) i (seed k i t))
     \<and> (\<forall>j. j \<noteq> i \<longrightarrow> mode_of E w j = fmodes t j)
     \<and> (k = KSymlink \<longrightarrow> mode_of E w i = Some S_IFLNK)"

lemma tree_pred_placed: "tree_pred E (placed E t p k d i)"
  by (simp add: tree_pred_def placed_def fun_eq_iff)

lemma created_unused:
  assumes "fs_inv E w" and "created E i w w1"
  shows "unused i (ftree_of E w)"
proof -
  note inv = fs_inv_link [OF assms(1)]
  have none: "attr E w DNodes i m = None" for m using assms(2) by (simp add: created_def)
  then have "\<not> is_dir E w i" by (simp add: is_dir_def wattr_def)
  then have "entry E w i n = None" for n using link_invD(5) [OF inv, of i n] by blast
  then have "entry E w i = Map.empty" by (simp add: fun_eq_iff)
  moreover have "refs E w i = {}" using link_invD(3) [OF inv, of i] none by (auto simp: wattr_def)
  then have "entry E w d n \<noteq> Some i" for d n using refsI by blast
  ultimately show ?thesis using none by (simp add: unused_def wattr_def)
qed

lemma created_entries:
  assumes "fs_inv E w" and cr: "created E (nid n) w w1" and new: "new_node E n w1"
  shows "entry E w1 = fdirs (seed (nkind n) (nid n) (ftree_of E w))"
proof -
  have none: "entry E w (nid n) m = None" for m
    using created_unused [OF assms(1) cr] by (simp add: unused_def)
  have "entry E w1 j m = fdirs (seed (nkind n) (nid n) (ftree_of E w)) j m" for j m
  proof (cases "j = nid n")
    case True
    show ?thesis
    proof (cases "m = ''.'' \<and> nkind n = KDirectory")
      case True
      then have "(nid n, ''.'') \<in> refs E w1 (nid n)" using new by (auto simp: new_node_def)
      then show ?thesis using True \<open>j = nid n\<close> by (simp add: refs_def seed_def put_name_def)
    next
      case False
      then have "attr E w1 DDirectories (nid n) m = None" using new unfolding new_node_def by blast
      then show ?thesis using False True none by (auto simp: seed_def put_name_def wattr_def)
    qed
  next
    case False
    then show ?thesis using created_entry [OF cr False] by (simp add: seed_def put_name_def)
  qed
  then show ?thesis by (simp add: fun_eq_iff)
qed

lemma path_create_placed:
  assumes "lawful E" and inv: "fs_inv E w" and cr: "created E (nid n) w w1" and new: "new_node E n w1"
    and at: "at_dir E P (ftree_of E w) p pt w" and free: "attr E w DDirectories (nid (parent pt)) (leaf pt) = None"
  shows "placed E (ftree_of E w) p (nkind n) (nid (parent pt)) (nid n) (add_entry E (nid (parent pt)) (leaf pt) (nid n) kk w1)"
proof -
  let ?d = "nid (parent pt)" and ?w2 = "add_entry E (nid (parent pt)) (leaf pt) (nid n) kk w1"
  have d: "?d \<noteq> nid n" using created_is_dir [OF cr] at by (simp add: at_dir_def)
  have leaf: "leaf pt = the_leaf p" and dir: "the_dir (ftree_of E w) p = Some ?d" using at by (simp_all add: at_dir_def)
  have ent: "entry E ?w2 = fdirs (put_name ?d (the_leaf p) (nid n) (seed (nkind n) (nid n) (ftree_of E w)))"
    using assms(1) created_entries [OF inv cr new] by (auto simp: put_name_def leaf fun_eq_iff)
  have "mode_of E ?w2 j = mode_of E w j" if "j \<noteq> nid n" for j
    using assms(1) cr that by (simp add: created_def wattr_def)
  moreover have "nkind n = KSymlink \<longrightarrow> mode_of E ?w2 (nid n) = Some S_IFLNK"
    using new assms(1) by (simp add: new_node_def)
  moreover have "fdirs (ftree_of E w) ?d (the_leaf p) = None" using free by (simp add: wattr_def leaf)
  ultimately show ?thesis
    unfolding placed_def using dir created_unused [OF inv cr] d ent by simp
qed

lemma refine_path_create:
  fixes E :: "('s, 'h) env"
  assumes "lawful E"
  shows "hoare (inorder E (at_dir E (roomy E) t p pt)) (path_create E k pt sctx)
     (\<lambda>n. inorder E (\<lambda>w. entered E k (nid (parent pt)) n w \<and> placed E t p k (nid (parent pt)) (nid n) w))
     (lost E t :: exn \<Rightarrow> ('s, 'h, 'z) pworld_scheme \<Rightarrow> bool)"
proof -
  have "case path_create E k pt sctx w of
      (Inr n, w') \<Rightarrow> inorder E (\<lambda>w. entered E k (nid (parent pt)) n w \<and> placed E t p k (nid (parent pt)) (nid n) w) w'
    | (Inl e, w') \<Rightarrow> lost E t e w'"
    if w: "inorder E (at_dir E (roomy E) t p pt) w" for w :: "('s, 'h, 'z) pworld_scheme"
  proof -
    have inv: "fs_inv E w" and c: "caches_ok E w" and few: "few E w" and ids: "ids_left E w"
      and dir: "is_dir E w (nid (parent pt))" and t: "ftree_of E w = t"
      using w by (simp_all add: inorder_def fsys_def at_dir_def roomy_def)
    have at: "at_dir E (roomy E) (ftree_of E w) p pt w" using w t by (simp add: inorder_def)
    show ?thesis
    proof (cases rule: path_create_cases [OF assms inv ids dir, of k sctx])
      case (1 e)
      then show ?thesis using inv c t by (simp add: lost_def failed_def fsys_def)
    next
      case (2 w')
      have "ftree_of E w' = t" unfolding t [symmetric] by (simp add: ftree_of_def same_tree_wattr [OF 2(3)])
      then show ?thesis using 2 c more_caches(3) [OF 2(4)] by (simp add: lost_def failed_def fsys_def)
    next
      case (3 n w1 kk)
      let ?w2 = "add_entry E (nid (parent pt)) (leaf pt) (nid n) kk w1"
      have "world.more ?w2 = world.more w" using assms 3(4) by (simp add: created_def)
      then have "caches_ok E ?w2" using c more_caches(3) by blast
      moreover have "entered E k (nid (parent pt)) n ?w2"
        by (rule path_create_entered [OF assms inv few dir 3(4-6) 3(3) 3(8)])
      moreover have "placed E t p k (nid (parent pt)) (nid n) ?w2"
        using path_create_placed [OF assms inv 3(4,6) at 3(8), of kk] 3(3) t by simp
      ultimately show ?thesis using 3(1,2) by (simp add: inorder_def fsys_def)
    qed
  qed
  then show ?thesis unfolding hoare_def by blast
qed

section \<open>The attributes of the new node\<close>

lemma refine_setattr:
  "lawful E \<Longrightarrow> tree_pred E P \<Longrightarrow> n \<noteq> A_nlink \<Longrightarrow> n \<noteq> A_mode \<Longrightarrow>
     hoare (inorder E P) (setattr E DNodes (i :: nodeid) n v) (\<lambda>_. inorder E P) R"
  by (rule sure_hoare [OF triple_setattr sure_setattr])

text \<open>The mode is written when all names are there: \<open>D\<close> is the tree without it.\<close>

lemma refine_setmode:
  fixes E :: "('s, 'h) env" and P :: "('s, 'h, 'z) pworld_scheme \<Rightarrow> bool"
  assumes "lawful E" and dir: "\<And>w. P w \<Longrightarrow> is_dir E w i \<Longrightarrow> S_ISDIR m" and refs: "\<And>w. P w \<Longrightarrow> S_ISDIR m \<Longrightarrow> refs E w i \<noteq> {}"
    and tree: "\<And>w. P w \<Longrightarrow> entry E w = fdirs T \<and> (\<forall>j. j \<noteq> i \<longrightarrow> mode_of E w j = fmodes T j)"
  shows "hoare (inorder E P) (setattr E DNodes (i :: nodeid) A_mode (m :: mode_t))
     (\<lambda>_. inorder E (\<lambda>w. ftree_of E w = put_mode i m T)) R"
proof (rule sure_hoare [OF _ sure_setattr [OF assms(1)]], rule hoareI)
  note T = triple_setmode [OF assms(1) dir refs]
  fix w a and w' :: "('s, 'h, 'z) pworld_scheme"
  assume w: "inorder E P w" and run: "setattr E DNodes i A_mode m w = (Inr a, w')"
  have "fsys E w'" using hoare_Inr [OF T run w] by (simp add: inorder_def)
  moreover have "ftree_of E w' = put_mode i m T"
    using run tree [of w] w assms(1) by (auto simp: setattr_eq ftree_of_def put_mode_def inorder_def fun_eq_iff)
  ultimately show "inorder E (\<lambda>w. ftree_of E w = put_mode i m T) w'" by (simp add: inorder_def)
next
  fix w e and w' :: "('s, 'h, 'z) pworld_scheme" assume "setattr E DNodes i A_mode m w = (Inl e, w')"
  then show "R e w'" using assms(1) by (simp add: setattr_eq)
qed

abbreviation made :: "('s, 'h) env \<Rightarrow> kind \<Rightarrow> nodeid \<Rightarrow> node \<Rightarrow> ftree \<Rightarrow> string \<Rightarrow> ('s, 'h, 'z) world_scheme \<Rightarrow> bool" where
  "made E k d n t p \<equiv> \<lambda>w. entered E k d n w \<and> placed E t p k d (nid n) w"

lemma tree_pred_made: "tree_pred E (made E k d n t p)"
  by (intro tree_pred_conj tree_pred_entered tree_pred_placed)

lemma refine_create:
  fixes E :: "('s, 'h) env"
  assumes "lawful E"
    and tail: "\<And>pt n. nkind (parent pt) = KDirectory \<Longrightarrow> leaf pt = the_leaf p \<Longrightarrow> nkind n = k \<Longrightarrow>
      hoare (inorder E (made E k (nid (parent pt)) n t p)) (f pt n) Q (lost E t)"
  shows "hoare (inorder E (before E (roomy E) t))
     (bind (userctx E ctx) (\<lambda>sctx. bind (path_new (getnode_path E) sctx p) (\<lambda>pt.
        bind (path_create E k pt sctx) (f pt)))) Q (lost E t :: exn \<Rightarrow> ('s, 'h, 'z) fsworld_scheme \<Rightarrow> bool)"
proof (rule refine_start [OF assms(1) db_pred_roomy])
  fix sctx :: scontext and pt
  show "hoare (inorder E (at_dir E (roomy E) t p pt)) (bind (path_create E k pt sctx) (f pt)) Q (lost E t)"
  proof (cases "nkind (parent pt) = KDirectory \<and> leaf pt = the_leaf p")
    case True
    have "hoare (inorder E (made E k (nid (parent pt)) n t p)) (f pt n) Q (lost E t)" for n
    proof (cases "nkind n = k")
      case False
      then show ?thesis by (simp add: hoare_def inorder_def entered_def)
    qed (use True tail in auto)
    then show ?thesis by (rule hoare_bind [OF refine_path_create [OF assms(1)]])
  qed (auto simp: hoare_def inorder_def at_dir_def)
qed

text \<open>The last steps of a handler, once the tree is what it should be.\<close>

lemma refine_made:
  fixes m :: "('s, 'h, 'z, int) pop"
  assumes "hoare (inorder E (made E k d n t p)) m (ends E 0 T) R"
    and "\<And>w :: ('s, 'h, 'z) pworld_scheme. placed E t p k d (nid n) w \<Longrightarrow> S 0 T"
  shows "hoare (inorder E (made E k d n t p)) m (\<lambda>c. inorder E (\<lambda>w. S c (ftree_of E w))) R"
proof (rule hoareI)
  fix w c w' assume w: "inorder E (made E k d n t p) w" and "m w = (Inr c, w')"
  then show "inorder E (\<lambda>w. S c (ftree_of E w)) w'"
    using hoare_Inr [OF assms(1)] assms(2) [of w] by (auto simp: inorder_def)
qed (rule hoare_Inl [OF assms(1)])

lemma mknod_tail:
  fixes E :: "('s, 'h) env"
  assumes "lawful E"
  shows "hoare (inorder E (made E KNode (nid (parent pt)) n t pathname))
     (andthen (setattr E DNodes (nid n) A_uid (fst ctx))
       (andthen (setattr E DNodes (nid n) A_gid (snd ctx))
       (andthen (setattr E DNodes (nid n) A_mode mode)
       (andthen (whenM (S_ISCHR mode \<or> S_ISBLK mode) (setattr E DNodes (nid n) A_dev dev))
       (andthen (touch_parent E (parent pt)) (ret 0))))))
     (ends E 0 (put_mode (nid n) mode (put_name (nid (parent pt)) (the_leaf pathname) (nid n) t)))
     (R :: exn \<Rightarrow> ('s, 'h, 'z) pworld_scheme \<Rightarrow> bool)"
proof -
  let ?d = "nid (parent pt)"
  let ?m = "made E KNode ?d n t pathname :: ('s, 'h, 'z) pworld_scheme \<Rightarrow> bool"
  let ?T = "put_name ?d (the_leaf pathname) (nid n) t"
  have mode: "hoare (inorder E ?m) (setattr E DNodes (nid n) A_mode mode)
      (\<lambda>_. inorder E (\<lambda>w. ftree_of E w = put_mode (nid n) mode ?T)) R"
    by (rule refine_setmode [OF assms]) (auto simp: entered_def placed_def seed_def put_name_def)
  have dev: "hoare (inorder E (\<lambda>w. ftree_of E w = t')) (whenM b (setattr E DNodes (nid n) A_dev dev))
      (\<lambda>_. inorder E (\<lambda>w. ftree_of E w = t')) (R :: exn \<Rightarrow> ('s, 'h, 'z) pworld_scheme \<Rightarrow> bool)" for t' b
    by (intro when_any refine_setattr [OF assms tree_pred_ftree]) simp_all
  show ?thesis
    by (rule hoare_andthen [OF refine_setattr [OF assms tree_pred_made]
        hoare_andthen [OF refine_setattr [OF assms tree_pred_made] hoare_andthen [OF mode hoare_andthen [OF dev
        refine_tail [OF assms]]]]]) simp_all
qed

lemma refine_mknod:
  fixes E :: "('s, 'h) env"
  assumes "lawful E"
  shows "hoare (inorder E (before E (roomy E) t))
     (bind (userctx E ctx) (\<lambda>sctx. bind (path_new (getnode_path E) sctx pathname) (\<lambda>p.
       bind (path_create E KNode p sctx) (\<lambda>n.
       andthen (setattr E DNodes (nid n) A_uid (fst ctx))
       (andthen (setattr E DNodes (nid n) A_gid (snd ctx))
       (andthen (setattr E DNodes (nid n) A_mode mode)
       (andthen (whenM (S_ISCHR mode \<or> S_ISBLK mode) (setattr E DNodes (nid n) A_dev dev))
       (andthen (touch_parent E (parent p))
       (ret 0)))))))))
     (\<lambda>c. inorder E (\<lambda>w. mknod_spec pathname mode t c (ftree_of E w)))
     (lost E t :: exn \<Rightarrow> ('s, 'h, 'z) fsworld_scheme \<Rightarrow> bool)"
  by (rule refine_create [OF assms], rule refine_made [where S = "mknod_spec pathname mode t", OF mknod_tail [OF assms]])
    (auto simp: mknod_spec_def placed_def)

section \<open>symlink and mkdir\<close>

lemma made_symlink:
  "made E KSymlink d n t p w \<Longrightarrow> ftree_of E w = put_mode (nid n) S_IFLNK (put_name d (the_leaf p) (nid n) t)"
  by (auto simp: placed_def seed_def ftree_of_def put_mode_def put_name_def fun_eq_iff)

lemma symlink_tail:
  fixes E :: "('s, 'h) env"
  assumes "lawful E"
  shows "hoare (inorder E (made E KSymlink (nid (parent pt)) n t newpath))
     (andthen (setattr E DNodes (nid n) A_uid (fst ctx))
       (andthen (setattr E DNodes (nid n) A_gid (snd ctx))
       (andthen (setattrv E DNodes (nid n) A_symlink oldpath)
       (andthen (touch_parent E (parent pt)) (ret 0)))))
     (ends E 0 (put_mode (nid n) S_IFLNK (put_name (nid (parent pt)) (the_leaf newpath) (nid n) t)))
     (R :: exn \<Rightarrow> ('s, 'h, 'z) pworld_scheme \<Rightarrow> bool)"
proof -
  let ?d = "nid (parent pt)"
  let ?m = "made E KSymlink ?d n t newpath :: ('s, 'h, 'z) pworld_scheme \<Rightarrow> bool"
  let ?T = "put_mode (nid n) S_IFLNK (put_name ?d (the_leaf newpath) (nid n) t)"
  have target: "hoare (inorder E ?m) (setattrv E DNodes (nid n) A_symlink oldpath) (\<lambda>_. inorder E (\<lambda>w. ftree_of E w = ?T)) R"
    by (rule sure_hoare [OF hoare_weaken [OF triple_setattrv [OF assms
            tree_pred_made [of E KSymlink ?d n t newpath]]] sure_setattrv [OF assms]])
      (auto simp: inorder_def made_symlink)
  show ?thesis
    by (rule hoare_andthen [OF refine_setattr [OF assms tree_pred_made]
        hoare_andthen [OF refine_setattr [OF assms tree_pred_made] hoare_andthen [OF target refine_tail [OF assms]]]]) simp_all
qed

lemma refine_symlink:
  fixes E :: "('s, 'h) env"
  assumes "lawful E"
  shows "hoare (inorder E (before E (roomy E) t))
     (bind (userctx E ctx) (\<lambda>sctx. bind (path_new (getnode_path E) sctx newpath) (\<lambda>p.
       bind (path_create E KSymlink p sctx) (\<lambda>sl.
       andthen (setattr E DNodes (nid sl) A_uid (fst ctx))
       (andthen (setattr E DNodes (nid sl) A_gid (snd ctx))
       (andthen (setattrv E DNodes (nid sl) A_symlink oldpath)
       (andthen (touch_parent E (parent p))
       (ret 0))))))))
     (\<lambda>c. inorder E (\<lambda>w. symlink_spec newpath t c (ftree_of E w)))
     (lost E t :: exn \<Rightarrow> ('s, 'h, 'z) fsworld_scheme \<Rightarrow> bool)"
  by (rule refine_create [OF assms], rule refine_made [where S = "symlink_spec newpath t", OF symlink_tail [OF assms]])
    (auto simp: symlink_spec_def placed_def)

text \<open>The entry \<^verbatim>\<open>..\<close> of a new directory: the name is free.\<close>

definition grown :: "('s, 'h) env \<Rightarrow> nodeid \<Rightarrow> ftree \<Rightarrow> ('s, 'h, 'z) world_scheme \<Rightarrow> bool" where
  "grown E i T w \<longleftrightarrow> refs E w i \<noteq> {} \<and> entry E w = fdirs T \<and> (\<forall>j. j \<noteq> i \<longrightarrow> mode_of E w j = fmodes T j)"

lemma tree_pred_grown: "tree_pred E (grown E i T)"
proof -
  have "tree_pred E (\<lambda>w. \<forall>j. j \<noteq> i \<longrightarrow> mode_of E w j = fmodes T j)" by (simp add: tree_pred_def fun_eq_iff)
  then show ?thesis unfolding grown_def by (intro tree_pred_conj tree_pred_refs tree_pred_entry)
qed

lemma refine_dotdot:
  fixes E :: "('s, 'h) env"
  assumes "lawful E" and "nid d = dd"
  shows "hoare (inorder E (made E KDirectory dd n t p)) (addchild E n ''..'' d)
     (\<lambda>_. inorder E (grown E (nid n) (put_name (nid n) ''..'' dd (put_name dd (the_leaf p) (nid n) (put_name (nid n) ''.'' (nid n) t)))))
     (R :: exn \<Rightarrow> ('s, 'h, 'z) pworld_scheme \<Rightarrow> bool)"
proof -
  let ?T = "put_name dd (the_leaf p) (nid n) (put_name (nid n) ''.'' (nid n) t)"
  have "case addchild E n ''..'' d w of
      (Inr _, w') \<Rightarrow> inorder E (grown E (nid n) (put_name (nid n) ''..'' dd ?T)) w' | (Inl e, w') \<Rightarrow> R e w'"
    if w: "inorder E (made E KDirectory dd n t p) w" for w :: "('s, 'h, 'z) pworld_scheme"
  proof -
    have inv: "fs_inv E w" and c: "caches_ok E w" and made: "entered E KDirectory dd n w"
      and pl: "placed E t p KDirectory dd (nid n) w"
      using w by (simp_all add: inorder_def fsys_def)
    have small: "card (refs E w (nid d)) < 2 ^ 31" and dir: "is_dir E w (nid n)" and dd: "is_dir E w (nid d)"
      and ne: "refs E w (nid n) \<noteq> {}"
      using made assms(2) by (auto simp: entered_def few_def)
    have ent: "entry E w = fdirs ?T" and nd: "dd \<noteq> nid n" and un: "unused (nid n) t"
      using pl by (simp_all add: placed_def seed_def)
    have "entry E w (nid n) ''..'' = None" using nd un unfolding ent by (simp add: put_name_def unused_def)
    then have free: "attr E w DDirectories (nid n) ''..'' = None"
      using link_invD(2) [OF fs_inv_link [OF inv], of "nid n" "''..''"] by blast
    have link: "nlink_of E w (nid d) \<noteq> None"
      using link_invD(3) [OF fs_inv_link [OF inv] fs_inv_dir [OF inv dd]] .
    show ?thesis
    proof (cases rule: addchild_cases [OF assms(1) inv dir small, of "''..''"])
      case (1 k)
      let ?w2 = "add_entry E (nid n) ''..'' (nid d) k w"
      have "caches_ok E ?w2" using c more_caches(3) [of ?w2 w E] assms(1) by simp
      moreover have "entry E ?w2 = fdirs (put_name (nid n) ''..'' dd ?T)"
        using assms by (simp add: put_name_def fun_eq_iff ent)
      moreover have "mode_of E ?w2 j = fmodes t j" if "j \<noteq> nid n" for j
        using assms(1) pl that by (simp add: placed_def)
      moreover have "refs E ?w2 (nid n) \<noteq> {}" using ne by (simp add: refs_add_entry [OF assms(1) free])
      ultimately show ?thesis
        using 1(3,4) by (simp add: inorder_def fsys_def grown_def put_name_def)
    qed (use free link in auto)
  qed
  then show ?thesis unfolding hoare_def by blast
qed

lemma mkdir_tail:
  fixes E :: "('s, 'h) env"
  assumes "lawful E" and "and mode S_IFMT = 0"
  shows "hoare (inorder E (made E KDirectory (nid (parent pt)) n t pathname))
     (andthen (addchild E n ''..'' (parent pt))
       (andthen (setattr E DNodes (nid n) A_uid (fst ctx))
       (andthen (setattr E DNodes (nid n) A_gid (snd ctx))
       (andthen (setattr E DNodes (nid n) A_mode (or S_IFDIR mode))
       (andthen (touch_parent E (parent pt)) (ret 0))))))
     (ends E 0 (put_mode (nid n) (or S_IFDIR mode) (put_name (nid n) ''..'' (nid (parent pt))
        (put_name (nid (parent pt)) (the_leaf pathname) (nid n) (put_name (nid n) ''.'' (nid n) t)))))
     (R :: exn \<Rightarrow> ('s, 'h, 'z) pworld_scheme \<Rightarrow> bool)"
proof -
  let ?d = "nid (parent pt)"
  let ?T = "put_name (nid n) ''..'' ?d (put_name ?d (the_leaf pathname) (nid n) (put_name (nid n) ''.'' (nid n) t))"
  have mode: "hoare (inorder E (grown E (nid n) ?T)) (setattr E DNodes (nid n) A_mode (or S_IFDIR mode))
      (\<lambda>_. inorder E (\<lambda>w. ftree_of E w = put_mode (nid n) (or S_IFDIR mode) ?T))
      (R :: exn \<Rightarrow> ('s, 'h, 'z) pworld_scheme \<Rightarrow> bool)"
    by (rule refine_setmode [OF assms(1)]) (auto simp: grown_def isdir_or [OF assms(2)])
  show ?thesis
    by (rule hoare_andthen [OF refine_dotdot [OF assms(1) refl] hoare_andthen [OF refine_setattr [OF assms(1) tree_pred_grown]
        hoare_andthen [OF refine_setattr [OF assms(1) tree_pred_grown] hoare_andthen [OF mode
        refine_tail [OF assms(1)]]]]]) simp_all
qed

lemma refine_mkdir:
  fixes E :: "('s, 'h) env"
  assumes "lawful E" and "and mode S_IFMT = 0"
  shows "hoare (inorder E (before E (roomy E) t))
     (bind (userctx E ctx) (\<lambda>sctx. bind (path_new (getnode_path E) sctx pathname) (\<lambda>p.
       bind (path_create E KDirectory p sctx) (\<lambda>n.
       andthen (addchild E n ''..'' (parent p))
       (andthen (setattr E DNodes (nid n) A_uid (fst ctx))
       (andthen (setattr E DNodes (nid n) A_gid (snd ctx))
       (andthen (setattr E DNodes (nid n) A_mode (or S_IFDIR mode))
       (andthen (touch_parent E (parent p))
       (ret 0)))))))))
     (\<lambda>c. inorder E (\<lambda>w. mkdir_spec pathname mode t c (ftree_of E w)))
     (lost E t :: exn \<Rightarrow> ('s, 'h, 'z) fsworld_scheme \<Rightarrow> bool)"
  by (rule refine_create [OF assms(1)], rule refine_made [where S = "mkdir_spec pathname mode t", OF mkdir_tail [OF assms]])
    (auto simp: mkdir_spec_def placed_def)

section \<open>link\<close>

text \<open>Every node has a name.\<close>

definition named :: "('s, 'h) env \<Rightarrow> ('s, 'h, 'z) world_scheme \<Rightarrow> bool" where
  "named E w \<longleftrightarrow> few E w \<and> (\<forall>i. mode_of E w i \<noteq> None \<longrightarrow> refs E w i \<noteq> {})"

lemma tree_pred_named: "tree_pred E (named E)"
  by (simp add: tree_pred_def named_def few_def refs_entry fun_eq_iff)

lemma refine_getnode:
  assumes "lawful E" and "db_pred E P" and "\<And>w. P w \<Longrightarrow> ftree_of E w = t"
  shows "hoare (inorder E P) (getnode_path E sctx p) (\<lambda>n. inorder E (\<lambda>w. P w \<and> typed E w n)) (lost E t)"
proof (rule hoareI)
  fix w e w' assume w: "inorder E P w" and run: "getnode_path E sctx p w = (Inl e, w')"
  have "pc_inv E w" using w by (simp add: inorder_def fsys_def caches_ok_def)
  from kept_getnode [OF assms(1) this run] have "ftree_of E w' = t" using w assms(3) by (simp add: inorder_def)
  then show "lost E t e w'"
    using hoare_Inl [OF triple_getnode_path [OF assms(1,2)] run w] by (simp add: lost_def)
qed (rule hoare_Inr [OF triple_getnode_path [OF assms(1,2)]])

lemma refine_getnode_at:
  fixes E :: "('s, 'h) env"
  assumes "lawful E" and "db_pred E P"
  shows "hoare (inorder E (before E P t)) (getnode_path E sctx p)
     (\<lambda>n. inorder E (\<lambda>w. (P w \<and> ftree_of E w = t) \<and> typed E w n \<and> walk t (tokenize ''/'' p) = Some (nid n)))
     (lost E t :: exn \<Rightarrow> ('s, 'h, 'z) pworld_scheme \<Rightarrow> bool)"
proof (rule hoareI)
  let ?P = "\<lambda>w :: ('s, 'h, 'z) pworld_scheme. P w \<and> ftree_of E w = t"
  note T = refine_getnode [OF assms(1) db_pred_ftree [OF assms(2)] conjunct2]
  have P0: "inorder E ?P w" if "inorder E (before E P t) w" for w using that by (simp add: inorder_def before_def)
  fix w and w' :: "('s, 'h, 'z) pworld_scheme" assume w: "inorder E (before E P t) w"
  show "inorder E (\<lambda>w. (P w \<and> ftree_of E w = t) \<and> typed E w n \<and> walk t (tokenize ''/'' p) = Some (nid n)) w'"
    if run: "getnode_path E sctx p w = (Inr n, w')" for n
  proof -
    have "good_cache E w" and "ftree_of E w = t" using w by (simp_all add: inorder_def before_def)
    then have "walk t (tokenize ''/'' p) = Some (nid n)" using getnode_tree [OF assms(1) _ run] by simp
    then show ?thesis using hoare_Inr [OF T run P0 [OF w]] by (simp add: inorder_def)
  qed
  show "lost E t e w'" if run: "getnode_path E sctx p w = (Inl e, w')" for e
    by (rule hoare_Inl [OF T run P0 [OF w]])
qed

lemma refine_addchild:
  fixes E :: "('s, 'h) env"
  assumes "lawful E" and P: "\<And>w. P w \<Longrightarrow> named E w \<and> is_dir E w (nid d) \<and> ftree_of E w = t \<and> fmodes t (nid n) \<noteq> None"
  shows "hoare (inorder E P) (addchild E d name n)
     (\<lambda>_. inorder E (\<lambda>w. fdirs t (nid d) name = None \<and> ftree_of E w = put_name (nid d) name (nid n) t))
     (lost E t :: exn \<Rightarrow> ('s, 'h, 'z) pworld_scheme \<Rightarrow> bool)"
proof -
  have "case addchild E d name n w of
      (Inr _, w') \<Rightarrow> inorder E (\<lambda>w. fdirs t (nid d) name = None \<and> ftree_of E w = put_name (nid d) name (nid n) t) w'
    | (Inl e, w') \<Rightarrow> lost E t e w'"
    if w: "inorder E P w" for w :: "('s, 'h, 'z) pworld_scheme"
  proof -
    have inv: "fs_inv E w" and c: "caches_ok E w" and p: "P w" using w by (simp_all add: inorder_def fsys_def)
    have dir: "is_dir E w (nid d)" and t: "t = ftree_of E w" and small: "card (refs E w (nid n)) < 2 ^ 31"
      and ne: "refs E w (nid n) \<noteq> {}"
      using P [OF p] by (auto simp: named_def few_def)
    show ?thesis
    proof (cases rule: addchild_cases [OF assms(1) inv dir small, of name])
      case (1 k)
      let ?w2 = "add_entry E (nid d) name (nid n) k w"
      have "caches_ok E ?w2" using c more_caches(3) [of ?w2 w E] assms(1) by simp
      moreover have "ftree_of E ?w2 = put_name (nid d) name (nid n) t"
        using assms(1) by (simp add: t put_name_def ftree_of_def fun_eq_iff)
      moreover have "fdirs t (nid d) name = None" using 1(1) by (simp add: t wattr_def)
      ultimately show ?thesis using 1(3,4) by (simp add: inorder_def fsys_def)
    next
      case (2 w' k)
      have more: "world.more w' = world.more w" using 2(4) by (simp add: still_def)
      have "ftree_of E w' = t" unfolding t by (simp add: ftree_of_def same_tree_wattr [OF 2(5) [OF ne]])
      then show ?thesis using 2(2,3) c more_caches(3) [OF more] by (simp add: lost_def failed_def fsys_def)
    next
      case (3 e)
      then show ?thesis using inv c t by (simp add: lost_def failed_def fsys_def)
    qed
  qed
  then show ?thesis unfolding hoare_def by blast
qed

text \<open>The state when the name is entered: both ends are known.\<close>

definition linking :: "('s, 'h) env \<Rightarrow> ftree \<Rightarrow> string \<Rightarrow> string \<Rightarrow> path \<Rightarrow> node \<Rightarrow> ('s, 'h, 'z) world_scheme \<Rightarrow> bool" where
  "linking E t old p pt n w \<longleftrightarrow> named E w \<and> is_dir E w (nid (parent pt)) \<and> ftree_of E w = t \<and> fmodes t (nid n) \<noteq> None
     \<and> walk t (tokenize ''/'' old) = Some (nid n)
     \<and> the_dir t p = Some (nid (parent pt)) \<and> leaf pt = the_leaf p"

lemma tree_pred_linking: "tree_pred E (linking E t old p pt n)"
  unfolding linking_def by (intro tree_pred_conj tree_pred_named tree_pred_is_dir tree_pred_ftree tree_pred_const)

lemma refine_link:
  fixes E :: "('s, 'h) env"
  assumes "lawful E"
  shows "hoare (inorder E (before E (named E) t))
     (bind (userctx E ctx) (\<lambda>sctx. bind (path_new (getnode_path E) sctx newpath) (\<lambda>p.
       andthen (access E sctx (parent p) W_OK)
       (bind (getnode_path E sctx oldpath) (\<lambda>n.
       andthen (stamp E n A_ctime)
       (andthen (addchild E (parent p) (leaf p) n)
       (andthen (touch_parent E (parent p)) (ret 0))))))))
     (\<lambda>c. inorder E (\<lambda>w. link_spec oldpath newpath t c (ftree_of E w)))
     (lost E t :: exn \<Rightarrow> ('s, 'h, 'z) fsworld_scheme \<Rightarrow> bool)"
proof (rule refine_start_good [OF assms tree_db [OF tree_pred_named]],
    rule hoare_andthen [OF refine_reads [OF reads_access safe_access before_tree]
      hoare_bind [OF refine_getnode_at [OF assms tree_db [OF tree_pred_at_dir [OF tree_pred_named]]]]])
  fix sctx :: scontext and pt n
  let ?L = "lost E t :: exn \<Rightarrow> ('s, 'h, 'z) fsworld_scheme \<Rightarrow> bool"
  let ?l = "linking E t oldpath newpath pt n :: ('s, 'h, 'z) fsworld_scheme \<Rightarrow> bool"
  let ?S = "\<lambda>c. inorder E (\<lambda>w. link_spec oldpath newpath t c (ftree_of E w))"
  have tree: "ftree_of E w = t" if "?l w" for w using that by (simp add: linking_def)
  have rest: "hoare (inorder E ?l) (andthen (addchild E (parent pt) (leaf pt) n) (andthen (touch_parent E (parent pt)) (ret 0))) ?S ?L"
  proof (cases "the_dir t newpath = Some (nid (parent pt)) \<and> leaf pt = the_leaf newpath
      \<and> fmodes t (nid n) \<noteq> None \<and> walk t (tokenize ''/'' oldpath) = Some (nid n)")
    case True
    have add: "hoare (inorder E ?l) (addchild E (parent pt) (leaf pt) n)
      (\<lambda>_. inorder E (\<lambda>w. fdirs t (nid (parent pt)) (leaf pt) = None
         \<and> ftree_of E w = put_name (nid (parent pt)) (leaf pt) (nid n) t)) ?L"
      by (rule refine_addchild [OF assms]) (simp add: linking_def)
    have "hoare (inorder E (\<lambda>w. fdirs t (nid (parent pt)) (leaf pt) = None
         \<and> ftree_of E w = put_name (nid (parent pt)) (leaf pt) (nid n) t))
       (andthen (touch_parent E (parent pt)) (ret 0)) ?S ?L"
    proof (cases "fdirs t (nid (parent pt)) (leaf pt) = None")
      case free: True
      then have spec: "link_spec oldpath newpath t 0 (put_name (nid (parent pt)) (leaf pt) (nid n) t)"
        using True unfolding link_spec_def by auto
      show ?thesis
        by (rule hoare_sys_pre [OF ends_spec [where S = "link_spec oldpath newpath t", OF refine_tail [OF assms] spec]]) simp
    qed (auto simp: hoare_def inorder_def)
    then show ?thesis by (rule hoare_andthen [OF add])
  qed (auto simp: hoare_def inorder_def linking_def)
  have "hoare (inorder E ?l) (andthen (stamp E n A_ctime)
       (andthen (addchild E (parent pt) (leaf pt) n) (andthen (touch_parent E (parent pt)) (ret 0)))) ?S ?L"
    by (rule hoare_andthen [OF track [OF triple_stamp [OF assms tree_pred_linking] kept_stamp [OF assms] tree] rest]) simp_all
  then show "hoare (inorder E (\<lambda>w. (at_dir E (named E) t newpath pt w \<and> ftree_of E w = t) \<and> typed E w n
       \<and> walk t (tokenize ''/'' oldpath) = Some (nid n))) (andthen (stamp E n A_ctime)
       (andthen (addchild E (parent pt) (leaf pt) n) (andthen (touch_parent E (parent pt)) (ret 0)))) ?S ?L"
    by (rule hoare_sys_pre) (auto simp: at_dir_def linking_def typed_def)
qed

section \<open>chmod\<close>

text \<open>The node a handler works on.\<close>

definition at_node :: "('s, 'h) env \<Rightarrow> ftree \<Rightarrow> string \<Rightarrow> node \<Rightarrow> ('s, 'h, 'z) world_scheme \<Rightarrow> bool" where
  "at_node E t p n w \<longleftrightarrow> ftree_of E w = t \<and> walk t (tokenize ''/'' p) = Some (nid n)"

lemma tree_pred_at_node: "tree_pred E (at_node E t p n)"
  unfolding at_node_def by (intro tree_pred_conj tree_pred_ftree tree_pred_const)

lemma at_node_tree: "at_node E t p n w \<Longrightarrow> ftree_of E w = t"
  by (simp add: at_node_def)

text \<open>The beginning of a handler with one path; \<open>P\<close> is what it needs to know of the databases besides the tree.\<close>

lemma refine_target_at:
  fixes E :: "('s, 'h) env" and P :: "('s, 'h, 'z) fsworld_scheme \<Rightarrow> bool"
  assumes "lawful E" and P: "db_pred E P"
    and tail: "\<And>sctx n. suid sctx = fst ctx \<Longrightarrow> hoare (inorder E (\<lambda>w. P w \<and> at_node E t p n w)) (f sctx n) Q (lost E t)"
  shows "hoare (inorder E (before E P t)) (bind (userctx E ctx) (\<lambda>sctx. bind (getnode_path E sctx p) (f sctx))) Q (lost E t)"
proof (rule hoare_bind [OF refine_caller [OF P]])
  fix sctx :: scontext
  show "hoare (inorder E (\<lambda>w. before E P t w \<and> suid sctx = fst ctx)) (bind (getnode_path E sctx p) (f sctx)) Q (lost E t)"
  proof (cases "suid sctx = fst ctx")
    case True
    have "hoare (inorder E (before E P t)) (bind (getnode_path E sctx p) (f sctx)) Q (lost E t)"
      by (rule hoare_bind [OF refine_getnode_at [OF assms(1) P] hoare_pre [OF tail [OF True]]])
        (auto simp: inorder_def at_node_def)
    then show ?thesis using True by simp
  qed (simp add: hoare_def inorder_def)
qed

lemma refine_target:
  fixes E :: "('s, 'h) env"
  assumes "lawful E" and "\<And>sctx n. hoare (inorder E (at_node E t p n)) (f sctx n) Q (lost E t)"
  shows "hoare (inorder E (before E (\<lambda>_. True) t)) (bind (userctx E ctx) (\<lambda>sctx. bind (getnode_path E sctx p) (f sctx))) Q
     (lost E t :: exn \<Rightarrow> ('s, 'h, 'z) fsworld_scheme \<Rightarrow> bool)"
  by (rule refine_target_at [OF assms(1) tree_db [OF tree_pred_True]]) (simp add: assms(2))

lemma at_node_put_mode:
  fixes E :: "('s, 'h) env"
  assumes "lawful E"
  shows "hoare (inorder E (\<lambda>w. at_node E t p n w \<and> mode_of E w (nid n) = Some old))
     (setattr E DNodes (nid n) A_mode (or (and m (not S_IFMT)) (and old S_IFMT)))
     (\<lambda>_. inorder E (\<lambda>w. ftree_of E w = put_mode (nid n) (or (and m (not S_IFMT)) (and old S_IFMT)) t))
     (lost E t :: exn \<Rightarrow> ('s, 'h, 'z) pworld_scheme \<Rightarrow> bool)"
proof -
  let ?m = "or (and m (not S_IFMT)) (and old S_IFMT)"
  let ?P = "\<lambda>w :: ('s, 'h, 'z) pworld_scheme. (at_node E t p n w \<and> mode_of E w (nid n) = Some old) \<and> fs_inv E w"
  have type: "S_ISDIR ?m = S_ISDIR old" by (rule S_ISDIR_type [OF chmod_type])
  have "hoare (inorder E ?P) (setattr E DNodes (nid n) A_mode ?m)
      (\<lambda>_. inorder E (\<lambda>w. ftree_of E w = put_mode (nid n) ?m t)) (lost E t)"
  proof (rule refine_setmode [OF assms])
    fix w assume P: "?P w"
    then show "entry E w = fdirs t \<and> (\<forall>j. j \<noteq> nid n \<longrightarrow> mode_of E w j = fmodes t j)" by (auto simp: at_node_def)
    show "S_ISDIR ?m" if "is_dir E w (nid n)" using P that type by (simp add: is_dir_def)
    show "refs E w (nid n) \<noteq> {}" if "S_ISDIR ?m" using P that type fs_inv_dir [of E w "nid n"] by (simp add: is_dir_def)
  qed
  then show ?thesis by (rule hoare_pre) (auto simp: inorder_def fsys_def)
qed

text \<open>Who may change the mode, and to what.\<close>

definition owned :: "('s, 'h) env \<Rightarrow> (nodeid \<Rightarrow> uid_t option) \<Rightarrow> ('s, 'h, 'z) world_scheme \<Rightarrow> bool" where
  "owned E own w \<longleftrightarrow> (\<lambda>i :: nodeid. wattr E w DNodes i A_uid) = own"

lemma db_pred_owned: "db_pred E (owned E own)"
  by (simp add: db_pred_def owned_def same_db_wattr)

lemma chmod_guard:
  fixes E :: "('s, 'h) env" and own :: "nodeid \<Rightarrow> uid_t option"
  assumes "lawful E" and "suid sctx = uid"
  shows "hoare (inorder E (\<lambda>w. owned E own w \<and> at_node E t p n w))
     (if suid sctx \<noteq> 0
      then bind (getattr E DNodes (nid n) A_gid) (\<lambda>fgid.
           bind (getattr E DNodes (nid n) A_uid) (\<lambda>fuid.
             if suid sctx \<noteq> fuid then ret None
             else if fgid \<notin> sgroups sctx then ret (Some (and mode (not S_ISGID)))
             else ret (Some mode)))
      else ret (Some mode))
     (\<lambda>allowed. inorder E (\<lambda>w. at_node E t p n w \<and> (\<forall>m. allowed = Some m \<longrightarrow> granted uid (own (nid n)) mode m)))
     (lost E t :: exn \<Rightarrow> ('s, 'h, 'z) fsworld_scheme \<Rightarrow> bool)"
  (is "hoare (inorder E ?P) ?m _ _")
proof (rule hoareI)
  have reads: "reads ?m" and safe: "safe ?m" by (intro reads_rules, intro safe_rules)
  fix w :: "('s, 'h, 'z) fsworld_scheme" and r and w'
  assume w: "inorder E ?P w"
  show "lost E t e w'" if "?m w = (Inl e, w')" for e
    by (rule hoare_Inl [OF refine_reads [OF reads safe] that w]) (simp add: at_node_def)
  show "inorder E (\<lambda>w. at_node E t p n w \<and> (\<forall>m. a = Some m \<longrightarrow> granted uid (own (nid n)) mode m)) w'"
    if run: "?m w = (Inr a, w')" for a
  proof -
    have own: "own (nid n) = wattr E w DNodes (nid n) A_uid" using w by (auto simp: inorder_def owned_def)
    have "w' = w" by (rule readsD [OF reads run])
    moreover have "granted uid (own (nid n)) mode m" if "a = Some m" for m
      using run that assms(2) own by (auto simp: granted_def bind_result getattr_Inr [OF assms(1)] split: if_splits)
    ultimately show ?thesis using w by (simp add: inorder_def)
  qed
qed

lemma refine_chmod:
  fixes E :: "('s, 'h) env"
  assumes "lawful E"
  shows "hoare (inorder E (before E (owned E own) t))
     (bind (userctx E ctx) (\<lambda>sctx.
     bind (getnode_path E sctx pathname) (\<lambda>n.
     bind (if suid sctx \<noteq> 0
           then bind (getattr E DNodes (nid n) A_gid) (\<lambda>fgid.
                bind (getattr E DNodes (nid n) A_uid) (\<lambda>fuid.
                  if suid sctx \<noteq> fuid then ret None
                  else if fgid \<notin> sgroups sctx then ret (Some (and mode (not S_ISGID)))
                  else ret (Some mode)))
           else ret (Some mode)) (\<lambda>allowed.
       case allowed of
         None \<Rightarrow> ret (- EPERM)
       | Some mode \<Rightarrow>
           andthen (stamp E n A_ctime)
           (bind (getattr E DNodes (nid n) A_mode) (\<lambda>old.
            andthen (setattr E DNodes (nid n) A_mode (or (and mode (not S_IFMT)) (and old S_IFMT)))
            (andthen (hash_invalidate E pathname)
            (ret 0))))))))
     (\<lambda>c. inorder E (\<lambda>w. chmod_spec (fst ctx) own pathname mode t c (ftree_of E w)))
     (lost E t :: exn \<Rightarrow> ('s, 'h, 'z) fsworld_scheme \<Rightarrow> bool)"
proof (rule refine_target_at [OF assms db_pred_owned], rule hoare_bind [OF chmod_guard [OF assms]], assumption)
  fix sctx :: scontext and n :: node and allowed :: "mode_t option"
  let ?L = "lost E t :: exn \<Rightarrow> ('s, 'h, 'z) fsworld_scheme \<Rightarrow> bool"
  let ?S = "\<lambda>c. inorder E (\<lambda>w. chmod_spec (fst ctx) own pathname mode t c (ftree_of E w))"
  let ?go = "\<lambda>m. andthen (stamp E n A_ctime) (bind (getattr E DNodes (nid n) A_mode) (\<lambda>old.
      andthen (setattr E DNodes (nid n) A_mode (or (and m (not S_IFMT)) (and old S_IFMT)))
            (andthen (hash_invalidate E pathname) (ret 0))))"
  have end': "hoare (inorder E (\<lambda>w. at_node E t pathname n w \<and> mode_of E w (nid n) = Some old))
      (andthen (setattr E DNodes (nid n) A_mode (or (and m (not S_IFMT)) (and old S_IFMT)))
            (andthen (hash_invalidate E pathname) (ret 0))) ?S ?L" if ok: "granted (fst ctx) (own (nid n)) mode m" for old and m :: mode_t
  proof (cases "walk t (tokenize ''/'' pathname) = Some (nid n) \<and> fmodes t (nid n) = Some old")
    case True
    let ?m = "or (and m (not S_IFMT)) (and old S_IFMT)"
    have spec: "chmod_spec (fst ctx) own pathname mode t 0 (put_mode (nid n) ?m t)"
      unfolding chmod_spec_def using True ok by blast
    have inval: "hoare (inorder E (\<lambda>w. ftree_of E w = put_mode (nid n) ?m t)) (hash_invalidate E pathname)
        (\<lambda>_. inorder E (\<lambda>w. ftree_of E w = put_mode (nid n) ?m t)) ?L"
      by (rule refine_invalidate [OF tree_pred_ftree])
    show ?thesis
      by (rule hoare_andthen [OF at_node_put_mode [OF assms] hoare_andthen [OF inval
          ends_spec [where S = "chmod_spec (fst ctx) own pathname mode t", OF refine_ret spec]]])
  qed (auto simp: hoare_def inorder_def at_node_def)
  have go: "hoare (inorder E (at_node E t pathname n)) (?go m) ?S ?L" if "granted (fst ctx) (own (nid n)) mode m" for m
    by (rule hoare_andthen [OF track [OF triple_stamp [OF assms tree_pred_at_node] kept_stamp [OF assms] at_node_tree]
        hoare_bind [OF refine_getattr [OF assms at_node_tree] end' [OF that]]]) simp_all
  have no: "hoare (inorder E (at_node E t pathname n)) (ret (- EPERM)) ?S ?L"
    by (rule refine_refused [OF at_node_tree]) (simp_all add: chmod_spec_def)
  let ?P = "\<lambda>w :: ('s, 'h, 'z) fsworld_scheme. at_node E t pathname n w \<and> (\<forall>m. allowed = Some m \<longrightarrow> granted (fst ctx) (own (nid n)) mode m)"
  show "hoare (inorder E ?P) (case allowed of None \<Rightarrow> ret (- EPERM) | Some m \<Rightarrow> ?go m) ?S ?L"
  proof (cases allowed)
    case None
    then show ?thesis using no by simp
  next
    case (Some m)
    then show ?thesis using go [of m] by (cases "granted (fst ctx) (own (nid n)) mode m") (simp_all add: hoare_def inorder_def)
  qed
qed

end
