(* ===== verification/Fs_Success.thy ===== *)
theory Fs_Success
  imports Fs_Refine_Create
begin

text \<open>
  The other half of the specification: when the path leads to a directory, the name is free and
  the caller is the superuser, the handlers that create nodes do succeed.
\<close>

section \<open>The context of the caller\<close>

text \<open>The system knows the groups of every user that it has a name for.\<close>

definition groups_known :: "('s, 'h) env \<Rightarrow> uid_t \<Rightarrow> gid_t \<Rightarrow> bool" where
  "groups_known E uid gid \<longleftrightarrow>
     (\<forall>h name. p_getpwuid (sys E) uid h = Some name \<longrightarrow> p_getgrouplist (sys E) name gid h \<noteq> None)"

lemma sure_context: "groups_known E uid gid \<Longrightarrow> sure (new_scontext E uid gid)"
  unfolding sure_def groups_known_def new_scontext_def by (auto split: option.splits) (metis option.distinct(1))

lemma sure_ret: "sure (ret a)" and sure_gets: "sure (gets f)" and sure_upd_sc: "sure (upd_sc g)"
  by (simp_all add: sure_def)

lemma sure_andthen: "sure m \<Longrightarrow> sure k \<Longrightarrow> sure (andthen m k)"
  unfolding andthen_def by (rule sure_bind)

lemma sure_handle: "sure m \<Longrightarrow> sure (handle m h)"
  by (auto simp: sure_def handle_def split: prod.splits sum.splits) (metis fst_conv sum.disc(1))+

lemma sure_option: "sure m \<Longrightarrow> (\<And>a. sure (f a)) \<Longrightarrow> sure (case r of None \<Rightarrow> m | Some a \<Rightarrow> f a)"
  by (simp split: option.split)

lemma sure_uptodate: "sure (sc_uptodate E)"
  unfolding sure_def using sc_uptodate_form by (metis fst_conv sum.disc(2))

lemma sure_sc_get: "groups_known E uid gid \<Longrightarrow> sure (sc_get E uid gid)"
  unfolding sc_get_def sc_lookup_def
  by (intro sure_andthen sure_bind sure_handle sure_option sure_uptodate sure_context sure_upd_sc sure_ret sure_gets)

lemma sure_userctx: "groups_known E (fst ctx) (snd ctx) \<Longrightarrow> sure (userctx E ctx)"
  unfolding userctx_def by (rule sure_sc_get)

lemma succ_userctx:
  assumes "db_pred E P" and "groups_known E (fst ctx) (snd ctx)"
  shows "hoare (inorder E (before E P t)) (userctx E ctx) (\<lambda>s. inorder E (\<lambda>w. before E P t w \<and> suid s = fst ctx)) R"
proof (rule sure_hoare [OF _ sure_userctx [OF assms(2)]], rule hoareI)
  note T = triple_userctx_at [OF cache_pred_before [OF assms(1)]]
  fix w s w' assume w: "inorder E (before E P t) w" and run: "userctx E ctx w = (Inr s, w')"
  have "sc_inv (scache w)" using w by (simp add: inorder_def fsys_def caches_ok_def)
  then have "suid s = fst ctx"
    by (cases rule: sc_get_cases [of w E "fst ctx" "snd ctx"])
      (use run in \<open>auto simp: userctx_def sctx_for_def\<close>)
  then show "inorder E (\<lambda>w. before E P t w \<and> suid s = fst ctx) w'"
    using hoare_Inr [OF T run w] by (simp add: inorder_def)
qed (rule hoare_Inl [OF triple_userctx_at [OF cache_pred_before [OF assms(1)]]])

section \<open>The directory of the path\<close>

text \<open>The path of the directory leads to a directory, in which the name is free.\<close>

definition free_path :: "('s, 'h) env \<Rightarrow> string \<Rightarrow> ('s, 'h, 'z) world_scheme \<Rightarrow> bool" where
  "free_path E p w \<longleftrightarrow> (\<exists>d. resolve E w (tokenize ''/'' (fst (path_split p))) = Some d \<and> is_dir E w d
     \<and> entry E w d (the_leaf p) = None)"

lemma db_pred_free: "db_pred E (free_path E p)"
  by (simp add: db_pred_def free_path_def resolve_same_db same_db_wattr same_db_is_dir)

lemma root_reaches:
  assumes "lawful E" and "good_cache E w" and "suid sctx = 0" and d: "resolve E w (tokenize ''/'' p) = Some d" and "is_dir E w d"
  shows "fst (getnode_path E sctx p w) = Inr \<lparr>nid = d, nkind = KDirectory\<rparr>"
proof -
  let ?ts = "tokenize ''/'' p"
  obtain m where m: "mode_of E w d = Some m" "S_ISDIR m" using assms(5) by (auto simp: is_dir_def)
  have "\<exists>i. resolve E w (take k ?ts) = Some i \<and> may_search E w sctx i" for k
    using resolve_take [of E w k ?ts] d assms(3) by (cases "resolve E w (take k ?ts)") (auto simp: may_search_def)
  moreover have "kind_of m = KDirectory" using m(2) by (simp add: kind_of_def S_ISDIR_def S_ISREG_def S_ISLNK_def)
  ultimately have "null_result E w sctx ?ts \<lparr>nid = d, nkind = KDirectory\<rparr>"
    using d m(1) by (simp add: null_result_def)
  then show ?thesis using assms(1,2) by (simp add: hash_getnode_result good_cache_def)
qed

lemma succ_path:
  fixes E :: "('s, 'h) env" and P :: "('s, 'h, 'z) pworld_scheme \<Rightarrow> bool"
  assumes "lawful E" and P: "db_pred E P"
  shows "hoare (inorder E (\<lambda>w. before E (\<lambda>w. P w \<and> free_path E p w) t w \<and> suid sctx = 0)) (path_new (getnode_path E) sctx p)
     (\<lambda>pt. inorder E (\<lambda>w. at_dir E P t p pt w \<and> fdirs t (nid (parent pt)) (leaf pt) = None)) R"
proof (rule hoareI)
  fix w pt w'
  let ?P = "\<lambda>w. P w \<and> free_path E p w"
  assume w: "inorder E (\<lambda>w. before E ?P t w \<and> suid sctx = 0) w" and run: "path_new (getnode_path E) sctx p w = (Inr pt, w')"
  have "db_pred E ?P" by (intro db_pred_conj P db_pred_free)
  moreover have "inorder E (before E ?P t) w" using w by (simp add: inorder_def)
  ultimately have at: "inorder E (at_dir E ?P t p pt) w'" by (rule hoare_Inr [OF refine_path [OF assms(1)] run])
  obtain d where d: "resolve E w' (tokenize ''/'' (fst (path_split p))) = Some d" "entry E w' d (the_leaf p) = None"
    using at by (auto simp: inorder_def at_dir_def free_path_def)
  have "nid (parent pt) = d" using resolve_walk [OF d(1)] at by (auto simp: inorder_def at_dir_def the_dir_def)
  then show "inorder E (\<lambda>w. at_dir E P t p pt w \<and> fdirs t (nid (parent pt)) (leaf pt) = None) w'"
    using at d(2) by (auto simp: inorder_def at_dir_def)
next
  fix w e and w' :: "('s, 'h, 'z) pworld_scheme"
  assume w: "inorder E (\<lambda>w. before E (\<lambda>w. P w \<and> free_path E p w) t w \<and> suid sctx = 0) w"
    and run: "path_new (getnode_path E) sctx p w = (Inl e, w')"
  obtain d where d: "resolve E w (tokenize ''/'' (fst (path_split p))) = Some d" "is_dir E w d"
    using w by (auto simp: inorder_def before_def free_path_def)
  have "fst (getnode_path E sctx (fst (path_split p)) w) = Inr \<lparr>nid = d, nkind = KDirectory\<rparr>"
    by (rule root_reaches [OF assms(1) _ _ d]) (use w in \<open>auto simp: inorder_def before_def\<close>)
  then obtain w1 where "getnode_path E sctx (fst (path_split p)) w = (Inr \<lparr>nid = d, nkind = KDirectory\<rparr>, w1)"
    by (metis prod.collapse)
  then have "False" using run by (cases "path_split p") (simp add: path_new_def cast_def)
  then show "R e w'" ..
qed

section \<open>The new node\<close>

lemma root_creates:
  assumes "lawful E" and inv: "fs_inv E w" and ids: "ids_left E w" and "suid sctx = 0"
    and d: "is_dir E w (nid (parent pt))" and free: "entry E w (nid (parent pt)) (leaf pt) = None"
  shows "\<not> isl (fst (path_create E k pt sctx w))"
proof -
  obtain n w1 where cr: "create_kind E k w = (Inr n, w1)" "created E (nid n) w w1" "fs_inv E w1" "new_node E n w1"
    using create_kind_form [OF assms(1) inv ids, of k] by blast
  have dir: "is_dir E w1 (nid (parent pt))" "nid (parent pt) \<noteq> nid n" using created_is_dir [OF cr(2) d] by simp_all
  have "attr E w DDirectories (nid (parent pt)) (leaf pt) = None"
    using free link_invD(2) [OF fs_inv_link [OF inv], of "nid (parent pt)" "leaf pt"] by blast
  then have free1: "attr E w1 DDirectories (nid (parent pt)) (leaf pt) = None" using cr(2) dir by (simp add: created_def)
  obtain k' where k': "nlink_of E w1 (nid n) = Some k'" using cr(4) by (auto simp: new_node_def)
  have "fst (addchild E (parent pt) (leaf pt) n w1) = Inr ()"
    using addchild_new [OF assms(1) k' free1] by simp
  then obtain w2 where "addchild E (parent pt) (leaf pt) n w1 = (Inr (), w2)" by (metis prod.collapse)
  then show ?thesis using cr(1) by (simp add: path_create_def access_root [OF assms(4)])
qed

lemma succ_create:
  fixes E :: "('s, 'h) env"
  assumes "lawful E" and "suid sctx = 0"
  shows "hoare (inorder E (\<lambda>w. at_dir E (roomy E) t p pt w \<and> fdirs t (nid (parent pt)) (leaf pt) = None)) (path_create E k pt sctx)
     (\<lambda>n. inorder E (made E k (nid (parent pt)) n t p)) (R :: exn \<Rightarrow> ('s, 'h, 'z) pworld_scheme \<Rightarrow> bool)"
proof (rule hoareI)
  fix w n and w' :: "('s, 'h, 'z) pworld_scheme" assume w: "inorder E (\<lambda>w. at_dir E (roomy E) t p pt w \<and> fdirs t (nid (parent pt)) (leaf pt) = None) w"
    and run: "path_create E k pt sctx w = (Inr n, w')"
  have "inorder E (at_dir E (roomy E) t p pt) w" using w by (simp add: inorder_def)
  then show "inorder E (made E k (nid (parent pt)) n t p) w'" by (rule hoare_Inr [OF refine_path_create [OF assms(1)] run])
next
  fix w e and w' :: "('s, 'h, 'z) pworld_scheme" assume w: "inorder E (\<lambda>w. at_dir E (roomy E) t p pt w \<and> fdirs t (nid (parent pt)) (leaf pt) = None) w"
    and run: "path_create E k pt sctx w = (Inl e, w')"
  have "\<not> isl (fst (path_create E k pt sctx w))"
    by (rule root_creates [OF assms(1) _ _ assms(2)]) (use w in \<open>auto simp: inorder_def fsys_def at_dir_def roomy_def\<close>)
  then show "R e w'" using run by simp
qed

text \<open>The superuser creates a node in an existing directory under a free name.\<close>

definition may_create :: "('s, 'h) env \<Rightarrow> caller \<Rightarrow> string \<Rightarrow> ('s, 'h, 'z) pworld_scheme \<Rightarrow> bool" where
  "may_create E ctx p w \<longleftrightarrow> fsys E w \<and> roomy E w \<and> good_cache E w \<and> fst ctx = 0 \<and> groups_known E (fst ctx) (snd ctx)
     \<and> free_path E p w"

lemma ends_zero: "hoare P m (ends E 0 T) R \<Longrightarrow> hoare P m (\<lambda>c _. c = 0) R"
  by (erule hoare_weaken) (auto simp: inorder_def)

lemma succ_handler:
  fixes E :: "('s, 'h) env" and w :: "('s, 'h, 'z) fsworld_scheme"
  assumes "lawful E" and "may_create E ctx p w"
    and tail: "\<And>pt n t. hoare (inorder E (made E k (nid (parent pt)) n t p)) (f pt n) (\<lambda>c _. c = 0)
       (\<lambda>_ (_ :: ('s, 'h, 'z) fsworld_scheme). False)"
  shows "\<exists>w'. handler E (bind (userctx E ctx) (\<lambda>sctx. bind (path_new (getnode_path E) sctx p) (\<lambda>pt.
     bind (path_create E k pt sctx) (f pt)))) w = (Inr 0, w')"
proof -
  let ?t = "ftree_of E w"
  let ?P = "\<lambda>w. roomy E w \<and> free_path E p w"
  let ?no = "\<lambda>_ (_ :: ('s, 'h, 'z) fsworld_scheme). False"
  let ?zero = "\<lambda>c (_ :: ('s, 'h, 'z) fsworld_scheme). c = 0"
  have root: "fst ctx = 0" and known: "groups_known E (fst ctx) (snd ctx)" using assms(2) unfolding may_create_def by blast+
  have P: "db_pred E ?P" by (intro db_pred_conj db_pred_roomy db_pred_free)
  have rest: "hoare (inorder E (\<lambda>w. before E ?P ?t w \<and> suid sctx = fst ctx)) (bind (path_new (getnode_path E) sctx p) (\<lambda>pt.
     bind (path_create E k pt sctx) (f pt))) ?zero ?no" for sctx
  proof (cases "suid sctx = 0")
    case True
    show ?thesis
      by (rule hoare_pre [OF hoare_bind [OF succ_path [OF assms(1) db_pred_roomy] hoare_bind [OF succ_create [OF assms(1) True] tail]]])
        (auto simp: inorder_def root)
  qed (simp add: hoare_def inorder_def root)
  have scope: "hoare (inorder E (before E ?P ?t)) (with_fstxn E (bind (userctx E ctx) (\<lambda>sctx. bind (path_new (getnode_path E) sctx p) (\<lambda>pt.
     bind (path_create E k pt sctx) (f pt))))) ?zero ?no"
    by (rule with_fstxn_hoare [OF inorder_begin [OF assms(1) cache_pred_before [OF P]] hoare_bind [OF succ_userctx [OF P known] rest]]) simp_all
  have w: "inorder E (before E ?P ?t) w" using assms(2) by (simp add: may_create_def inorder_def before_def)
  obtain r w' where run: "with_fstxn E (bind (userctx E ctx) (\<lambda>sctx. bind (path_new (getnode_path E) sctx p) (\<lambda>pt.
     bind (path_create E k pt sctx) (f pt)))) w = (r, w')" by fastforce
  have "r = Inr 0"
    using hoare_Inr [OF scope, of w _ w'] hoare_Inl [OF scope, of w _ w'] run w by (cases r) auto
  then show ?thesis using run by (simp add: handler_def)
qed

end
