(* ===== verification/Fs_Files.thy ===== *)
theory Fs_Files
  imports Fs
begin

text \<open>
  The handlers of \<^verbatim>\<open>offlinefs/fs.cxx\<close> for open files: a table of \<open>MAX_OPEN_FILES\<close> sources,
  indexed by the file handle that \<^verbatim>\<open>open\<close> hands out. Two threads never interleave in the
  model, so that the second check of a slot under the mutex repeats the first.
\<close>

section \<open>The table\<close>

definition free_slot :: "(nat \<Rightarrow> source option) \<Rightarrow> nat option" where
  "free_slot files = find (\<lambda>i. files i = None) [0..<MAX_OPEN_FILES]"

text \<open>\<^verbatim>\<open>fi->fh>=MAX_OPEN_FILES || !openFiles[fi->fh]\<close> is \<open>None\<close>.\<close>

definition file_at :: "64 word \<Rightarrow> ('s, 'h, 'z, source option) fop" where
  "file_at fh = gets (\<lambda>w. if MAX_OPEN_FILES \<le> unat fh then None else open_files w (unat fh))"

definition set_file :: "nat \<Rightarrow> source option \<Rightarrow> ('s, 'h, 'z, unit) fop" where
  "set_file i s = modify (\<lambda>w. w\<lparr>open_files := (open_files w)(i := s)\<rparr>)"

section \<open>Opening and closing\<close>

text \<open>The second component is the new value of \<^verbatim>\<open>fi->fh\<close>, if it is set.\<close>

definition fs_open :: "('s, 'h) env \<Rightarrow> caller \<Rightarrow> string \<Rightarrow> 32 word \<Rightarrow> ('s, 'h, 'z, int \<times> nat option) fop" where
  "fs_open E ctx pathname flags =
     handle (with_fstxn E (
       bind (userctx E ctx) (\<lambda>sctx.
       bind (getnode_path E sctx pathname) (\<lambda>n0.
       bind (cast KFile n0) (\<lambda>n.
       andthen (whenM (and flags O_ACCMODE = O_RDONLY \<or> and flags O_ACCMODE = O_RDWR) (access E sctx n R_OK))
       (andthen (whenM (and flags O_ACCMODE = O_WRONLY \<or> and flags O_ACCMODE = O_RDWR) (access E sctx n W_OK))
       (bind (getsource E n pathname flags) (\<lambda>s.
        bind (gets (\<lambda>w. free_slot (open_files w))) (\<lambda>slot.
          case slot of
            Some i \<Rightarrow> andthen (set_file i (Some s)) (ret (0, Some i))
          | None \<Rightarrow> andthen (single_close E s) (ret (- ENFILE, None)))))))))))
       (\<lambda>e. ret (if e = EBadCast KFile then - EISDIR else errcode e, None))"

definition fs_release :: "('s, 'h) env \<Rightarrow> 64 word \<Rightarrow> ('s, 'h, 'z, int) fop" where
  "fs_release E fh =
     bind (file_at fh) (\<lambda>f.
       case f of None \<Rightarrow> ret (- EBADF)
       | Some s \<Rightarrow> andthen (single_close E s) (andthen (set_file (unat fh) None) (ret 0)))"

section \<open>Operations on an open file\<close>

text \<open>None of them has a \<^verbatim>\<open>try\<close> block. The fields the source updates are stored in the table.\<close>

definition fs_read :: "('s, 'h) env \<Rightarrow> 64 word \<Rightarrow> nat \<Rightarrow> off_t \<Rightarrow> ('s, 'h, 'z, int \<times> bytes) fop" where
  "fs_read E fh nbyte offset =
     bind (file_at fh) (\<lambda>f.
       case f of None \<Rightarrow> ret (- EBADF, [])
       | Some s \<Rightarrow> bind (single_read E s nbyte offset) (\<lambda>(r, s').
           andthen (set_file (unat fh) (Some s')) (ret r)))"

definition fs_write :: "('s, 'h) env \<Rightarrow> 64 word \<Rightarrow> bytes \<Rightarrow> off_t \<Rightarrow> ('s, 'h, 'z, int) fop" where
  "fs_write E fh buf offset =
     bind (file_at fh) (\<lambda>f.
       case f of None \<Rightarrow> ret (- EBADF)
       | Some s \<Rightarrow> bind (single_write E s buf offset) (\<lambda>(r, s').
           andthen (set_file (unat fh) (Some s')) (ret r)))"

definition fs_flush :: "('s, 'h) env \<Rightarrow> 64 word \<Rightarrow> ('s, 'h, 'z, int) fop" where
  "fs_flush E fh =
     bind (file_at fh) (\<lambda>f. case f of None \<Rightarrow> ret (- EBADF) | Some s \<Rightarrow> single_flush E s)"

definition fs_fsync :: "('s, 'h) env \<Rightarrow> int \<Rightarrow> 64 word \<Rightarrow> ('s, 'h, 'z, int) fop" where
  "fs_fsync E datasync fh =
     bind (file_at fh) (\<lambda>f. case f of None \<Rightarrow> ret (- EBADF) | Some s \<Rightarrow> single_fsync E s datasync)"

text \<open>
  \<^verbatim>\<open>truncate\<close> opens a source of its own; it commits its transactions before it uses it. The
  source is destroyed when the block is left, and its return code is ignored.
\<close>

definition fs_truncate :: "('s, 'h) env \<Rightarrow> caller \<Rightarrow> string \<Rightarrow> off_t \<Rightarrow> ('s, 'h, 'z, int) fop" where
  "fs_truncate E ctx pathname len = handler E (
     bind (userctx E ctx) (\<lambda>sctx.
     bind (getnode_path E sctx pathname) (\<lambda>n0.
     bind (cast KFile n0) (\<lambda>n.
     andthen (access E sctx n W_OK)
     (andthen (stamp E n A_mtime)
     (andthen (stamp E n A_ctime)
     (bind (getsource E n pathname O_WRONLY) (\<lambda>s.
      andthen (modify (fstxn_commit E))
      (andthen (handle (bind (single_ftruncate E s len) (\<lambda>_. ret ()))
         (\<lambda>e. andthen (single_close E s) (throw e)))
      (andthen (single_close E s)
      (ret 0)))))))))))"

section \<open>Statistics\<close>

record statvfs_buf =
  f_bsize :: nat
  f_frsize :: nat
  f_blocks :: "64 word"
  f_bfree :: "64 word"
  f_bavail :: "64 word"
  f_namemax :: nat

fun stats_loop :: "('s, 'h) env \<Rightarrow> mediumid list \<Rightarrow> stats \<Rightarrow> ('s, 'h, 'z, stats) op" where
  "stats_loop E [] st = ret st"
| "stats_loop E (i # is) st =
     bind (getmedium E i) (\<lambda>m.
     bind (getstats E m) (\<lambda>st1.
     stats_loop E is \<lparr>total = total st + total st1, free = free st + free st1\<rparr>))"

definition fs_statfs :: "('s, 'h) env \<Rightarrow> ('s, 'h, 'z, int \<times> statvfs_buf option) fop" where
  "fs_statfs E =
     handle (with_fstxn E (
       bind (getregisters E DMedia) (\<lambda>ms.
       bind (stats_loop E ms \<lparr>total = 0, free = 0\<rparr>) (\<lambda>st.
       ret (0, Some \<lparr>f_bsize = 4096, f_frsize = 4096, f_blocks = total st div 4096,
         f_bfree = free st div 4096, f_bavail = free st div 4096, f_namemax = 0\<rparr>)))))
       (\<lambda>e. ret (errcode e, None))"

end
