(* ===== verification/Fs_File_Laws.thy ===== *)
theory Fs_File_Laws
  imports Fs_Attr_Laws Fs_Files
begin

text \<open>
  The handlers of open files keep the file system in order, and the table of open files keeps
  its bounds.
\<close>

section \<open>Computations on the host\<close>

lemma host_only_same_db: "host_only w w' \<Longrightarrow> same_db E w w'"
  by (auto simp: host_only_def same_db_def)

lemma host_only_more: "host_only w w' \<Longrightarrow> world.more w' = world.more w"
  by (auto simp: host_only_def)

lemma ordered_safe:
  assumes "safe m"
  shows "ordered E m"
proof -
  have step: "inorder E (\<lambda>_. True) w'" if w: "inorder E (\<lambda>_. True) w" and run: "m w = (r, w')" for w r w'
  proof -
    have h: "host_only w w'" by (rule safeD(1) [OF assms run])
    have "caches_ok E w'" using more_caches(3) [OF host_only_more [OF h]] w by (simp add: inorder_def fsys_def)
    then show ?thesis
      by (rule sys_same_db [OF tree_db [OF tree_pred_True] host_only_same_db [OF h] _ w])
  qed
  show ?thesis
  proof (rule hoareI)
    fix w e w' assume w: "inorder E (\<lambda>_. True) w" and run: "m w = (Inl e, w')"
    then show "failed E e w'" using step [OF w run] safeD(2) [OF assms run] by (auto simp: failed_def inorder_def)
  qed (rule step)
qed

lemma safe_mkdir_loop [safe_rules]: "safe (mkdir_loop E path pos)"
proof (induction E path pos rule: mkdir_loop.induct)
  case (1 E path pos)
  show ?case
  proof (cases "find_from (\<lambda>c. c = CHR ''/'') path pos")
    case (Some newpos)
    show ?thesis
      unfolding mkdir_loop.simps [of E path pos] Some option.case
      by (intro safe_rules 1 [OF Some]) simp_all
  next
    case None
    show ?thesis
      unfolding mkdir_loop.simps [of E path pos] None option.case by (rule safe_ret)
  qed
qed

lemma safe_chunk_open [safe_rules]: "safe (chunk_open E path mode)"
  unfolding chunk_open_def by (intro safe_rules) simp_all

lemma safe_chunk_close [safe_rules]: "safe (chunk_close E fd)"
  unfolding chunk_close_def by (intro safe_rules)

lemma safe_single_close [safe_rules]: "safe (single_close E s)"
  unfolding single_close_def by (intro safe_rules)

lemma safe_getchunk [safe_rules]: "safe (getchunk E m phid mode)"
  unfolding getchunk_def insert_getchunk_def directory_getchunk_def
  by (cases "mclass m") (simp_all, (intro safe_rules)+)

lemma safe_source_getsource [safe_rules]: "safe (source_getsource E f mode)"
  unfolding source_getsource_def single_open_def by (intro safe_rules) simp_all

lemma safe_chunk_ops [safe_rules]: "safe (chunk_read E fd n off)" "safe (chunk_write E fd b off)"
  "safe (chunk_fsync E fd ds)" "safe (chunk_ftruncate E fd len)"
  unfolding chunk_read_def chunk_write_def chunk_fsync_def chunk_ftruncate_def by (intro safe_rules)+

lemma reads_getmedium [reads_rules]: "reads (getmedium E i)"
  unfolding getmedium_def by (intro reads_rules)

lemma find_label_safe:
  "safe (find_label E label is)" and reads_find_label [reads_rules]: "reads (find_label E label is)"
  by (induction "is")
    (simp_all add: reads_throw safe_throw,
     (intro safe_rules; simp)?, (intro reads_rules; simp)?)

lemma getregisters_safe: "safe (getregisters E d)"
  by (rule safeI) (auto simp: getregisters_def scan_result_def split: prod.splits option.splits if_splits)

lemma getmedium_label_safe [safe_rules]: "safe (getmedium_label E label)"
  unfolding getmedium_label_def by (intro safe_rules getregisters_safe find_label_safe)

section \<open>Sources\<close>

lemma ordered_scope [ordered_rules]:
  "lawful E \<Longrightarrow> ordered E m \<Longrightarrow> ordered E (with_fstxn E m)"
  by (rule triple_scope [OF _ tree_db [OF tree_pred_True]])

lemma ordered_handle [ordered_rules]:
  assumes "ordered E m" and "\<And>e. e \<noteq> EStuck \<Longrightarrow> ordered E (h e)"
  shows "ordered E (handle m h)"
proof (rule hoare_handle [OF assms(1)])
  show "hoare (failed E e) (h e) (\<lambda>_. inorder E (\<lambda>_. True)) (failed E)" if "e \<noteq> EStuck" for e
    using assms(2) [OF that] by (rule hoare_pre) (simp add: failed_def inorder_def)
qed simp

lemma ordered_throw: "e \<noteq> EStuck \<Longrightarrow> ordered E (throw e)"
  by (rule ordered_safe [OF safe_throw])

lemma ordered_missing: "ordered E k \<Longrightarrow> e \<noteq> EStuck \<Longrightarrow> ordered E (on_missing b k e)"
  by (auto simp: on_missing_def split: exn.splits intro: ordered_throw)

lemma ordered_time [ordered_rules]: "ordered E (time_now E)"
  by (rule triple_time [OF tree_db [OF tree_pred_True]])

lemmas source_defs = single_read_def single_write_def single_flush_def single_fsync_def single_ftruncate_def

lemma source_names [simp]: "A_size \<noteq> A_nlink" "A_size \<noteq> A_mode" "A_atime \<noteq> A_nlink" "A_atime \<noteq> A_mode"
  "A_mtime \<noteq> A_nlink" "A_mtime \<noteq> A_mode"
  by (simp_all add: A_defs)

lemma ordered_sources [ordered_rules]:
  assumes "lawful E"
  shows "ordered E (single_read E s n off)" and "ordered E (single_write E s b off)"
    and "ordered E (single_flush E s)" and "ordered E (single_fsync E s ds)" and "ordered E (single_ftruncate E s len)"
proof -
  show flush: "ordered E (single_flush E s)"
    unfolding single_flush_def by (intro ordered_rules assms) simp_all
  show "ordered E (single_read E s n off)" and "ordered E (single_fsync E s ds)"
    and "ordered E (single_ftruncate E s len)"
    unfolding source_defs by (intro ordered_rules assms ordered_safe [OF safe_chunk_ops(1)] ordered_safe [OF safe_chunk_ops(3)]
        ordered_safe [OF safe_chunk_ops(4)] flush [unfolded single_flush_def]; simp)+
  show "ordered E (single_write E s b off)"
    unfolding single_write_def Let_def
    by (intro ordered_rules ordered_safe [OF safe_chunk_ops(2)])
qed

section \<open>The handlers\<close>

lemma ordered_gets [ordered_rules]: "ordered E (gets f)"
  by (rule ordered_safe [OF safe_gets])

lemma ordered_getsource [ordered_rules]:
  assumes "lawful E"
  shows "ordered E (getsource E f phid flags)"
  unfolding getsource_def addfile_def
  by (intro ordered_handle ordered_missing ordered_rules assms ordered_safe [OF safe_source_getsource]
      ordered_safe [OF getmedium_label_safe]) (simp_all add: A_defs)

lemma ordered_set_file [ordered_rules]: "ordered E (set_file i s)"
proof (rule hoareI)
  fix w :: "('a, 'b, 'c) fsworld_scheme" and a w'
  assume w: "inorder E (\<lambda>_. True) w" and "set_file i s w = (Inr a, w')"
  then have w': "w' = w\<lparr>open_files := (open_files w)(i := s)\<rparr>" by (simp add: set_file_def)
  show "inorder E (\<lambda>_. True) w'"
    by (rule sys_same_db [OF tree_db [OF tree_pred_True] _ _ w])
      (use w in \<open>simp_all add: w' same_db_def inorder_def fsys_def caches_ok_def pc_inv_def\<close>)
qed (simp add: set_file_def)

lemma ordered_file_at [ordered_rules]: "ordered E (file_at fh)"
  unfolding file_at_def by (rule ordered_gets)

lemma ordered_close [ordered_rules]: "ordered E (single_close E' s)"
  by (rule ordered_safe [OF safe_single_close])

lemma ordered_commit:
  assumes "lawful E"
  shows "ordered E (modify (fstxn_commit E))"
proof (rule hoare_modify)
  fix w :: "('a, 'b, 'c) pworld_scheme" assume w: "inorder E (\<lambda>_. True) w"
  show "inorder E (\<lambda>_. True) (fstxn_commit E w)"
    by (rule sys_same_db [OF tree_db [OF tree_pred_True] same_db_commit [OF assms] _ w])
      (use w in \<open>simp add: inorder_def fsys_def more_caches(3) [OF more_txn(2)]\<close>)
qed


lemma open_ordered:
  assumes "lawful E"
  shows "ordered E (
       bind (userctx E ctx) (\<lambda>sctx.
       bind (getnode_path E sctx pathname) (\<lambda>n0.
       bind (cast KFile n0) (\<lambda>n.
       andthen (whenM (and flags O_ACCMODE = O_RDONLY \<or> and flags O_ACCMODE = O_RDWR) (access E sctx n R_OK))
       (andthen (whenM (and flags O_ACCMODE = O_WRONLY \<or> and flags O_ACCMODE = O_RDWR) (access E sctx n W_OK))
       (bind (getsource E n pathname flags) (\<lambda>s.
        bind (gets (\<lambda>w. free_slot (open_files w))) (\<lambda>slot.
          case slot of
            Some i \<Rightarrow> andthen (set_file i (Some s)) (ret (0, Some i))
          | None \<Rightarrow> andthen (single_close E s) (ret (- ENFILE, None))))))))))"
  by (rule ordered_target [OF assms], intro ordered_rules assms)

lemma truncate_ordered:
  assumes "lawful E"
  shows "ordered E (
     bind (userctx E ctx) (\<lambda>sctx.
     bind (getnode_path E sctx pathname) (\<lambda>n0.
     bind (cast KFile n0) (\<lambda>n.
     andthen (access E sctx n W_OK)
     (andthen (stamp E n A_mtime)
     (andthen (stamp E n A_ctime)
     (bind (getsource E n pathname O_WRONLY) (\<lambda>s.
      andthen (modify (fstxn_commit E))
      (andthen (handle (bind (single_ftruncate E s len) (\<lambda>_. ret ()))
         (\<lambda>e. andthen (single_close E s) (throw e)))
      (andthen (single_close E s)
      (ret 0)))))))))))"
  by (rule ordered_target [OF assms], intro ordered_rules ordered_handle ordered_throw ordered_commit assms) simp_all

end
