(* ===== verification/Initial_Fs.thy ===== *)
theory Initial_Fs
  imports Path_Ops
begin

text \<open>
  The initial database (\<^verbatim>\<open>FsDb::rebuild\<close>): it satisfies the invariant of the tree, and its
  only node is the root directory.
\<close>

section \<open>The empty databases\<close>

lemma empty_attr: "dview E w d = Map.empty \<Longrightarrow> attr E w d i n = None"
  by (simp add: attr_def)

lemma empty_fs_inv:
  assumes "\<And>d. dview E w d = Map.empty"
  shows "fs_inv E w" and "ids_left E w"
proof -
  have none: "attr E w d i n = None" for d and i :: "'w::len word" and n
    by (rule empty_attr [OF assms])
  show "ids_left E w" by (simp add: ids_left_def none)
  have "refs E w c = {}" and "\<not> is_dir E w d" for c d
    by (auto simp: refs_def is_dir_def wattr_def none)
  moreover from this have "link_inv E w"
    by (intro link_invI) (auto simp: keys_ok_def assms wattr_def none)
  ultimately show "fs_inv E w" by (simp add: fs_inv_def)
qed

lemma createregister_empty:
  assumes "lawful E" and "dview E w d = Map.empty" and "createregister E d w = (Inr i, w')"
  shows "i = 0"
  using assms lawful_last_empty [OF assms(1), of "dbs w d"]
  by (auto simp: createregister_def bind_result split: sum.splits dberr.splits)

section \<open>The root directory\<close>

lemma directory_create_empty:
  assumes "lawful E" and "\<And>d. dview E w d = Map.empty"
  shows "\<exists>w'. directory_create E w = (Inr \<lparr>nid = 0, nkind = KDirectory\<rparr>, w') \<and> created E 0 w w'
     \<and> fs_inv E w' \<and> new_node E \<lparr>nid = 0, nkind = KDirectory\<rparr> w'"
proof -
  obtain n w' where run: "directory_create E w = (Inr n, w')" and n: "nkind n = KDirectory"
    and rest: "created E (nid n) w w'" "fs_inv E w'" "new_node E n w'"
    using create_kind_form [OF assms(1) empty_fs_inv [OF assms(2)], of KDirectory]
    by (auto simp: create_kind_def)
  obtain n0 w1 where "node_create E w = (Inr n0, w1)" and "nid n = nid n0"
    using run unfolding directory_create_def bind_result andthen_result Let_def by auto
  moreover have "nid n0 = 0" if "node_create E w = (Inr n0, w1)"
    using that createregister_empty [OF assms]
    unfolding node_create_def bind_result andthen_result by auto
  ultimately have "n = \<lparr>nid = 0, nkind = KDirectory\<rparr>" using n by (cases n) simp
  then show ?thesis using run rest by auto
qed

definition root_state :: "('s, 'h) env \<Rightarrow> ('s, 'h, 'z) world_scheme \<Rightarrow> bool" where
  "root_state E w \<longleftrightarrow>
     (\<forall>d n. entry E w d n = (if d = 0 \<and> (n = ''.'' \<or> n = ''..'') then Some 0 else None))
   \<and> (\<forall>i. i \<noteq> 0 \<longrightarrow> (\<forall>n. attr E w DNodes (i :: nodeid) n = None))
   \<and> mode_of E w 0 = Some 0x41ED
   \<and> wattr E w DNodes (0 :: nodeid) A_uid = Some (my_uid E) \<and> wattr E w DNodes (0 :: nodeid) A_gid = Some (my_gid E)"

lemma root_fill:
  fixes E :: "('s, 'h) env" and w :: "('s, 'h, 'z) world_scheme"
  assumes "lawful E" and empty: "\<And>d. dview E w d = Map.empty"
  defines "root \<equiv> \<lparr>nid = 0, nkind = KDirectory\<rparr>"
  shows "\<exists>w'. (bind (directory_create E) (\<lambda>root.
         andthen (setattr E DNodes (nid root) A_mode (or S_IFDIR 0x1ED))
         (andthen (setattr E DNodes (nid root) A_uid (my_uid E))
         (andthen (setattr E DNodes (nid root) A_gid (my_gid E))
         (addchild E root ''..'' root))))) w = (Inr (), w')
       \<and> fs_inv E w' \<and> root_state E w' \<and> world.more w' = world.more w"
proof -
  obtain w1 where run: "directory_create E w = (Inr root, w1)" and cr: "created E 0 w w1"
    and inv1: "fs_inv E w1" and new: "new_node E root w1"
    using directory_create_empty [OF assms(1,2)] root_def by auto
  let ?p1 = "put_attr E DNodes (0 :: nodeid) A_mode (enc E (0x41ED :: mode_t)) w1"
  let ?p2 = "put_attr E DNodes (0 :: nodeid) A_uid (enc E (my_uid E)) ?p1"
  let ?p3 = "put_attr E DNodes (0 :: nodeid) A_gid (enc E (my_gid E)) ?p2"
  have dir: "is_dir E w1 0" and refs: "refs E w1 0 = {(0, ''.'')}"
    and "\<forall>n. attr E w1 DDirectories (0 :: nodeid) n \<noteq> None \<longrightarrow> n = ''.''"
    using new by (simp_all add: new_node_def root_def)
  then have only: "n \<noteq> ''.'' \<Longrightarrow> attr E w1 DDirectories (0 :: nodeid) n = None" for n by blast
  have A_ne: "A_mode \<noteq> A_nlink" "A_uid \<noteq> A_nlink" "A_gid \<noteq> A_nlink" "A_uid \<noteq> A_mode" "A_gid \<noteq> A_mode"
    "A_gid \<noteq> A_uid" by (simp_all add: A_defs)
  have "fs_inv E ?p1"
    by (rule fs_inv_put_node [OF assms(1) inv1]) (use refs assms(1) in \<open>auto simp: S_ISDIR_def A_ne\<close>)
  then have "fs_inv E ?p2" by (rule fs_inv_put_node [OF assms(1)]) (auto simp: A_ne)
  then have inv3: "fs_inv E ?p3" by (rule fs_inv_put_node [OF assms(1)]) (auto simp: A_ne)
  have dir3: "is_dir E ?p3 (nid root)" using assms(1) A_ne by (simp add: root_def is_dir_def S_ISDIR_def)
  have refs3: "refs E ?p3 = refs E w1" using assms(1) by simp
  have free: "attr E ?p3 DDirectories (nid root) ''..'' = None"
    using assms(1) only by (simp add: root_def)
  have bound: "card (refs E ?p3 (nid root)) < 2 ^ 31" unfolding refs3 by (simp add: root_def refs)
  obtain k where add: "addchild E root ''..'' root ?p3 = (Inr (), add_entry E 0 ''..'' 0 k ?p3)"
    and inv4: "fs_inv E (add_entry E 0 ''..'' 0 k ?p3)"
  proof (cases rule: addchild_cases [OF assms(1) inv3 dir3 bound, of "''..''"])
    case (1 k)
    then show thesis using that by (simp add: root_def)
  next
    case (2 w' k)
    then show thesis using free by simp
  next
    case (3 e)
    have "refs E ?p3 0 \<noteq> {}" by (simp add: refs3 refs)
    then show thesis using 3(1) nlink_refs [OF inv3, of 0] by (simp add: root_def)
  qed
  let ?w4 = "add_entry E 0 ''..'' 0 k ?p3"
  have w0: "attr E w d (i :: nodeid) n = None" for d i n by (rule empty_attr [OF empty])
  have "(0, ''.'') \<in> refs E w1 0" by (simp add: refs)
  then have dot: "entry E w1 0 ''.'' = Some 0" by (simp add: refs_def)
  have w1: "attr E w1 DNodes j n = None" "attr E w1 DDirectories j n = None" if "j \<noteq> 0" for j :: nodeid and n
    using cr that w0 by (simp_all add: created_def)
  have e1: "entry E w1 d n = (if d = 0 \<and> n = ''.'' then Some 0 else None)" for d n
    using dot w1(2) [of d n] only [of n] by (cases "d = 0") (auto simp: wattr_def)
  have "root_state E ?w4"
    using assms(1) w1 A_ne by (auto simp: root_state_def e1)
  moreover have "world.more ?w4 = world.more w"
    using assms(1) cr by (simp add: created_def add_entry_def)
  ultimately show ?thesis using run add inv4 assms(1) by (simp add: setattr_eq root_def)
qed

lemma db_rebuild_empty:
  assumes "lawful E"
  shows "\<exists>s. db_rebuild E d w = (Inr (), w\<lparr>dbs := (dbs w)(d := s)\<rparr>) \<and> view (edb E) s = Map.empty"
proof (cases "b_remove (edb E) (dbs w d)")
  case (Inl e)
  then have "db_rebuild E d w = (Inr (), w\<lparr>dbs := (dbs w)(d := b_create (edb E) (dbs w d))\<rparr>)"
    by (simp add: db_rebuild_def db_remove_def db_create_def)
  then show ?thesis using lawful_remove [OF assms, of "dbs w d"] Inl assms by auto
next
  case (Inr s)
  then have "db_rebuild E d w = (Inr (), w\<lparr>dbs := (dbs w)(d := b_create (edb E) s)\<rparr>)"
    by (simp add: db_rebuild_def db_remove_def db_create_def)
  then show ?thesis using lawful_remove [OF assms, of "dbs w d"] Inr assms by auto
qed

lemma dbs_rebuild_empty:
  assumes "lawful E"
  shows "\<exists>w'. andthen (db_rebuild E DNodes) (andthen (db_rebuild E DDirectories) (andthen (db_rebuild E DMedia) m)) w = m w'
     \<and> (\<forall>d. dview E w' d = Map.empty) \<and> txns w' = txns w \<and> world.more w' = world.more w"
proof -
  obtain s1 where 1: "db_rebuild E DNodes w = (Inr (), w\<lparr>dbs := (dbs w)(DNodes := s1)\<rparr>)" "view (edb E) s1 = Map.empty"
    using db_rebuild_empty [OF assms] by blast
  let ?w1 = "w\<lparr>dbs := (dbs w)(DNodes := s1)\<rparr>"
  obtain s2 where 2: "db_rebuild E DDirectories ?w1 = (Inr (), ?w1\<lparr>dbs := (dbs ?w1)(DDirectories := s2)\<rparr>)" "view (edb E) s2 = Map.empty"
    using db_rebuild_empty [OF assms] by blast
  let ?w2 = "?w1\<lparr>dbs := (dbs ?w1)(DDirectories := s2)\<rparr>"
  obtain s3 where 3: "db_rebuild E DMedia ?w2 = (Inr (), ?w2\<lparr>dbs := (dbs ?w2)(DMedia := s3)\<rparr>)" "view (edb E) s3 = Map.empty"
    using db_rebuild_empty [OF assms] by blast
  let ?w3 = "?w2\<lparr>dbs := (dbs ?w2)(DMedia := s3)\<rparr>"
  have "dview E ?w3 d = Map.empty" for d using 1(2) 2(2) 3(2) by (cases d) simp_all
  then show ?thesis using 1(1) 2(1) 3(1) by (intro exI [of _ ?w3]) simp
qed

theorem rebuild_form:
  fixes E :: "('s, 'h) env" and w :: "('s, 'h, 'z) world_scheme"
  assumes "lawful E"
  shows "\<exists>w'. fsdb_rebuild E w = (Inr (), w') \<and> fs_inv E w' \<and> root_state E w' \<and> world.more w' = world.more w"
proof -
  obtain w0 where w0: "fsdb_rebuild E w = with_fstxn E (bind (directory_create E) (\<lambda>root.
         andthen (setattr E DNodes (nid root) A_mode (or S_IFDIR 0x1ED))
         (andthen (setattr E DNodes (nid root) A_uid (my_uid E))
         (andthen (setattr E DNodes (nid root) A_gid (my_gid E))
         (addchild E root ''..'' root))))) w0" "\<And>d. dview E w0 d = Map.empty" "world.more w0 = world.more w"
    unfolding fsdb_rebuild_def using dbs_rebuild_empty [OF assms, of _ w] by blast
  have empty: "dview E (fstxn_begin E w0) d = Map.empty" for d using assms w0(2) by simp
  obtain w1 where w1: "fs_inv E w1" "root_state E w1" "world.more w1 = world.more w"
    and run: "fsdb_rebuild E w = (Inr (), fstxn_commit E w1)"
    using root_fill [OF assms empty] w0(3) unfolding w0(1) by (auto simp: with_fstxn_def)
  have same: "same_db E w1 (fstxn_commit E w1)" by (rule same_db_commit [OF assms])
  have "root_state E (fstxn_commit E w1)"
    using w1(2) unfolding root_state_def same_db_attr [OF same] same_db_wattr [OF same] .
  then show ?thesis using run w1 same_db_fs_inv [OF same] by simp
qed

end
