(* ===== verification/Example_Host.thy ===== *)
theory Example_Host
  imports Fs_Success Fs_File_Laws Initial_Fs
begin

text \<open>
  A concrete host and a concrete file system, on which the witnesses of the properties run:
  databases that are association lists, a little endian machine, a clock that counts, a user
  database that knows nobody and a disk on which every call succeeds.
\<close>

definition demo_sys :: "unit posix" where
  "demo_sys = \<lparr>
     p_open = (\<lambda>path flags mode h. (Inr 3, h)),
     p_close = (\<lambda>fd h. h),
     p_stat = (\<lambda>path h. Inr (1, 0)),
     p_mkdir = (\<lambda>path mode h. (Inr (), h)),
     p_unlink = (\<lambda>path h. h),
     p_rmdir = (\<lambda>path h. (Inr (), h)),
     p_statvfs = (\<lambda>path h. Inr (8, 4096, 5)),
     p_system = (\<lambda>cmd h. (0, h)),
     p_pread = (\<lambda>fd n off h. ((0, []), h)),
     p_pwrite = (\<lambda>fd b off h. (int (length b), h)),
     p_fsync = (\<lambda>fd h. (0, h)),
     p_fdatasync = (\<lambda>fd h. (0, h)),
     p_ftruncate = (\<lambda>fd len h. (0, h)),
     p_getpwuid = (\<lambda>uid h. None),
     p_getgrouplist = (\<lambda>name gid h. None),
     p_getpwnam = (\<lambda>name h. None),
     p_getgrnam = (\<lambda>name h. None) \<rparr>"

definition demo_env :: "(al_store, unit) env" where
  "demo_env = \<lparr>edb = al_bdb, sys = demo_sys, clock = (\<lambda>n. word_of_nat n), little = True,
     my_uid = 0, my_gid = 0, my_umask = 0x12\<rparr>"

text \<open>The state before the databases are created, and a mounted, newly created file system.\<close>

definition demo_raw :: "(al_store, unit) fsworld" where
  "demo_raw = \<lparr>dbs = (\<lambda>d. ([], [])), txns = (\<lambda>d. False), opcount = 0, ckpts = 0, ticks = 0, host = (),
     scache = new_scache, pcache = new_pcache, open_files = Map.empty, defmedium = ''m''\<rparr>"

definition demo_fs :: "(al_store, unit) fsworld" where
  "demo_fs = snd (fsdb_rebuild demo_env demo_raw)"

lemma demo_lawful: "lawful demo_env"
  by (simp add: demo_env_def al_bdb_lawful)

lemma demo_fields [simp]:
  "edb demo_env = al_bdb" "sys demo_env = demo_sys" "my_uid demo_env = 0" "my_gid demo_env = 0" "little demo_env"
  by (simp_all add: demo_env_def)

lemma demo_fs_form:
  shows "fs_inv demo_env demo_fs" and "root_state demo_env demo_fs" and "world.more demo_fs = world.more demo_raw"
proof -
  obtain w' where "fsdb_rebuild demo_env demo_raw = (Inr (), w')" and w': "fs_inv demo_env w'"
    "root_state demo_env w'" "world.more w' = world.more demo_raw"
    using rebuild_form [OF demo_lawful, of demo_raw] by blast
  then have "demo_fs = w'" by (simp only: demo_fs_def snd_conv)
  with w' show "fs_inv demo_env demo_fs" and "root_state demo_env demo_fs"
    and "world.more demo_fs = world.more demo_raw" by (simp_all only:)
qed

lemma demo_no_txns: "\<not> txns demo_fs d"
proof -
  obtain w' :: "(al_store, unit) fsworld" and m :: "(al_store, unit, \<lparr>scache :: scache, pcache :: pcache, open_files :: nat \<rightharpoonup> source, defmedium :: string\<rparr>, unit) op"
    where "fsdb_rebuild demo_env demo_raw = with_fstxn demo_env m w'"
    using dbs_rebuild_empty [OF demo_lawful, of _ demo_raw] unfolding fsdb_rebuild_def by blast
  then show ?thesis by (simp add: demo_fs_def with_fstxn_def txns_commit split: prod.split)
qed

lemma more_fields:
  fixes w w' :: "('s, 'h, 'z) fsworld_scheme"
  assumes "world.more w' = world.more w"
  shows "scache w' = scache w" and "pcache w' = pcache w" and "open_files w' = open_files w"
  using assms by (cases w; cases w'; simp)+

lemma demo_fs_fields [simp]:
  "scache demo_fs = new_scache" "pcache demo_fs = new_pcache" "open_files demo_fs = Map.empty"
  by (simp_all only: more_fields [OF demo_fs_form(3)]) (simp_all add: demo_raw_def)

lemma demo_entry [simp]: "entry demo_env demo_fs d n = (if d = 0 \<and> (n = ''.'' \<or> n = ''..'') then Some 0 else None)"
  using demo_fs_form(2) by (simp add: root_state_def)

lemma demo_refs: "refs demo_env demo_fs c = (if c = 0 then {(0, ''.''), (0, ''..'')} else {})"
  by (auto simp: refs_def split: if_splits)

lemma demo_ids_left: "ids_left demo_env demo_fs"
  using demo_fs_form(2) by (simp add: root_state_def ids_left_def)

lemma demo_root_dir: "is_dir demo_env demo_fs 0"
  using demo_fs_form(2) by (simp add: root_state_def is_dir_def S_ISDIR_def)

lemma demo_mode [simp]: "mode_of demo_env demo_fs 0 = Some 0x41ED"
  and demo_uid [simp]: "wattr demo_env demo_fs DNodes (0 :: nodeid) A_uid = Some (0 :: uid_t)"
  and demo_gid [simp]: "wattr demo_env demo_fs DNodes (0 :: nodeid) A_gid = Some (0 :: gid_t)"
  using demo_fs_form(2) by (simp_all add: root_state_def)

lemma demo_owners: "owners_ok demo_env demo_fs"
proof -
  have none: "mode_of demo_env demo_fs c = None" if "c \<noteq> 0" for c
    using demo_fs_form(2) that by (simp add: root_state_def wattr_def)
  have "c = 0" if "mode_of demo_env demo_fs c \<noteq> None" for c
    by (rule ccontr) (use none [of c] that in simp)
  moreover have "(\<exists>uid :: uid_t. wattr demo_env demo_fs DNodes (0 :: nodeid) A_uid = Some uid)
      \<and> (\<exists>gid :: gid_t. wattr demo_env demo_fs DNodes (0 :: nodeid) A_gid = Some gid)" by simp
  ultimately show ?thesis unfolding owners_ok_def by blast
qed

lemma demo_cache: "pc_ok K [] (pcache demo_fs)" "0 < pc_max (pcache demo_fs)"
  using pc_ok_new by (simp_all add: new_pcache_def PATHCACHE_MAX_ENTRIES_def)

text \<open>It meets what the properties of the handlers ask for.\<close>

lemma demo_fsys: "fsys demo_env demo_fs"
  using demo_fs_form(1) demo_cache by (simp add: fsys_def caches_ok_def pc_inv_def sc_inv_new)

lemma demo_good: "good_cache demo_env demo_fs"
  using demo_owners demo_cache by (simp add: good_cache_def pc_coherent_def)

lemma demo_few: "few demo_env demo_fs"
  by (simp add: few_def demo_refs card_insert_if)

lemma demo_roomy: "roomy demo_env demo_fs"
  using demo_few demo_ids_left by (simp add: roomy_def)

lemma demo_no_mode: "c \<noteq> 0 \<Longrightarrow> mode_of demo_env demo_fs c = None"
  using demo_fs_form(2) by (simp add: root_state_def wattr_def)

lemma demo_named: "named demo_env demo_fs"
  using demo_few demo_no_mode by (auto simp: named_def demo_refs)

lemma demo_dirs: "dirs_ok demo_env demo_fs"
  using demo_few by (auto simp: dirs_ok_def dots_ok_def names_ok_def)

lemma demo_groups: "groups_known demo_env uid gid"
  by (simp add: groups_known_def demo_sys_def)

lemma demo_root: "resolve demo_env demo_fs [] = Some 0"
  by (simp add: resolve_Nil)

end
