(* ===== verification/Environment.thy ===== *)
theory Environment
  imports Nodes
begin

text \<open>
  Setting up and closing the databases (\<^verbatim>\<open>database.cxx\<close>, \<^verbatim>\<open>database.hxx\<close>, \<^verbatim>\<open>fsdb.cxx\<close>): the
  objects of class \<^verbatim>\<open>Db\<close> that \<^verbatim>\<open>Database\<close> allocates and deletes are kept in a store, so that a
  use of a deleted object is an error of its own and an object that no pointer reaches is a leak.
\<close>

section \<open>State\<close>

text \<open>
  \<open>d_ptr\<close>: the field \<^verbatim>\<open>Database::db\<close> of the three databases; \<open>d_objs\<close>: the allocated objects;
  \<open>d_next\<close>: the next address; \<open>env_up\<close>: \<^verbatim>\<open>Environment::dbenv\<close> is open.
\<close>

record ('s, 'h) dbworld = "('s, 'h) world" +
  d_ptr :: "db \<Rightarrow> nat option"
  d_objs :: "nat set"
  d_next :: nat
  env_up :: bool

type_synonym ('s, 'h, 'z, 'a) dop = "(('s, 'h, 'z) dbworld_scheme, 'a) m"

text \<open>The calls of the database library and of the system; \<open>Inl\<close> is an exception.\<close>

record 'h dblib =
  l_missing :: "'h \<Rightarrow> bool \<times> 'h"
  l_mkdir :: "'h \<Rightarrow> int \<times> 'h"
  l_env_open :: "'h \<Rightarrow> (exn + unit) \<times> 'h"
  l_env_close :: "'h \<Rightarrow> (exn + unit) \<times> 'h"
  l_new :: "'h \<Rightarrow> (exn + unit) \<times> 'h"
  l_open :: "db \<Rightarrow> bool \<Rightarrow> 'h \<Rightarrow> (exn + unit) \<times> 'h"
  l_close :: "db \<Rightarrow> 'h \<Rightarrow> (exn + unit) \<times> 'h"
  l_remove :: "db \<Rightarrow> 'h \<Rightarrow> (exn + unit) \<times> 'h"

text \<open>The library does not raise the model's error for undefined behaviour.\<close>

definition throwing :: "'h dblib \<Rightarrow> bool" where
  "throwing B \<longleftrightarrow> (\<forall>h. fst (l_env_open B h) \<noteq> Inl EStuck \<and> fst (l_env_close B h) \<noteq> Inl EStuck \<and> fst (l_new B h) \<noteq> Inl EStuck
     \<and> (\<forall>d. fst (l_close B d h) \<noteq> Inl EStuck \<and> fst (l_remove B d h) \<noteq> Inl EStuck \<and> (\<forall>c. fst (l_open B d c h) \<noteq> Inl EStuck)))"

definition libM :: "('h \<Rightarrow> (exn + 'a) \<times> 'h) \<Rightarrow> ('s, 'h, 'z, 'a) op" where
  "libM f = (\<lambda>w. case f (host w) of (r, h) \<Rightarrow> (r, w\<lparr>host := h\<rparr>))"

section \<open>Objects\<close>

definition new_db :: "'h dblib \<Rightarrow> ('s, 'h, 'z, nat) dop" where
  "new_db B = andthen (libM (l_new B)) (\<lambda>w. (Inr (d_next w), w\<lparr>d_objs := insert (d_next w) (d_objs w), d_next := Suc (d_next w)\<rparr>))"

definition with_db :: "nat \<Rightarrow> ('s, 'h, 'z, 'a) dop \<Rightarrow> ('s, 'h, 'z, 'a) dop" where
  "with_db a m =
     bind (gets d_objs) (\<lambda>s. if a \<in> s then m else throw EStuck)"

definition delete_db :: "nat \<Rightarrow> ('s, 'h, 'z, unit) dop" where
  "delete_db a = with_db a (modify (\<lambda>w. w\<lparr>d_objs := d_objs w - {a}\<rparr>))"

definition set_ptr :: "db \<Rightarrow> nat option \<Rightarrow> ('s, 'h, 'z, unit) dop" where
  "set_ptr d p = modify (\<lambda>w. w\<lparr>d_ptr := (d_ptr w)(d := p)\<rparr>)"

section \<open>One database\<close>

definition database_open :: "'h dblib \<Rightarrow> db \<Rightarrow> ('s, 'h, 'z, unit) dop" where
  "database_open B d =
     bind (new_db B) (\<lambda>a.
     andthen (set_ptr d (Some a))
     (with_db a (libM (l_open B d False))))"

definition database_close :: "'h dblib \<Rightarrow> db \<Rightarrow> ('s, 'h, 'z, unit) dop" where
  "database_close B d =
     bind (gets (\<lambda>w. d_ptr w d)) (\<lambda>p.
       case p of
         None \<Rightarrow> ret ()
       | Some a \<Rightarrow>
           andthen (with_db a (libM (l_close B d)))
           (andthen (delete_db a)
           (set_ptr d None)))"

text \<open>
  \<^verbatim>\<open>catch(...)\<close> around the removal: when it throws, the contents stay, and the open with \<^verbatim>\<open>DB_CREATE\<close> finds
  them.
\<close>

definition database_rebuild :: "('s, 'h) env \<Rightarrow> 'h dblib \<Rightarrow> db \<Rightarrow> ('s, 'h, 'z, unit) dop" where
  "database_rebuild E B d =
     andthen (database_close B d)
     (bind (new_db B) (\<lambda>a.
      andthen (set_ptr d (Some a))
      (andthen (handle (with_db a (andthen (libM (l_remove B d)) (db_remove E d))) (\<lambda>_. ret ()))
      (andthen (delete_db a)
      (bind (new_db B) (\<lambda>b.
       andthen (set_ptr d (Some b))
       (andthen (with_db b (libM (l_open B d True)))
       (db_create E d))))))))"

section \<open>The environment and the three databases\<close>

text \<open>\<^verbatim>\<open>Environment::Environment\<close>: the counter of operations starts at 0, so that a checkpoint is written.\<close>

definition env_new :: "'h dblib \<Rightarrow> ('s, 'h, 'z, unit) dop" where
  "env_new B =
     andthen (modify (\<lambda>w. w\<lparr>opcount := 0\<rparr>))
     (bind (hostM (l_missing B)) (\<lambda>missing.
      andthen (if missing then bind (hostM (l_mkdir B)) (\<lambda>_. ret ()) else ret ())
      (andthen (libM (l_env_open B))
      (andthen (modify (\<lambda>w. w\<lparr>env_up := True\<rparr>))
      (modify cleanlogs)))))"

definition env_delete :: "'h dblib \<Rightarrow> ('s, 'h, 'z, unit) dop" where
  "env_delete B =
     bind (gets env_up) (\<lambda>up.
       if up then andthen (libM (l_env_close B)) (modify (\<lambda>w. w\<lparr>env_up := False\<rparr>)) else ret ())"

definition fsdb_new :: "'h dblib \<Rightarrow> ('s, 'h, 'z, unit) dop" where
  "fsdb_new B = andthen (env_new B) (modify (\<lambda>w. w\<lparr>d_ptr := \<lambda>_. None\<rparr>))"

definition fsdb_open :: "'h dblib \<Rightarrow> ('s, 'h, 'z, unit) dop" where
  "fsdb_open B = andthen (database_open B DNodes) (andthen (database_open B DDirectories) (database_open B DMedia))"

definition fsdb_close :: "'h dblib \<Rightarrow> ('s, 'h, 'z, unit) dop" where
  "fsdb_close B = andthen (database_close B DNodes) (andthen (database_close B DDirectories) (database_close B DMedia))"

text \<open>
  What the end of a scope leaves: nothing in flight, an exception, or a call of \<^verbatim>\<open>std::terminate\<close>, which C++
  makes when a destructor throws while an exception unwinds the stack.
\<close>

datatype outcome = Done | Threw exn | Terminated

text \<open>
  Destructors that run one after the other, \<open>p\<close> the exception in flight: when one throws, the others run
  all the same.
\<close>

primrec destroy :: "('w, unit) m list \<Rightarrow> exn option \<Rightarrow> 'w \<Rightarrow> outcome \<times> 'w" where
  "destroy [] p w = (case p of None \<Rightarrow> Done | Some e \<Rightarrow> Threw e, w)"
| "destroy (m # ms) p w =
     (case m w of
        (Inr _, w') \<Rightarrow> destroy ms p w'
      | (Inl e, w') \<Rightarrow>
          if e = EStuck then (Threw EStuck, w')
          else case p of None \<Rightarrow> destroy ms (Some e) w' | Some _ \<Rightarrow> (Terminated, w'))"

text \<open>\<^verbatim>\<open>~FsDb\<close>, then the destructors of the members, last one first, and of the base class.\<close>

definition fsdb_delete :: "'h dblib \<Rightarrow> ('s, 'h, 'z) dbworld_scheme \<Rightarrow> outcome \<times> ('s, 'h, 'z) dbworld_scheme" where
  "fsdb_delete B =
     destroy [handle (fsdb_close B) (\<lambda>_. ret ()), database_close B DMedia, database_close B DDirectories,
       database_close B DNodes, env_delete B] None"

text \<open>
  A scope with a local \<^verbatim>\<open>FsDb\<close>, in which \<open>use\<close> runs: an exception of the constructor leaves no object to
  destroy; one of \<open>use\<close> runs the destructor on its way out.
\<close>

definition fsdb_scope :: "'h dblib \<Rightarrow> ('s, 'h, 'z, unit) dop \<Rightarrow> ('s, 'h, 'z) dbworld_scheme \<Rightarrow> outcome \<times> ('s, 'h, 'z) dbworld_scheme" where
  "fsdb_scope B use w =
     (case fsdb_new B w of
        (Inl e, w1) \<Rightarrow> (Threw e, w1)
      | (Inr _, w1) \<Rightarrow>
          (case use w1 of
             (Inr _, w2) \<Rightarrow> fsdb_delete B w2
           | (Inl e, w2) \<Rightarrow>
               if e = EStuck then (Threw EStuck, w2)
               else case fsdb_delete B w2 of
                 (Done, w3) \<Rightarrow> (Threw e, w3)
               | (Threw e', w3) \<Rightarrow> (if e' = EStuck then Threw EStuck else Terminated, w3)
               | (Terminated, w3) \<Rightarrow> (Terminated, w3)))"

section \<open>No leak, no use after deletion\<close>

text \<open>The allocated objects are those that the three pointers reach, each by one pointer.\<close>

definition held :: "('s, 'h, 'z) dbworld_scheme \<Rightarrow> bool" where
  "held w \<longleftrightarrow> d_objs w = ran (d_ptr w) \<and> (\<forall>a \<in> d_objs w. a < d_next w)
     \<and> (\<forall>d d' a. d_ptr w d = Some a \<longrightarrow> d_ptr w d' = Some a \<longrightarrow> d = d')"

definition holds :: "db set \<Rightarrow> ('s, 'h, 'z) dbworld_scheme \<Rightarrow> bool" where
  "holds D w \<longleftrightarrow> held w \<and> dom (d_ptr w) = D"

lemma holds_cong: "d_objs w' = d_objs w \<Longrightarrow> d_next w' = d_next w \<Longrightarrow> d_ptr w' = d_ptr w \<Longrightarrow> holds D w' = holds D w"
  by (simp add: holds_def held_def)

lemma holds_held: "holds D w \<Longrightarrow> held w"
  by (simp add: holds_def)

lemma held_host [simp]: "held (w\<lparr>host := h\<rparr>) = held w"
  by (simp add: held_def)

lemma holds_host [simp]: "holds D (w\<lparr>host := h\<rparr>) = holds D w"
  by (simp add: holds_def)

lemma held_ptr: "held w \<Longrightarrow> d_ptr w d = Some a \<Longrightarrow> a \<in> d_objs w"
  by (auto simp: held_def intro: ranI)

lemma ran_drop:
  assumes "held w" and "d_ptr w d = Some a"
  shows "ran ((d_ptr w)(d := None)) = d_objs w - {a}"
proof -
  have "b \<in> ran ((d_ptr w)(d := None)) \<longleftrightarrow> b \<in> ran (d_ptr w) \<and> b \<noteq> a" for b
  proof
    assume "b \<in> ran ((d_ptr w)(d := None))"
    then obtain e where "e \<noteq> d" and "d_ptr w e = Some b" by (auto simp: ran_def split: if_splits)
    then show "b \<in> ran (d_ptr w) \<and> b \<noteq> a" using assms unfolding held_def by (blast intro: ranI)
  next
    assume "b \<in> ran (d_ptr w) \<and> b \<noteq> a"
    then obtain e where e: "d_ptr w e = Some b" and "b \<noteq> a" by (auto simp: ran_def)
    then have "e \<noteq> d" using assms(2) by auto
    then have "((d_ptr w)(d := None)) e = Some b" using e by simp
    then show "b \<in> ran ((d_ptr w)(d := None))" by (rule ranI)
  qed
  then show ?thesis using assms(1) by (auto simp: held_def)
qed

lemma holds_drop:
  assumes "holds D w" and "d_ptr w d = Some a"
  shows "holds (D - {d}) (w\<lparr>d_objs := d_objs w - {a}, d_ptr := (d_ptr w)(d := None)\<rparr>)"
  using assms ran_drop [OF _ assms(2)] unfolding holds_def held_def by (auto split: if_splits)

lemma holds_take:
  assumes "holds D w" and "d \<notin> D"
  shows "holds (insert d D) (w\<lparr>d_objs := insert (d_next w) (d_objs w), d_next := Suc (d_next w), d_ptr := (d_ptr w)(d \<mapsto> d_next w)\<rparr>)"
proof -
  have none: "d_ptr w d = None" using assms by (auto simp: holds_def)
  then have "ran ((d_ptr w)(d \<mapsto> d_next w)) = insert (d_next w) (d_objs w)"
    using assms(1) by (simp add: holds_def held_def ran_map_upd)
  moreover have "d_next w \<notin> d_objs w" using assms(1) by (auto simp: holds_def held_def)
  ultimately show ?thesis
    using assms(1) held_ptr [of w] unfolding holds_def held_def
    by (auto split: if_splits simp: less_Suc_eq)
qed

lemma close_step:
  assumes "throwing B" and "holds D w" and run: "database_close B d w = (r, w')"
  shows "r = Inr () \<and> holds (D - {d}) w' \<or> (\<exists>e. r = Inl e \<and> e \<noteq> EStuck \<and> holds D w')"
proof (cases "d_ptr w d")
  case None
  then have "D - {d} = D" using assms(2) by (auto simp: holds_def)
  then show ?thesis using None run assms(2) by (simp add: database_close_def gets_def bind_def ret_def)
next
  case (Some a)
  then have a: "a \<in> d_objs w" using assms(2) held_ptr by (auto simp: holds_def)
  obtain x h where x: "l_close B d (host w) = (x, h)" by fastforce
  then have "x \<noteq> Inl EStuck" using assms(1) unfolding throwing_def by (metis fst_conv)
  then show ?thesis
    using run Some a x assms(2) holds_drop [of D "w\<lparr>host := h\<rparr>" d a]
    by (cases x) (auto simp: database_close_def gets_def bind_def ret_def andthen_def with_db_def libM_def delete_db_def set_ptr_def modify_def)
qed

text \<open>What an \<^verbatim>\<open>open\<close> and a \<^verbatim>\<open>close\<close> of a database leave, whichever way they end.\<close>

lemma open_step:
  assumes "throwing B" and "holds D w" and "d \<notin> D" and run: "database_open B d w = (r, w')"
  shows "r = Inr () \<and> holds (insert d D) w' \<or> (\<exists>e. r = Inl e \<and> e \<noteq> EStuck \<and> (holds D w' \<or> holds (insert d D) w'))"
proof -
  obtain x h where x: "l_new B (host w) = (x, h)" by fastforce
  obtain y k where y: "l_open B d False h = (y, k)" by fastforce
  have "x \<noteq> Inl EStuck" and "y \<noteq> Inl EStuck" using assms(1) x y unfolding throwing_def by (metis fst_conv)+
  then show ?thesis
    using run x y assms(2,3) holds_take [of D w d]
    by (cases x; cases y) (auto simp: database_open_def new_db_def bind_def andthen_def with_db_def gets_def libM_def set_ptr_def modify_def)
qed

text \<open>
  A protocol: from a state in which \<open>D\<close> are open it ends with \<open>D'\<close> open, or with an exception in
  between; whichever way, no object is lost and no deleted one has been used.
\<close>

definition tidily :: "db set \<Rightarrow> db set \<Rightarrow> ('s, 'h, 'z, unit) dop \<Rightarrow> bool" where
  "tidily D D' m \<longleftrightarrow> hoare (holds D) m (\<lambda>_. holds D') (\<lambda>e w. held w \<and> e \<noteq> EStuck)"

lemma tidily_andthen: "tidily D D1 m \<Longrightarrow> tidily D1 D2 k \<Longrightarrow> tidily D D2 (andthen m k)"
  unfolding tidily_def by (rule hoare_andthen)

lemma tidily_close: "throwing B \<Longrightarrow> D' = D - {d} \<Longrightarrow> tidily D D' (database_close B d)"
  unfolding tidily_def by (rule hoareI) (auto dest: close_step intro: holds_held)

lemma tidily_open: "throwing B \<Longrightarrow> d \<notin> D \<Longrightarrow> tidily D (insert d D) (database_open B d)"
  unfolding tidily_def by (rule hoareI) (auto dest: open_step intro: holds_held)

lemma UNIV_db: "(UNIV :: db set) = {DMedia, DDirectories, DNodes}"
  using db.exhaust by blast

lemma tidily_fsdb:
  assumes "throwing B"
  shows "tidily {} UNIV (fsdb_open B)" and "tidily D {} (fsdb_close B)"
proof -
  show "tidily {} UNIV (fsdb_open B)"
    unfolding fsdb_open_def UNIV_db
    by (rule tidily_andthen [OF tidily_open [OF assms] tidily_andthen [OF tidily_open [OF assms] tidily_open [OF assms]]]) simp_all
  have none: "D - {DNodes} - {DDirectories} - {DMedia} = {}" using UNIV_db by blast
  show "tidily D {} (fsdb_close B)"
    unfolding fsdb_close_def
    by (rule tidily_andthen [OF tidily_close [OF assms refl] tidily_andthen [OF tidily_close [OF assms refl] tidily_close [OF assms]]])
      (rule none [symmetric])
qed

text \<open>\<^verbatim>\<open>rebuild\<close>, when objects can always be allocated.\<close>

definition allocates :: "'h dblib \<Rightarrow> bool" where
  "allocates B \<longleftrightarrow> (\<forall>h. fst (l_new B h) = Inr ())"

lemma holds_next: "holds D w \<Longrightarrow> holds D (w\<lparr>d_next := Suc (d_next w)\<rparr>)"
  by (auto simp: holds_def held_def less_Suc_eq)

lemma holds_dbs [simp]: "holds D (w\<lparr>dbs := x\<rparr>) = holds D w"
  by (simp add: holds_def held_def)

lemma new_db_Inr: "l_new B (host w) = (Inr u, h) \<Longrightarrow>
    new_db B w = (Inr (d_next w), w\<lparr>d_objs := insert (d_next w) (d_objs w), d_next := Suc (d_next w), host := h\<rparr>)"
  by (simp add: new_db_def libM_def andthen_def bind_def)

lemma new_db_Inl: "l_new B (host w) = (Inl e, h) \<Longrightarrow> new_db B w = (Inl e, w\<lparr>host := h\<rparr>)"
  by (simp add: new_db_def libM_def andthen_def bind_def)

lemma with_db_in: "a \<in> d_objs w \<Longrightarrow> with_db a m w = m w"
  by (simp add: with_db_def bind_def)

lemma swallow_remove:
  assumes "l_remove B d (host w) = (y, h)" and "y \<noteq> Inl EStuck" and "a \<in> d_objs w"
  shows "\<exists>c. handle (with_db a (andthen (libM (l_remove B d)) (db_remove E d))) (\<lambda>_. ret ()) w = (Inr (), w\<lparr>host := h, dbs := c\<rparr>)"
proof (cases y)
  case (Inl e)
  then have "with_db a (andthen (libM (l_remove B d)) (db_remove E d)) w = (Inl e, w\<lparr>host := h\<rparr>)"
    using assms by (simp add: with_db_in libM_def andthen_def bind_def)
  then show ?thesis using assms(2) Inl by (intro exI [of _ "dbs w"]) simp
next
  case (Inr u)
  then have run: "with_db a (andthen (libM (l_remove B d)) (db_remove E d)) w = db_remove E d (w\<lparr>host := h\<rparr>)"
    using assms by (simp add: with_db_in libM_def andthen_def bind_def)
  show ?thesis
  proof (cases "b_remove (edb E) (dbs w d)")
    case (Inl e)
    then have "with_db a (andthen (libM (l_remove B d)) (db_remove E d)) w = (Inl EDb, w\<lparr>host := h\<rparr>)"
      using run by (simp add: db_remove_def bind_def)
    then show ?thesis by (intro exI [of _ "dbs w"]) simp
  next
    case (Inr s)
    then have "with_db a (andthen (libM (l_remove B d)) (db_remove E d)) w = (Inr (), w\<lparr>host := h, dbs := (dbs w)(d := s)\<rparr>)"
      using run by (simp add: db_remove_def bind_def)
    then show ?thesis by (intro exI [of _ "(dbs w)(d := s)"]) simp
  qed
qed

text \<open>The part of \<^verbatim>\<open>rebuild\<close> after \<^verbatim>\<open>close\<close>.\<close>

lemma rebuild_step:
  assumes "throwing B" and "allocates B" and "holds D w" and "d \<notin> D"
    and run: "bind (new_db B) (\<lambda>a. andthen (set_ptr d (Some a)) (andthen (handle (with_db a (andthen (libM (l_remove B d)) (db_remove E d))) (\<lambda>_. ret ()))
      (andthen (delete_db a) (bind (new_db B) (\<lambda>b. andthen (set_ptr d (Some b))
        (andthen (with_db b (libM (l_open B d True))) (db_create E d))))))) w = (r, w')"
  shows "holds (insert d D) w' \<and> r \<noteq> Inl EStuck"
proof -
  obtain x1 h1 where h1: "l_new B (host w) = (x1, h1)" by fastforce
  obtain y h2 where h2: "l_remove B d h1 = (y, h2)" by fastforce
  obtain x3 h3 where h3: "l_new B h2 = (x3, h3)" by fastforce
  obtain z h4 where h4: "l_open B d True h3 = (z, h4)" by fastforce
  have x: "x1 = Inr ()" "x3 = Inr ()" using assms(2) h1 h3 unfolding allocates_def by (metis fst_conv)+
  have "y \<noteq> Inl EStuck" and "z \<noteq> Inl EStuck" using assms(1) h2 h4 unfolding throwing_def by (metis fst_conv)+
  moreover have "insert (d_next w) (d_objs w) - {d_next w} = d_objs w"
    using assms(3) by (auto simp: holds_def held_def)
  moreover have "holds (insert d D) (w\<lparr>d_objs := insert (Suc (d_next w)) (d_objs w), d_next := Suc (Suc (d_next w)),
      d_ptr := (d_ptr w)(d \<mapsto> Suc (d_next w))\<rparr>)"
    using holds_take [OF holds_next [OF assms(3)] assms(4)] by simp
  moreover have "d_objs w' = insert (Suc (d_next w)) (insert (d_next w) (d_objs w) - {d_next w}) \<and> d_next w' = Suc (Suc (d_next w))
      \<and> d_ptr w' = (d_ptr w)(d \<mapsto> Suc (d_next w)) \<and> (r = Inr () \<or> r = z)"
  proof -
    let ?w2 = "w\<lparr>d_objs := insert (d_next w) (d_objs w), d_next := Suc (d_next w), host := h1, d_ptr := (d_ptr w)(d \<mapsto> d_next w)\<rparr>"
    obtain c where c: "handle (with_db (d_next w) (andthen (libM (l_remove B d)) (db_remove E d))) (\<lambda>_. ret ()) ?w2
        = (Inr (), ?w2\<lparr>host := h2, dbs := c\<rparr>)" using swallow_remove [of B d ?w2 y h2 "d_next w" E] h2 \<open>y \<noteq> Inl EStuck\<close> by auto
    let ?rest = "bind (new_db B) (\<lambda>b. andthen (set_ptr d (Some b)) (andthen (with_db b (libM (l_open B d True))) (db_create E d)))"
    let ?w3 = "w\<lparr>d_next := Suc (d_next w), d_ptr := (d_ptr w)(d \<mapsto> d_next w), host := h2, dbs := c, d_objs := insert (d_next w) (d_objs w) - {d_next w}\<rparr>"
    have one: "(r, w') = ?rest ?w3"
      unfolding run [symmetric] using h1 x(1) by (simp add: new_db_Inr set_ptr_def c delete_db_def with_db_in)
    let ?w4 = "?w3\<lparr>d_objs := insert (Suc (d_next w)) (insert (d_next w) (d_objs w) - {d_next w}), d_next := Suc (Suc (d_next w)), host := h3\<rparr>"
    let ?w5 = "?w4\<lparr>d_ptr := (d_ptr ?w4)(d \<mapsto> Suc (d_next w))\<rparr>"
    have new: "new_db B ?w3 = (Inr (Suc (d_next w)), ?w4)"
      using new_db_Inr [of B ?w3 "()" h3] h3 x(2) by simp
    have opened: "with_db (Suc (d_next w)) (libM (l_open B d True)) ?w5 = (z, ?w5\<lparr>host := h4\<rparr>)"
      using h4 by (simp add: with_db_in libM_def)
    have "?rest ?w3 = andthen (set_ptr d (Some (Suc (d_next w)))) (andthen (with_db (Suc (d_next w)) (libM (l_open B d True))) (db_create E d)) ?w4"
      by (rule bind_Inr) (rule new)
    also have "\<dots> = andthen (with_db (Suc (d_next w)) (libM (l_open B d True))) (db_create E d) ?w5"
      by (rule andthen_Inr) (simp only: set_ptr_def modify_apply)
    also have "\<dots> = (case z of Inl e \<Rightarrow> (Inl e, ?w5\<lparr>host := h4\<rparr>) | Inr _ \<Rightarrow> db_create E d (?w5\<lparr>host := h4\<rparr>))"
      unfolding andthen_def bind_def opened by (cases z) simp_all
    finally have "(r, w') = \<dots>" using one by (rule trans [rotated])
    then show ?thesis by (cases z) (simp_all add: db_create_def)
  qed
  ultimately show ?thesis
    using holds_cong [of w' "w\<lparr>d_objs := insert (Suc (d_next w)) (d_objs w), d_next := Suc (Suc (d_next w)),
      d_ptr := (d_ptr w)(d \<mapsto> Suc (d_next w))\<rparr>" "insert d D"] by auto
qed

lemma tidily_rebuild:
  assumes "throwing B" and "allocates B"
  shows "tidily D (insert d D) (database_rebuild E B d)"
proof -
  let ?k = "bind (new_db B) (\<lambda>a. andthen (set_ptr d (Some a)) (andthen (handle (with_db a (andthen (libM (l_remove B d)) (db_remove E d))) (\<lambda>_. ret ()))
      (andthen (delete_db a) (bind (new_db B) (\<lambda>b. andthen (set_ptr d (Some b))
        (andthen (with_db b (libM (l_open B d True))) (db_create E d)))))))"
  have "tidily (D - {d}) (insert d (D - {d})) ?k"
    unfolding tidily_def
  proof (rule hoareI)
    show "holds (insert d (D - {d})) w'" if "holds (D - {d}) w" and "?k w = (Inr u, w')" for w u w'
      using rebuild_step [OF assms that(1) _ that(2)] by simp
    show "held w' \<and> e \<noteq> EStuck" if "holds (D - {d}) w" and "?k w = (Inl e, w')" for w e w'
      using rebuild_step [OF assms that(1) _ that(2)] holds_held by auto
  qed
  from tidily_andthen [OF tidily_close [OF assms(1) refl] this] show ?thesis
    unfolding database_rebuild_def by simp
qed

text \<open>The destructors: what a failed \<^verbatim>\<open>close\<close> has left is closed by the destructors of the members.\<close>

lemma hoare_held:
  assumes "\<And>D. hoare (holds D) m Q R"
  shows "hoare held m Q R"
proof (rule hoareI)
  show "Q a w'" if "held w" and "m w = (Inr a, w')" for w a w'
    using hoare_Inr [OF assms that(2)] that(1) by (simp add: holds_def)
  show "R e w'" if "held w" and "m w = (Inl e, w')" for w e w'
    using hoare_Inl [OF assms that(2)] that(1) by (simp add: holds_def)
qed

lemma holds_env [simp]: "holds D (w\<lparr>env_up := b\<rparr>) = holds D w"
  by (simp add: holds_def held_def)

lemma tidily_env_delete:
  assumes "throwing B"
  shows "tidily D D (env_delete B)"
proof -
  have step: "holds D w' \<and> r \<noteq> Inl EStuck" if w: "holds D w" and run: "env_delete B w = (r, w')" for w r w'
  proof -
    obtain x h where x: "l_env_close B (host w) = (x, h)" by fastforce
    then have "x \<noteq> Inl EStuck" using assms unfolding throwing_def by (metis fst_conv)
    then show ?thesis
      using w run x
      by (cases "env_up w"; cases x) (auto simp: env_delete_def bind_def andthen_def gets_def libM_def modify_def ret_def)
  qed
  show ?thesis
    unfolding tidily_def
  proof (rule hoareI)
    show "holds D w'" if "holds D w" and "env_delete B w = (Inr u, w')" for w u w' using step [OF that] by simp
    show "held w' \<and> e \<noteq> EStuck" if "holds D w" and "env_delete B w = (Inl e, w')" for w e w'
      using step [OF that] by (auto intro: holds_held)
  qed
qed

text \<open>Destructors that keep the objects held, and the case in which all of them have succeeded.\<close>

abbreviation held_through :: "('s, 'h, 'z, 'a) dop \<Rightarrow> bool" where
  "held_through m \<equiv> hoare held m (\<lambda>_. held) (\<lambda>e w. held w \<and> e \<noteq> EStuck)"

lemma tidily_held_through: "(\<And>D. \<exists>D'. tidily D D' m) \<Longrightarrow> held_through m"
proof (rule hoare_held)
  fix D assume "\<And>D. \<exists>D'. tidily D D' m"
  then obtain D' where "tidily D D' m" by blast
  then show "hoare (holds D) m (\<lambda>_. held) (\<lambda>e w. held w \<and> e \<noteq> EStuck)"
    unfolding tidily_def by (rule hoare_weaken) (auto intro: holds_held)
qed

lemma destroy_held:
  assumes "\<And>m. m \<in> set ms \<Longrightarrow> held_through m" and "held w" and "p \<noteq> Some EStuck" and "destroy ms p w = (o', w')"
  shows "held w' \<and> o' \<noteq> Threw EStuck"
  using assms
proof (induction ms arbitrary: p w)
  case Nil
  then show ?case by (auto split: option.splits)
next
  case (Cons m ms)
  obtain r w1 where run: "m w = (r, w1)" by fastforce
  have m: "held_through m" using Cons.prems(1) by simp
  have w1: "held w1 \<and> r \<noteq> Inl EStuck"
    using hoare_Inr [OF m, of w _ w1] hoare_Inl [OF m, of w _ w1] run Cons.prems(2) by (cases r) auto
  show ?case
  proof (cases r)
    case (Inr u)
    then show ?thesis using Cons.IH [OF Cons.prems(1) _ Cons.prems(3)] Cons.prems(4) run w1 by simp
  next
    case (Inl e)
    then show ?thesis
      using Cons.IH [OF Cons.prems(1), of w1 "Some e"] Cons.prems(4) run w1 by (auto split: option.splits)
  qed
qed

lemma destroy_done:
  assumes "destroy ms p w = (Done, w')"
  shows "forM ms (\<lambda>m. m) w = (Inr (), w') \<and> p = None"
  using assms
proof (induction ms arbitrary: p w)
  case Nil
  then show ?case by (auto split: option.splits)
next
  case (Cons m ms)
  obtain r w1 where run: "m w = (r, w1)" by fastforce
  show ?case
    using Cons.prems Cons.IH [of p w1] Cons.IH [of "Some e" w1 for e] run
    by (cases r) (auto split: if_splits option.splits)
qed

lemma closing_through:
  assumes "throwing B"
  shows "held_through (database_close B d)" and "held_through (env_delete B)"
    and "held_through (handle (fsdb_close B) (\<lambda>_. ret ()))"
proof -
  show "held_through (database_close B d)" by (rule tidily_held_through) (use tidily_close [OF assms refl] in blast)
  show "held_through (env_delete B)" by (rule tidily_held_through) (use tidily_env_delete [OF assms] in blast)
  have "held_through (fsdb_close B)" by (rule tidily_held_through) (use tidily_fsdb(2) [OF assms] in blast)
  then show "held_through (handle (fsdb_close B) (\<lambda>_. ret ()))" by (rule hoare_handle) (auto intro: hoare_ret)
qed

lemma holds_none: "holds {} w \<Longrightarrow> d_objs w = {}"
  by (simp add: holds_def held_def)

lemma delete_held:
  assumes "throwing B" and "held w" and run: "fsdb_delete B w = (o', w')"
  shows "held w'" and "o' \<noteq> Threw EStuck" and "o' = Done \<Longrightarrow> d_objs w' = {}"
proof -
  show "held w'" and "o' \<noteq> Threw EStuck"
    using destroy_held [OF _ assms(2) _ run [unfolded fsdb_delete_def]] closing_through [OF assms(1)] by auto
  show "d_objs w' = {}" if fin: "o' = Done"
  proof -
    have chain: "forM [handle (fsdb_close B) (\<lambda>_. ret ()), database_close B DMedia, database_close B DDirectories,
       database_close B DNodes, env_delete B] (\<lambda>m. m) w = (Inr (), w')"
      by (rule conjunct1 [OF destroy_done]) (use run fin in \<open>simp only: fsdb_delete_def\<close>)
    have none: "D - {DMedia} - {DDirectories} - {DNodes} = {}" for D using UNIV_db by blast
    have nop: "tidily D D (ret ())" for D unfolding tidily_def by (rule hoare_ret)
    have rest: "tidily D {} (andthen (database_close B DMedia) (andthen (database_close B DDirectories)
        (andthen (database_close B DNodes) (andthen (env_delete B) (ret ())))))" for D
      by (rule tidily_andthen [OF tidily_close [OF assms(1) refl] tidily_andthen [OF tidily_close [OF assms(1) refl]
            tidily_andthen [OF tidily_close [OF assms(1)] tidily_andthen [OF tidily_env_delete [OF assms(1)] nop]]]]) (rule none [symmetric])
    have "hoare held (andthen (handle (fsdb_close B) (\<lambda>_. ret ())) (andthen (database_close B DMedia) (andthen (database_close B DDirectories)
        (andthen (database_close B DNodes) (andthen (env_delete B) (ret ())))))) (\<lambda>_. holds {}) (\<lambda>e w. held w \<and> e \<noteq> EStuck)"
      by (rule hoare_andthen [OF closing_through(3) [OF assms(1)] hoare_held [OF rest [unfolded tidily_def]]])
    from hoare_Inr [OF this _ assms(2)] chain show ?thesis by (auto dest: holds_none)
  qed
qed

text \<open>When closing does not throw, nothing is left, whatever becomes of the environment.\<close>

lemma close_sure:
  assumes "\<forall>h. fst (l_close B d h) = Inr ()" and "holds D w"
  shows "\<exists>w'. database_close B d w = (Inr (), w') \<and> holds (D - {d}) w'"
proof (cases "d_ptr w d")
  case None
  then have "D - {d} = D" using assms(2) by (auto simp: holds_def)
  then show ?thesis using None assms(2) by (simp add: database_close_def)
next
  case (Some a)
  then have a: "a \<in> d_objs w" using assms(2) held_ptr by (auto simp: holds_def)
  obtain x h where x: "l_close B d (host w) = (x, h)" by fastforce
  then have "x = Inr ()" using assms(1) by (metis fst_conv)
  then show ?thesis
    using Some a x assms(2) holds_drop [of D "w\<lparr>host := h\<rparr>" d a]
    by (simp add: database_close_def gets_def bind_def ret_def andthen_def with_db_def libM_def delete_db_def set_ptr_def modify_def)
qed

lemma delete_empty:
  assumes "throwing B" and "\<forall>d h. fst (l_close B d h) = Inr ()" and "held w" and run: "fsdb_delete B w = (o', w')"
  shows "d_objs w' = {}"
proof -
  have close: "\<exists>w'. database_close B d w = (Inr (), w') \<and> holds (D - {d}) w'" if "holds D w" for d D w
    by (rule close_sure [OF _ that]) (use assms(2) in blast)
  have "holds (dom (d_ptr w)) w" using assms(3) by (simp add: holds_def)
  from close [OF this] obtain v where v: "database_close B DNodes w = (Inr (), v)" "holds (dom (d_ptr w) - {DNodes}) v" by blast
  from close [OF v(2)] obtain u where u: "database_close B DDirectories v = (Inr (), u)" "holds (dom (d_ptr w) - {DNodes} - {DDirectories}) u" by blast
  from close [OF u(2)] obtain w1 where w1': "database_close B DMedia u = (Inr (), w1)" "holds (dom (d_ptr w) - {DNodes} - {DDirectories} - {DMedia}) w1" by blast
  have none: "dom (d_ptr w) - {DNodes} - {DDirectories} - {DMedia} = {}" using UNIV_db by blast
  have w1: "fsdb_close B w = (Inr (), w1)" "holds {} w1"
    using v(1) u(1) w1'(1) w1'(2) [unfolded none] by (simp_all add: fsdb_close_def)
  have idle: "database_close B d w1 = (Inr (), w1)" for d
    using w1(2) by (simp add: holds_def database_close_def)
  obtain r w2 where del: "env_delete B w1 = (r, w2)" by fastforce
  have "w2 = w'" using run w1(1) del by (cases r) (auto simp: fsdb_delete_def idle split: if_splits)
  moreover have "holds {} w2" 
    using w1(2) del by (cases "env_up w1"; cases "l_env_close B (host w1)")
      (auto simp: env_delete_def bind_def andthen_def gets_def libM_def modify_def ret_def split: sum.splits)
  ultimately show ?thesis by (simp add: holds_none)
qed

lemma holds_start: "d_ptr w = (\<lambda>_. None) \<Longrightarrow> d_objs w = {} \<Longrightarrow> holds {} w"
  by (simp add: holds_def held_def)

lemma new_none:
  assumes "throwing B"
  shows "hoare (holds {}) (fsdb_new B) (\<lambda>_. holds {}) (\<lambda>e w. holds {} w \<and> e \<noteq> EStuck)"
proof -
  have step: "holds {} w' \<and> r \<noteq> Inl EStuck" if w: "holds {} w" and run: "fsdb_new B w = (r, w')" for w r w'
  proof -
    obtain b h1 where h1: "l_missing B (host w) = (b, h1)" by fastforce
    obtain c h2 where h2: "l_mkdir B h1 = (c, h2)" by fastforce
    obtain x h3 where h3: "l_env_open B (if b then h2 else h1) = (x, h3)" by fastforce
    then have "x \<noteq> Inl EStuck" using assms unfolding throwing_def by (metis fst_conv)
    moreover have "d_ptr w = (\<lambda>_. None)" using w unfolding holds_def by simp
    moreover have "d_objs w = {}" by (rule holds_none [OF w])
    ultimately show ?thesis
      using run h1 h2 h3
      by (cases b; cases x)
        (auto simp: fsdb_new_def env_new_def bind_def andthen_def libM_def hostM_def modify_def ret_def cleanlogs_def holds_def held_def)
  qed
  show ?thesis by (rule hoareI) (use step in \<open>fastforce+\<close>)
qed

text \<open>A scope, whatever is thrown in it.\<close>

lemma scope_result:
  assumes "throwing B" and "holds {} w" and use: "tidily {} D use" and run: "fsdb_scope B use w = (o', w')"
  shows "held w' \<and> o' \<noteq> Threw EStuck \<and> (o' = Done \<longrightarrow> d_objs w' = {})
     \<and> ((\<forall>d h. fst (l_close B d h) = Inr ()) \<longrightarrow> d_objs w' = {})"
proof -
  obtain r w1 where new: "fsdb_new B w = (r, w1)" by fastforce
  have T: "hoare (holds {}) (fsdb_new B) (\<lambda>_. holds {}) (\<lambda>e w. holds {} w \<and> e \<noteq> EStuck)" by (rule new_none [OF assms(1)])
  show ?thesis
  proof (cases r)
    case (Inl e)
    then have "holds {} w1 \<and> e \<noteq> EStuck" using hoare_Inl [OF T, of w e w1] new assms(2) by simp
    then show ?thesis using run new Inl holds_none [of w1] by (auto simp: fsdb_scope_def holds_held)
  next
    case (Inr u)
    then have w1: "holds {} w1" using hoare_Inr [OF T, of w u w1] new assms(2) by simp
    obtain r2 w2 where mid: "use w1 = (r2, w2)" by fastforce
    have w2: "held w2 \<and> r2 \<noteq> Inl EStuck"
      using hoare_Inr [OF use [unfolded tidily_def], of w1 _ w2] hoare_Inl [OF use [unfolded tidily_def], of w1 _ w2] mid w1
      by (cases r2) (auto intro: holds_held)
    obtain o2 w3 where del: "fsdb_delete B w2 = (o2, w3)" by fastforce
    note F = delete_held [OF assms(1) conjunct1 [OF w2] del]
    have w': "w' = w3" and o': "o' = Done \<longrightarrow> o2 = Done" "o' \<noteq> Threw EStuck"
      using run new Inr mid del w2 F(2) by (auto simp: fsdb_scope_def split: sum.splits outcome.splits if_splits)
    then show ?thesis using F delete_empty [OF assms(1) _ conjunct1 [OF w2] del] by blast
  qed
qed

text \<open>
  A removal that throws goes unnoticed: \<^verbatim>\<open>rebuild\<close> succeeds and the database is opened with what was in it.
\<close>

lemma rebuild_keeps:
  assumes "lawful E" and "allocates B" and "d_ptr w d = None" and "d_next w \<notin> d_objs w"
    and "\<forall>h. \<exists>e. fst (l_remove B d h) = Inl e \<and> e \<noteq> EStuck" and "\<forall>h. fst (l_open B d True h) = Inr ()"
  shows "\<exists>w'. database_rebuild E B d w = (Inr (), w') \<and> dview E w' d = dview E w d"
proof -
  obtain h1 h2 h3 h4 e where h: "l_new B (host w) = (Inr (), h1)" "l_remove B d h1 = (Inl e, h2)" "e \<noteq> EStuck"
    "l_new B h2 = (Inr (), h3)" "l_open B d True h3 = (Inr (), h4)"
    using assms(2,5,6) unfolding allocates_def by (metis prod.collapse)
  have "database_close B d w = (Inr (), w)" using assms(3) by (simp add: database_close_def)
  then have "\<exists>w'. database_rebuild E B d w = (Inr (), w') \<and> dbs w' d = b_create (edb E) (dbs w d)"
    using h assms(4) by (simp add: database_rebuild_def new_db_Inr with_db_in set_ptr_def delete_db_def libM_def andthen_def
      bind_def handle_def ret_def modify_def db_create_def)
  then show ?thesis using assms(1) by auto
qed

text \<open>
  When the second allocation in \<^verbatim>\<open>rebuild\<close> fails, the pointer still refers to the object that has
  been deleted, and closing the database uses it.
\<close>

lemma rebuild_dangles:
  assumes "d_ptr w d = None" and "l_new B (host w) = (Inr (), h1)" and "l_remove B d h1 = (Inr (), h2)" and "l_new B h2 = (Inl e, h3)"
    and "d_next w \<notin> d_objs w"
  shows "\<exists>w'. database_rebuild E B d w = (Inl e, w') \<and> fst (database_close B d w') = Inl EStuck"
proof -
  let ?w2 = "w\<lparr>d_objs := insert (d_next w) (d_objs w), d_next := Suc (d_next w), host := h1, d_ptr := (d_ptr w)(d \<mapsto> d_next w)\<rparr>"
  obtain c where c: "handle (with_db (d_next w) (andthen (libM (l_remove B d)) (db_remove E d))) (\<lambda>_. ret ()) ?w2
      = (Inr (), ?w2\<lparr>host := h2, dbs := c\<rparr>)" using swallow_remove [of B d ?w2 "Inr ()" h2 "d_next w" E] assms(3) by auto
  let ?w = "w\<lparr>d_objs := d_objs w, d_next := Suc (d_next w), d_ptr := (d_ptr w)(d \<mapsto> d_next w), host := h3, dbs := c\<rparr>"
  have "database_close B d w = (Inr (), w)" using assms(1) by (simp add: database_close_def)
  then have "database_rebuild E B d w = (Inl e, ?w)"
    using c assms(2-5) by (simp add: database_rebuild_def new_db_Inr new_db_Inl with_db_in set_ptr_def delete_db_def)
  moreover have "fst (database_close B d ?w) = Inl EStuck"
    using assms(5) by (simp add: database_close_def bind_def andthen_def gets_def with_db_def throw_def)
  ultimately show ?thesis by blast
qed

end
