(* ===== verification/Buffers.thy ===== *)
theory Buffers
  imports Prelude
begin

text \<open>
  The class \<^verbatim>\<open>Buffer\<close> (\<^verbatim>\<open>database.hxx\<close>, \<^verbatim>\<open>database.cxx\<close>), which manages the memory of attribute
  values. The rest of the development has byte lists in its place; here it is shown that buffers
  behave as such values, except when one is assigned to itself.
\<close>

section \<open>Memory\<close>

text \<open>Blocks of memory, and the objects by name: a pointer that may be null, and a size.\<close>

record buffer =
  b_data :: "nat option"
  b_size :: nat

record memory =
  blocks :: "nat \<Rightarrow> string option"
  brk :: nat
  bufs :: "nat \<Rightarrow> buffer option"

type_synonym 'a bop = "(memory, 'a) m"

definition the_buffer :: "nat \<Rightarrow> buffer bop" where
  "the_buffer i = bind (gets (\<lambda>w. bufs w i)) (\<lambda>b. case b of None \<Rightarrow> throw EStuck | Some b \<Rightarrow> ret b)"

definition put_buffer :: "nat \<Rightarrow> buffer \<Rightarrow> unit bop" where
  "put_buffer i b = modify (\<lambda>w. w\<lparr>bufs := (bufs w)(i \<mapsto> b)\<rparr>)"

text \<open>Reading \<open>n\<close> bytes at a pointer, \<^verbatim>\<open>new char[n]\<close> with its contents, and \<^verbatim>\<open>delete[]\<close>.\<close>

definition peek :: "nat option \<Rightarrow> nat \<Rightarrow> string bop" where
  "peek p n =
     (if n = 0 then ret []
      else case p of
        None \<Rightarrow> throw EStuck
      | Some a \<Rightarrow> bind (gets (\<lambda>w. blocks w a)) (\<lambda>s.
          case s of None \<Rightarrow> throw EStuck | Some s \<Rightarrow> if n \<le> length s then ret (take n s) else throw EStuck))"

definition new_block :: "string \<Rightarrow> nat bop" where
  "new_block s = (\<lambda>w. (Inr (brk w), w\<lparr>blocks := (blocks w)(brk w \<mapsto> s), brk := Suc (brk w)\<rparr>))"

definition free_block :: "nat \<Rightarrow> unit bop" where
  "free_block a = bind (gets (\<lambda>w. blocks w a)) (\<lambda>s.
     if s = None then throw EStuck else modify (\<lambda>w. w\<lparr>blocks := (blocks w)(a := None)\<rparr>))"

section \<open>The class\<close>

definition buf_clean :: "nat \<Rightarrow> unit bop" where
  "buf_clean i = bind (the_buffer i) (\<lambda>b.
     case b_data b of
       None \<Rightarrow> ret ()
     | Some a \<Rightarrow> andthen (free_block a) (put_buffer i \<lparr>b_data = None, b_size = 0\<rparr>))"

text \<open>\<^verbatim>\<open>copy(data, size)\<close>: the source is a string that has been read, or a pointer into the memory.\<close>

definition buf_copy :: "nat \<Rightarrow> nat option \<Rightarrow> nat \<Rightarrow> unit bop" where
  "buf_copy i p n =
     bind (peek p n) (\<lambda>s.
     bind (new_block s) (\<lambda>a.
     put_buffer i \<lparr>b_data = Some a, b_size = n\<rparr>))"

definition buf_new :: "nat \<Rightarrow> unit bop" where
  "buf_new i = put_buffer i \<lparr>b_data = None, b_size = 0\<rparr>"

definition buf_of :: "nat \<Rightarrow> string \<Rightarrow> unit bop" where
  "buf_of i s = bind (new_block s) (\<lambda>a. put_buffer i \<lparr>b_data = Some a, b_size = length s\<rparr>)"

definition buf_clone :: "nat \<Rightarrow> nat \<Rightarrow> unit bop" where
  "buf_clone i j = bind (the_buffer j) (\<lambda>v. buf_copy i (b_data v) (b_size v))"

definition buf_delete :: "nat \<Rightarrow> unit bop" where
  "buf_delete i = andthen (buf_clean i) (modify (\<lambda>w. w\<lparr>bufs := (bufs w)(i := None)\<rparr>))"

text \<open>\<^verbatim>\<open>operator=\<close> reads the fields of \<open>v\<close>, a reference, after it has cleaned its own object.\<close>

definition buf_assign :: "nat \<Rightarrow> nat \<Rightarrow> unit bop" where
  "buf_assign i j = andthen (buf_clean i) (bind (the_buffer j) (\<lambda>v. buf_copy i (b_data v) (b_size v)))"

definition buf_string :: "nat \<Rightarrow> string bop" where
  "buf_string i = bind (the_buffer i) (\<lambda>b. peek (b_data b) (b_size b))"

section \<open>Buffers as values\<close>

text \<open>
  The memory represents the values \<open>V\<close>: each buffer owns a block of its own with its bytes, or
  none if it is empty, and there are no other blocks.
\<close>

definition bytes_at :: "memory \<Rightarrow> buffer \<Rightarrow> string option" where
  "bytes_at w b = (case b_data b of None \<Rightarrow> if b_size b = 0 then Some [] else None
     | Some a \<Rightarrow> Option.bind (blocks w a) (\<lambda>s. if length s = b_size b then Some s else None))"

definition represents :: "memory \<Rightarrow> (nat \<rightharpoonup> string) \<Rightarrow> bool" where
  "represents w V \<longleftrightarrow>
     (\<forall>i. case bufs w i of None \<Rightarrow> V i = None | Some b \<Rightarrow> V i \<noteq> None \<and> bytes_at w b = V i)
   \<and> (\<forall>i j b c a. bufs w i = Some b \<longrightarrow> bufs w j = Some c \<longrightarrow> b_data b = Some a \<longrightarrow> b_data c = Some a \<longrightarrow> i = j)
   \<and> (\<forall>a. blocks w a \<noteq> None \<longrightarrow> a < brk w \<and> (\<exists>i b. bufs w i = Some b \<and> b_data b = Some a))"

lemma representsD:
  assumes "represents w V"
  shows "bufs w i = Some b \<Longrightarrow> bytes_at w b = V i" and "bufs w i = Some b \<Longrightarrow> V i \<noteq> None" and "bufs w i = None \<Longrightarrow> V i = None"
    and "bufs w i = Some b \<Longrightarrow> bufs w j = Some c \<Longrightarrow> b_data b = Some a \<Longrightarrow> b_data c = Some a \<Longrightarrow> i = j"
    and "blocks w a \<noteq> None \<Longrightarrow> a < brk w" and "blocks w a \<noteq> None \<Longrightarrow> \<exists>i b. bufs w i = Some b \<and> b_data b = Some a"
proof -
  have 1: "case bufs w i of None \<Rightarrow> V i = None | Some b \<Rightarrow> V i \<noteq> None \<and> bytes_at w b = V i" for i
    using assms unfolding represents_def by blast
  show "bufs w i = Some b \<Longrightarrow> bytes_at w b = V i" and "bufs w i = Some b \<Longrightarrow> V i \<noteq> None" and "bufs w i = None \<Longrightarrow> V i = None"
    using 1 [of i] by simp_all
  show "bufs w i = Some b \<Longrightarrow> bufs w j = Some c \<Longrightarrow> b_data b = Some a \<Longrightarrow> b_data c = Some a \<Longrightarrow> i = j"
    using assms unfolding represents_def by blast
  show "blocks w a \<noteq> None \<Longrightarrow> a < brk w" and "blocks w a \<noteq> None \<Longrightarrow> \<exists>i b. bufs w i = Some b \<and> b_data b = Some a"
    using assms unfolding represents_def by blast+
qed

lemma representsI:
  assumes "\<And>i b. bufs w i = Some b \<Longrightarrow> V i \<noteq> None \<and> bytes_at w b = V i" and "\<And>i. bufs w i = None \<Longrightarrow> V i = None"
    and "\<And>i j b c a. bufs w i = Some b \<Longrightarrow> bufs w j = Some c \<Longrightarrow> b_data b = Some a \<Longrightarrow> b_data c = Some a \<Longrightarrow> i = j"
    and "\<And>a. blocks w a \<noteq> None \<Longrightarrow> a < brk w \<and> (\<exists>i b. bufs w i = Some b \<and> b_data b = Some a)"
  shows "represents w V"
proof -
  have "case bufs w i of None \<Rightarrow> V i = None | Some b \<Rightarrow> V i \<noteq> None \<and> bytes_at w b = V i" for i
    using assms(1,2) by (cases "bufs w i") simp_all
  then show ?thesis unfolding represents_def using assms(3,4) by blast
qed

lemma bytes_at_bufs [simp]: "bytes_at (w\<lparr>bufs := f\<rparr>) b = bytes_at w b"
  by (simp add: bytes_at_def split: option.split)

text \<open>An object with a value, and its block.\<close>

lemma valued:
  assumes "represents w V" and "V i = Some s"
  obtains b where "bufs w i = Some b" and "bytes_at w b = Some s" and "length s = b_size b" and "peek (b_data b) (b_size b) w = (Inr s, w)"
proof -
  obtain b where b: "bufs w i = Some b" using representsD(3) [OF assms(1)] assms(2) by (cases "bufs w i") auto
  have s: "bytes_at w b = Some s" using representsD(1) [OF assms(1) b] assms(2) by simp
  then have len: "length s = b_size b"
    by (auto simp: bytes_at_def split: option.splits if_splits bind_splits)
  have "peek (b_data b) (b_size b) w = (Inr s, w)"
    using s len by (auto simp: bytes_at_def peek_def bind_def gets_def ret_def split: option.splits if_splits bind_splits)
  then show thesis using that b s len by blast
qed

lemma string_value: "represents w V \<Longrightarrow> V i = Some s \<Longrightarrow> buf_string i w = (Inr s, w)"
  by (erule (1) valued) (simp add: buf_string_def the_buffer_def bind_def gets_def ret_def)

text \<open>Giving up the block of \<open>i\<close>, and getting one.\<close>

lemma represents_drop:
  assumes "represents w V" and b: "bufs w i = Some b" and a: "b_data b = Some a" and e: "e = None \<or> e = Some \<lparr>b_data = None, b_size = 0\<rparr>"
  shows "represents (w\<lparr>blocks := (blocks w)(a := None), bufs := (bufs w)(i := e)\<rparr>) (V(i := map_option (\<lambda>_. []) e))"
proof (rule representsI)
  fix j c assume j: "bufs (w\<lparr>blocks := (blocks w)(a := None), bufs := (bufs w)(i := e)\<rparr>) j = Some c"
  show "(V(i := map_option (\<lambda>_. []) e)) j \<noteq> None \<and> bytes_at (w\<lparr>blocks := (blocks w)(a := None), bufs := (bufs w)(i := e)\<rparr>) c
      = (V(i := map_option (\<lambda>_. []) e)) j"
  proof (cases "j = i")
    case True
    then show ?thesis using j e by (auto simp: bytes_at_def)
  next
    case False
    then have c: "bufs w j = Some c" using j by simp
    then have "b_data c \<noteq> Some a" using representsD(4) [OF assms(1) b c a] False by blast
    then have "bytes_at (w\<lparr>blocks := (blocks w)(a := None), bufs := (bufs w)(i := e)\<rparr>) c = bytes_at w c"
      by (simp add: bytes_at_def split: option.splits)
    then show ?thesis using representsD(1,2) [OF assms(1) c] False by simp
  qed
next
  fix j assume "bufs (w\<lparr>blocks := (blocks w)(a := None), bufs := (bufs w)(i := e)\<rparr>) j = None"
  then show "(V(i := map_option (\<lambda>_. []) e)) j = None" using representsD(3) [OF assms(1), of j] by (simp split: if_splits)
next
  fix j k c d x assume "bufs (w\<lparr>blocks := (blocks w)(a := None), bufs := (bufs w)(i := e)\<rparr>) j = Some c"
    and "bufs (w\<lparr>blocks := (blocks w)(a := None), bufs := (bufs w)(i := e)\<rparr>) k = Some d"
    and "b_data c = Some x" and "b_data d = Some x"
  then show "j = k" using representsD(4) [OF assms(1)] e by (auto split: if_splits)
next
  fix x assume "blocks (w\<lparr>blocks := (blocks w)(a := None), bufs := (bufs w)(i := e)\<rparr>) x \<noteq> None"
  then have x: "x \<noteq> a" "blocks w x \<noteq> None" by (simp_all split: if_splits)
  obtain j c where "bufs w j = Some c" "b_data c = Some x" using representsD(6) [OF assms(1) x(2)] by blast
  moreover have "j \<noteq> i" using calculation b a x(1) by auto
  ultimately show "x < brk (w\<lparr>blocks := (blocks w)(a := None), bufs := (bufs w)(i := e)\<rparr>)
      \<and> (\<exists>j c. bufs (w\<lparr>blocks := (blocks w)(a := None), bufs := (bufs w)(i := e)\<rparr>) j = Some c \<and> b_data c = Some x)"
    using representsD(5) [OF assms(1) x(2)] by auto
qed

lemma represents_take:
  assumes "represents w V" and free: "\<And>b. bufs w i = Some b \<Longrightarrow> b_data b = None"
  shows "represents (w\<lparr>blocks := (blocks w)(brk w \<mapsto> s), brk := Suc (brk w), bufs := (bufs w)(i \<mapsto> \<lparr>b_data = Some (brk w), b_size = length s\<rparr>)\<rparr>) (V(i \<mapsto> s))"
    (is "represents ?w _")
proof -
  have new: "blocks w (brk w) = None" using representsD(5) [OF assms(1), of "brk w"] by (cases "blocks w (brk w)") auto
  have old: "b_data c \<noteq> Some (brk w)" if "bufs w j = Some c" for j c
  proof
    assume c: "b_data c = Some (brk w)"
    then have "bytes_at w c = None" using new by (simp add: bytes_at_def)
    then show False using representsD(1,2) [OF assms(1) that] by simp
  qed
  show ?thesis
  proof (rule representsI)
    fix j c assume j: "bufs ?w j = Some c"
    show "(V(i \<mapsto> s)) j \<noteq> None \<and> bytes_at ?w c = (V(i \<mapsto> s)) j"
    proof (cases "j = i")
      case True
      then show ?thesis using j by (auto simp: bytes_at_def)
    next
      case False
      then have c: "bufs w j = Some c" using j by simp
      have "bytes_at ?w c = bytes_at w c" using old [OF c] by (simp add: bytes_at_def split: option.splits)
      then show ?thesis using representsD(1,2) [OF assms(1) c] False by simp
    qed
  next
    fix j assume "bufs ?w j = None"
    then show "(V(i \<mapsto> s)) j = None" using representsD(3) [OF assms(1), of j] by (simp split: if_splits)
  next
    fix j k c d x assume "bufs ?w j = Some c" and "bufs ?w k = Some d" and "b_data c = Some x" and "b_data d = Some x"
    then show "j = k" using representsD(4) [OF assms(1)] old by (auto split: if_splits)
  next
    fix x assume x: "blocks ?w x \<noteq> None"
    show "x < brk ?w \<and> (\<exists>j c. bufs ?w j = Some c \<and> b_data c = Some x)"
    proof (cases "x = brk w")
      case False
      then have b: "blocks w x \<noteq> None" using x by simp
      obtain j c where c: "bufs w j = Some c" "b_data c = Some x" using representsD(6) [OF assms(1) b] by blast
      then have "j \<noteq> i" using free by auto
      then show ?thesis using c representsD(5) [OF assms(1) b] by auto
    qed (auto intro: exI [of _ i])
  qed
qed

text \<open>From memory for \<open>V\<close>, the operation gives memory for \<open>V'\<close>.\<close>

definition turns :: "unit bop \<Rightarrow> (nat \<rightharpoonup> string) \<Rightarrow> (nat \<rightharpoonup> string) \<Rightarrow> bool" where
  "turns m V V' \<longleftrightarrow> (\<forall>w. represents w V \<longrightarrow> (\<exists>w'. m w = (Inr (), w') \<and> represents w' V'))"

lemma turnsI: "(\<And>w. represents w V \<Longrightarrow> \<exists>w'. m w = (Inr (), w') \<and> represents w' V') \<Longrightarrow> turns m V V'"
  unfolding turns_def by blast

lemma turns_andthen: "turns m V V1 \<Longrightarrow> turns k V1 V2 \<Longrightarrow> turns (andthen m k) V V2"
  unfolding turns_def andthen_def bind_def by fastforce

lemma represents_null:
  assumes "represents w V" and "bufs w i = None"
  shows "represents (w\<lparr>bufs := (bufs w)(i \<mapsto> \<lparr>b_data = None, b_size = 0\<rparr>)\<rparr>) (V(i \<mapsto> []))"
proof (rule representsI)
  fix j c assume "bufs (w\<lparr>bufs := (bufs w)(i \<mapsto> \<lparr>b_data = None, b_size = 0\<rparr>)\<rparr>) j = Some c"
  then show "(V(i \<mapsto> [])) j \<noteq> None \<and> bytes_at (w\<lparr>bufs := (bufs w)(i \<mapsto> \<lparr>b_data = None, b_size = 0\<rparr>)\<rparr>) c = (V(i \<mapsto> [])) j"
    using representsD(1,2) [OF assms(1), of j c] by (auto simp: bytes_at_def [of _ "\<lparr>b_data = None, b_size = 0\<rparr>"] split: if_splits)
next
  fix j assume "bufs (w\<lparr>bufs := (bufs w)(i \<mapsto> \<lparr>b_data = None, b_size = 0\<rparr>)\<rparr>) j = None"
  then show "(V(i \<mapsto> [])) j = None" using representsD(3) [OF assms(1), of j] by (simp split: if_splits)
next
  fix j k c d x assume "bufs (w\<lparr>bufs := (bufs w)(i \<mapsto> \<lparr>b_data = None, b_size = 0\<rparr>)\<rparr>) j = Some c"
    and "bufs (w\<lparr>bufs := (bufs w)(i \<mapsto> \<lparr>b_data = None, b_size = 0\<rparr>)\<rparr>) k = Some d" and "b_data c = Some x" and "b_data d = Some x"
  then show "j = k" using representsD(4) [OF assms(1)] by (auto split: if_splits)
next
  fix x assume "blocks (w\<lparr>bufs := (bufs w)(i \<mapsto> \<lparr>b_data = None, b_size = 0\<rparr>)\<rparr>) x \<noteq> None"
  then have b: "blocks w x \<noteq> None" by simp
  obtain j c where c: "bufs w j = Some c" "b_data c = Some x" using representsD(6) [OF assms(1) b] by blast
  then have "j \<noteq> i" using assms(2) by auto
  then show "x < brk (w\<lparr>bufs := (bufs w)(i \<mapsto> \<lparr>b_data = None, b_size = 0\<rparr>)\<rparr>)
      \<and> (\<exists>j c. bufs (w\<lparr>bufs := (bufs w)(i \<mapsto> \<lparr>b_data = None, b_size = 0\<rparr>)\<rparr>) j = Some c \<and> b_data c = Some x)"
    using c representsD(5) [OF assms(1) b] by auto
qed

lemma no_object: "represents w V \<Longrightarrow> V i = None \<Longrightarrow> bufs w i = None"
  using representsD(2) [of w V i] by (cases "bufs w i") auto

lemma turns_new: "V i = None \<Longrightarrow> turns (buf_new i) V (V(i \<mapsto> []))"
  by (rule turnsI) (simp add: buf_new_def put_buffer_def modify_def represents_null no_object)

lemma turns_of: "V i = None \<Longrightarrow> turns (buf_of i s) V (V(i \<mapsto> s))"
  by (rule turnsI) (auto simp: buf_of_def bind_def new_block_def put_buffer_def modify_def no_object intro!: represents_take)

text \<open>\<open>copy\<close> for an object without a block, from an object with the value \<open>s\<close>.\<close>

lemma copy_value:
  assumes "represents w V" and "\<And>b. bufs w i = Some b \<Longrightarrow> b_data b = None" and "V j = Some s"
  shows "\<exists>w'. bind (the_buffer j) (\<lambda>v. buf_copy i (b_data v) (b_size v)) w = (Inr (), w') \<and> represents w' (V(i \<mapsto> s))"
proof -
  obtain b where b: "bufs w j = Some b" "length s = b_size b" "peek (b_data b) (b_size b) w = (Inr s, w)"
    using assms(1,3) by (rule valued)
  show ?thesis
    using represents_take [OF assms(1,2), where s = s] b
    by (simp add: the_buffer_def buf_copy_def bind_def gets_def ret_def new_block_def put_buffer_def modify_def)
qed

lemma turns_clone: "V i = None \<Longrightarrow> V j = Some s \<Longrightarrow> turns (buf_clone i j) V (V(i \<mapsto> s))"
  by (rule turnsI) (auto simp: buf_clone_def no_object intro!: copy_value)

lemma clean_value:
  assumes "represents w V" and "V i = Some s"
  shows "\<exists>w'. buf_clean i w = (Inr (), w') \<and> represents w' (V(i \<mapsto> [])) \<and> (\<forall>b. bufs w' i = Some b \<longrightarrow> b_data b = None)"
proof -
  obtain b where b: "bufs w i = Some b" "bytes_at w b = Some s" using assms by (rule valued)
  show ?thesis
  proof (cases "b_data b")
    case None
    then have "s = []" using b(2) by (auto simp: bytes_at_def split: if_splits)
    then have "V(i \<mapsto> []) = V" using assms(2) by auto
    then show ?thesis using None b assms(1) by (simp add: buf_clean_def the_buffer_def bind_def gets_def ret_def)
  next
    case (Some a)
    then have "blocks w a \<noteq> None" using b(2) by (cases "blocks w a") (simp_all add: bytes_at_def)
    then show ?thesis
      using Some b(1) represents_drop [OF assms(1) b(1) Some, of "Some \<lparr>b_data = None, b_size = 0\<rparr>"]
      by (simp add: buf_clean_def the_buffer_def bind_def gets_def ret_def andthen_def free_block_def modify_def put_buffer_def)
  qed
qed

lemma turns_assign:
  assumes "V i = Some r" and "V j = Some s"
  shows "turns (buf_assign i j) V (V(i \<mapsto> (if i = j then [] else s)))"
proof (rule turnsI)
  fix w assume "represents w V"
  then obtain w1 where w1: "buf_clean i w = (Inr (), w1)" "represents w1 (V(i \<mapsto> []))" "\<And>b. bufs w1 i = Some b \<Longrightarrow> b_data b = None"
    using clean_value [where V = V and i = i and w = w, OF _ assms(1)] by blast
  have "(V(i \<mapsto> [])) j = Some (if i = j then [] else s)" using assms(2) by simp
  from copy_value [where i = i, OF w1(2,3) this]
  obtain w2 where "bind (the_buffer j) (\<lambda>v. buf_copy i (b_data v) (b_size v)) w1 = (Inr (), w2)"
    and "represents w2 (V(i \<mapsto> (if i = j then [] else s)))"
    unfolding fun_upd_upd by blast
  moreover from this(1) have "buf_assign i j w = (Inr (), w2)"
    using w1(1) by (simp add: buf_assign_def andthen_def bind_def [of "buf_clean i"])
  ultimately show "\<exists>w'. buf_assign i j w = (Inr (), w') \<and> represents w' (V(i \<mapsto> (if i = j then [] else s)))"
    by blast
qed

lemma represents_forget:
  assumes "represents w V" and "\<And>b. bufs w i = Some b \<Longrightarrow> b_data b = None"
  shows "represents (w\<lparr>bufs := (bufs w)(i := None)\<rparr>) (V(i := None))"
proof (rule representsI)
  fix j c assume "bufs (w\<lparr>bufs := (bufs w)(i := None)\<rparr>) j = Some c"
  then show "(V(i := None)) j \<noteq> None \<and> bytes_at (w\<lparr>bufs := (bufs w)(i := None)\<rparr>) c = (V(i := None)) j"
    using representsD(1,2) [OF assms(1), of j c] by (auto simp: bytes_at_def [of _ "\<lparr>b_data = None, b_size = 0\<rparr>"] split: if_splits)
next
  fix j assume "bufs (w\<lparr>bufs := (bufs w)(i := None)\<rparr>) j = None"
  then show "(V(i := None)) j = None" using representsD(3) [OF assms(1), of j] by (simp split: if_splits)
next
  fix j k c d x assume "bufs (w\<lparr>bufs := (bufs w)(i := None)\<rparr>) j = Some c"
    and "bufs (w\<lparr>bufs := (bufs w)(i := None)\<rparr>) k = Some d" and "b_data c = Some x" and "b_data d = Some x"
  then show "j = k" using representsD(4) [OF assms(1)] by (auto split: if_splits)
next
  fix x assume "blocks (w\<lparr>bufs := (bufs w)(i := None)\<rparr>) x \<noteq> None"
  then have b: "blocks w x \<noteq> None" by simp
  obtain j c where c: "bufs w j = Some c" "b_data c = Some x" using representsD(6) [OF assms(1) b] by blast
  then have "j \<noteq> i" using assms(2) by auto
  then show "x < brk (w\<lparr>bufs := (bufs w)(i := None)\<rparr>) \<and> (\<exists>j c. bufs (w\<lparr>bufs := (bufs w)(i := None)\<rparr>) j = Some c \<and> b_data c = Some x)"
    using c representsD(5) [OF assms(1) b] by auto
qed

lemma turns_delete: "V i = Some s \<Longrightarrow> turns (buf_delete i) V (V(i := None))"
proof (rule turnsI)
  fix w assume "V i = Some s" and "represents w V"
  then obtain w1 where w1: "buf_clean i w = (Inr (), w1)" "represents w1 (V(i \<mapsto> []))" "\<And>b. bufs w1 i = Some b \<Longrightarrow> b_data b = None"
    using clean_value by blast
  then show "\<exists>w'. buf_delete i w = (Inr (), w') \<and> represents w' (V(i := None))"
    using represents_forget [where i = i, OF w1(2,3)] by (simp add: buf_delete_def andthen_def bind_def modify_def)
qed

text \<open>With no objects left, no memory is.\<close>

lemma represents_none: "represents w (\<lambda>_. None) \<Longrightarrow> blocks w a = None"
  using representsD(2,6) [of w "\<lambda>_. None"] by blast

end
