(* ===== verification/Layer_Props.thy ===== *)
theory Layer_Props
  imports Example_Host Environment Buffers
begin

text \<open>
  The properties of the layers below the nodes: registers and their databases, names and
  paths, security contexts. Each one is followed by a witness on the host of
  \<open>Example_Host\<close>.
\<close>

section \<open>Registers\<close>

text \<open>
  C1. A typed attribute that is written (\<^verbatim>\<open>setattr\<close>) is read back (\<^verbatim>\<open>getattr\<close>) with the
  same value whatever the byte order of the host, and every other attribute of every register of
  the same identifier type reads as before.
\<close>

theorem setattr_getattr:
  fixes i j :: "'a::len word" and v :: "'b::len word"
  assumes "lawful E" and "8 dvd LENGTH('a)" and "8 dvd LENGTH('b)"
  shows "fst (andthen (setattr E d i n v) (getattr E d i n) w) = Inr v
    \<and> ((j, m) \<noteq> (i, n) \<longrightarrow> fst (andthen (setattr E d i n v) (getattrv E d j m) w) = fst (getattrv E d j m w))"
proof
  show "fst (andthen (setattr E d i n v) (getattr E d i n) w) = Inr v"
    using assms by (simp add: setattr_eq getattr_Some [where v = v])
  show "(j, m) \<noteq> (i, n) \<longrightarrow> fst (andthen (setattr E d i n v) (getattrv E d j m) w) = fst (getattrv E d j m w)"
    using assms by (auto simp: setattr_eq getattrv_eq split: option.splits)
qed

theorem setattr_getattr_witness:
  "fst (andthen (setattr demo_env DNodes (7 :: nodeid) A_size (513 :: off_t)) (getattr demo_env DNodes (7 :: nodeid) A_size)
     demo_raw) = (Inr 513 :: exn + off_t)"
  using setattr_getattr [of demo_env DNodes "7 :: nodeid" A_size "513 :: off_t" demo_raw 8 A_mode, OF demo_lawful]
  by simp

text \<open>
  The byte strings under which two registers are stored compare as the numbers that
  their identifiers encode: the database's order of registers is the numeric order, on little
  and big endian hosts, as \<^verbatim>\<open>createregister\<close> needs when it takes the last one.
\<close>

theorem identifiers_ordered:
  fixes u v :: "'a::len word"
  assumes "8 dvd LENGTH('a)"
  shows "getkey E (host_to_db E u) '''' < getkey E (host_to_db E v) '''' \<longleftrightarrow> u < v"
  using native_less [OF assms, of E "host_to_db E u" "host_to_db E v"] assms
  by (simp add: getkey_def word_less_nat_alt)

theorem identifiers_ordered_witness:
  "getkey demo_env (host_to_db demo_env (255 :: nodeid)) '''' < getkey demo_env (host_to_db demo_env (256 :: nodeid)) ''''"
  using identifiers_ordered [of demo_env "255 :: nodeid" 256] by simp

text \<open>
  C2. \<^verbatim>\<open>createregister\<close> returns an identifier that had no attribute before, in a database
  whose keys hold an identifier and whose largest one is not in use; afterwards that register
  exists, and no other attribute of any register or database has changed.
\<close>

theorem createregister_fresh:
  fixes w :: "('s, 'h, 'z) world_scheme"
  assumes "lawful E" and "8 dvd LENGTH('a::len)" and "keys_ok E w d TYPE('a)"
    and "\<And>m. attr E w d (host_to_db E (- 1) :: 'a word) m = None"
  shows "\<exists>(i :: 'a word) w'. createregister E d w = (Inr i, w') \<and> (\<forall>m. attr E w d i m = None)
     \<and> (\<forall>(j :: 'a word) m. attr E w' d j m = (if j = i \<and> m = '''' then Some '''' else attr E w d j m))
     \<and> (\<forall>d'. d' \<noteq> d \<longrightarrow> view (edb E) (dbs w' d') = view (edb E) (dbs w d'))"
proof -
  obtain i :: "'a word" and w' where c: "createregister E d w = (Inr i, w')" "\<forall>m. attr E w d i m = None"
    "\<forall>d'. d' \<noteq> d \<longrightarrow> dview E w' d' = dview E w d'" "dview E w' d = (dview E w d)(getkey E i '''' \<mapsto> '''')"
    using createregister_form [OF assms] by blast
  have "attr E w' d j m = (if j = i \<and> m = '''' then Some '''' else attr E w d j m)" for j :: "'a word" and m
    using c(4) by (auto simp: attr_def getkey_inject [OF assms(2)])
  then show ?thesis using c by blast
qed

theorem createregister_fresh_witness:
  "\<exists>(i :: mediumid) w'. createregister demo_env DMedia demo_raw = (Inr i, w') \<and> (\<forall>m. attr demo_env demo_raw DMedia i m = None)"
proof -
  have "dview demo_env demo_raw DMedia = Map.empty" by (simp add: al_view demo_raw_def)
  then have "keys_ok demo_env demo_raw DMedia TYPE(32)" and "attr demo_env demo_raw DMedia (i :: mediumid) m = None" for i m
    by (simp_all add: keys_ok_def attr_def)
  then show ?thesis
    using createregister_fresh [of demo_env demo_raw DMedia, where 'a = 32, OF demo_lawful] by auto
qed

text \<open>
  C3. \<^verbatim>\<open>getattrs\<close> lists exactly the attributes of the register, once each and in order, without
  the dummy attribute that allocates it, and \<^verbatim>\<open>countattrs\<close> returns their number: the cursor
  neither stops early nor runs into the next register.
\<close>

theorem getattrs_exact:
  fixes i :: "'a::len word"
  assumes "lawful E" and "8 dvd LENGTH('a)"
  shows "\<exists>l. getattrs E d i w = (Inr l, w) \<and> sorted l \<and> distinct l
     \<and> set l = {n. n \<noteq> '''' \<and> attr E w d i n \<noteq> None} \<and> countattrs E d i w = (Inr (int (length l)), w)"
proof (intro exI conjI)
  let ?l = "sorted_list_of_set (attr_names E w d i)"
  show "getattrs E d i w = (Inr ?l, w)" by (rule getattrs_eq [OF assms])
  show "set ?l = {n. n \<noteq> '''' \<and> attr E w d i n \<noteq> None}"
    using finite_attr_names [OF assms(1), of w d i] by (simp add: attr_names_def)
  show "countattrs E d i w = (Inr (int (length ?l)), w)"
    using countattrs_eq [OF assms, of d i w] by simp
qed simp_all

theorem getattrs_exact_witness:
  "\<exists>l. getattrs demo_env DDirectories (0 :: nodeid) demo_fs = (Inr l, demo_fs)
     \<and> countattrs demo_env DDirectories (0 :: nodeid) demo_fs = (Inr (int (length l)), demo_fs)"
  using getattrs_exact [of demo_env DDirectories "0 :: nodeid" demo_fs, OF demo_lawful] by auto

text \<open>
  C4. \<^verbatim>\<open>Register::remove\<close> always succeeds and deletes every attribute of the register, the
  dummy one included, and nothing else.
\<close>

theorem remove_register_exact:
  fixes i :: "'a::len word"
  assumes "lawful E" and "8 dvd LENGTH('a)"
  shows "\<exists>w'. remove_register E d i w = (Inr (), w')
     \<and> (\<forall>(j :: 'a word) m. attr E w' d j m = (if j = i then None else attr E w d j m))
     \<and> (\<forall>d'. d' \<noteq> d \<longrightarrow> view (edb E) (dbs w' d') = view (edb E) (dbs w d'))
     \<and> txns w' = txns w"
  using remove_register_form [OF assms, of d i w] by (auto simp: frame_def)

theorem remove_register_exact_witness:
  "\<exists>w'. remove_register demo_env DNodes (0 :: nodeid) demo_fs = (Inr (), w')
     \<and> (\<forall>m. attr demo_env w' DNodes (0 :: nodeid) m = None)"
  using remove_register_exact [of demo_env DNodes "0 :: nodeid" demo_fs, OF demo_lawful] by auto

text \<open>
  \<^verbatim>\<open>getregisters\<close> lists every register of the database exactly once, when the largest
  identifier is not in use.
\<close>

theorem getregisters_exact:
  fixes w :: "('s, 'h, 'z) world_scheme"
  assumes "lawful E" and "8 dvd LENGTH('a::len)" and "keys_ok E w d TYPE('a)"
    and "\<And>m. attr E w d (- 1 :: 'a word) m = None"
  shows "\<exists>l. getregisters E d w = (Inr l, w) \<and> distinct l \<and> set l = {i :: 'a word. \<exists>m. attr E w d i m \<noteq> None}"
  by (rule getregisters_form [OF assms])

theorem getregisters_exact_witness:
  "\<exists>l. getregisters demo_env DNodes demo_fs = (Inr l, demo_fs) \<and> set l = {0 :: nodeid}"
proof -
  have keys: "keys_ok demo_env demo_fs DNodes TYPE(64)"
    by (rule link_invD(1) [OF fs_inv_link [OF demo_fs_form(1)]])
  have top: "attr demo_env demo_fs DNodes (- 1 :: nodeid) m = None" for m
    using demo_ids_left by (simp add: ids_left_def)
  have "attr demo_env demo_fs DNodes (0 :: nodeid) A_mode \<noteq> None"
    using wattr_attr [OF demo_mode] .
  then have "{i :: nodeid. \<exists>m. attr demo_env demo_fs DNodes i m \<noteq> None} = {0}"
    using demo_fs_form(2) by (auto simp: root_state_def)
  then show ?thesis
    using getregisters_exact [OF demo_lawful _ keys top] by auto
qed

section \<open>Names and paths\<close>

text \<open>
  C5. \<^verbatim>\<open>tokenize\<close> on slashes yields the non-empty components of the path, none of which holds
  a slash, and is undone by \<^verbatim>\<open>join\<close>: joining the tokens and tokenizing again yields the same
  tokens, so that the joined path is a normal form, as the path cache assumes.
\<close>

theorem tokenize_normal:
  "tokenize ''/'' p = filter (\<lambda>t. t \<noteq> []) (split_at ''/'' p)
   \<and> (\<forall>t \<in> set (tokenize ''/'' p). CHR ''/'' \<notin> set t)
   \<and> tokenize ''/'' (join ''/'' '''' (tokenize ''/'' p)) = tokenize ''/'' p"
proof (intro conjI ballI)
  have parts: "\<forall>t \<in> set (tokens ''/'' p). t \<noteq> [] \<and> (\<forall>x \<in> set t. x \<notin> set ''/'')"
    using tokens_parts by blast
  show "tokenize ''/'' p = filter (\<lambda>t. t \<noteq> []) (split_at ''/'' p)"
    by (simp add: tokenize_tokens tokens_def)
  show "CHR ''/'' \<notin> set t" if "t \<in> set (tokenize ''/'' p)" for t
    using that parts by (auto simp: tokenize_tokens)
  show "tokenize ''/'' (join ''/'' '''' (tokenize ''/'' p)) = tokenize ''/'' p"
    unfolding tokenize_tokens by (rule tokens_join [OF parts]) simp
qed

theorem tokenize_normal_witness:
  "tokenize ''/'' (join ''/'' '''' (tokenize ''/'' ''//a/b//c/'')) = tokenize ''/'' ''//a/b//c/''"
  using tokenize_normal [of "''//a/b//c/''"] by blast

text \<open>
  For an absolute path other than the root, the constructor of \<^verbatim>\<open>Path\<close> splits off the last
  component as the leaf: the components of the parent path followed by the leaf are the
  components of the path, whatever slashes repeat or trail.
\<close>

theorem path_split_last:
  assumes "path \<noteq> '''' \<and> path ! 0 = CHR ''/''" and "tokenize ''/'' path \<noteq> []"
  shows "tokenize ''/'' (fst (path_split path)) = butlast (tokenize ''/'' path)
     \<and> snd (path_split path) = last (tokenize ''/'' path)"
  using path_split_tokens [of path] assms by (simp add: tokenize_tokens)

theorem path_split_last_witness: "snd (path_split ''/usr//lib/'') = ''lib''"
proof -
  have t: "tokenize ''/'' ''/usr//lib/'' = [''usr'', ''lib'']"
    by (simp add: tokenize_tokens tokens_def)
  show ?thesis using path_split_last [of "''/usr//lib/''"] by (simp add: t)
qed

section \<open>Security contexts\<close>

text \<open>
  C6. \<^verbatim>\<open>SContextCache::get\<close> returns a context of the caller's own user and group, makes it the
  most recently used one, keeps the cache within its 40 entries with map and queue in agreement,
  and releases the mutex, also when the constructor of the context throws.
\<close>

theorem sc_get_cache:
  assumes "sc_inv (scache w)"
  shows "\<exists>r w'. sc_get E uid gid w = (r, w') \<and> sc_inv (scache w') \<and> sc_nelems (scache w') \<le> 40
     \<and> \<not> sc_locked (scache w')
     \<and> (\<forall>s. r = Inr s \<longrightarrow> suid s = uid \<and> sgid s = gid \<and> gid \<in> sgroups s
          \<and> sc_cache (scache w') (uid, gid) = Some s \<and> hd (sc_queue (scache w')) = (uid, gid))"
  by (cases rule: sc_get_cases [OF assms, of E uid gid])
    (auto simp: sc_inv_def sctx_for_def SCONTEXTCACHE_MAX_ELEMS_def)

theorem sc_get_cache_witness:
  "\<exists>r w'. sc_get demo_env 1000 100 demo_raw = (r, w') \<and> sc_inv (scache w') \<and> \<not> sc_locked (scache w')"
proof -
  have "sc_inv (scache demo_raw)" by (simp add: demo_raw_def sc_inv_new)
  from sc_get_cache [OF this, of demo_env 1000 100] show ?thesis by blast
qed

section \<open>Set-up, and the memory of values\<close>

text \<open>
  C7. In a scope with a \<^verbatim>\<open>FsDb\<close>, from \<^verbatim>\<open>FsDb::FsDb\<close> to \<^verbatim>\<open>~FsDb\<close>, in which the three databases are
  opened or rebuilt, whatever call of the database library throws and wherever the exception goes (one that
  leaves the scope runs the destructors on its way, and a destructor that throws does not keep the others
  from running): no deleted object of class \<^verbatim>\<open>Db\<close> is used, every object left is still in the pointer of
  its database, and none is left when no exception leaves the scope. When only \<^verbatim>\<open>Db::close\<close> does not throw, none
  is left however the scope ends. Opening needs no more than that. For rebuilding, the allocation of an
  object must not fail, because \<^verbatim>\<open>rebuild\<close> deletes one object before it allocates the next and keeps the
  pointer in between.
\<close>

theorem handles_released:
  fixes w :: "('s, 'h, 'z) dbworld_scheme"
  assumes "throwing B" and "d_ptr w = (\<lambda>_. None)" and "d_objs w = {}"
    and "use = fsdb_open B
      \<or> allocates B \<and> use = andthen (database_rebuild E B DNodes) (andthen (database_rebuild E B DDirectories) (database_rebuild E B DMedia))"
  shows "case fsdb_scope B use w of
      (result, w') \<Rightarrow> result \<noteq> Threw EStuck \<and> d_objs w' = ran (d_ptr w') \<and> (result = Done \<longrightarrow> d_objs w' = {})
        \<and> ((\<forall>d h. fst (l_close B d h) = Inr ()) \<longrightarrow> d_objs w' = {})"
proof -
  have all: "insert DMedia (insert DDirectories (insert DNodes {})) = UNIV" using UNIV_db by blast
  have "tidily {} UNIV (andthen (database_rebuild E B DNodes) (andthen (database_rebuild E B DDirectories) (database_rebuild E B DMedia)))"
    if "allocates B" for E :: "('s, 'h) env"
    unfolding all [symmetric]
    by (rule tidily_andthen [OF tidily_rebuild [OF assms(1) that] tidily_andthen [OF tidily_rebuild [OF assms(1) that] tidily_rebuild [OF assms(1) that]]])
  then have "tidily {} UNIV use" using assms(4) tidily_fsdb(1) [OF assms(1)] by blast
  from scope_result [OF assms(1) holds_start [OF assms(2,3)] this surjective_pairing]
  show ?thesis by (auto simp: held_def split: prod.split)
qed

definition demo_dblib :: "unit dblib" where
  "demo_dblib = \<lparr>l_missing = \<lambda>h. (False, h), l_mkdir = \<lambda>h. (0, h), l_env_open = \<lambda>h. (Inr (), h), l_env_close = \<lambda>h. (Inr (), h),
     l_new = \<lambda>h. (Inr (), h), l_open = \<lambda>d c h. (if c then Inr () else Inl EDb, h), l_close = \<lambda>d h. (Inr (), h), l_remove = \<lambda>d h. (Inl EDb, h)\<rparr>"

text \<open>The library of the witness opens only the databases that it has just created.\<close>

theorem handles_released_witness:
  "case fsdb_scope demo_dblib (fsdb_open demo_dblib)
      \<lparr>dbs = \<lambda>_. (), txns = \<lambda>_. False, opcount = 0, ckpts = 0, ticks = 0, host = (), d_ptr = \<lambda>_. None, d_objs = {}, d_next = 0, env_up = False\<rparr> of
      (result, w') \<Rightarrow> result \<noteq> Threw EStuck \<and> d_objs w' = {}"
proof -
  have "throwing demo_dblib" and close: "\<forall>d h. fst (l_close demo_dblib d h) = Inr ()" by (simp_all add: demo_dblib_def throwing_def)
  from handles_released [OF this(1) _ _ disjI1 [OF refl], of "\<lparr>dbs = \<lambda>_. (), txns = \<lambda>_. False, opcount = 0, ckpts = 0, ticks = 0, host = (),
      d_ptr = \<lambda>_. None, d_objs = {}, d_next = 0, env_up = False\<rparr>"] close
  show ?thesis by (auto split: prod.splits)
qed

text \<open>
  C8. Objects of class \<^verbatim>\<open>Buffer\<close> behave as the byte strings they hold, which is how the rest of
  the development sees them: each construction, copy, assignment and destruction changes the value
  of one object only, every block of memory belongs to one object, none is read after it has been
  freed and none is left when the objects are gone. The exception is an object that is assigned to
  itself, which comes out empty.
\<close>

theorem buffers_are_values:
  assumes "V i = None" and "V j = Some s" and "V k = Some r"
  shows "turns (buf_new i) V (V(i \<mapsto> [])) \<and> turns (buf_of i t) V (V(i \<mapsto> t)) \<and> turns (buf_clone i j) V (V(i \<mapsto> s))
     \<and> turns (buf_delete j) V (V(j := None)) \<and> (j \<noteq> k \<longrightarrow> turns (buf_assign k j) V (V(k \<mapsto> s))) \<and> turns (buf_assign j j) V (V(j \<mapsto> []))
     \<and> (\<forall>w. represents w V \<longrightarrow> buf_string j w = (Inr s, w))"
  using turns_new [where V = V and i = i, OF assms(1)] turns_of [where V = V and i = i and s = t, OF assms(1)]
    turns_clone [where V = V and i = i and j = j, OF assms(1,2)] turns_delete [where V = V and i = j, OF assms(2)]
    turns_assign [where V = V and i = k and j = j, OF assms(3,2)] turns_assign [where V = V and i = j and j = j, OF assms(2,2)]
    string_value [of _ V j s] assms(2)
  by auto

theorem buffers_are_values_witness:
  "turns (buf_assign 2 1) [1 \<mapsto> ''ab'', 2 \<mapsto> ''c''] [1 \<mapsto> ''ab'', 2 \<mapsto> ''ab'']"
  using buffers_are_values [of "[1 \<mapsto> ''ab'', 2 \<mapsto> ''c'']" 0 1 "''ab''" 2 "''c''"] by (simp add: fun_upd_twist)

end
