(* ===== verification/Tree_Props.thy ===== *)
theory Tree_Props
  imports Example_Host
begin

text \<open>
  The properties of nodes, directories and path resolution, with their witnesses.
\<close>

section \<open>Permissions\<close>

text \<open>
  C9. \<^verbatim>\<open>Node::access\<close> grants exactly what the mode says: the superuser may do everything, and
  for any other caller each requested bit must be set in the one class of the mode that applies
  (owner, else group, else others); otherwise it throws \<^verbatim>\<open>EAccess\<close>. The state never changes.
\<close>

theorem access_exact:
  assumes "lawful E" and "mode_of E w (nid n) = Some m"
    and "wattr E w DNodes (nid n) A_uid = Some uid" and "wattr E w DNodes (nid n) A_gid = Some gid"
  shows "access E sctx n mode w =
    (if suid sctx = 0
        \<or> (\<forall>k. bit mode k \<longrightarrow> k < 3
             \<and> bit m (k + (if suid sctx = uid then 6 else if gid \<in> sgroups sctx then 3 else 0)))
     then Inr () else Inl EAccess, w)"
  unfolding access_eq [OF assms] permits_def class_shift_def ..

theorem access_exact_witness:
  "access demo_env \<lparr>suid = 1000, sgid = 100, sgroups = {100}\<rparr> \<lparr>nid = 0, nkind = KDirectory\<rparr> 2 demo_fs
     = (Inl EAccess, demo_fs)"
proof -
  have "bit (2 :: mode_t) 1" and "\<not> bit (0x41ED :: mode_t) 1" by simp_all
  then have "\<not> (\<forall>k. bit (2 :: mode_t) k \<longrightarrow> k < 3 \<and> bit (0x41ED :: mode_t) (k + 0))"
    by (metis add.right_neutral)
  then show ?thesis
    using access_exact [of demo_env demo_fs "\<lparr>nid = 0, nkind = KDirectory\<rparr>" "0x41ED" 0 0
        "\<lparr>suid = 1000, sgid = 100, sgroups = {100}\<rparr>" 2, OF demo_lawful] by simp
qed

section \<open>The tree\<close>

text \<open>
  C10. \<^verbatim>\<open>FsDb::rebuild\<close> succeeds from any state and leaves a file system in order: its one node
  is the root directory with identifier 0, mode 0755, the owner and group of the process and the
  entries \<^verbatim>\<open>.\<close> and \<^verbatim>\<open>..\<close>, which its link count counts. (The old files can be removed, or are not
  there: \<open>lawful\<close> has this of \<^verbatim>\<open>Db::remove\<close>, whose failures the code swallows.)
\<close>

theorem rebuild_root:
  fixes E :: "('s, 'h) env" and w :: "('s, 'h, 'z) world_scheme"
  assumes "lawful E"
  shows "\<exists>w'. fsdb_rebuild E w = (Inr (), w') \<and> fs_inv E w'
     \<and> (\<forall>d n. entry E w' d n = (if d = 0 \<and> (n = ''.'' \<or> n = ''..'') then Some 0 else None))
     \<and> (\<forall>i n. i \<noteq> 0 \<longrightarrow> attr E w' DNodes (i :: nodeid) n = None)
     \<and> mode_of E w' 0 = Some (or S_IFDIR 0x1ED) \<and> nlink_of E w' 0 = Some 2
     \<and> wattr E w' DNodes (0 :: nodeid) A_uid = Some (my_uid E) \<and> wattr E w' DNodes (0 :: nodeid) A_gid = Some (my_gid E)"
proof -
  obtain w' where w': "fsdb_rebuild E w = (Inr (), w')" "fs_inv E w'" "root_state E w'"
    using rebuild_form [OF assms, of w] by blast
  have "refs E w' 0 = {(0, ''.''), (0, ''..'')}"
    using w'(3) by (auto simp: root_state_def refs_def split: if_splits)
  then have "nlink_of E w' 0 = Some 2" using nlink_refs [OF w'(2), of 0] by (simp add: card_insert_if)
  then show ?thesis using w' by (simp add: root_state_def)
qed

theorem rebuild_root_witness:
  "\<exists>w'. fsdb_rebuild demo_env demo_raw = (Inr (), w') \<and> nlink_of demo_env w' 0 = Some 2"
  using rebuild_root [OF demo_lawful, of demo_raw] by blast

text \<open>
  C11. \<^verbatim>\<open>create\<close> of each of the four classes of nodes succeeds with a node that did not exist
  before, leaves every other node and directory alone and keeps the tree in order; a new directory
  refers to itself as \<^verbatim>\<open>.\<close>, any other new node is referred to by nothing.
\<close>

theorem create_fresh:
  fixes E :: "('s, 'h) env" and w :: "('s, 'h, 'z) world_scheme"
  assumes "lawful E" and "fs_inv E w" and "ids_left E w"
  shows "\<exists>n w'. create_kind E k w = (Inr n, w') \<and> nkind n = k \<and> fs_inv E w'
     \<and> (\<forall>m. attr E w DNodes (nid n) m = None)
     \<and> (\<forall>j m. j \<noteq> nid n \<longrightarrow> attr E w' DNodes j m = attr E w DNodes j m
          \<and> attr E w' DDirectories j m = attr E w DDirectories j m)
     \<and> refs E w' (nid n) = (if k = KDirectory then {(nid n, ''.'')} else {})"
proof -
  obtain n w' where "create_kind E k w = (Inr n, w')" "nkind n = k" "created E (nid n) w w'"
    "fs_inv E w'" "new_node E n w'"
    using create_kind_form [OF assms, of k] by blast
  then show ?thesis by (intro exI [of _ n] exI [of _ w']) (simp add: created_def new_node_def split: if_splits)
qed

theorem create_fresh_witness:
  "\<exists>n w'. create_kind demo_env KFile demo_fs = (Inr n, w') \<and> nkind n = KFile \<and> refs demo_env w' (nid n) = {}"
  using create_fresh [OF demo_lawful demo_fs_form(1) demo_ids_left, of KFile] by auto

text \<open>
  C12. \<^verbatim>\<open>Directory::addchild\<close> keeps the link counts right. Under a free name it succeeds: the
  entry refers to the node, the node has one more link, and every other attribute of every node and
  every other entry of every directory is as it was. Under a taken name it throws \<^verbatim>\<open>EExists\<close> and, for
  a node that has other names, every attribute is as it was. (The node has a link count, and fewer than
  \<^verbatim>\<open>2^31\<close> names.)
\<close>

theorem addchild_counts:
  fixes w :: "('s, 'h, 'z) world_scheme"
  assumes "lawful E" and "fs_inv E w" and "is_dir E w (nid d)" and "nlink_of E w (nid n) \<noteq> None"
    and "card (refs E w (nid n)) < 2 ^ 31"
  shows "\<exists>r w'. addchild E d name n w = (r, w') \<and> fs_inv E w' \<and>
     (if attr E w DDirectories (nid d) name = None
      then r = Inr () \<and> still w' = still w \<and> entry E w' (nid d) name = Some (nid n)
         \<and> (\<forall>(j :: nodeid) m. (j, m) \<noteq> (nid n, A_nlink) \<longrightarrow> attr E w' DNodes j m = attr E w DNodes j m)
         \<and> (\<forall>(j :: nodeid) m. (j, m) \<noteq> (nid d, name) \<longrightarrow> attr E w' DDirectories j m = attr E w DDirectories j m)
         \<and> refs E w' (nid n) = insert (nid d, name) (refs E w (nid n))
         \<and> nlink_of E w' (nid n) = Some (of_nat (card (refs E w (nid n))) + 1)
         \<and> (\<forall>c. c \<noteq> nid n \<longrightarrow> refs E w' c = refs E w c)
      else r = Inl EExists \<and> (refs E w (nid n) \<noteq> {} \<longrightarrow>
         (\<forall>(j :: nodeid) m. attr E w' DNodes j m = attr E w DNodes j m
            \<and> attr E w' DDirectories j m = attr E w DDirectories j m)))"
proof (cases rule: addchild_cases [OF assms(1-3) assms(5), of name])
  case (1 k)
  let ?w' = "add_entry E (nid d) name (nid n) k w"
  have "k = of_nat (card (refs E w (nid n)))" by (rule link_invD(4) [OF fs_inv_link [OF assms(2)] 1(2)])
  then show ?thesis
    using 1 assms(1) by (intro exI [of _ "Inr ()"] exI [of _ ?w']) (simp add: refs_add_entry add.commute [of _ 1])
next
  case (2 w' k)
  then show ?thesis by (intro exI [of _ "Inl EExists"] exI [of _ w']) (auto simp: same_tree_def)
next
  case (3 e)
  then show ?thesis using assms(4) by simp
qed

theorem addchild_counts_witness:
  "\<exists>w'. addchild demo_env \<lparr>nid = 0, nkind = KDirectory\<rparr> ''x'' \<lparr>nid = 0, nkind = KDirectory\<rparr> demo_fs = (Inr (), w')
     \<and> nlink_of demo_env w' 0 = Some 3"
proof -
  let ?r = "\<lparr>nid = 0, nkind = KDirectory\<rparr>"
  have c: "card (refs demo_env demo_fs 0) = 2" by (simp add: demo_refs card_insert_if)
  have n: "nlink_of demo_env demo_fs 0 \<noteq> None"
    using nlink_refs [OF demo_fs_form(1), of 0] by (simp add: demo_refs)
  have f: "attr demo_env demo_fs DDirectories (0 :: nodeid) ''x'' = None"
    using link_invD(2) [OF fs_inv_link [OF demo_fs_form(1)], of 0 "''x''"] demo_entry [of 0 "''x''"]
    by (cases "attr demo_env demo_fs DDirectories (0 :: nodeid) ''x''") auto
  show ?thesis
    using addchild_counts [of demo_env demo_fs ?r ?r "''x''", OF demo_lawful demo_fs_form(1)] n f c demo_root_dir
    by auto
qed

text \<open>
  C13. \<^verbatim>\<open>Directory::delchild\<close> removes exactly the named entry. The node it referred to loses one
  link; when that was the last one the node and all its attributes are gone, and otherwise they
  are kept. Every other entry of every directory and every attribute of every other node is as it was. A
  missing entry changes nothing. The link counts are right afterwards, on two conditions, which the
  callers meet: no node has more than \<^verbatim>\<open>2^31\<close> names, the limit of the signed comparison in
  \<^verbatim>\<open>unlink\<close>; and a node that loses its last name has no entries of its own left (other than the one that
  is removed), because \<^verbatim>\<open>delchild\<close> does not look into a directory and the nodes that its entries refer to
  would keep counting them.
\<close>

theorem delchild_counts:
  fixes w :: "('s, 'h, 'z) world_scheme"
  assumes "lawful E" and "fs_inv E w" and "\<forall>i. card (refs E w i) \<le> 2 ^ 31"
    and "\<forall>i n. entry E w (nid d) name = Some i \<and> card (refs E w i) = 1 \<and> entry E w i n \<noteq> None
           \<longrightarrow> (i, n) = (nid d, name)"
  shows "\<exists>r w'. delchild E d name w = (r, w') \<and> fs_inv E w' \<and>
     (case entry E w (nid d) name of
        None \<Rightarrow> w' = w \<and> isl r
      | Some i \<Rightarrow>
          if mode_of E w i = None then w' = w \<and> isl r
          else r = Inr () \<and> still w' = still w \<and> (\<forall>c. refs E w' c = refs E w c - {(nid d, name)})
            \<and> (\<forall>j m. entry E w' j m = (if (j, m) = (nid d, name) then None else entry E w j m))
            \<and> (\<forall>(j :: nodeid) m. j \<noteq> i \<longrightarrow> attr E w' DNodes j m = attr E w DNodes j m)
            \<and> (\<forall>m. card (refs E w i) = 1 \<longrightarrow> attr E w' DNodes i m = None)
            \<and> (\<forall>m. card (refs E w i) \<noteq> 1 \<and> m \<noteq> A_nlink \<longrightarrow> attr E w' DNodes i m = attr E w DNodes i m))"
proof (rule delchild_cases [OF assms(1,2), of d name])
  show "card (refs E w i) \<le> 2 ^ 31" for i using assms(3) by blast
  show "(i, n) = (nid d, name)" if "entry E w (nid d) name = Some i" and "card (refs E w i) = 1"
    and "entry E w i n \<noteq> None" for i n
    using that assms(4) by blast
  show ?thesis if "delchild E d name w = (Inl e, w)"
    and "entry E w (nid d) name = None \<or> (\<exists>i. entry E w (nid d) name = Some i \<and> mode_of E w i = None)" for e
    using that assms(2) by (intro exI [of _ "Inl e"] exI [of _ w]) auto
  show ?thesis if run: "delchild E d name w = (Inr (), w')" and e: "entry E w (nid d) name = Some i" and inv: "fs_inv E w'"
    and st: "still w' = still w" and ent: "\<And>j m. entry E w' j m = (if j = nid d \<and> m = name then None else entry E w j m)"
    and o': "\<And>j m. j \<noteq> i \<Longrightarrow> attr E w' DNodes (j :: nodeid) m = attr E w DNodes j m"
    and r: "\<And>c. refs E w' c = refs E w c - {(nid d, name)}"
    and k: "\<And>m. card (refs E w i) \<noteq> 1 \<Longrightarrow> m \<noteq> A_nlink \<Longrightarrow> attr E w' DNodes i m = attr E w DNodes i m"
    and g: "\<And>m. card (refs E w i) = 1 \<Longrightarrow> attr E w' DNodes i m = None" for i w'
  proof -
    have "mode_of E w i \<noteq> None"
    proof
      assume "mode_of E w i = None"
      then have "\<not> (\<exists>c w''. getchild E d name w = (Inr c, w''))" using e by (auto simp: getchild_Inr [OF assms(1)])
      then show False using run by (auto simp: delchild_def bind_result)
    qed
    then show ?thesis
      using run e inv by (intro exI [of _ "Inr ()"] exI [of _ w']) (simp add: r k g st ent o')
  qed
qed

theorem delchild_counts_witness:
  "\<exists>w'. delchild demo_env \<lparr>nid = 0, nkind = KDirectory\<rparr> ''..'' demo_fs = (Inr (), w')
     \<and> refs demo_env w' 0 = refs demo_env demo_fs 0 - {(0, ''..'')}"
proof -
  let ?d = "\<lparr>nid = 0, nkind = KDirectory\<rparr>"
  have one: "card (refs demo_env demo_fs i) \<noteq> 1" and le: "card (refs demo_env demo_fs i) \<le> 2 ^ 31" for i
    by (simp_all add: demo_refs card_insert_if)
  have e: "entry demo_env demo_fs (nid ?d) ''..'' = Some 0" by simp
  have last: "\<forall>i n. entry demo_env demo_fs (nid ?d) ''..'' = Some i \<and> card (refs demo_env demo_fs i) = 1 \<and> entry demo_env demo_fs i n \<noteq> None
      \<longrightarrow> (i, n) = (nid ?d, ''..'')" using one by blast
  from delchild_counts [of demo_env demo_fs ?d "''..''", OF demo_lawful demo_fs_form(1) _ last] le
  show ?thesis unfolding e option.case demo_mode by (simp only: option.distinct if_False) auto
qed

text \<open>
  C14. \<^verbatim>\<open>Path::create\<close> is all or nothing, and the three outcomes are decided by the permissions and the
  name: when the caller has no write and search permission on the directory, it throws what
  \<^verbatim>\<open>access\<close> throws and changes nothing; otherwise, when the name is taken, it throws \<^verbatim>\<open>EExists\<close> and
  removes the node it had made, so that every attribute of nodes and directories is as before; otherwise it
  succeeds, and a new node of the class asked for is in the directory under the name, no other node and
  no other entry of an existing directory has changed. The tree is in order in every case.
\<close>

theorem path_create_atomic:
  fixes w :: "('s, 'h, 'z) world_scheme"
  assumes "lawful E" and "fs_inv E w" and "ids_left E w" and "is_dir E w (nid (parent p))"
  shows "\<exists>r w'. path_create E k p sctx w = (r, w') \<and> fs_inv E w' \<and>
     (case fst (access E sctx (parent p) (or W_OK X_OK) w) of
        Inl e \<Rightarrow> r = Inl e \<and> e \<noteq> EStuck \<and> w' = w
      | Inr _ \<Rightarrow>
          if attr E w DDirectories (nid (parent p)) (leaf p) \<noteq> None
          then r = Inl EExists \<and> (\<forall>(j :: nodeid) m. attr E w' DNodes j m = attr E w DNodes j m
            \<and> attr E w' DDirectories j m = attr E w DDirectories j m)
          else \<exists>n. r = Inr n \<and> nkind n = k \<and> entry E w' (nid (parent p)) (leaf p) = Some (nid n)
            \<and> (\<forall>m. attr E w DNodes (nid n) m = None)
            \<and> (\<forall>(j :: nodeid) m. j \<noteq> nid n \<longrightarrow> attr E w' DNodes j m = attr E w DNodes j m
               \<and> ((j, m) \<noteq> (nid (parent p), leaf p) \<longrightarrow> attr E w' DDirectories j m = attr E w DDirectories j m)))"
proof (cases rule: path_create_cases [OF assms, of k sctx])
  case (1 e)
  then show ?thesis using assms(2) by simp
next
  case (2 w')
  then show ?thesis by (simp add: same_tree_def)
next
  case (3 n w1 kk)
  then show ?thesis using assms(1) by (simp add: created_def)
qed

theorem path_create_atomic_witness:
  "\<exists>n w'. path_create demo_env KFile \<lparr>parent = \<lparr>nid = 0, nkind = KDirectory\<rparr>, leaf = ''f''\<rparr>
       \<lparr>suid = 0, sgid = 0, sgroups = {0}\<rparr> demo_fs = (Inr n, w') \<and> entry demo_env w' 0 ''f'' = Some (nid n)"
proof -
  let ?s = "\<lparr>suid = 0, sgid = 0, sgroups = {0}\<rparr>" and ?p = "\<lparr>parent = \<lparr>nid = 0, nkind = KDirectory\<rparr>, leaf = ''f''\<rparr>"
  have dir: "is_dir demo_env demo_fs (nid (parent ?p))" using demo_root_dir by simp
  have free: "attr demo_env demo_fs DDirectories (0 :: nodeid) ''f'' = None"
    using link_invD(2) [OF fs_inv_link [OF demo_fs_form(1)], of 0 "''f''"] demo_entry [of 0 "''f''"]
    by (cases "attr demo_env demo_fs DDirectories (0 :: nodeid) ''f''") auto
  have ok: "fst (access demo_env ?s (parent ?p) (or W_OK X_OK) demo_fs) = Inr ()" by (simp add: access_root)
  show ?thesis
    using path_create_atomic [OF demo_lawful demo_fs_form(1) demo_ids_left dir, of KFile ?s] free ok by auto
qed

end
