(* ===== verification/Resolution_Props.thy ===== *)
theory Resolution_Props
  imports Example_Host
begin

text \<open>
  The properties of path resolution, without and with the cache, with their witnesses.
\<close>

section \<open>Without a cache\<close>

text \<open>
  C15. \<^verbatim>\<open>PathCache_null::getnode\<close> returns a node exactly when the components of the path lead
  to it from the root through directories that the caller may search, with the class that its mode
  says, and it changes nothing: for a tree in which every node has an owner and a group.
\<close>

theorem null_getnode_exact:
  assumes "lawful E" and "owners_ok E w"
  shows "null_getnode E sctx path w = (Inr n, w') \<longleftrightarrow>
     w' = w \<and> resolve E w (tokenize ''/'' path) = Some (nid n)
     \<and> (\<exists>m. mode_of E w (nid n) = Some m \<and> nkind n = kind_of m)
     \<and> (\<forall>k < length (tokenize ''/'' path). \<exists>i. resolve E w (take k (tokenize ''/'' path)) = Some i \<and> may_search E w sctx i)"
  using null_walk_result [OF assms, of sctx "tokenize ''/'' path" n w']
  by (auto simp: null_getnode_def null_result_def)

theorem null_getnode_exact_witness:
  "null_getnode demo_env \<lparr>suid = 0, sgid = 0, sgroups = {0}\<rparr> ''//..'' demo_fs
     = (Inr \<lparr>nid = 0, nkind = KDirectory\<rparr>, demo_fs)"
proof -
  have t: "tokenize ''/'' ''//..'' = [''..'']" by (simp add: tokenize_tokens tokens_def)
  show ?thesis
    using null_getnode_exact [OF demo_lawful demo_owners, of "\<lparr>suid = 0, sgid = 0, sgroups = {0}\<rparr>" "''//..''"]
      demo_root_dir
    by (simp add: t resolve_def step_to_def may_search_def is_dir_kind)
qed

section \<open>With the cache\<close>

text \<open>
  C16. While the cache is coherent with the databases, \<^verbatim>\<open>PathCache_hash::getnode\<close> returns
  exactly the nodes that \<^verbatim>\<open>PathCache_null::getnode\<close> returns, for every caller and path: the
  cache changes neither what is found nor who may reach it. Afterwards it is still coherent, and
  nothing but the cache has changed.
\<close>

theorem hash_equals_null:
  fixes w :: "('s, 'h, 'z) pworld_scheme"
  assumes "lawful E" and "owners_ok E w" and "pc_coherent E w"
  shows "(fst (hash_getnode E sctx path w) = Inr n \<longleftrightarrow> fst (null_getnode E sctx path w) = Inr n)
     \<and> (\<exists>c. snd (hash_getnode E sctx path w) = w\<lparr>pcache := c\<rparr> \<and> pc_coherent E (w\<lparr>pcache := c\<rparr>) \<and> \<not> pc_locked c)"
  using null_equals_hash [OF assms] hash_getnode_coherent [OF assms(1,3), of sctx path] by blast

theorem hash_equals_null_witness:
  "\<forall>n. fst (hash_getnode demo_env \<lparr>suid = 7, sgid = 7, sgroups = {7}\<rparr> ''/./..'' demo_fs) = Inr n \<longleftrightarrow>
     fst (null_getnode demo_env \<lparr>suid = 7, sgid = 7, sgroups = {7}\<rparr> ''/./..'' demo_fs) = Inr n"
proof -
  have "pc_coherent demo_env demo_fs" by (simp only: pc_coherent_def demo_cache simp_thms)
  from hash_equals_null [OF demo_lawful demo_owners this, of "\<lparr>suid = 7, sgid = 7, sgroups = {7}\<rparr>" "''/./..''"]
  show ?thesis by blast
qed

text \<open>
  C17. Even when its data are stale, \<^verbatim>\<open>PathCache_hash::getnode\<close> keeps the structure of the
  cache (map, queue and entries agree, no entry is used after it was freed), never dereferences an
  invalid entry, releases the mutex on every way out, and after a successful search leaves at most
  \<^verbatim>\<open>maxentries\<close> entries.
\<close>

theorem hash_getnode_safe:
  fixes w :: "('s, 'h, 'z) pworld_scheme"
  assumes "lawful E" and "pc_ok (\<lambda>_ _. True) [] (pcache w)" and "0 < pc_max (pcache w)"
  shows "\<exists>c. snd (hash_getnode E sctx path w) = w\<lparr>pcache := c\<rparr> \<and> pc_ok (\<lambda>_ _. True) [] c
     \<and> \<not> pc_locked c \<and> pc_max c = pc_max (pcache w) \<and> fst (hash_getnode E sctx path w) \<noteq> Inl EStuck
     \<and> (\<forall>n. fst (hash_getnode E sctx path w) = Inr n \<longrightarrow> pc_n c \<le> pc_max c)"
proof -
  have node: "fst (getnode E i w) \<noteq> Inl EStuck" for i :: nodeid
    using safeD(2) [OF safe_getnode, of E i w] by (metis prod.collapse)
  show ?thesis
    by (rule ex_forward [OF shape.hash_getnode_spec [OF assms, of sctx path]]) (auto simp: node node [symmetric])
qed

theorem hash_getnode_safe_witness:
  "\<exists>c. snd (hash_getnode demo_env \<lparr>suid = 7, sgid = 7, sgroups = {7}\<rparr> ''/a/b'' demo_fs) = demo_fs\<lparr>pcache := c\<rparr>
     \<and> pc_ok (\<lambda>_ _. True) [] c \<and> \<not> pc_locked c"
  using hash_getnode_safe [OF demo_lawful demo_cache, of "\<lparr>suid = 7, sgid = 7, sgroups = {7}\<rparr>" "''/a/b''"] by blast

text \<open>
  C18. \<^verbatim>\<open>PathCache_hash::invalidate\<close> drops the entry of its path, however the slashes are
  written, and no other; after a change that made only that entry stale the cache is therefore coherent
  again. That is less than its header file announces (``all the cached data related to the specified
  file''): the entry of every other path stays, one below the path and another name of the same node included,
  and in any later state, whatever has become of the databases and of the rest of the cache, a path whose entry
  is still in the cache is answered with the node of that entry or with an error. After the \<^verbatim>\<open>rename\<close> of a
  directory, that is the node that has moved away.
\<close>

theorem invalidate_exact:
  fixes w :: "('s, 'h, 'z) pworld_scheme"
  assumes "lawful E" and "pc_ok (\<lambda>ts d. ts = tokenize ''/'' path \<or> matches E w ts d) [] (pcache w)" and "0 < pc_max (pcache w)"
  shows "\<exists>c. hash_invalidate E path w = (Inr (), w\<lparr>pcache := c\<rparr>) \<and> pc_coherent E (w\<lparr>pcache := c\<rparr>)
     \<and> pc_paths c (join ''/'' '''' (tokenize ''/'' path)) = None \<and> \<not> pc_locked c
     \<and> (\<forall>q i. cached (pcache w) q i \<and> tokenize ''/'' q \<noteq> tokenize ''/'' path \<longrightarrow> cached c q i
          \<and> (\<forall>(w2 :: ('s, 'h, 'z) pworld_scheme) sctx n. pc_inv E w2 \<and> cached (pcache w2) q i
               \<longrightarrow> fst (hash_getnode E sctx q w2) = Inr n \<longrightarrow> nid n = i)) \<and> pc_inv E (w\<lparr>pcache := c\<rparr>)"
proof -
  obtain c where c: "hash_invalidate E path w = (Inr (), w\<lparr>pcache := c\<rparr>)"
    "pc_ok (\<lambda>ts d. ts = tokenize ''/'' path \<or> matches E w ts d) [] c" "pc_max c = pc_max (pcache w)"
    "\<not> pc_locked c" "pc_paths c (path_of (tokenize ''/'' path)) = None"
    and kept: "\<And>q i. cached (pcache w) q i \<Longrightarrow> tokenize ''/'' q \<noteq> tokenize ''/'' path \<Longrightarrow> cached c q i"
    using hash_invalidate_any [OF assms(2), of E path] by blast
  have "pc_ok (matches E w) [] c" using pc_ok_without [OF c(2,5)] .
  then have coherent: "pc_coherent E (w\<lparr>pcache := c\<rparr>)"
    using c(3) assms(3) by (simp add: pc_coherent_def coherent.K_cache)
  have "pc_inv E (w\<lparr>pcache := c\<rparr>)" using pc_ok_weaken [OF c(2)] c(3) assms(3) by (simp add: pc_inv_def)
  moreover have "nid n = i" if "pc_inv E w2" and "cached (pcache w2) q i" and "fst (hash_getnode E sctx q w2) = Inr n"
    for q i sctx n and w2 :: "('s, 'h, 'z) pworld_scheme"
    by (rule shape.hash_getnode_cached [OF assms(1) _ _ _ that(3)]) (use that in \<open>simp_all add: pc_inv_def\<close>)
  ultimately show ?thesis using c coherent kept by blast
qed

theorem invalidate_exact_witness:
  "\<exists>(w :: (al_store, unit) fsworld) c. cached (pcache w) ''/'' 0
     \<and> hash_invalidate demo_env ''/a'' w = (Inr (), w\<lparr>pcache := c\<rparr>) \<and> pc_paths c ''a'' = None \<and> cached c ''/'' 0"
proof -
  obtain d where d: "d = \<lparr>cd_path = '''', cd_nodeid = 0, cd_parent = None, cd_uid = 0, cd_gid = 0, cd_mode = 0x41ED\<rparr>" by blast
  obtain w where w: "w = demo_fs\<lparr>pcache := init_cell 0 d (push_path '''' new_pcache)\<rparr>" by blast
  have root: "matches demo_env w [] d" by (simp add: matches_def w d resolve_Nil)
  let ?K = "\<lambda>ts d. ts = tokenize ''/'' ''/a'' \<or> matches demo_env w ts d"
  have "pc_ok ?K [(path_of [], 0)] (push_path (path_of []) new_pcache)"
    using pc_ok_push [OF pc_ok_new, of "path_of []" ?K] by (simp add: new_pcache_def)
  then have "pc_ok ?K [] (init_cell 0 d (push_path (path_of []) new_pcache))"
    by (rule pc_ok_init) (use root in \<open>simp_all add: good_toks_def d parent_ok_def\<close>)
  then have ok: "pc_ok ?K [] (pcache w)" and max: "0 < pc_max (pcache w)"
    by (simp_all add: w init_cell_def push_path_def new_pcache_def PATHCACHE_MAX_ENTRIES_def)
  have toks: "tokenize ''/'' ''/a'' = [''a'']" "tokenize ''/'' ''/'' = []" by (simp_all add: tokenize_tokens tokens_def)
  then have "cached (pcache w) ''/'' 0"
    by (simp add: w cached_def init_cell_def push_path_def new_pcache_def names_of_def d)
  moreover obtain c where "hash_invalidate demo_env ''/a'' w = (Inr (), w\<lparr>pcache := c\<rparr>)" "pc_paths c ''a'' = None"
    "\<forall>q i. cached (pcache w) q i \<and> tokenize ''/'' q \<noteq> [''a''] \<longrightarrow> cached c q i"
    using invalidate_exact [OF demo_lawful ok max] toks by auto
  ultimately show ?thesis using toks by fastforce
qed

end
