(* ===== verification/Fs_Rename.thy ===== *)
theory Fs_Rename
  imports Fs_Unlink
begin

text \<open>
  \<^verbatim>\<open>rename\<close>: the loop that climbs to the root ends when the chain of the parents does, and the
  handler keeps the file system in order.
\<close>

section \<open>Climbing to the root\<close>

text \<open>The chain of the entries \<^verbatim>\<open>..\<close> from a directory leads through these directories to the root.\<close>

fun parents :: "('s, 'h) env \<Rightarrow> ('s, 'h, 'z) world_scheme \<Rightarrow> nodeid \<Rightarrow> nodeid list \<Rightarrow> bool" where
  "parents E w i [] \<longleftrightarrow> i = 0"
| "parents E w i (j # js) \<longleftrightarrow> i \<noteq> 0 \<and> entry E w i ''..'' = Some j \<and> is_dir E w j \<and> parents E w j js"

lemma below_value:
  "lawful E \<Longrightarrow> parents E w (nid n) js \<Longrightarrow> below E src n w = Some (Inr (src \<in> set (butlast (nid n # js))))"
proof (induction js arbitrary: n)
  case Nil
  then show ?case by (subst below.simps) simp
next
  case (Cons j js)
  then have n: "nid n \<noteq> 0" and e: "entry E w (nid n) ''..'' = Some j" and "is_dir E w j" and js: "parents E w j js"
    by simp_all
  then obtain m where m: "mode_of E w j = Some m" "S_ISDIR m" by (auto simp: is_dir_def)
  let ?n = "\<lparr>nid = j, nkind = kind_of m\<rparr>"
  have "getchild E n ''..'' w = (Inr ?n, w)" using Cons.prems(1) e m by (auto simp: getchild_Inr)
  then have step: "fst (bind (getchild E n ''..'') (cast KDirectory) w) = Inr ?n" using m by (simp add: cast_def)
  have IH: "below E src ?n w = Some (Inr (src \<in> set (butlast (j # js))))"
    using Cons.IH [of ?n] Cons.prems(1) js by simp
  show ?case
    using n step IH by (subst below.simps) auto
qed

text \<open>A directory that is its own parent, and neither the root nor the one looked for, is never left.\<close>

lemma below_stuck:
  assumes "lawful E" and "entry E w i ''..'' = Some i" and "is_dir E w i" and "i \<noteq> 0" and "i \<noteq> src"
  shows "nid n = i \<Longrightarrow> below E src n w = None"
proof (rule ccontr)
  obtain m where m: "mode_of E w i = Some m" "S_ISDIR m" using assms(3) by (auto simp: is_dir_def)
  have step: "fst (bind (getchild E n ''..'') (cast KDirectory) w) = Inr \<lparr>nid = i, nkind = kind_of m\<rparr>" if "nid n = i" for n
  proof -
    have "getchild E n ''..'' w = (Inr \<lparr>nid = i, nkind = kind_of m\<rparr>, w)" using assms(1,2) m that by (auto simp: getchild_Inr)
    then show ?thesis using m by (simp add: cast_def)
  qed
  have leaves: "below E' src' n w' = Some y \<Longrightarrow> E' = E \<and> src' = src \<and> w' = w \<longrightarrow> nid n \<noteq> i" for E' src' n w' y
    by (induction rule: below.raw_induct [rotated, consumes 1]) (use step assms(4,5) in \<open>fastforce split: if_splits\<close>)
  assume n: "nid n = i" and "below E src n w \<noteq> None"
  then obtain y where "below E src n w = Some y" by blast
  then show False using leaves n by blast
qed

section \<open>What rename relies on\<close>

text \<open>
  Every directory that has entries knows itself, and no node is near the limit of the link count:
  \<open>k\<close> more names do not reach it.
\<close>

definition tidy :: "('s, 'h) env \<Rightarrow> nat \<Rightarrow> ('s, 'h, 'z) world_scheme \<Rightarrow> bool" where
  "tidy E k w \<longleftrightarrow> (\<forall>c. card (refs E w c) + k < 2 ^ 31) \<and> (\<forall>c m. entry E w c m \<noteq> None \<longrightarrow> entry E w c ''.'' = Some c)"

text \<open>The same, and the directory \<open>d\<close> is one of them.\<close>

definition ready :: "('s, 'h) env \<Rightarrow> nat \<Rightarrow> nodeid \<Rightarrow> ('s, 'h, 'z) world_scheme \<Rightarrow> bool" where
  "ready E k d w \<longleftrightarrow> tidy E k w \<and> entry E w d ''.'' = Some d"

text \<open>Before \<^verbatim>\<open>rename\<close>: all directories are complete, and their parents lead to the root.\<close>

definition whole :: "('s, 'h) env \<Rightarrow> ('s, 'h, 'z) world_scheme \<Rightarrow> bool" where
  "whole E w \<longleftrightarrow> (\<forall>c. card (refs E w c) + 2 < 2 ^ 31) \<and> dots_ok E w \<and> names_ok E w
     \<and> (\<forall>d. is_dir E w d \<longrightarrow> entry E w d ''.'' \<noteq> None \<and> (\<exists>js. parents E w d js))"

lemma parents_tree:
  "entry E w' = entry E w \<Longrightarrow> mode_of E w' = mode_of E w \<Longrightarrow> parents E w' i js = parents E w i js"
proof (induction js arbitrary: i)
  case (Cons j js)
  then have "is_dir E w' = is_dir E w" by (simp add: is_dir_def fun_eq_iff)
  with Cons show ?case by simp
qed simp

lemma tree_pred_whole [intro!]: "tree_pred E (whole E)"
proof -
  have "whole E w' = whole E w" if e: "entry E w' = entry E w" and m: "mode_of E w' = mode_of E w"
    for w w' :: "('a, 'b, 'c) world_scheme"
  proof -
    have "is_dir E w' = is_dir E w" using m by (simp add: is_dir_def fun_eq_iff)
    moreover have "parents E w' = parents E w" by (simp add: fun_eq_iff parents_tree [OF e m])
    ultimately show ?thesis unfolding whole_def refs_entry dots_ok_def names_ok_def by (simp only: e)
  qed
  then show ?thesis unfolding tree_pred_def by blast
qed

lemma tree_pred_ready [intro!]: "tree_pred E (ready E k d)"
  by (simp add: tree_pred_def ready_def tidy_def refs_entry)

lemma whole_ready: "whole E w \<Longrightarrow> is_dir E w d \<Longrightarrow> ready E 2 d w"
  unfolding whole_def ready_def tidy_def dots_ok_def by blast

lemma ready_few: "ready E k d w \<Longrightarrow> few E w"
  unfolding ready_def tidy_def few_def by (meson add_lessD1)

lemma ready_refs: "ready E k d w \<Longrightarrow> card (refs E w c) + k < 2 ^ 31"
  by (simp add: ready_def tidy_def)

lemma ready_less: "ready E (Suc k) d w \<Longrightarrow> ready E k d w"
  using ready_refs [of E "Suc k" d w] unfolding ready_def tidy_def by (simp add: Suc_lessD)

lemma ready_dir: "fs_inv E w \<Longrightarrow> ready E k d w \<Longrightarrow> is_dir E w d"
  using link_invD(5) [OF fs_inv_link] by (fastforce simp: ready_def)

text \<open>A name other than \<^verbatim>\<open>.\<close> can go, and one can come for each unit of the slack.\<close>

lemma ready_del:
  assumes "ready E k d w" and "name \<noteq> ''.''" and ent: "\<And>j m. entry E w' j m = (if j = i \<and> m = name then None else entry E w j m)"
  shows "ready E k d w'"
proof -
  have "card (refs E w' c) + k < 2 ^ 31" for c
    using ready_refs [OF assms(1), of c] card_Diff1_le [of "refs E w c" "(i, name)"]
    unfolding refs_without_entry [OF ent] by linarith
  moreover have "entry E w' c ''.'' = Some c" if "entry E w' c m \<noteq> None" for c m
    using that assms(1,2) unfolding ent ready_def tidy_def by (auto split: if_splits)
  ultimately show ?thesis using assms(1,2) unfolding ready_def tidy_def by (simp add: ent)
qed

lemma ready_add:
  assumes "lawful E" and "ready E (Suc k) d w" and free: "attr E w DDirectories i name = None" and "entry E w i ''.'' = Some i"
  shows "ready E k d (add_entry E i name c n w)"
proof -
  have "name \<noteq> ''.''" using assms(3,4) by (auto simp: wattr_def)
  moreover have "card (refs E (add_entry E i name c n w) c') + k < 2 ^ 31" for c'
  proof -
    have "card (insert (i, name) (refs E w c)) \<le> Suc (card (refs E w c))" by (rule card_insert_le_m1) simp_all
    then show ?thesis
      using ready_refs [OF assms(2), of c'] ready_refs [OF assms(2), of c] by (simp add: refs_add_entry [OF assms(1) free])
  qed
  moreover have "entry E (add_entry E i name c n w) c' ''.'' = Some c'" if e: "entry E (add_entry E i name c n w) c' m \<noteq> None" for c' m
  proof (cases "c' = i")
    case False
    then have "entry E w c' m \<noteq> None" using e assms(1) by simp
    then have "entry E w c' ''.'' = Some c'" using assms(2) unfolding ready_def tidy_def by blast
    then show ?thesis using False assms(1) by simp
  qed (use assms(1,4) \<open>name \<noteq> ''.''\<close> in simp)
  ultimately show ?thesis
    using assms(1,2) unfolding ready_def tidy_def by simp
qed

section \<open>Giving the source its new name\<close>

text \<open>
  Deleting a name never takes a directory that still has entries: its own name \<^verbatim>\<open>.\<close> is another
  reference to it.
\<close>

lemma ready_last:
  assumes "lawful E" and "ready E k d w" and "entry E w i name = Some c" and "card (refs E w c) = 1"
    and "name \<noteq> ''.''" and "entry E w c m \<noteq> None"
  shows "(c, m) = (i, name)"
proof -
  have "entry E w c ''.'' = Some c" using assms(2,6) unfolding ready_def tidy_def by blast
  from two_refs [OF assms(1,3) this assms(4)] assms(5) show ?thesis by simp
qed

lemma triple_del_ready:
  fixes E :: "('s, 'h) env"
  assumes "lawful E" and "name \<noteq> ''.''"
  shows "hoare (inorder E (ready E k d)) (delchild E n name)
     (\<lambda>_. inorder E (\<lambda>w. ready E k d w \<and> (entry E w (nid n) ''.'' = Some (nid n))))
     (failed E :: exn \<Rightarrow> ('s, 'h, 'z) pworld_scheme \<Rightarrow> bool)"
proof (rule triple_delchild [OF assms(1)])
  fix w w' :: "('s, 'h, 'z) pworld_scheme"
  assume r: "ready E k d w" and e: "entry E w (nid n) name \<noteq> None"
    and ent: "\<And>j m. entry E w' j m = (if j = nid n \<and> m = name then None else entry E w j m)"
  have "entry E w (nid n) ''.'' = Some (nid n)" using r e unfolding ready_def tidy_def by blast
  then show "ready E k d w' \<and> entry E w' (nid n) ''.'' = Some (nid n)"
    using ready_del [OF r assms(2) ent] assms(2) by (simp add: ent)
qed (auto dest: ready_few ready_last [OF assms(1) _ _ _ assms(2)])

lemma triple_add_ready:
  fixes E :: "('s, 'h) env"
  assumes "lawful E"
  shows "hoare (inorder E (\<lambda>w. ready E (Suc k) d w \<and> entry E w (nid i) ''.'' = Some (nid i))) (addchild E i name n)
     (\<lambda>_. inorder E (ready E k d)) (failed E :: exn \<Rightarrow> ('s, 'h, 'z) pworld_scheme \<Rightarrow> bool)"
proof -
  let ?P = "\<lambda>w :: ('s, 'h, 'z) pworld_scheme. (ready E (Suc k) d w \<and> entry E w (nid i) ''.'' = Some (nid i)) \<and> fs_inv E w"
  have "hoare (inorder E ?P) (addchild E i name n) (\<lambda>_. inorder E (ready E k d)) (failed E)"
  proof (rule triple_addchild [OF assms])
    fix w assume P: "?P w"
    then have "card (refs E w (nid n)) < 2 ^ 31" using ready_refs [of E "Suc k" d w "nid n"] by simp
    moreover have "is_dir E w (nid i)" using P link_invD(5) [OF fs_inv_link, of E w "nid i" "''.''"] by simp
    ultimately show "is_dir E w (nid i) \<and> card (refs E w (nid n)) < 2 ^ 31" by simp
  next
    fix w m assume "?P w" and "attr E w DDirectories (nid i) name = None"
    then show "ready E k d (add_entry E (nid i) name (nid n) m w)" using ready_add [OF assms] by blast
  qed
  then show ?thesis by (rule hoare_pre) (auto simp: inorder_def fsys_def)
qed

lemma triple_relink:
  fixes E :: "('s, 'h) env"
  assumes "lawful E" and "leaf srcpath \<noteq> ''.''"
  shows "hoare (inorder E (ready E 2 (nid (parent dstpath)))) (rename_relink E srcpath dstpath src oldpath)
     (\<lambda>_. inorder E (\<lambda>_. True)) (failed E :: exn \<Rightarrow> ('s, 'h, 'z) pworld_scheme \<Rightarrow> bool)"
proof -
  let ?d = "nid (parent dstpath)"
  let ?R = "\<lambda>k w :: ('s, 'h, 'z) pworld_scheme. ready E k ?d w"
  have move: "hoare (inorder E (?R (Suc (Suc 0)))) (whenM c (andthen (delchild E src ''..'') (addchild E src ''..'' (parent dstpath))))
      (\<lambda>_. inorder E (?R (Suc 0))) (failed E)" for c
  proof (rule hoare_whenM)
    show "hoare (inorder E (?R (Suc (Suc 0)))) (andthen (delchild E src ''..'') (addchild E src ''..'' (parent dstpath)))
      (\<lambda>_. inorder E (?R (Suc 0))) (failed E)"
      by (rule hoare_andthen [OF triple_del_ready [OF assms(1)] triple_add_ready [OF assms(1)]]) simp
    show "inorder E (?R (Suc 0)) w" if "inorder E (?R (Suc (Suc 0))) w" for w
      using that by (auto simp: inorder_def intro: ready_less)
  qed
  have name: "hoare (inorder E (?R (Suc 0))) (addchild E (parent dstpath) (leaf dstpath) src) (\<lambda>_. inorder E (?R 0)) (failed E)"
    by (rule hoare_sys_pre [OF triple_add_ready [OF assms(1)]]) (simp add: ready_def)
  have del: "hoare (inorder E (?R 0)) (delchild E (parent srcpath) (leaf srcpath)) (\<lambda>_. inorder E (\<lambda>_. True)) (failed E)"
    by (rule hoare_drop [OF triple_del_ready [OF assms]])
  have "hoare (inorder E (?R (Suc (Suc 0)))) (rename_relink E srcpath dstpath src oldpath) (\<lambda>_. inorder E (\<lambda>_. True)) (failed E)"
    unfolding rename_relink_def
    by (rule hoare_bind [OF triple_reads [OF reads_getattr safe_getattr inorder_fsys]], assumption,
        rule hoare_andthen [OF move], rule hoare_andthen [OF triple_invalidate [OF tree_db [OF tree_pred_ready]]],
        rule hoare_andthen [OF triple_stamp [OF assms(1) tree_pred_ready]], simp, simp,
        rule hoare_andthen [OF name], rule hoare_andthen [OF del],
        rule hoare_andthen [OF triple_touch_parent [OF assms(1) tree_pred_True] touch_tail [OF assms(1) tree_pred_True]])
  then show ?thesis by (simp add: numeral_2_eq_2)
qed

section \<open>Removing the destination\<close>

text \<open>
  The directory \<open>n\<close>, which has the name \<open>name\<close> in \<open>d\<close>, has no entries but those in \<open>S\<close>; all
  other directories know themselves.
\<close>

definition emptying :: "('s, 'h) env \<Rightarrow> string set \<Rightarrow> nodeid \<Rightarrow> string \<Rightarrow> nodeid \<Rightarrow> ('s, 'h, 'z) world_scheme \<Rightarrow> bool" where
  "emptying E S d name n w \<longleftrightarrow> (\<forall>c. card (refs E w c) + 2 < 2 ^ 31) \<and> entry E w d name = Some n
     \<and> d \<noteq> n \<and> entry E w d ''.'' = Some d \<and> (\<forall>m. entry E w n m \<noteq> None \<longrightarrow> m \<in> S)
     \<and> (\<forall>c m. entry E w c m \<noteq> None \<longrightarrow> c \<noteq> n \<or> ''.'' \<in> S \<longrightarrow> entry E w c ''.'' = Some c)"

lemma tree_pred_emptying [intro!]: "tree_pred E (emptying E S d name n)"
  by (simp add: tree_pred_def emptying_def refs_entry)

lemma emptying_few: "emptying E S d name n w \<Longrightarrow> few E w"
  unfolding emptying_def few_def by (meson add_lessD1)

lemma emptying_del:
  assumes "emptying E S d name n w" and "name \<noteq> m" and ent: "\<And>j k. entry E w' j k = (if j = n \<and> k = m then None else entry E w j k)"
    and "m = ''.'' \<or> ''.'' \<notin> S"
  shows "emptying E (S - {m}) d name n w'"
proof -
  have "card (refs E w' c) + 2 < 2 ^ 31" for c
  proof -
    have "card (refs E w c) + 2 < 2 ^ 31" using assms(1) by (simp add: emptying_def)
    then show ?thesis
      using card_Diff1_le [of "refs E w c" "(n, m)"] unfolding refs_without_entry [OF ent] by linarith
  qed
  moreover have "entry E w' c ''.'' = Some c" if e: "entry E w' c k \<noteq> None" and "c \<noteq> n \<or> ''.'' \<in> S - {m}" for c k
  proof -
    have c: "c \<noteq> n" using that(2) assms(4) by auto
    moreover have "entry E w c k \<noteq> None" using e unfolding ent by (auto split: if_splits)
    ultimately have "entry E w c ''.'' = Some c" using assms(1) unfolding emptying_def by blast
    then show ?thesis using c by (simp add: ent)
  qed
  moreover have "entry E w' d name = Some n \<and> d \<noteq> n \<and> entry E w' d ''.'' = Some d"
    using assms(1,2) unfolding emptying_def by (simp add: ent)
  moreover have "k \<in> S - {m}" if "entry E w' n k \<noteq> None" for k
    using that assms(1) unfolding emptying_def ent by (auto split: if_splits)
  ultimately show ?thesis unfolding emptying_def by blast
qed

lemma emptying_last:
  assumes "lawful E" and "emptying E S d name n w" and "name \<noteq> m" and i: "entry E w n m = Some i" and one: "card (refs E w i) = 1"
    and "m \<noteq> ''.''" and k: "entry E w i k \<noteq> None"
  shows "(i, k) = (n, m)"
proof -
  have "i \<noteq> n" using two_refs [OF assms(1) i _ one, of d name] assms(2,3) by (auto simp: emptying_def)
  then have "entry E w i ''.'' = Some i" using assms(2) k unfolding emptying_def by blast
  then show ?thesis using two_refs [OF assms(1) i _ one] assms(6) by blast
qed

lemma triple_empty_dot:
  fixes E :: "('s, 'h) env"
  assumes "lawful E" and "name \<noteq> ''.''"
  shows "hoare (inorder E (emptying E {''.'', ''..''} d name (nid n))) (delchild E n ''.'')
     (\<lambda>_. inorder E (emptying E {''..''} d name (nid n))) (failed E :: exn \<Rightarrow> ('s, 'h, 'z) pworld_scheme \<Rightarrow> bool)"
proof (rule triple_delchild [OF assms(1)])
  fix w :: "('s, 'h, 'z) pworld_scheme" and i m
  assume h: "emptying E {''.'', ''..''} d name (nid n) w" and i: "entry E w (nid n) ''.'' = Some i" and c: "card (refs E w i) = 1"
  have "entry E w (nid n) ''.'' = Some (nid n)" using h i unfolding emptying_def by blast
  then have "i = nid n" using i by simp
  then show "(i, m) = (nid n, ''.'')"
    using two_refs [OF assms(1) i _ c, of d name] h assms(2) by (auto simp: emptying_def)
next
  fix w w' :: "('s, 'h, 'z) pworld_scheme"
  assume h: "emptying E {''.'', ''..''} d name (nid n) w"
    and ent: "\<And>j m. entry E w' j m = (if j = nid n \<and> m = ''.'' then None else entry E w j m)"
  have "{''.'', ''..''} - {''.''} = {''..''}" by auto
  then show "emptying E {''..''} d name (nid n) w'" using emptying_del [OF h assms(2) ent] by simp
qed (rule emptying_few)

lemma triple_empty_dotdot:
  fixes E :: "('s, 'h) env"
  assumes "lawful E" and "name \<noteq> ''..''"
  shows "hoare (inorder E (emptying E {''..''} d name (nid n))) (delchild E n ''..'')
     (\<lambda>_. inorder E (emptying E {} d name (nid n))) (failed E :: exn \<Rightarrow> ('s, 'h, 'z) pworld_scheme \<Rightarrow> bool)"
proof (rule triple_delchild [OF assms(1)])
  fix w :: "('s, 'h, 'z) pworld_scheme" and i m
  assume "emptying E {''..''} d name (nid n) w" and "entry E w (nid n) ''..'' = Some i" and "card (refs E w i) = 1"
    and "entry E w i m \<noteq> None"
  then show "(i, m) = (nid n, ''..'')" using emptying_last [OF assms(1) _ assms(2)] by simp
next
  fix w w' :: "('s, 'h, 'z) pworld_scheme"
  assume h: "emptying E {''..''} d name (nid n) w"
    and ent: "\<And>j m. entry E w' j m = (if j = nid n \<and> m = ''..'' then None else entry E w j m)"
  show "emptying E {} d name (nid n) w'" using emptying_del [OF h assms(2) ent] by simp
qed (rule emptying_few)

text \<open>What is deleted last, a node without entries, leaves the rest ready.\<close>

definition entryless :: "('s, 'h) env \<Rightarrow> nodeid \<Rightarrow> string \<Rightarrow> ('s, 'h, 'z) world_scheme \<Rightarrow> bool" where
  "entryless E d name w \<longleftrightarrow> ready E 2 d w \<and> (\<forall>i m. entry E w d name = Some i \<longrightarrow> entry E w i m = None)"

lemma tree_pred_entryless [intro!]: "tree_pred E (entryless E d name)"
  by (simp add: tree_pred_def entryless_def ready_def tidy_def refs_entry)

lemma emptied:
  assumes "emptying E {} d name n w"
  shows "entryless E d name w"
proof -
  have none: "entry E w n k = None" for k using assms unfolding emptying_def by blast
  have "entry E w c ''.'' = Some c" if "entry E w c k \<noteq> None" for c k
  proof -
    have "c \<noteq> n" using that none by auto
    then show ?thesis using assms that unfolding emptying_def by blast
  qed
  then have "tidy E 2 w" using assms unfolding tidy_def emptying_def by blast
  then show ?thesis using assms none unfolding entryless_def ready_def emptying_def by simp
qed

lemma triple_del_last:
  fixes E :: "('s, 'h) env"
  assumes "lawful E" and "name \<noteq> ''.''"
  shows "hoare (inorder E (entryless E (nid d) name)) (delchild E d name) (\<lambda>_. inorder E (ready E 2 (nid d)))
     (failed E :: exn \<Rightarrow> ('s, 'h, 'z) pworld_scheme \<Rightarrow> bool)"
proof (rule triple_delchild [OF assms(1)])
  show "few E w" if "entryless E (nid d) name w" for w :: "('s, 'h, 'z) pworld_scheme"
    using that by (auto simp: entryless_def intro: ready_few)
  show "ready E 2 (nid d) w'" if "entryless E (nid d) name w"
    and "\<And>j m. entry E w' j m = (if j = nid d \<and> m = name then None else entry E w j m)" for w w' :: "('s, 'h, 'z) pworld_scheme"
    using that ready_del [OF _ assms(2)] unfolding entryless_def by blast
qed (auto simp: entryless_def)

lemma emptying_start:
  assumes "lawful E" and "whole E w" and "is_dir E w d" and "entry E w d name = Some n" and "name \<notin> {''.'', ''..''}"
    and small: "card (attr_names E w DDirectories n) \<le> 2"
  shows "emptying E {''.'', ''..''} d name n w"
proof -
  have "dirs_ok E w" using assms(2) unfolding whole_def dirs_ok_def few_def by (meson add_lessD1)
  from hollow_start [OF assms(1) this assms(4) small] have h: "hollow E {''.'', ''..''} d name n w" .
  have "d \<noteq> n" using h assms(4,5) unfolding hollow_def by blast
  moreover have "entry E w d ''.'' = Some d" using whole_ready [OF assms(2,3)] by (simp add: ready_def)
  ultimately show ?thesis using assms(2) h unfolding whole_def hollow_def emptying_def by blast
qed

text \<open>The climb to the root from an existing directory ends, because its parents lead there.\<close>

lemma is_below_value:
  "lawful E \<Longrightarrow> parents E w (nid n) js \<Longrightarrow> is_below E src n w = (Inr (src \<in> set (butlast (nid n # js))), w)"
  by (simp add: is_below_def below_value)

lemma triple_is_below:
  fixes E :: "('s, 'h) env"
  assumes "lawful E" and "\<And>w. P w \<Longrightarrow> \<exists>js. parents E w (nid n) js"
  shows "hoare (inorder E P) (is_below E src n) (\<lambda>_. inorder E P)
     (failed E :: exn \<Rightarrow> ('s, 'h, 'z) pworld_scheme \<Rightarrow> bool)"
proof -
  have "\<exists>b. is_below E src n w = (Inr b, w)" if "inorder E P w" for w :: "('s, 'h, 'z) pworld_scheme"
    using assms(2) [of w] is_below_value [OF assms(1)] that by (fastforce simp: inorder_def)
  then show ?thesis unfolding hoare_def by fastforce
qed

lemma triple_open_dir:
  assumes "lawful E"
  shows "hoare (inorder E P) (bind (getnode E i) (cast KDirectory)) (\<lambda>c. inorder E (\<lambda>w. P w \<and> nid c = i \<and> is_dir E w i)) (failed E)"
proof (rule hoareI)
  fix w c w' assume "inorder E P w" and "bind (getnode E i) (cast KDirectory) w = (Inr c, w')"
  then show "inorder E (\<lambda>w. P w \<and> nid c = i \<and> is_dir E w i) w'"
    using assms by (auto simp: bind_result getnode_Inr cast_def inorder_def is_dir_def split: if_splits)
next
  fix w e w' assume w: "inorder E P w" and run: "bind (getnode E i) (cast KDirectory) w = (Inl e, w')"
  have "reads (bind (getnode E i) (cast KDirectory))" and "safe (bind (getnode E i) (cast KDirectory))"
    by (auto intro!: reads_rules safe_rules simp: cast_def)
  then show "failed E e w'" using w run readsD safeD(2) by (fastforce simp: failed_def inorder_def)
qed

text \<open>The result of \<open>rename_over\<close>: with an early code anything in order, otherwise \<open>Q\<close>.\<close>

definition unless_early :: "('s, 'h) env \<Rightarrow> (('s, 'h, 'z) pworld_scheme \<Rightarrow> bool) \<Rightarrow> int option \<Rightarrow> ('s, 'h, 'z) pworld_scheme \<Rightarrow> bool" where
  "unless_early E Q r = inorder E (\<lambda>w. r = None \<longrightarrow> Q w)"

lemma unless_early_simps [simp]:
  "unless_early E Q None = inorder E Q" "unless_early E Q (Some c) = inorder E (\<lambda>_. True)"
  by (auto simp: unless_early_def)

lemma early_code: "hoare (inorder E P) (ret (Some c)) (unless_early E Q) (failed E)"
  by (rule hoare_ret) (simp add: inorder_def)

lemma early_none: "hoare (inorder E P) m (\<lambda>_. inorder E Q) (failed E) \<Longrightarrow> hoare (inorder E P) (andthen m (ret None)) (unless_early E Q) (failed E)"
  by (rule hoare_andthen, assumption, rule hoare_ret) simp

lemma triple_rename_dir:
  fixes E :: "('s, 'h) env"
  assumes "lawful E" and leaf: "leaf dstpath \<notin> {''.'', ''..''}"
  shows "hoare (inorder E (\<lambda>w. (whole E w \<and> is_dir E w (nid (parent dstpath))) \<and> entry E w (nid (parent dstpath)) (leaf dstpath) = Some (nid dst)))
     (bind (bind (getnode E (nid (parent dstpath))) (cast KDirectory)) (\<lambda>n.
      bind (is_below E src n) (\<lambda>sub.
        if sub then ret (Some (- EINVAL))
        else
          bind (bind (getnode E (nid dst)) (cast KDirectory)) (\<lambda>d.
          bind (countchildren E d) (\<lambda>count.
            if 2 < count then ret (Some (- ENOTEMPTY))
            else
              andthen (delchild E d ''.'')
              (andthen (delchild E d ''..'')
              (ret None)))))))
     (unless_early E (entryless E (nid (parent dstpath)) (leaf dstpath)))
     (failed E :: exn \<Rightarrow> ('s, 'h, 'z) pworld_scheme \<Rightarrow> bool)"
proof (rule hoare_bind [OF triple_open_dir [OF assms(1)] hoare_bind [OF triple_is_below [OF assms(1)] hoare_if [OF early_code
      hoare_bind [OF triple_open_dir [OF assms(1)] hoare_bind [OF triple_count [OF assms(1)] hoare_if [OF early_code]]]]]])
  fix w :: "('s, 'h, 'z) pworld_scheme" and n
  let ?P = "\<lambda>w. (whole E w \<and> is_dir E w (nid (parent dstpath))) \<and> entry E w (nid (parent dstpath)) (leaf dstpath) = Some (nid dst)"
  assume "?P w \<and> nid n = nid (parent dstpath) \<and> is_dir E w (nid (parent dstpath))"
  then show "\<exists>js. parents E w (nid n) js" by (auto simp: whole_def)
next
  fix n d and count :: int
  let ?d = "nid (parent dstpath)" and ?l = "leaf dstpath"
  let ?P = "\<lambda>w :: ('s, 'h, 'z) pworld_scheme. (whole E w \<and> is_dir E w ?d) \<and> entry E w ?d ?l = Some (nid dst)"
  assume small: "\<not> 2 < count"
  have del: "hoare (inorder E (emptying E {''.'', ''..''} ?d ?l (nid d))) (andthen (delchild E d ''.'') (andthen (delchild E d ''..'') (ret None)))
      (unless_early E (entryless E ?d ?l)) (failed E)"
    using leaf by (intro hoare_andthen [OF triple_empty_dot [OF assms(1)]] early_none
        hoare_weaken [OF triple_empty_dotdot [OF assms(1)]]) (auto simp: inorder_def intro: emptied)
  show "hoare (inorder E (\<lambda>w. ((?P w \<and> nid n = ?d \<and> is_dir E w ?d) \<and> nid d = nid dst \<and> is_dir E w (nid dst))
        \<and> count = int (card (attr_names E w DDirectories (nid d)))))
      (andthen (delchild E d ''.'') (andthen (delchild E d ''..'') (ret None)))
      (unless_early E (entryless E ?d ?l)) (failed E)"
    by (rule hoare_sys_pre [OF del]) (use small leaf in \<open>auto intro!: emptying_start [OF assms(1)]\<close>)
qed

lemma triple_rename_over:
  fixes E :: "('s, 'h) env"
  assumes "lawful E" and leaf: "leaf dstpath \<notin> {''.'', ''..''}"
  shows "hoare (inorder E (\<lambda>w. (whole E w \<and> is_dir E w (nid (parent dstpath))) \<and> entry E w (nid (parent dstpath)) (leaf dstpath) = Some (nid dst)))
     (rename_over E sctx dstpath src dst newpath) (unless_early E (ready E 2 (nid (parent dstpath))))
     (failed E :: exn \<Rightarrow> ('s, 'h, 'z) pworld_scheme \<Rightarrow> bool)"
proof -
  let ?d = "nid (parent dstpath)" and ?l = "leaf dstpath"
  let ?P = "\<lambda>w :: ('s, 'h, 'z) pworld_scheme. (whole E w \<and> is_dir E w ?d) \<and> entry E w ?d ?l = Some (nid dst)"
  have plain: "hoare (inorder E ?P) (bind (getattr E DNodes (nid dst) A_mode) (\<lambda>dmode.
      if S_ISDIR dmode then ret (Some (- EISDIR)) else ret None)) (unless_early E (entryless E ?d ?l)) (failed E)"
  proof (rule hoare_bind [OF triple_getattr [OF assms(1)] hoare_if [OF early_code hoare_ret]])
    fix m :: mode_t and w :: "('s, 'h, 'z) pworld_scheme"
    assume m: "\<not> S_ISDIR m" and w: "inorder E (\<lambda>w. ?P w \<and> mode_of E w (nid dst) = Some m) w"
    then have "entry E w (nid dst) k = None" for k
      using link_invD(5) [OF fs_inv_link, of E w "nid dst" k]
      by (cases "entry E w (nid dst) k") (auto simp: inorder_def fsys_def is_dir_def)
    then show "unless_early E (entryless E ?d ?l) None w"
      using w whole_ready [of E w ?d] by (simp add: inorder_def entryless_def)
  qed
  have dir: "hoare (inorder E ?P) (bind (getattr E DNodes (nid dst) A_mode) (\<lambda>dmode.
      if \<not> S_ISDIR dmode then ret (Some (- ENOTDIR)) else k)) Q (failed E)"
    if "hoare (inorder E ?P) k Q (failed E)" and "\<And>c. hoare (inorder E ?P) (ret (Some c)) Q (failed E)" for k and Q :: "int option \<Rightarrow> ('s, 'h, 'z) pworld_scheme \<Rightarrow> bool"
    by (rule hoare_bind [OF hoare_drop_to [OF triple_getattr [OF assms(1)]]], rule hoare_if) (rule that)+
  have remove: "hoare (unless_early E (entryless E ?d ?l) early)
      (case early of Some code \<Rightarrow> ret (Some code)
        | None \<Rightarrow> andthen (hash_invalidate E newpath) (andthen (stamp E dst A_ctime)
            (andthen (delchild E (parent dstpath) ?l) (ret None))))
      (unless_early E (ready E 2 ?d)) (failed E)" for early
  proof (cases early)
    case None
    then show ?thesis
      using leaf by (auto intro!: hoare_andthen [OF triple_invalidate [OF tree_db [OF tree_pred_entryless]]]
        hoare_andthen [OF triple_stamp [OF assms(1) tree_pred_entryless]] early_none triple_del_last [OF assms(1)])
  qed (simp add: early_code)
  show ?thesis
    unfolding rename_over_def
    by (rule hoare_andthen [OF triple_sticky hoare_bind [OF hoare_drop_to [OF triple_getattr [OF assms(1)]]
          hoare_bind [OF hoare_if [OF dir [OF triple_rename_dir [OF assms]] plain] remove]]]) (rule early_code)
qed

section \<open>The handler\<close>

lemma triple_path_new_both:
  assumes "lawful E" and "db_pred E P"
  shows "hoare (inorder E P) (path_new (getnode_path E) sctx p)
     (\<lambda>pt. inorder E (\<lambda>w. (P w \<and> is_dir E w (nid (parent pt))) \<and> leaf pt = snd (path_split p))) (failed E)"
proof (rule hoareI)
  fix w pt w' assume w: "inorder E P w" and run: "path_new (getnode_path E) sctx p w = (Inr pt, w')"
  then show "inorder E (\<lambda>w. (P w \<and> is_dir E w (nid (parent pt))) \<and> leaf pt = snd (path_split p)) w'"
    using hoare_Inr [OF triple_path_new [OF assms] run] hoare_Inr [OF triple_path_new_leaf [OF assms] run]
    by (simp add: inorder_def)
qed (rule hoare_Inl [OF triple_path_new [OF assms]])

lemma triple_find:
  assumes "lawful E"
  shows "hoare (inorder E P) (handle (bind (getchild E d n) (\<lambda>c. ret (Some c))) (\<lambda>e. if e = ENotFound then ret None else throw e))
     (\<lambda>r. inorder E (\<lambda>w. P w \<and> (\<forall>c. r = Some c \<longrightarrow> entry E w (nid d) n = Some (nid c)))) (failed E)"
proof (rule hoareI)
  fix w r w' assume w: "inorder E P w" and run: "handle (bind (getchild E d n) (\<lambda>c. ret (Some c)))
      (\<lambda>e. if e = ENotFound then ret None else throw e) w = (Inr r, w')"
  then show "inorder E (\<lambda>w. P w \<and> (\<forall>c. r = Some c \<longrightarrow> entry E w (nid d) n = Some (nid c))) w'"
    by (auto simp: handle_result bind_result inorder_def getchild_Inr [OF assms] split: if_splits dest: readsD [OF reads_getchild])
next
  fix w e w' assume w: "inorder E P w" and run: "handle (bind (getchild E d n) (\<lambda>c. ret (Some c)))
      (\<lambda>e. if e = ENotFound then ret None else throw e) w = (Inl e, w')"
  then show "failed E e w'"
    using safeD(2) [OF safe_getchild] readsD [OF reads_getchild]
    by (fastforce simp: handle_result bind_result inorder_def failed_def split: if_splits)
qed

lemma hoare_fact: "(c \<Longrightarrow> hoare (inorder E P) m Q R) \<Longrightarrow> hoare (inorder E (\<lambda>w. P w \<and> c)) m Q R"
  by (cases c) (simp_all add: hoare_def inorder_def)

text \<open>Both paths resolved and both checks passed: the destination goes, then the source moves.\<close>

lemma triple_rename_found:
  fixes E :: "('s, 'h) env"
  assumes "lawful E" and src: "leaf srcpath \<noteq> ''.''" and dst: "leaf dstpath \<notin> {''.'', ''..''}"
  shows "hoare (inorder E (\<lambda>w. (whole E w \<and> is_dir E w (nid (parent dstpath)))
        \<and> (\<forall>c. found = Some c \<longrightarrow> entry E w (nid (parent dstpath)) (leaf dstpath) = Some (nid c))))
     (bind (case found of None \<Rightarrow> ret None | Some n \<Rightarrow> rename_over E sctx dstpath s n newpath) (\<lambda>early.
        case early of Some code \<Rightarrow> ret code | None \<Rightarrow> rename_relink E srcpath dstpath s oldpath))
     (\<lambda>_. inorder E (\<lambda>_. True)) (failed E :: exn \<Rightarrow> ('s, 'h, 'z) pworld_scheme \<Rightarrow> bool)"
proof (rule hoare_bind)
  let ?d = "nid (parent dstpath)"
  let ?P = "\<lambda>w :: ('s, 'h, 'z) pworld_scheme. whole E w \<and> is_dir E w ?d"
  show "hoare (inorder E (\<lambda>w. ?P w \<and> (\<forall>c. found = Some c \<longrightarrow> entry E w ?d (leaf dstpath) = Some (nid c))))
      (case found of None \<Rightarrow> ret None | Some n \<Rightarrow> rename_over E sctx dstpath s n newpath) (unless_early E (ready E 2 ?d)) (failed E)"
  proof (cases found)
    case None
    then show ?thesis by (auto simp: inorder_def intro!: hoare_ret whole_ready)
  next
    case (Some n)
    then show ?thesis
      using hoare_sys_pre [OF triple_rename_over [OF assms(1) dst]] by simp
  qed
  show "hoare (unless_early E (ready E 2 ?d) early)
      (case early of Some code \<Rightarrow> ret code | None \<Rightarrow> rename_relink E srcpath dstpath s oldpath)
      (\<lambda>_. inorder E (\<lambda>_. True)) (failed E)" for early :: "int option"
    by (cases early) (simp_all add: triple_relink [OF assms(1) src] sys_code)
qed

lemma triple_rename:
  assumes "lawful E" and src: "snd (path_split oldpath) \<noteq> ''.''" and dst: "snd (path_split newpath) \<notin> {''.'', ''..''}"
  shows "hoare (inorder E (whole E))
    (bind (userctx E ctx) (\<lambda>sctx.
     bind (path_new (getnode_path E) sctx oldpath) (\<lambda>srcpath.
     bind (path_new (getnode_path E) sctx newpath) (\<lambda>dstpath.
     bind (getchild E (parent srcpath) (leaf srcpath)) (\<lambda>src.
     bind (handle (bind (getchild E (parent dstpath) (leaf dstpath)) (\<lambda>n. ret (Some n)))
             (\<lambda>e. if e = ENotFound then ret None else throw e)) (\<lambda>dst.
       if dst \<noteq> None \<and> oldpath = newpath then ret 0
       else
         andthen (access E sctx (parent srcpath) (or X_OK W_OK))
         (andthen (access E sctx (parent dstpath) (or X_OK W_OK))
         (andthen (check_sticky_bit E sctx (parent srcpath) src)
         (bind (case dst of None \<Rightarrow> ret None
                | Some n \<Rightarrow> rename_over E sctx dstpath src n newpath) (\<lambda>early.
           case early of
             Some code \<Rightarrow> ret code
           | None \<Rightarrow> rename_relink E srcpath dstpath src oldpath))))))))))
     (\<lambda>_. inorder E (\<lambda>_. True)) (failed E)"
  by (rule hoare_bind [OF triple_userctx [OF tree_db [OF tree_pred_whole]]],
      rule hoare_bind [OF triple_path_new_leaf [OF assms(1) tree_db [OF tree_pred_whole]]], rule hoare_fact,
      rule hoare_bind [OF triple_path_new_both [OF assms(1) tree_db [OF tree_pred_whole]]], rule hoare_fact,
      rule hoare_bind [OF hoare_drop_to [OF triple_getchild [OF assms(1)]]],
      rule hoare_bind [OF triple_find [OF assms(1)]], rule hoare_if [OF sys_code],
      rule hoare_andthen [OF triple_access], rule hoare_andthen [OF triple_access], rule hoare_andthen [OF triple_sticky],
      rule triple_rename_found) (use assms in auto)

lemma rename_answers:
  "lawful E \<Longrightarrow> fsys E w \<Longrightarrow> whole E w \<Longrightarrow> snd (path_split oldpath) \<noteq> ''.'' \<Longrightarrow> snd (path_split newpath) \<notin> {''.'', ''..''}
     \<Longrightarrow> answers E (fs_rename E ctx oldpath newpath) w"
  unfolding fs_rename_def by (rule handler_answers [OF _ tree_db [OF tree_pred_whole] triple_rename])

end
