(* ===== verification/Fs_Moves.thy ===== *)
theory Fs_Moves
  imports Fs_Refine_Create Fs_Rename
begin

text \<open>
  The simulation for the handlers that remove a directory and that move a name: each of their
  deletions and insertions is known to succeed and changes the tree by exactly one name, so that the
  tree at the end is a composition of such changes.
\<close>

section \<open>Trees in order\<close>

definition occurs :: "ftree \<Rightarrow> nodeid \<Rightarrow> (nodeid \<times> string) set" where
  "occurs t c = {(d, n). fdirs t d n = Some c}"

definition isdir :: "ftree \<Rightarrow> nodeid \<Rightarrow> bool" where
  "isdir t i \<longleftrightarrow> (\<exists>m. fmodes t i = Some m \<and> S_ISDIR m)"

text \<open>
  Every node in the tree has a mode, names are in directories, and \<open>k\<close> more names of a node do not
  reach the limit of the link count.
\<close>

definition fit :: "nat \<Rightarrow> ftree \<Rightarrow> bool" where
  "fit k t \<longleftrightarrow> (\<forall>c. finite (occurs t c) \<and> card (occurs t c) + k < 2 ^ 31)
     \<and> (\<forall>d n i. fdirs t d n = Some i \<longrightarrow> fmodes t i \<noteq> None \<and> isdir t d)"

text \<open>Every directory with entries knows itself.\<close>

definition knows :: "ftree \<Rightarrow> bool" where
  "knows t \<longleftrightarrow> (\<forall>c m. fdirs t c m \<noteq> None \<longrightarrow> fdirs t c ''.'' = Some c)"

lemma knowsD: "knows t \<Longrightarrow> fdirs t c m \<noteq> None \<Longrightarrow> fdirs t c ''.'' = Some c"
  unfolding knows_def by blast

text \<open>The name \<open>n\<close> of \<open>d\<close> can go: if it is the last one of its node, the node has no other entries.\<close>

definition deletable :: "ftree \<Rightarrow> nodeid \<Rightarrow> string \<Rightarrow> bool" where
  "deletable t d n \<longleftrightarrow> (\<exists>i. fdirs t d n = Some i \<and>
     ((\<forall>d' n'. fdirs t d' n' = Some i \<longrightarrow> d' = d \<and> n' = n) \<longrightarrow> (\<forall>m. fdirs t i m \<noteq> None \<longrightarrow> i = d \<and> m = n)))"

lemma deletableD:
  assumes "deletable t d n" and "fdirs t d n = Some i" and "\<And>d' n'. fdirs t d' n' = Some i \<Longrightarrow> d' = d \<and> n' = n"
    and "fdirs t i m \<noteq> None"
  shows "i = d \<and> m = n"
proof -
  obtain j where j: "fdirs t d n = Some j" and
    "(\<forall>d' n'. fdirs t d' n' = Some j \<longrightarrow> d' = d \<and> n' = n) \<longrightarrow> (\<forall>m. fdirs t j m \<noteq> None \<longrightarrow> j = d \<and> m = n)"
    using assms(1) unfolding deletable_def by blast
  moreover have "j = i" using j assms(2) by simp
  ultimately show ?thesis using assms(3,4) by blast
qed

lemma deletableI:
  assumes "fdirs t d n = Some i" and "(\<exists>d' n'. fdirs t d' n' = Some i \<and> (d', n') \<noteq> (d, n)) \<or> (\<forall>m. fdirs t i m = None)"
  shows "deletable t d n"
proof -
  have "\<forall>m. fdirs t i m \<noteq> None \<longrightarrow> i = d \<and> m = n" if sole: "\<forall>d' n'. fdirs t d' n' = Some i \<longrightarrow> d' = d \<and> n' = n"
    using assms(2)
  proof
    assume "\<exists>d' n'. fdirs t d' n' = Some i \<and> (d', n') \<noteq> (d, n)"
    then obtain d' n' where "fdirs t d' n' = Some i" and "(d', n') \<noteq> (d, n)" by blast
    then show ?thesis using sole by simp
  qed simp
  then show ?thesis unfolding deletable_def using assms(1) by blast
qed

lemma deletable_other: "fdirs t d n = Some i \<Longrightarrow> fdirs t d' n' = Some i \<Longrightarrow> (d', n') \<noteq> (d, n) \<Longrightarrow> deletable t d n"
  by (rule deletableI) blast+

lemma deletable_knows:
  "fdirs t d n = Some i \<Longrightarrow> n \<noteq> ''.'' \<Longrightarrow> (\<And>m. fdirs t i m \<noteq> None \<Longrightarrow> fdirs t i ''.'' = Some i) \<Longrightarrow> deletable t d n"
  by (rule deletableI, assumption) blast

lemma isdir_of [simp]: "isdir (ftree_of E w) i = is_dir E w i"
  by (simp add: isdir_def is_dir_def)

lemma occurs_of [simp]: "occurs (ftree_of E w) = refs E w"
  by (simp add: occurs_def refs_entry fun_eq_iff)

lemma isdir_put [simp]: "isdir (put_name d n c t) = isdir t"
  by (simp add: isdir_def put_name_def fun_eq_iff)

lemma put_name_sel [simp]: "fmodes (put_name d n c t) = fmodes t"
    "fdirs (put_name d n c t) d' n' = (if d' = d \<and> n' = n then Some c else fdirs t d' n')"
  by (simp_all add: put_name_def)

lemma del_name_dirs [simp]: "fdirs (del_name d n t) d' n' = (if d' = d \<and> n' = n then None else fdirs t d' n')"
  by (simp add: del_name_def)

lemma occurs_put: "occurs (put_name d n c t) c' \<subseteq> insert (d, n) (occurs t c')"
  by (auto simp: occurs_def split: if_splits)

lemma occurs_del: "occurs (del_name d n t) c \<subseteq> occurs t c"
  by (auto simp: occurs_def split: if_splits)

lemma named_mode: "fdirs t d' n' = Some i \<Longrightarrow> (d', n') \<noteq> (d, n) \<Longrightarrow> fmodes (del_name d n t) i = fmodes t i"
  by (auto simp: del_name_def)

lemma entered_isdir:
  assumes "deletable t d n" and "fdirs t i m \<noteq> None" and "(i, m) \<noteq> (d, n)"
  shows "isdir (del_name d n t) i = isdir t i"
proof -
  have "\<not> (fdirs t d n = Some i \<and> (\<forall>d' n'. fdirs t d' n' = Some i \<longrightarrow> d' = d \<and> n' = n))"
  proof
    assume sole: "fdirs t d n = Some i \<and> (\<forall>d' n'. fdirs t d' n' = Some i \<longrightarrow> d' = d \<and> n' = n)"
    then have "\<forall>m. fdirs t i m \<noteq> None \<longrightarrow> i = d \<and> m = n" using assms(1) unfolding deletable_def by auto
    then show False using assms(2,3) by blast
  qed
  then have "fmodes (del_name d n t) i = fmodes t i" by (simp only: del_name_def ftree.select_convs if_False)
  then show ?thesis by (simp add: isdir_def)
qed

lemma fitD:
  assumes "fit k t"
  shows "finite (occurs t c)" and "card (occurs t c) + k < 2 ^ 31" and "fdirs t d n = Some i \<Longrightarrow> fmodes t i \<noteq> None"
    and "fdirs t d n = Some i \<Longrightarrow> isdir t d"
  using assms unfolding fit_def by blast+

lemma fit_put:
  assumes "fit (Suc k) t" and "fmodes t c \<noteq> None" and "isdir t d"
  shows "fit k (put_name d n c t)"
proof -
  have "finite (occurs (put_name d n c t) c') \<and> card (occurs (put_name d n c t) c') + k < 2 ^ 31" for c'
  proof -
    have f: "finite (occurs t c')" "card (occurs t c') + Suc k < 2 ^ 31" using assms(1) by (simp_all add: fit_def)
    have "card (occurs (put_name d n c t) c') \<le> card (insert (d, n) (occurs t c'))"
      by (rule card_mono [OF _ occurs_put]) (simp add: f(1))
    also have "\<dots> \<le> Suc (card (occurs t c'))" by (rule card_insert_le_m1) simp_all
    finally show ?thesis using f finite_subset [OF occurs_put] by simp
  qed
  moreover have "fmodes (put_name d n c t) i \<noteq> None \<and> isdir (put_name d n c t) d'" if e: "fdirs (put_name d n c t) d' n' = Some i" for d' n' i
  proof (cases "d' = d \<and> n' = n")
    case False
    then have "fdirs t d' n' = Some i" using e by auto
    then show ?thesis using assms(1) by (simp add: fit_def)
  qed (use e assms(2,3) in simp)
  ultimately show ?thesis unfolding fit_def by blast
qed

lemma fit_less: "fit (Suc k) t \<Longrightarrow> fit k t"
  using fitD(2) [of "Suc k" t] unfolding fit_def by (metis Suc_lessD add_Suc_right)

lemma fit_zero: "fit k t \<Longrightarrow> fit 0 t"
  by (induction k) (auto dest: fit_less)

lemma fit_del:
  assumes "fit k t" and "deletable t d n"
  shows "fit k (del_name d n t)"
proof -
  have "finite (occurs (del_name d n t) c) \<and> card (occurs (del_name d n t) c) + k < 2 ^ 31" for c
  proof -
    have f: "finite (occurs t c)" "card (occurs t c) + k < 2 ^ 31" using assms(1) by (simp_all add: fit_def)
    then show ?thesis
      using card_mono [OF f(1) occurs_del [of d n t c]] finite_subset [OF occurs_del [of d n t c] f(1)] by simp
  qed
  moreover have "fmodes (del_name d n t) i \<noteq> None \<and> isdir (del_name d n t) c" if e: "fdirs (del_name d n t) c m = Some i" for c m i
  proof -
    have e': "fdirs t c m = Some i" and "(c, m) \<noteq> (d, n)" using e by (auto split: if_splits)
    then show ?thesis
      using assms(1) named_mode [OF e'] entered_isdir [OF assms(2), of c m] by (simp add: fit_def)
  qed
  ultimately show ?thesis unfolding fit_def by blast
qed

section \<open>Single steps\<close>

text \<open>A fact about the tree that the state before implies.\<close>

lemma hoare_known: "(\<And>w. P w \<Longrightarrow> c) \<Longrightarrow> (c \<Longrightarrow> hoare (inorder E P) m Q R) \<Longrightarrow> hoare (inorder E P) m Q R"
  by (cases c) (auto simp: hoare_def inorder_def)

lemma exact_del:
  fixes E :: "('s, 'h) env"
  assumes "lawful E" and "fit 0 t" and "deletable t (nid d) n"
  shows "hoare (inorder E (\<lambda>w. ftree_of E w = t)) (delchild E d n) (\<lambda>_. inorder E (\<lambda>w. ftree_of E w = del_name (nid d) n t))
     (R :: exn \<Rightarrow> ('s, 'h, 'z) pworld_scheme \<Rightarrow> bool)"
proof (rule hoareI)
  let ?P = "\<lambda>w :: ('s, 'h, 'z) pworld_scheme. ftree_of E w = t"
  have few: "few E w" if "?P w" for w
  proof -
    have "card (occurs t c) < 2 ^ 31" for c using fitD(2) [OF assms(2), of c] by simp
    moreover have "occurs t = refs E w" using that occurs_of [of E w] by (simp only:)
    ultimately show ?thesis unfolding few_def by simp
  qed
  obtain i where i: "fdirs t (nid d) n = Some i" "fmodes t i \<noteq> None"
    using assms(2,3) unfolding fit_def deletable_def by blast
  have last: "(j, m) = (nid d, n)" if "?P w" and "entry E w (nid d) n = Some j" and "card (refs E w j) = 1" and "entry E w j m \<noteq> None"
    for w j m
  proof -
    have t: "fdirs t = entry E w" using that(1) ftree_of_sel(1) [of E w] by (simp only:)
    have "j = nid d \<and> m = n"
    proof (rule deletableD [OF assms(3)])
      show "fdirs t (nid d) n = Some j" unfolding t by (rule that(2))
      show "fdirs t j m \<noteq> None" unfolding t by (rule that(4))
      show "d' = nid d \<and> n' = n" if "fdirs t d' n' = Some j" for d' n'
        using two_refs [OF assms(1) \<open>entry E w (nid d) n = Some j\<close> _ \<open>card (refs E w j) = 1\<close>] that by (simp only: t)
    qed
    then show ?thesis by simp
  qed
  have T: "hoare (inorder E ?P) (delchild E d n) (\<lambda>_. inorder E (\<lambda>w. ftree_of E w = del_name (nid d) n t)) (lost E t)"
  proof (rule refine_delchild [OF assms(1)])
    show "few E w" if "?P w" for w by (rule few [OF that])
    show "(j, m) = (nid d, n)" if "?P w" and "fs_inv E w" and "entry E w (nid d) n = Some j" and "card (refs E w j) = 1"
      and "entry E w j m \<noteq> None" for w j m by (rule last [OF that(1,3-5)])
  qed
  show "inorder E (\<lambda>w. ftree_of E w = del_name (nid d) n t) w'" if "inorder E ?P w" and "delchild E d n w = (Inr a, w')"
    for w a w' by (rule hoare_Inr [OF T that(2,1)])
  show "R e w'" if w: "inorder E ?P w" and run: "delchild E d n w = (Inl e, w')" for w e w'
  proof -
    have inv: "fs_inv E w" and t: "ftree_of E w = t" using w by (simp_all add: inorder_def fsys_def)
    have small: "card (refs E w i) \<le> 2 ^ 31" for i using few_card [OF few [OF t], of i] by simp
    have "entry E w (nid d) n = Some i" and "mode_of E w i \<noteq> None" using i t by auto
    then show ?thesis
      using run by (cases rule: delchild_cases [OF assms(1) inv small, of d n]) (use last [OF t] in auto)
  qed
qed

lemma exact_add:
  fixes E :: "('s, 'h) env"
  assumes "lawful E" and "fit 0 t" and "fdirs t (nid d) n = None" and "isdir t (nid d)" and "occurs t (nid c) \<noteq> {}"
  shows "hoare (inorder E (\<lambda>w. ftree_of E w = t)) (addchild E d n c) (\<lambda>_. inorder E (\<lambda>w. ftree_of E w = put_name (nid d) n (nid c) t))
     (R :: exn \<Rightarrow> ('s, 'h, 'z) pworld_scheme \<Rightarrow> bool)"
proof -
  have "\<exists>w'. addchild E d n c w = (Inr (), w') \<and> inorder E (\<lambda>w. ftree_of E w = put_name (nid d) n (nid c) t) w'"
    if w: "inorder E (\<lambda>w. ftree_of E w = t) w" for w :: "('s, 'h, 'z) pworld_scheme"
  proof -
    have inv: "fs_inv E w" and ca: "caches_ok E w" and t: "t = ftree_of E w" using w by (simp_all add: inorder_def fsys_def)
    have dir: "is_dir E w (nid d)" and ne: "refs E w (nid c) \<noteq> {}" and free: "entry E w (nid d) n = None"
      using assms(3-5) by (simp_all add: t)
    have small: "card (refs E w (nid c)) < 2 ^ 31" using assms(2) by (simp add: t fit_def)
    have none: "attr E w DDirectories (nid d) n = None" using free link_invD(2) [OF fs_inv_link [OF inv]] by blast
    show ?thesis
    proof (cases rule: addchild_cases [OF assms(1) inv dir small, of n])
      case (1 k)
      have "caches_ok E (add_entry E (nid d) n (nid c) k w)" using ca more_caches(3) assms(1) by (metis more_add_entry)
      moreover have "ftree_of E (add_entry E (nid d) n (nid c) k w) = put_name (nid d) n (nid c) t"
        using assms(1) by (simp add: t put_name_def ftree_of_def fun_eq_iff)
      ultimately show ?thesis using 1(3,4) by (simp add: inorder_def fsys_def)
    next
      case 2
      then show ?thesis using none by simp
    next
      case (3 e)
      then show ?thesis using link_invD(3) [OF fs_inv_link [OF inv], of "nid c"] ne by auto
    qed
  qed
  then show ?thesis unfolding hoare_def by fastforce
qed

section \<open>Removing a directory\<close>

text \<open>
  A tree in which every directory has its two entries \<^verbatim>\<open>.\<close> and \<^verbatim>\<open>..\<close> and no entry has an empty
  name, with room for \<open>k\<close> more names of a node.
\<close>

definition orderly :: "nat \<Rightarrow> ftree \<Rightarrow> bool" where
  "orderly k t \<longleftrightarrow> fit k t \<and> (\<forall>d. fdirs t d [] = None)
     \<and> (\<forall>c. isdir t c \<longrightarrow> fdirs t c ''.'' = Some c \<and> fdirs t c ''..'' \<noteq> None)"

definition empty_dir :: "ftree \<Rightarrow> nodeid \<Rightarrow> bool" where
  "empty_dir t i \<longleftrightarrow> isdir t i \<and> (\<forall>m. fdirs t i m \<noteq> None \<longrightarrow> m \<in> {''.'', ''..''})"

text \<open>The three deletions.\<close>

definition clear_dir :: "nodeid \<Rightarrow> string \<Rightarrow> nodeid \<Rightarrow> ftree \<Rightarrow> ftree" where
  "clear_dir d n i t = del_name d n (del_name i ''..'' (del_name i ''.'' t))"

definition rmdir_spec :: "string \<Rightarrow> ftree \<Rightarrow> int \<Rightarrow> ftree \<Rightarrow> bool" where
  "rmdir_spec p t code t' \<longleftrightarrow>
     code < 0 \<and> t' = t
   \<or> code = 0 \<and> (\<exists>d i. the_dir t p = Some d \<and> fdirs t d (the_leaf p) = Some i \<and> empty_dir t i
       \<and> t' = clear_dir d (the_leaf p) i t)"

lemma orderlyD:
  assumes "orderly k t"
  shows "fit k t" and "fdirs t d [] = None" and "isdir t c \<Longrightarrow> fdirs t c ''.'' = Some c" and "isdir t c \<Longrightarrow> fdirs t c ''..'' \<noteq> None"
    and "fdirs t c m \<noteq> None \<Longrightarrow> fdirs t c ''.'' = Some c"
  using assms fitD(4) [of k t c m] unfolding orderly_def by blast+

lemma clear_steps:
  assumes "orderly k t" and name: "fdirs t d n = Some i" and n: "n \<notin> {''.'', ''..''}" and e: "empty_dir t i"
  shows "d \<noteq> i" and "deletable t i ''.''" and "deletable (del_name i ''.'' t) i ''..''"
    and "deletable (del_name i ''..'' (del_name i ''.'' t)) d n"
proof -
  have i: "fdirs t i ''.'' = Some i" using orderlyD(3) [OF assms(1)] e by (simp add: empty_dir_def)
  obtain p where p: "fdirs t i ''..'' = Some p" using orderlyD(4) [OF assms(1)] e by (auto simp: empty_dir_def)
  show ne: "d \<noteq> i" using e name n unfolding empty_dir_def by blast
  show "deletable t i ''.''" by (rule deletable_other [OF i name]) (use ne in simp)
  have "deletable (del_name i ''.'' t) i ''..''"
  proof (cases "p = i")
    case True
    have "fdirs (del_name i ''.'' t) d n = Some i" using name ne by simp
    then show ?thesis using p ne True by (intro deletable_other [of _ i _ i d n]) simp_all
  next
    case False
    show ?thesis by (rule deletable_knows [of _ _ _ p]) (use p False orderlyD(5) [OF assms(1), of p] in simp_all)
  qed
  then show "deletable (del_name i ''.'' t) i ''..''" .
  have "fdirs (del_name i ''..'' (del_name i ''.'' t)) i m = None" for m
    using e unfolding empty_dir_def by auto
  moreover have "fdirs (del_name i ''..'' (del_name i ''.'' t)) d n = Some i" using name ne by simp
  ultimately show "deletable (del_name i ''..'' (del_name i ''.'' t)) d n" by (intro deletableI) blast+
qed

lemma exact_clear:
  fixes E :: "('s, 'h) env"
  assumes "lawful E" and "orderly k t" and "fdirs t (nid d) n = Some (nid i)" and "n \<notin> {''.'', ''..''}" and "empty_dir t (nid i)"
  shows "fit k (clear_dir (nid d) n (nid i) t)"
    and "hoare (inorder E (\<lambda>w. ftree_of E w = t)) (delchild E i ''.'')
       (\<lambda>_. inorder E (\<lambda>w. ftree_of E w = del_name (nid i) ''.'' t)) (R :: exn \<Rightarrow> ('s, 'h, 'z) pworld_scheme \<Rightarrow> bool)"
    and "hoare (inorder E (\<lambda>w. ftree_of E w = del_name (nid i) ''.'' t)) (delchild E i ''..'')
       (\<lambda>_. inorder E (\<lambda>w. ftree_of E w = del_name (nid i) ''..'' (del_name (nid i) ''.'' t)))
       (R :: exn \<Rightarrow> ('s, 'h, 'z) pworld_scheme \<Rightarrow> bool)"
    and "hoare (inorder E (\<lambda>w. ftree_of E w = del_name (nid i) ''..'' (del_name (nid i) ''.'' t))) (delchild E d n)
       (\<lambda>_. inorder E (\<lambda>w. ftree_of E w = clear_dir (nid d) n (nid i) t)) (R :: exn \<Rightarrow> ('s, 'h, 'z) pworld_scheme \<Rightarrow> bool)"
proof -
  note steps = clear_steps [OF assms(2-5)]
  note f0 = orderlyD(1) [OF assms(2)]
  note f1 = fit_del [OF f0 steps(2)]
  note f2 = fit_del [OF f1 steps(3)]
  show "fit k (clear_dir (nid d) n (nid i) t)" unfolding clear_dir_def by (rule fit_del [OF f2 steps(4)])
  show "hoare (inorder E (\<lambda>w. ftree_of E w = t)) (delchild E i ''.'')
       (\<lambda>_. inorder E (\<lambda>w. ftree_of E w = del_name (nid i) ''.'' t)) R"
    by (rule exact_del [OF assms(1) fit_zero [OF f0] steps(2)])
  show "hoare (inorder E (\<lambda>w. ftree_of E w = del_name (nid i) ''.'' t)) (delchild E i ''..'')
       (\<lambda>_. inorder E (\<lambda>w. ftree_of E w = del_name (nid i) ''..'' (del_name (nid i) ''.'' t))) R"
    by (rule exact_del [OF assms(1) fit_zero [OF f1] steps(3)])
  show "hoare (inorder E (\<lambda>w. ftree_of E w = del_name (nid i) ''..'' (del_name (nid i) ''.'' t))) (delchild E d n)
       (\<lambda>_. inorder E (\<lambda>w. ftree_of E w = clear_dir (nid d) n (nid i) t)) R"
    unfolding clear_dir_def by (rule exact_del [OF assms(1) fit_zero [OF f2] steps(4)])
qed

text \<open>A directory that the code counts as empty is empty.\<close>

lemma counted_empty:
  assumes "lawful E" and "orderly k (ftree_of E w)" and "is_dir E w i" and "card (attr_names E w DDirectories i) \<le> 2"
  shows "empty_dir (ftree_of E w) i"
proof -
  have "entry E w c ''.'' = Some c \<and> entry E w c ''..'' \<noteq> None" if "entry E w c m \<noteq> None" for c m
  proof -
    obtain j where "fdirs (ftree_of E w) c m = Some j" using \<open>entry E w c m \<noteq> None\<close> by (cases "entry E w c m") simp_all
    from fitD(4) [OF orderlyD(1) [OF assms(2)] this] show ?thesis
      using orderlyD(3,4) [OF assms(2), of c] by simp
  qed
  then have "dots_ok E w" unfolding dots_ok_def by blast
  moreover have "names_ok E w" using orderlyD(2) [OF assms(2)] by (simp add: names_ok_def)
  moreover have "few E w" using fitD(2) [OF orderlyD(1) [OF assms(2)]] unfolding few_def occurs_of by (meson add_lessD1)
  ultimately have "dirs_ok E w" by (simp add: dirs_ok_def)
  moreover have "entry E w i ''.'' = Some i" using orderlyD(3) [OF assms(2)] assms(3) by simp
  ultimately have "hollow E {''.'', ''..''} i ''.'' i w" by (rule hollow_start [OF assms(1) _ _ assms(4)])
  then show ?thesis using assms(3) by (simp add: hollow_def empty_dir_def)
qed

lemma refine_getdir:
  assumes "lawful E" and "\<And>w. P w \<Longrightarrow> ftree_of E w = t"
  shows "hoare (inorder E P) (bind (getchild E d n) (cast KDirectory))
     (\<lambda>c. inorder E (\<lambda>w. P w \<and> entry E w (nid d) n = Some (nid c) \<and> is_dir E w (nid c))) (lost E t)"
proof (rule hoare_bind [OF refine_getchild [OF assms]], assumption)
  fix c
  show "hoare (inorder E (\<lambda>w. P w \<and> entry E w (nid d) n = Some (nid c) \<and> typed E w c)) (cast KDirectory c)
      (\<lambda>c. inorder E (\<lambda>w. P w \<and> entry E w (nid d) n = Some (nid c) \<and> is_dir E w (nid c))) (lost E t)"
    unfolding cast_def
    by (rule hoare_if; rule hoareI)
      (use assms(2) in \<open>auto simp: inorder_def lost_def failed_def dest: typed_dir\<close>)
qed

lemma refine_count:
  assumes "lawful E"
  shows "hoare (inorder E P) (countchildren E n)
     (\<lambda>c. inorder E (\<lambda>w. P w \<and> c = int (card (attr_names E w DDirectories (nid n))))) (lost E t)"
  unfolding countchildren_def
  by (rule hoareI) (simp_all add: countattrs_eq [OF assms] inorder_def)

lemma refine_rmdir:
  fixes E :: "('s, 'h) env"
  assumes "lawful E" and ok: "orderly k t" and leaf: "the_leaf pathname \<notin> {''.'', ''..''}"
  shows "hoare (inorder E (before E (\<lambda>_. True) t))
     (bind (userctx E ctx) (\<lambda>sctx. bind (path_new (getnode_path E) sctx pathname) (\<lambda>p.
       andthen (access E sctx (parent p) (or X_OK W_OK))
       (bind (bind (getchild E (parent p) (leaf p)) (cast KDirectory)) (\<lambda>n.
       andthen (check_sticky_bit E sctx (parent p) n)
       (bind (countchildren E n) (\<lambda>count.
         if 2 < count then ret (- ENOTEMPTY)
         else
           andthen (delchild E n ''.'')
           (andthen (delchild E n ''..'')
           (andthen (delchild E (parent p) (leaf p))
           (andthen (hash_invalidate E pathname)
           (andthen (touch_parent E (parent p))
           (ret 0))))))))))))
     (\<lambda>c. inorder E (\<lambda>w. rmdir_spec pathname t c (ftree_of E w))) (lost E t :: exn \<Rightarrow> ('s, 'h, 'z) fsworld_scheme \<Rightarrow> bool)"
proof (rule refine_start [OF assms(1) tree_db [OF tree_pred_True]],
    rule hoare_andthen [OF refine_reads [OF reads_access safe_access at_dir_tree]
      hoare_bind [OF refine_getdir [OF assms(1) at_dir_tree]
      hoare_andthen [OF refine_reads [OF reads_check_sticky_bit safe_check_sticky_bit]
      hoare_bind [OF refine_count [OF assms(1)] hoare_if]]]])
  fix sctx :: scontext and pt :: path and n :: node and count :: int
  let ?L = "lost E t :: exn \<Rightarrow> ('s, 'h, 'z) fsworld_scheme \<Rightarrow> bool"
  let ?S = "\<lambda>c. inorder E (\<lambda>w. rmdir_spec pathname t c (ftree_of E w))"
  let ?d = "nid (parent pt)" and ?i = "nid n"
  let ?P = "\<lambda>w :: ('s, 'h, 'z) fsworld_scheme. (at_dir E (\<lambda>_. True) t pathname pt w \<and> entry E w ?d (leaf pt) = Some ?i \<and> is_dir E w ?i)
       \<and> count = int (card (attr_names E w DDirectories ?i))"
  have tree: "ftree_of E w = t" if "?P w" for w using that by (simp add: at_dir_def)
  show "hoare (inorder E ?P) (ret (- ENOTEMPTY)) ?S ?L"
    by (rule refine_refused) (use tree in \<open>simp_all add: rmdir_spec_def\<close>)
  let ?del = "andthen (delchild E n ''.'') (andthen (delchild E n ''..'') (andthen (delchild E (parent pt) (leaf pt))
       (andthen (hash_invalidate E pathname) (andthen (touch_parent E (parent pt)) (ret 0)))))"
  assume small: "\<not> 2 < count"
  show "hoare (inorder E ?P) ?del ?S ?L"
  proof (cases "the_dir t pathname = Some ?d \<and> leaf pt = the_leaf pathname \<and> fdirs t ?d (leaf pt) = Some ?i \<and> empty_dir t ?i")
    case True
    then have name: "fdirs t ?d (leaf pt) = Some ?i" and e: "empty_dir t ?i" and n: "leaf pt \<notin> {''.'', ''..''}"
      using leaf by auto
    let ?t = "clear_dir ?d (leaf pt) ?i t"
    have spec: "rmdir_spec pathname t 0 ?t" unfolding rmdir_spec_def using True by auto
    note steps = exact_clear [OF assms(1) ok name n e]
    have tail: "hoare (inorder E (\<lambda>w. ftree_of E w = ?t)) (andthen (hash_invalidate E pathname) (andthen (touch_parent E (parent pt)) (ret 0))) ?S ?L"
      by (rule hoare_andthen [OF refine_invalidate [OF tree_pred_ftree]
          ends_spec [where S = "rmdir_spec pathname t", OF refine_tail [OF assms(1)] spec]])
    show ?thesis
      by (rule hoare_sys_pre [OF hoare_andthen [OF steps(2) hoare_andthen [OF steps(3) hoare_andthen [OF steps(4) tail]]]])
        (rule tree)
  next
    case False
    have "\<not> ?P w" for w
      using False small counted_empty [OF assms(1), of k w ?i] ok by (auto simp: at_dir_def)
    then show ?thesis by (auto simp: hoare_def inorder_def)
  qed
qed (assumption, assumption, drule conjunct1, erule at_dir_tree)

section \<open>Moving a name\<close>

text \<open>
  The destination makes way, a directory gets its new parent, and the name moves.
\<close>

definition make_way :: "nodeid \<Rightarrow> string \<Rightarrow> ftree \<Rightarrow> ftree" where
  "make_way d n t =
     (case fdirs t d n of None \<Rightarrow> t | Some e \<Rightarrow> if isdir t e then clear_dir d n e t else del_name d n t)"

definition adopt :: "nodeid \<Rightarrow> nodeid \<Rightarrow> ftree \<Rightarrow> ftree" where
  "adopt s d t = (if isdir t s then put_name s ''..'' d (del_name s ''..'' t) else t)"

definition move_name :: "nodeid \<Rightarrow> string \<Rightarrow> nodeid \<Rightarrow> nodeid \<Rightarrow> string \<Rightarrow> ftree \<Rightarrow> ftree" where
  "move_name sd sn s d n t = del_name sd sn (put_name d n s (adopt s d t))"

text \<open>The tree when the destination is out of the way.\<close>

definition cleared :: "nodeid \<Rightarrow> string \<Rightarrow> nodeid \<Rightarrow> nodeid \<Rightarrow> string \<Rightarrow> ftree \<Rightarrow> bool" where
  "cleared sd sn s d n t \<longleftrightarrow> fit 2 t \<and> knows t \<and> fdirs t d n = None \<and> isdir t d \<and> fdirs t d ''.'' = Some d
     \<and> fdirs t sd sn = Some s \<and> (isdir t s \<longrightarrow> fdirs t s ''.'' = Some s \<and> fdirs t s ''..'' \<noteq> None)"

lemma move_steps:
  assumes "cleared sd sn s d n t" and "sn \<notin> {''.'', ''..''}" and "n \<notin> {''.'', ''..''}" and "(sd, sn) \<noteq> (d, n)"
  shows "isdir t s \<Longrightarrow> deletable t s ''..''"
    and "isdir t s \<Longrightarrow> isdir (del_name s ''..'' t) s \<and> isdir (del_name s ''..'' t) d"
    and "fit 1 (adopt s d t)" and "isdir (adopt s d t) d" and "fdirs (adopt s d t) d n = None" and "fdirs (adopt s d t) sd sn = Some s"
    and "deletable (put_name d n s (adopt s d t)) sd sn" and "fit 0 (put_name d n s (adopt s d t))"
proof -
  have c: "fit 2 t" "knows t" "fdirs t d n = None" "isdir t d" "fdirs t d ''.'' = Some d" "fdirs t sd sn = Some s"
    and dots: "isdir t s \<Longrightarrow> fdirs t s ''.'' = Some s" "isdir t s \<Longrightarrow> fdirs t s ''..'' \<noteq> None"
    using assms(1) unfolding cleared_def by blast+
  show del: "deletable t s ''..''" if dir: "isdir t s"
  proof -
    obtain p where "fdirs t s ''..'' = Some p" using dots(2) [OF dir] by blast
    then show ?thesis by (rule deletable_knows) (simp, rule knowsD [OF c(2)])
  qed
  show kept: "isdir (del_name s ''..'' t) s \<and> isdir (del_name s ''..'' t) d" if "isdir t s"
    using entered_isdir [OF del [OF that], of s "''.''"] entered_isdir [OF del [OF that], of d "''.''"] dots(1) [OF that] that c(4,5)
    by simp
  have fit2: "fit (Suc 1) t" using c(1) by (simp add: numeral_2_eq_2)
  show fit1: "fit 1 (adopt s d t)"
  proof (cases "isdir t s")
    case True
    have "fmodes (del_name s ''..'' t) d \<noteq> None" using kept [OF True] by (auto simp: isdir_def)
    then show ?thesis
      using fit_put [OF fit_del [OF fit2 del [OF True]]] kept [OF True] True by (simp add: adopt_def)
  qed (use fit2 fit_less in \<open>simp add: adopt_def\<close>)
  show dir: "isdir (adopt s d t) d" using kept c(4) by (simp add: adopt_def)
  show free: "fdirs (adopt s d t) d n = None" using c(3) assms(3) by (auto simp: adopt_def)
  show name: "fdirs (adopt s d t) sd sn = Some s" using c(6) assms(2) by (auto simp: adopt_def)
  show "deletable (put_name d n s (adopt s d t)) sd sn"
    using name assms(4) by (intro deletable_other [of _ sd sn s d n]) auto
  have "fmodes (adopt s d t) s \<noteq> None" by (rule fitD(3) [OF fit1 name])
  then show "fit 0 (put_name d n s (adopt s d t))" using fit_put [of 0] fit1 dir by simp
qed

lemma exact_adopt:
  fixes E :: "('s, 'h) env"
  assumes "lawful E" and "cleared sd sn (nid s) (nid d) n t" and "sn \<notin> {''.'', ''..''}" and "n \<notin> {''.'', ''..''}"
    and "(sd, sn) \<noteq> (nid d, n)" and c: "c = isdir t (nid s)"
  shows "hoare (inorder E (\<lambda>w. ftree_of E w = t)) (whenM c (andthen (delchild E s ''..'') (addchild E s ''..'' d)))
     (\<lambda>_. inorder E (\<lambda>w. ftree_of E w = adopt (nid s) (nid d) t)) (R :: exn \<Rightarrow> ('s, 'h, 'z) pworld_scheme \<Rightarrow> bool)"
proof (cases c)
  case True
  note steps = move_steps [OF assms(2-5)]
  have f: "fit 2 t" "fdirs t (nid d) ''.'' = Some (nid d)" using assms(2) by (simp_all add: cleared_def)
  have dir: "isdir t (nid s)" using c True by simp
  let ?t = "del_name (nid s) ''..'' t"
  have "(nid d, ''.'') \<in> occurs ?t (nid d)" using f(2) by (simp add: occurs_def)
  then have "hoare (inorder E (\<lambda>w. ftree_of E w = ?t)) (addchild E s ''..'' d)
     (\<lambda>_. inorder E (\<lambda>w. ftree_of E w = put_name (nid s) ''..'' (nid d) ?t)) R"
    using steps(2) [OF dir] by (intro exact_add [OF assms(1) fit_zero [OF fit_del [OF f(1) steps(1) [OF dir]]]]) auto
  then have "hoare (inorder E (\<lambda>w. ftree_of E w = t)) (andthen (delchild E s ''..'') (addchild E s ''..'' d))
     (\<lambda>_. inorder E (\<lambda>w. ftree_of E w = put_name (nid s) ''..'' (nid d) ?t)) R"
    by (rule hoare_andthen [OF exact_del [OF assms(1) fit_zero [OF f(1)] steps(1) [OF dir]]])
  then show ?thesis using True dir by (simp add: whenM_def adopt_def)
next
  case False
  then show ?thesis using c by (simp add: whenM_def adopt_def hoare_ret)
qed

lemma exact_mode:
  fixes E :: "('s, 'h) env"
  assumes "lawful E" and "fmodes t i = Some m"
  shows "hoare (inorder E (\<lambda>w. ftree_of E w = t)) (getattr E DNodes i A_mode) (\<lambda>v. inorder E (\<lambda>w. ftree_of E w = t \<and> v = m))
     (R :: exn \<Rightarrow> ('s, 'h, 'z) pworld_scheme \<Rightarrow> bool)"
proof -
  have "getattr E DNodes i A_mode w = (Inr m, w)" if "ftree_of E w = t" for w :: "('s, 'h, 'z) pworld_scheme"
  proof -
    have "mode_of E w i = Some m" using assms(2) that by auto
    then show ?thesis by (rule getattr_Some [OF assms(1)])
  qed
  then show ?thesis unfolding hoare_def inorder_def by fastforce
qed

lemma exact_relink:
  fixes E :: "('s, 'h) env"
  assumes "lawful E" and "cleared (nid (parent srcpath)) (leaf srcpath) (nid s) (nid (parent dstpath)) (leaf dstpath) t"
    and "leaf srcpath \<notin> {''.'', ''..''}" and "leaf dstpath \<notin> {''.'', ''..''}"
    and "(nid (parent srcpath), leaf srcpath) \<noteq> (nid (parent dstpath), leaf dstpath)"
  shows "hoare (inorder E (\<lambda>w. ftree_of E w = t)) (rename_relink E srcpath dstpath s oldpath)
     (ends E 0 (move_name (nid (parent srcpath)) (leaf srcpath) (nid s) (nid (parent dstpath)) (leaf dstpath) t))
     (R :: exn \<Rightarrow> ('s, 'h, 'z) pworld_scheme \<Rightarrow> bool)"
proof -
  let ?sd = "nid (parent srcpath)" and ?d = "nid (parent dstpath)"
  note steps = move_steps [OF assms(2-5)]
  let ?t2 = "adopt (nid s) ?d t"
  let ?t3 = "put_name ?d (leaf dstpath) (nid s) ?t2"
  have add: "hoare (inorder E (\<lambda>w. ftree_of E w = ?t2)) (addchild E (parent dstpath) (leaf dstpath) s) (\<lambda>_. inorder E (\<lambda>w. ftree_of E w = ?t3)) R"
    by (rule exact_add [OF assms(1) fit_zero [OF steps(3)] steps(5,4)]) (use steps(6) in \<open>auto simp: occurs_def\<close>)
  have del: "hoare (inorder E (\<lambda>w. ftree_of E w = ?t3)) (delchild E (parent srcpath) (leaf srcpath))
     (\<lambda>_. inorder E (\<lambda>w. ftree_of E w = del_name ?sd (leaf srcpath) ?t3)) R"
    by (rule exact_del [OF assms(1) steps(8,7)])
  have stamp: "hoare (inorder E (\<lambda>w. ftree_of E w = t')) (stamp E s A_ctime) (\<lambda>_. inorder E (\<lambda>w. ftree_of E w = t')) R" for t'
    by (rule sure_hoare [OF triple_stamp [OF assms(1) tree_pred_ftree] sure_stamp [OF assms(1)]]) simp_all
  have rest: "hoare (inorder E (\<lambda>w. ftree_of E w = ?t2)) (andthen (hash_invalidate E oldpath) (andthen (stamp E s A_ctime)
      (andthen (addchild E (parent dstpath) (leaf dstpath) s) (andthen (delchild E (parent srcpath) (leaf srcpath))
      (andthen (touch_parent E (parent srcpath)) (andthen (touch_parent E (parent dstpath)) (ret 0)))))))
      (ends E 0 (move_name ?sd (leaf srcpath) (nid s) ?d (leaf dstpath) t)) R"
    unfolding move_name_def
    by (rule hoare_andthen [OF refine_invalidate [OF tree_pred_ftree] hoare_andthen [OF stamp hoare_andthen [OF add
          hoare_andthen [OF del hoare_andthen [OF refine_touch [OF assms(1)] refine_tail [OF assms(1)]]]]]])
  obtain m where m: "fmodes t (nid s) = Some m" using fitD(3) assms(2) unfolding cleared_def by blast
  then have c: "S_ISDIR m = isdir t (nid s)" by (simp add: isdir_def)
  show ?thesis
    unfolding rename_relink_def
  proof (rule hoare_bind [OF exact_mode [OF assms(1) m] hoare_known])
    fix v
    assume "v = m"
    then show "hoare (inorder E (\<lambda>w. ftree_of E w = t \<and> v = m))
      (andthen (whenM (S_ISDIR v) (andthen (delchild E s ''..'') (addchild E s ''..'' (parent dstpath))))
        (andthen (hash_invalidate E oldpath) (andthen (stamp E s A_ctime) (andthen (addchild E (parent dstpath) (leaf dstpath) s)
        (andthen (delchild E (parent srcpath) (leaf srcpath)) (andthen (touch_parent E (parent srcpath))
        (andthen (touch_parent E (parent dstpath)) (ret 0))))))))
      (ends E 0 (move_name ?sd (leaf srcpath) (nid s) ?d (leaf dstpath) t)) R"
      using c by (intro hoare_sys_pre [OF hoare_andthen [OF exact_adopt [OF assms] rest]]) auto
  qed simp
qed

text \<open>No directory has two names besides \<^verbatim>\<open>.\<close> and \<^verbatim>\<open>..\<close>.\<close>

definition lone_dirs :: "ftree \<Rightarrow> bool" where
  "lone_dirs t \<longleftrightarrow> (\<forall>c d n d' n'. isdir t c \<longrightarrow> fdirs t d n = Some c \<longrightarrow> fdirs t d' n' = Some c \<longrightarrow>
     n \<notin> {''.'', ''..''} \<longrightarrow> n' \<notin> {''.'', ''..''} \<longrightarrow> (d, n) = (d', n'))"

text \<open>
  The way from a directory to the root along its entries \<^verbatim>\<open>..\<close>; in a tree with a root there is one
  from every directory.
\<close>

fun up :: "ftree \<Rightarrow> nodeid \<Rightarrow> nodeid list \<Rightarrow> bool" where
  "up t i [] \<longleftrightarrow> i = 0"
| "up t i (j # js) \<longleftrightarrow> i \<noteq> 0 \<and> fdirs t i ''..'' = Some j \<and> isdir t j \<and> up t j js"

definition rooted :: "ftree \<Rightarrow> bool" where
  "rooted t \<longleftrightarrow> (\<forall>d. isdir t d \<longrightarrow> (\<exists>js. up t d js))"

lemma parents_up: "parents E w i js = up (ftree_of E w) i js"
  by (induction js arbitrary: i) simp_all

text \<open>
  What may be replaced: a node that is no directory by another such, and an empty directory by a
  directory that is not above it.
\<close>

definition replaceable :: "ftree \<Rightarrow> nodeid \<Rightarrow> nodeid \<Rightarrow> nodeid option \<Rightarrow> bool" where
  "replaceable t s d e \<longleftrightarrow> (case e of None \<Rightarrow> True | Some e \<Rightarrow> isdir t e = isdir t s
     \<and> (isdir t e \<longrightarrow> empty_dir t e \<and> (\<forall>js. up t d js \<longrightarrow> s \<notin> set (butlast (d # js)))))"

definition rename_spec :: "string \<Rightarrow> string \<Rightarrow> ftree \<Rightarrow> int \<Rightarrow> ftree \<Rightarrow> bool" where
  "rename_spec p q t code t' \<longleftrightarrow>
     code < 0 \<and> t' = t
   \<or> code = 0 \<and> p = q \<and> t' = t
   \<or> code = 0 \<and> (\<exists>sd s d. the_dir t p = Some sd \<and> fdirs t sd (the_leaf p) = Some s \<and> the_dir t q = Some d
       \<and> replaceable t s d (fdirs t d (the_leaf q))
       \<and> t' = move_name sd (the_leaf p) s d (the_leaf q) (make_way d (the_leaf q) t))"

lemma clear_dir_sel:
  "fdirs (clear_dir d n i t) d' n' =
     (if d' = d \<and> n' = n \<or> d' = i \<and> (n' = ''.'' \<or> n' = ''..'') then None else fdirs t d' n')"
  by (auto simp: clear_dir_def)

lemma cleared_make_way:
  assumes ok: "orderly 2 t" "lone_dirs t" and s: "fdirs t sd sn = Some s" and d: "isdir t d"
    and names: "sn \<notin> {''.'', ''..''}" "n \<notin> {''.'', ''..''}" "(sd, sn) \<noteq> (d, n)" and e: "replaceable t s d (fdirs t d n)"
  shows "cleared sd sn s d n (make_way d n t)"
proof (cases "fdirs t d n")
  case None
  then show ?thesis
    using orderlyD(1,3,4) [OF ok(1)] orderlyD(5) [OF ok(1)] s d unfolding cleared_def make_way_def knows_def by simp
next
  case (Some e)
  have dots: "isdir t c \<Longrightarrow> fdirs t c ''.'' = Some c" "isdir t c \<Longrightarrow> fdirs t c ''..'' \<noteq> None" for c
    using orderlyD(3,4) [OF ok(1)] by blast+
  note fit = orderlyD(1) [OF ok(1)]
  show ?thesis
  proof (cases "isdir t e")
    case dir: True
    then have sdir: "isdir t s" and empty: "empty_dir t e" using \<open>replaceable t s d (fdirs t d n)\<close> Some by (auto simp: replaceable_def)
    note steps = clear_steps [OF ok(1) Some names(2) empty]
    have "s \<noteq> e"
    proof
      assume "s = e"
      then have "(sd, sn) = (d, n)" using ok(2) dir s Some names(1,2) unfolding lone_dirs_def by blast
      then show False using names(3) by simp
    qed
    have "sd \<noteq> e" using empty s names(1) unfolding empty_dir_def by blast
    let ?t = "clear_dir d n e t"
    have kept: "isdir ?t c" if "c \<noteq> e" and "isdir t c" for c
      using entered_isdir [OF steps(2), of c "''.''"] entered_isdir [OF steps(3), of c "''.''"] entered_isdir [OF steps(4), of c "''.''"]
        dots(1) [OF that(2)] that names(2) by (auto simp: clear_dir_def)
    have "fit 2 ?t" unfolding clear_dir_def by (rule fit_del [OF fit_del [OF fit_del [OF fit steps(2)] steps(3)] steps(4)])
    moreover have "knows ?t" unfolding knows_def
    proof (intro allI impI)
      fix c m assume c: "fdirs ?t c m \<noteq> None"
      then have "c \<noteq> e" using empty unfolding empty_dir_def clear_dir_sel by (auto split: if_splits)
      moreover have "fdirs t c m \<noteq> None" using c unfolding clear_dir_sel by (auto split: if_splits)
      then have "fdirs t c ''.'' = Some c" by (rule orderlyD(5) [OF ok(1)])
      ultimately show "fdirs ?t c ''.'' = Some c" using names(2) by (auto simp: clear_dir_sel)
    qed
    moreover have "fdirs ?t s ''..'' \<noteq> None" and "fdirs ?t s ''.'' = Some s" and "fdirs ?t d ''.'' = Some d"
      using dots [OF sdir] dots(1) [OF d] \<open>s \<noteq> e\<close> steps(1) names(2) by (auto simp: clear_dir_sel)
    moreover have "fdirs ?t sd sn = Some s" using s \<open>sd \<noteq> e\<close> names(3) by (auto simp: clear_dir_sel)
    ultimately show ?thesis
      using Some dir kept [OF steps(1) d] unfolding cleared_def make_way_def by (simp add: clear_dir_sel)
  next
    case plain: False
    then have sfile: "\<not> isdir t s" using \<open>replaceable t s d (fdirs t d n)\<close> Some by (auto simp: replaceable_def)
    let ?t = "del_name d n t"
    have "fdirs t e m = None" for m using fitD(4) [OF fit, of e m] plain by (cases "fdirs t e m") auto
    then have del: "deletable t d n" using Some by (intro deletableI) blast+
    have "knows ?t" unfolding knows_def
    proof (intro allI impI)
      fix c m assume "fdirs ?t c m \<noteq> None"
      then have "fdirs t c m \<noteq> None" by (auto split: if_splits)
      then have "fdirs t c ''.'' = Some c" by (rule orderlyD(5) [OF ok(1)])
      then show "fdirs ?t c ''.'' = Some c" using names(2) by auto
    qed
    moreover have "isdir ?t d" using entered_isdir [OF del, of d "''.''"] dots(1) [OF d] d names(2) by auto
    moreover have "\<not> isdir ?t s" using named_mode [OF s names(3)] sfile by (simp add: isdir_def)
    moreover have "fdirs ?t d ''.'' = Some d" "fdirs ?t sd sn = Some s" using dots(1) [OF d] s names(2,3) by auto
    ultimately show ?thesis
      using Some plain fit_del [OF fit del] unfolding cleared_def make_way_def by simp
  qed
qed

section \<open>Replacing the destination\<close>

text \<open>An early code leaves the tree alone; otherwise \<open>c\<close> holds of the tree and it has become \<open>t'\<close>.\<close>

definition outcome :: "('s, 'h) env \<Rightarrow> ftree \<Rightarrow> bool \<Rightarrow> ftree \<Rightarrow> int option \<Rightarrow> ('s, 'h, 'z) pworld_scheme \<Rightarrow> bool" where
  "outcome E t c t' r = inorder E (\<lambda>w. case r of Some e \<Rightarrow> e < 0 \<and> ftree_of E w = t | None \<Rightarrow> c \<and> ftree_of E w = t')"

lemma outcome_early: "e < 0 \<Longrightarrow> (\<And>w. P w \<Longrightarrow> ftree_of E w = t) \<Longrightarrow> hoare (inorder E P) (ret (Some e)) (outcome E t c t') R"
  by (rule hoare_ret) (simp add: inorder_def outcome_def)

lemma outcome_none:
  "c \<Longrightarrow> hoare P m (\<lambda>_. inorder E (\<lambda>w. ftree_of E w = t')) R \<Longrightarrow> hoare P (andthen m (ret None)) (outcome E t c t') R"
  by (rule hoare_andthen, assumption, rule hoare_ret) (simp add: outcome_def)

lemma refine_open_dir:
  assumes "lawful E" and "\<And>w. P w \<Longrightarrow> ftree_of E w = t"
  shows "hoare (inorder E P) (bind (getnode E i) (cast KDirectory)) (\<lambda>c. inorder E (\<lambda>w. P w \<and> nid c = i \<and> is_dir E w i)) (lost E t)"
  by (rule track [OF triple_open_dir [OF assms(1)] kept_reads assms(2)]) (auto intro!: reads_rules simp: cast_def)

lemma refine_is_below:
  fixes E :: "('s, 'h) env"
  assumes "lawful E" and "\<And>w. P w \<Longrightarrow> ftree_of E w = t" and "up t (nid n) js"
  shows "hoare (inorder E P) (is_below E src n) (\<lambda>b. inorder E (\<lambda>w. P w \<and> b = (src \<in> set (butlast (nid n # js)))))
     (R :: exn \<Rightarrow> ('s, 'h, 'z) pworld_scheme \<Rightarrow> bool)"
proof -
  have "is_below E src n w = (Inr (src \<in> set (butlast (nid n # js))), w)" if "P w" for w :: "('s, 'h, 'z) pworld_scheme"
    by (rule is_below_value [OF assms(1)]) (simp only: parents_up assms(2) [OF that] assms(3))
  then show ?thesis unfolding hoare_def inorder_def by fastforce
qed

lemma up_unique: "up t i js \<Longrightarrow> up t i js' \<Longrightarrow> js = js'"
proof (induction js arbitrary: i js')
  case Nil
  then show ?case by (cases js') simp_all
next
  case (Cons j js)
  then show ?case by (cases js') auto
qed

text \<open>The tree without the entries \<^verbatim>\<open>.\<close> and \<^verbatim>\<open>..\<close> of the node to be replaced.\<close>

definition hollowed :: "nodeid \<Rightarrow> ftree \<Rightarrow> ftree" where
  "hollowed e t = (if isdir t e then del_name e ''..'' (del_name e ''.'' t) else t)"

lemma refine_hollow:
  fixes E :: "('s, 'h) env" and p dst :: node
  assumes "lawful E" and "orderly 2 t" and name: "fdirs t (nid p) n = Some (nid d)" and "n \<notin> {''.'', ''..''}"
    and "empty_dir t (nid d)" and "nid d = nid dst" and c
  shows "hoare (inorder E (\<lambda>w. ftree_of E w = t)) (andthen (delchild E d ''.'') (andthen (delchild E d ''..'') (ret None)))
     (outcome E t c (hollowed (nid dst) t)) (lost E t :: exn \<Rightarrow> ('s, 'h, 'z) pworld_scheme \<Rightarrow> bool)"
proof -
  have "hollowed (nid dst) t = del_name (nid d) ''..'' (del_name (nid d) ''.'' t)"
    using assms(5,6) by (simp add: hollowed_def empty_dir_def)
  then show ?thesis
    using hoare_andthen [OF exact_clear(2) [OF assms(1-5)] outcome_none [OF assms(7) exact_clear(3) [OF assms(1-5)]]] by simp
qed

lemma refine_rename_dir:
  fixes E :: "('s, 'h) env" and src dst :: node
  assumes "lawful E" and ok: "orderly 2 t" "rooted t" and leaf: "leaf dstpath \<notin> {''.'', ''..''}"
    and name: "fdirs t (nid (parent dstpath)) (leaf dstpath) = Some (nid dst)"
    and dir: "isdir t (nid (parent dstpath))" "isdir t (nid dst)" "isdir t (nid src)"
  shows "hoare (inorder E (\<lambda>w. ftree_of E w = t))
     (bind (bind (getnode E (nid (parent dstpath))) (cast KDirectory)) (\<lambda>n.
      bind (is_below E (nid src) n) (\<lambda>sub.
        if sub then ret (Some (- EINVAL))
        else
          bind (bind (getnode E (nid dst)) (cast KDirectory)) (\<lambda>d.
          bind (countchildren E d) (\<lambda>count.
            if 2 < count then ret (Some (- ENOTEMPTY))
            else
              andthen (delchild E d ''.'')
              (andthen (delchild E d ''..'')
              (ret None)))))))
     (outcome E t (replaceable t (nid src) (nid (parent dstpath)) (Some (nid dst))) (hollowed (nid dst) t))
     (lost E t :: exn \<Rightarrow> ('s, 'h, 'z) pworld_scheme \<Rightarrow> bool)"
proof -
  let ?d = "nid (parent dstpath)" and ?L = "lost E t :: exn \<Rightarrow> ('s, 'h, 'z) pworld_scheme \<Rightarrow> bool"
  let ?O = "outcome E t (replaceable t (nid src) ?d (Some (nid dst))) (hollowed (nid dst) t)"
  obtain js where js: "up t ?d js" using ok(2) dir(1) unfolding rooted_def by blast
  let ?T = "\<lambda>w :: ('s, 'h, 'z) pworld_scheme. ftree_of E w = t"
  show ?thesis
  proof (rule hoare_bind [OF refine_open_dir [OF assms(1)]], assumption)
    fix n :: node
    let ?P1 = "\<lambda>w :: ('s, 'h, 'z) pworld_scheme. ?T w \<and> nid n = ?d \<and> is_dir E w ?d"
    let ?k = "bind (bind (getnode E (nid dst)) (cast KDirectory)) (\<lambda>d. bind (countchildren E d) (\<lambda>count.
            if 2 < count then ret (Some (- ENOTEMPTY)) else andthen (delchild E d ''.'') (andthen (delchild E d ''..'') (ret None))))"
    show "hoare (inorder E ?P1) (bind (is_below E (nid src) n) (\<lambda>sub. if sub then ret (Some (- EINVAL)) else ?k)) ?O ?L"
    proof (rule hoare_known [where c = "nid n = ?d"], simp)
      assume n: "nid n = ?d"
      show ?thesis
      proof (rule hoare_bind [OF refine_is_below [OF assms(1) conjunct1 js [folded n]] hoare_if [OF outcome_early]])
        fix sub
        let ?P2 = "\<lambda>w :: ('s, 'h, 'z) pworld_scheme. ?P1 w \<and> sub = (nid src \<in> set (butlast (nid n # js)))"
        assume "\<not> sub"
        show "hoare (inorder E ?P2) ?k ?O ?L"
        proof (rule hoare_bind [OF refine_open_dir [OF assms(1)] hoare_bind [OF refine_count [OF assms(1)] hoare_if [OF outcome_early]]])
          fix d :: node and count :: int
          let ?P3 = "\<lambda>w :: ('s, 'h, 'z) pworld_scheme. (?P2 w \<and> nid d = nid dst \<and> is_dir E w (nid dst))
             \<and> count = int (card (attr_names E w DDirectories (nid d)))"
          assume "\<not> 2 < count"
          show "hoare (inorder E ?P3) (andthen (delchild E d ''.'') (andthen (delchild E d ''..'') (ret None))) ?O ?L"
          proof (rule hoare_known [where c = "nid d = nid dst \<and> empty_dir t (nid dst) \<and> nid src \<notin> set (butlast (nid n # js))"])
            show "nid d = nid dst \<and> empty_dir t (nid dst) \<and> nid src \<notin> set (butlast (nid n # js))" if w: "?P3 w" for w
            proof -
              have "ftree_of E w = t" and "is_dir E w (nid dst)" and "card (attr_names E w DDirectories (nid dst)) \<le> 2"
                using w \<open>\<not> 2 < count\<close> by simp_all
              then show ?thesis using counted_empty [OF assms(1), of 2 w "nid dst"] ok(1) w \<open>\<not> sub\<close> by blast
            qed
            assume c: "nid d = nid dst \<and> empty_dir t (nid dst) \<and> nid src \<notin> set (butlast (nid n # js))"
            then have "replaceable t (nid src) ?d (Some (nid dst))"
              using dir n up_unique [OF _ js] unfolding replaceable_def by auto
            then show ?thesis
              using c name by (intro hoare_sys_pre [OF refine_hollow [OF assms(1) ok(1) _ leaf, of _ d dst]]) auto
          qed
        qed auto
      qed auto
    qed
  qed
qed

text \<open>The last deletion, of the name in the destination's directory.\<close>

lemma make_way_hollowed:
  assumes "orderly 2 t" and name: "fdirs t d n = Some e" and "n \<notin> {''.'', ''..''}" and "replaceable t s d (Some e)"
  shows "fit 2 (hollowed e t)" and "deletable (hollowed e t) d n" and "del_name d n (hollowed e t) = make_way d n t"
proof -
  note fit = orderlyD(1) [OF assms(1)]
  have "fit 2 (hollowed e t) \<and> deletable (hollowed e t) d n"
  proof (cases "isdir t e")
    case True
    then have "empty_dir t e" using assms(4) by (simp add: replaceable_def)
    note steps = clear_steps [OF assms(1-3) this]
    show ?thesis using True fit_del [OF fit_del [OF fit steps(2)] steps(3)] steps(4) by (simp add: hollowed_def)
  next
    case False
    have "fdirs t e m = None" for m using fitD(4) [OF fit, of e m] False by (cases "fdirs t e m") auto
    then show ?thesis using False name fit by (simp add: hollowed_def deletableI)
  qed
  then show "fit 2 (hollowed e t)" and "deletable (hollowed e t) d n" by simp_all
  show "del_name d n (hollowed e t) = make_way d n t" using name by (simp add: hollowed_def make_way_def clear_dir_def)
qed

lemma refine_rename_over:
  fixes E :: "('s, 'h) env" and src dst :: node
  assumes "lawful E" and ok: "orderly 2 t" "rooted t" and leaf: "leaf dstpath \<notin> {''.'', ''..''}"
    and name: "fdirs t (nid (parent dstpath)) (leaf dstpath) = Some (nid dst)" and dir: "isdir t (nid (parent dstpath))"
  shows "hoare (inorder E (\<lambda>w. ftree_of E w = t)) (rename_over E sctx dstpath src dst newpath)
     (outcome E t (replaceable t (nid src) (nid (parent dstpath)) (Some (nid dst))) (make_way (nid (parent dstpath)) (leaf dstpath) t))
     (lost E t :: exn \<Rightarrow> ('s, 'h, 'z) pworld_scheme \<Rightarrow> bool)"
proof -
  let ?d = "nid (parent dstpath)" and ?L = "lost E t :: exn \<Rightarrow> ('s, 'h, 'z) pworld_scheme \<Rightarrow> bool"
  let ?T = "\<lambda>w :: ('s, 'h, 'z) pworld_scheme. ftree_of E w = t"
  let ?c = "replaceable t (nid src) ?d (Some (nid dst))"
  have remove: "hoare (outcome E t ?c (hollowed (nid dst) t) early)
      (case early of Some code \<Rightarrow> ret (Some code)
        | None \<Rightarrow> andthen (hash_invalidate E newpath) (andthen (stamp E dst A_ctime)
            (andthen (delchild E (parent dstpath) (leaf dstpath)) (ret None))))
      (outcome E t ?c (make_way ?d (leaf dstpath) t)) ?L" for early
  proof (cases early)
    case None
    show ?thesis
    proof (cases ?c)
      case c: True
      note steps = make_way_hollowed [OF ok(1) name leaf c]
      have "hoare (inorder E (\<lambda>w. ftree_of E w = hollowed (nid dst) t)) (stamp E dst A_ctime) (\<lambda>_. inorder E (\<lambda>w. ftree_of E w = hollowed (nid dst) t)) ?L"
        by (rule sure_hoare [OF triple_stamp [OF assms(1) tree_pred_ftree] sure_stamp [OF assms(1)]]) simp_all
      then have "hoare (inorder E (\<lambda>w. ftree_of E w = hollowed (nid dst) t)) (andthen (hash_invalidate E newpath) (andthen (stamp E dst A_ctime)
            (andthen (delchild E (parent dstpath) (leaf dstpath)) (ret None)))) (outcome E t ?c (make_way ?d (leaf dstpath) t)) ?L"
        by (rule hoare_andthen [OF refine_invalidate [OF tree_pred_ftree] hoare_andthen [OF _ outcome_none [where c = ?c, OF c]]])
          (rule exact_del [OF assms(1) fit_zero [OF steps(1)] steps(2), unfolded steps(3)])
      then show ?thesis using None c by (simp add: outcome_def)
    next
      case False
      then show ?thesis using None by (simp add: outcome_def hoare_def inorder_def)
    qed
  next
    case (Some code)
    show ?thesis unfolding Some option.case by (rule hoare_ret) (simp add: outcome_def inorder_def)
  qed
  show ?thesis
    unfolding rename_over_def
  proof (rule hoare_andthen [OF refine_reads [OF reads_check_sticky_bit safe_check_sticky_bit] hoare_bind [OF refine_getattr [OF assms(1)]
        hoare_bind [OF hoare_if [OF hoare_bind [OF refine_getattr [OF assms(1)] hoare_if [OF outcome_early]]
        hoare_bind [OF refine_getattr [OF assms(1)] hoare_if [OF outcome_early]]] remove]]])
    fix sm dm :: mode_t
    let ?P = "\<lambda>w :: ('s, 'h, 'z) pworld_scheme. (?T w \<and> mode_of E w (nid src) = Some sm) \<and> mode_of E w (nid dst) = Some dm"
    have modes: "fmodes t (nid src) = Some sm \<and> fmodes t (nid dst) = Some dm" if "?P w" for w
      using that by auto
    show "hoare (inorder E ?P)
       (bind (bind (getnode E ?d) (cast KDirectory)) (\<lambda>n.
        bind (is_below E (nid src) n) (\<lambda>sub.
          if sub then ret (Some (- EINVAL))
          else
            bind (bind (getnode E (nid dst)) (cast KDirectory)) (\<lambda>d.
            bind (countchildren E d) (\<lambda>count.
              if 2 < count then ret (Some (- ENOTEMPTY))
              else andthen (delchild E d ''.'') (andthen (delchild E d ''..'') (ret None)))))))
       (outcome E t ?c (hollowed (nid dst) t)) ?L" if "S_ISDIR sm" and "\<not> \<not> S_ISDIR dm"
    proof (rule hoare_known [OF modes], assumption)
      assume "fmodes t (nid src) = Some sm \<and> fmodes t (nid dst) = Some dm"
      then have "isdir t (nid dst)" and "isdir t (nid src)" using that by (simp_all add: isdir_def)
      then show ?thesis
        by (intro hoare_sys_pre [OF refine_rename_dir [OF assms(1) ok leaf name dir]]) simp_all
    qed
    show "hoare (inorder E ?P) (ret None) (outcome E t ?c (hollowed (nid dst) t)) ?L" if "\<not> S_ISDIR sm" and "\<not> S_ISDIR dm"
    proof (rule hoare_known [OF modes], assumption)
      assume "fmodes t (nid src) = Some sm \<and> fmodes t (nid dst) = Some dm"
      then have "\<not> isdir t (nid dst)" and "\<not> isdir t (nid src)" using that by (simp_all add: isdir_def)
      then show ?thesis by (intro hoare_ret) (simp add: outcome_def hollowed_def replaceable_def inorder_def)
    qed
  qed auto
qed

section \<open>Two paths\<close>

lemma refine_find:
  fixes E :: "('s, 'h) env"
  assumes "lawful E" and fit: "fit k t" and tree: "\<And>w. P w \<Longrightarrow> ftree_of E w = t"
  shows "hoare (inorder E P) (handle (bind (getchild E d n) (\<lambda>c. ret (Some c))) (\<lambda>e. if e = ENotFound then ret None else throw e))
     (\<lambda>r. inorder E (\<lambda>w. P w \<and> fdirs t (nid d) n = map_option nid r))
     (lost E t :: exn \<Rightarrow> ('s, 'h, 'z) pworld_scheme \<Rightarrow> bool)"
proof -
  let ?m = "handle (bind (getchild E d n) (\<lambda>c. ret (Some c))) (\<lambda>e. if e = ENotFound then ret None else throw e)"
  have "case ?m w of (Inr r, w') \<Rightarrow> inorder E (\<lambda>w. P w \<and> fdirs t (nid d) n = map_option nid r) w' | (Inl e, w') \<Rightarrow> lost E t e w'"
    if w: "inorder E P w" for w :: "('s, 'h, 'z) pworld_scheme"
  proof -
    have P: "P w" and sys: "fsys E w" using w by (simp_all add: inorder_def)
    have e: "fdirs t = entry E w" "fmodes t = mode_of E w"
      using ftree_of_sel(1,2) [of E w] unfolding tree [OF P] by simp_all
    obtain x w1 where run: "getchild E d n w = (x, w1)" by fastforce
    then have same: "w1 = w" using readsD [OF reads_getchild] by blast
    show ?thesis
    proof (cases x)
      case (Inr c)
      then have "fdirs t (nid d) n = Some (nid c)" using run e getchild_Inr [OF assms(1), of d n w c w1] by auto
      then show ?thesis using run same w Inr by (simp add: handle_def bind_def ret_def inorder_def)
    next
      case (Inl ex)
      have "fdirs t (nid d) n = None" 
      proof (rule ccontr)
        assume "fdirs t (nid d) n \<noteq> None"
        then obtain i where "fdirs t (nid d) n = Some i" by blast
        moreover from fitD(3) [OF fit this] obtain m where "fmodes t i = Some m" by blast
        ultimately have "getchild E d n w = (Inr \<lparr>nid = i, nkind = kind_of m\<rparr>, w)"
          using assms(1) e by (simp add: getchild_Inr)
        then show False using run Inl by simp
      qed
      moreover have "ex \<noteq> EStuck" using safeD(2) [OF safe_getchild] run Inl sys by blast
      ultimately show ?thesis
        using run same w Inl sys tree [OF P] by (simp add: handle_def bind_def inorder_def ret_def throw_def lost_def failed_def)
    qed
  qed
  then show ?thesis unfolding hoare_def by blast
qed

lemma refine_rename_found:
  fixes E :: "('s, 'h) env" and src :: node and sctx :: scontext
  assumes "lawful E" and ok: "orderly 2 t" "lone_dirs t" "rooted t"
    and names: "the_leaf oldpath \<notin> {''.'', ''..''}" "the_leaf newpath \<notin> {''.'', ''..''}" "(nid (parent sp), leaf sp) \<noteq> (nid (parent dp), leaf dp)"
    and sp: "the_dir t oldpath = Some (nid (parent sp))" "leaf sp = the_leaf oldpath"
    and dp: "the_dir t newpath = Some (nid (parent dp))" "leaf dp = the_leaf newpath" "isdir t (nid (parent dp))"
    and src: "fdirs t (nid (parent sp)) (leaf sp) = Some (nid src)" and dst: "fdirs t (nid (parent dp)) (leaf dp) = map_option nid old"
  shows "hoare (inorder E (\<lambda>w. ftree_of E w = t))
     (bind (case old of None \<Rightarrow> ret None | Some n \<Rightarrow> rename_over E sctx dp src n newpath) (\<lambda>early.
        case early of Some code \<Rightarrow> ret code | None \<Rightarrow> rename_relink E sp dp src oldpath))
     (\<lambda>c. inorder E (\<lambda>w. rename_spec oldpath newpath t c (ftree_of E w))) (lost E t :: exn \<Rightarrow> ('s, 'h, 'z) pworld_scheme \<Rightarrow> bool)"
proof (rule hoare_bind)
  let ?d = "nid (parent dp)" and ?n = "leaf dp"
  let ?c = "replaceable t (nid src) ?d (fdirs t ?d ?n)"
  have leaf: "leaf dp \<notin> {''.'', ''..''}" "leaf sp \<notin> {''.'', ''..''}" using names(1,2) dp(2) sp(2) by simp_all
  show "hoare (inorder E (\<lambda>w. ftree_of E w = t)) (case old of None \<Rightarrow> ret None | Some n \<Rightarrow> rename_over E sctx dp src n newpath)
     (outcome E t ?c (make_way ?d ?n t)) (lost E t :: exn \<Rightarrow> ('s, 'h, 'z) pworld_scheme \<Rightarrow> bool)"
  proof (cases old)
    case None
    then show ?thesis
      using dst by (simp add: make_way_def replaceable_def outcome_def hoare_ret)
  next
    case (Some n)
    then have name: "fdirs t ?d ?n = Some (nid n)" using dst by simp
    show ?thesis
      using refine_rename_over [OF assms(1) ok(1,3) leaf(1) name dp(3)] unfolding Some option.case name .
  qed
  show "hoare (outcome E t ?c (make_way ?d ?n t) early)
     (case early of Some code \<Rightarrow> ret code | None \<Rightarrow> rename_relink E sp dp src oldpath)
     (\<lambda>c. inorder E (\<lambda>w. rename_spec oldpath newpath t c (ftree_of E w))) (lost E t :: exn \<Rightarrow> ('s, 'h, 'z) pworld_scheme \<Rightarrow> bool)" for early
  proof (cases early)
    case None
    show ?thesis
    proof (cases ?c)
      case c: True
      have way: "cleared (nid (parent sp)) (leaf sp) (nid src) ?d ?n (make_way ?d ?n t)"
        using leaf names(3) by (intro cleared_make_way [OF ok(1,2) src dp(3) _ _ _ c]) auto
      have "rename_spec oldpath newpath t 0 (move_name (nid (parent sp)) (leaf sp) (nid src) ?d ?n (make_way ?d ?n t))"
        unfolding rename_spec_def using sp dp src c by auto
      from ends_spec [where S = "rename_spec oldpath newpath t", OF exact_relink [OF assms(1) way leaf(2,1) names(3)] this]
      show ?thesis using None c by (simp add: outcome_def)
    next
      case False
      then show ?thesis using None by (simp add: outcome_def hoare_def inorder_def)
    qed
  next
    case (Some code)
    then show ?thesis by (auto simp: outcome_def inorder_def rename_spec_def intro: hoare_ret)
  qed
qed

section \<open>rename\<close>

text \<open>Both paths resolved: the facts about the tree that follow.\<close>

abbreviation at_both :: "('s, 'h) env \<Rightarrow> ftree \<Rightarrow> string \<Rightarrow> path \<Rightarrow> string \<Rightarrow> path \<Rightarrow> ('s, 'h, 'z) pworld_scheme \<Rightarrow> bool" where
  "at_both E t p sp q dp \<equiv> at_dir E (at_dir E (\<lambda>_. True) t p sp) t q dp"

lemma at_both_facts:
  assumes "at_both E t p sp q dp w"
  shows "ftree_of E w = t \<and> the_dir t p = Some (nid (parent sp)) \<and> leaf sp = the_leaf p
     \<and> the_dir t q = Some (nid (parent dp)) \<and> leaf dp = the_leaf q \<and> isdir t (nid (parent dp))"
  using assms by (auto simp: at_dir_def)

lemma refine_rename:
  fixes E :: "('s, 'h) env"
  assumes "lawful E" and ok: "orderly 2 t" "lone_dirs t" "rooted t"
    and names: "the_leaf oldpath \<notin> {''.'', ''..''}" "the_leaf newpath \<notin> {''.'', ''..''}"
    and other: "oldpath = newpath \<or> (the_dir t oldpath, the_leaf oldpath) \<noteq> (the_dir t newpath, the_leaf newpath)"
  shows "hoare (inorder E (before E (\<lambda>_. True) t))
    (bind (userctx E ctx) (\<lambda>sctx.
     bind (path_new (getnode_path E) sctx oldpath) (\<lambda>srcpath.
     bind (path_new (getnode_path E) sctx newpath) (\<lambda>dstpath.
     bind (getchild E (parent srcpath) (leaf srcpath)) (\<lambda>src.
     bind (handle (bind (getchild E (parent dstpath) (leaf dstpath)) (\<lambda>n. ret (Some n)))
             (\<lambda>e. if e = ENotFound then ret None else throw e)) (\<lambda>dst.
       if dst \<noteq> None \<and> oldpath = newpath then ret 0
       else
         andthen (access E sctx (parent srcpath) (or X_OK W_OK))
         (andthen (access E sctx (parent dstpath) (or X_OK W_OK))
         (andthen (check_sticky_bit E sctx (parent srcpath) src)
         (bind (case dst of None \<Rightarrow> ret None
                | Some n \<Rightarrow> rename_over E sctx dstpath src n newpath) (\<lambda>early.
           case early of
             Some code \<Rightarrow> ret code
           | None \<Rightarrow> rename_relink E srcpath dstpath src oldpath))))))))))
     (\<lambda>c. inorder E (\<lambda>w. rename_spec oldpath newpath t c (ftree_of E w)))
     (lost E t :: exn \<Rightarrow> ('s, 'h, 'z) fsworld_scheme \<Rightarrow> bool)"
proof -
  have True: "db_pred E (\<lambda>_ :: ('s, 'h, 'z) fsworld_scheme. True)" by (rule tree_db [OF tree_pred_True])
  have dir: "db_pred E (at_dir E (\<lambda>_ :: ('s, 'h, 'z) fsworld_scheme. True) t oldpath sp)" for sp
    by (rule tree_db [OF tree_pred_at_dir [OF tree_pred_True]])
  show ?thesis
  proof (rule hoare_bind [OF refine_userctx [OF True] hoare_bind [OF refine_path_good [OF assms(1) True]
        hoare_bind [OF refine_path [OF assms(1) dir] hoare_bind [OF refine_getchild [OF assms(1)]
        hoare_bind [OF refine_find [OF assms(1) orderlyD(1) [OF ok(1)]] hoare_if [OF refine_refused
        hoare_andthen [OF refine_reads [OF reads_access safe_access] hoare_andthen [OF refine_reads [OF reads_access safe_access]
        hoare_andthen [OF refine_reads [OF reads_check_sticky_bit safe_check_sticky_bit]]]]]]]]]])
    fix sctx :: scontext and sp dp :: path and src :: node and dst :: "node option"
    let ?P = "\<lambda>w :: ('s, 'h, 'z) fsworld_scheme. (at_both E t oldpath sp newpath dp w
       \<and> entry E w (nid (parent sp)) (leaf sp) = Some (nid src) \<and> typed E w src)
       \<and> fdirs t (nid (parent dp)) (leaf dp) = map_option nid dst"
    let ?c = "the_dir t oldpath = Some (nid (parent sp)) \<and> leaf sp = the_leaf oldpath
      \<and> the_dir t newpath = Some (nid (parent dp)) \<and> leaf dp = the_leaf newpath \<and> isdir t (nid (parent dp))
      \<and> fdirs t (nid (parent sp)) (leaf sp) = Some (nid src) \<and> fdirs t (nid (parent dp)) (leaf dp) = map_option nid dst"
    assume go: "\<not> (dst \<noteq> None \<and> oldpath = newpath)"
    show "hoare (inorder E ?P) (bind (case dst of None \<Rightarrow> ret None | Some n \<Rightarrow> rename_over E sctx dp src n newpath)
        (\<lambda>early. case early of Some code \<Rightarrow> ret code | None \<Rightarrow> rename_relink E sp dp src oldpath))
       (\<lambda>c. inorder E (\<lambda>w. rename_spec oldpath newpath t c (ftree_of E w))) (lost E t)"
    proof (rule hoare_known [where c = ?c])
      show ?c if "?P w" for w
        using that at_both_facts [of E t oldpath sp newpath dp w] ftree_of_sel(1) [of E w] by auto
      assume c: ?c
      then have "(nid (parent sp), leaf sp) \<noteq> (nid (parent dp), leaf dp)" using other go by auto
      with c show ?thesis
        by (intro hoare_sys_pre [OF refine_rename_found [OF assms(1) ok names]]) (auto dest: at_both_facts)
    qed
  qed (auto dest: at_both_facts simp: rename_spec_def)
qed

end
