(* ===== verification/Handler_Props.thy ===== *)
theory Handler_Props
  imports Example_Host Fs_Moves
begin

text \<open>
  The properties of the file system handlers that change the tree, with their witnesses.
\<close>

section \<open>The example's tree\<close>

lemma demo_isdir: "is_dir demo_env demo_fs d \<longleftrightarrow> d = 0"
  using demo_root_dir demo_no_mode [of d] by (cases "d = 0") (auto simp: is_dir_def)

lemma demo_fit: "fit k (ftree_of demo_env demo_fs)" if "k \<le> 2"
  using that by (auto simp: fit_def demo_refs demo_isdir card_insert_if split: if_splits)

lemma demo_orderly: "orderly 2 (ftree_of demo_env demo_fs)"
  using demo_fit [of 2] by (simp add: orderly_def demo_isdir)

lemma demo_lone: "lone_dirs (ftree_of demo_env demo_fs)"
  by (auto simp: lone_dirs_def split: if_splits)

lemma demo_rooted: "rooted (ftree_of demo_env demo_fs)"
  unfolding rooted_def by (auto simp: demo_isdir intro: exI [of _ "[]"])

section \<open>Creating nodes\<close>

text \<open>
  C19. \<^verbatim>\<open>FS::mknod\<close> refines its specification on trees. It always answers with a code: with 0,
  the tree has got one new node of the mode asked for, under the last component of the path in the
  directory that the rest of it leads to; with an error code the tree is unchanged, whatever had
  been done before the error. The invariant holds afterwards and no transaction is left open.
\<close>

theorem mknod_refines:
  assumes "lawful E" and "fsys E w" and "roomy E w" and "good_cache E w"
  shows "\<exists>c w'. fs_mknod E ctx p mode dev w = (Inr c, w') \<and> mknod_spec p mode (ftree_of E w) c (ftree_of E w')
     \<and> fsys E w' \<and> (\<forall>d. \<not> txns w' d)"
proof -
  have "follows E (mknod_spec p mode) (fs_mknod E ctx p mode dev) w"
    unfolding fs_mknod_def
    by (rule handler_follows [where S = "mknod_spec p mode", OF assms(1) db_pred_roomy _ assms(2-4) refine_mknod [OF assms(1)]])
      (simp add: mknod_spec_def errcode_neg)
  then show ?thesis by (simp add: follows_def)
qed

theorem mknod_refines_witness:
  "\<exists>c w'. fs_mknod demo_env (0, 0) ''/f'' S_IFREG 0 demo_fs = (Inr c, w')
     \<and> mknod_spec ''/f'' S_IFREG (ftree_of demo_env demo_fs) c (ftree_of demo_env w')"
  using mknod_refines [OF demo_lawful demo_fsys demo_roomy demo_good, of "(0, 0)" "''/f''" S_IFREG 0] by blast

text \<open>
  C20. \<^verbatim>\<open>FS::mkdir\<close> refines its specification on trees, for a mode of permission bits only: with
  0, a new directory is there that refers to itself as \<^verbatim>\<open>.\<close> and to its parent as \<^verbatim>\<open>..\<close>; with an
  error code the tree is unchanged.
\<close>

theorem mkdir_refines:
  assumes "lawful E" and "fsys E w" and "roomy E w" and "good_cache E w" and "and mode S_IFMT = 0"
  shows "\<exists>c w'. fs_mkdir E ctx p mode w = (Inr c, w') \<and> mkdir_spec p mode (ftree_of E w) c (ftree_of E w')
     \<and> fsys E w' \<and> (\<forall>d. \<not> txns w' d)"
proof -
  have "follows E (mkdir_spec p mode) (fs_mkdir E ctx p mode) w"
    unfolding fs_mkdir_def
    by (rule handler_follows [where S = "mkdir_spec p mode", OF assms(1) db_pred_roomy _ assms(2-4) refine_mkdir [OF assms(1,5)]])
      (simp add: mkdir_spec_def errcode_neg)
  then show ?thesis by (simp add: follows_def)
qed

theorem mkdir_refines_witness:
  "\<exists>c w'. fs_mkdir demo_env (0, 0) ''/d'' 0x1ED demo_fs = (Inr c, w')
     \<and> mkdir_spec ''/d'' 0x1ED (ftree_of demo_env demo_fs) c (ftree_of demo_env w')"
  using mkdir_refines [OF demo_lawful demo_fsys demo_roomy demo_good, of "0x1ED" "(0, 0)" "''/d''"] by auto

text \<open>
  \<^verbatim>\<open>FS::symlink\<close> refines its specification on trees: with 0, a new symbolic link is there
  under the name; with an error code the tree is unchanged.
\<close>

theorem symlink_refines:
  assumes "lawful E" and "fsys E w" and "roomy E w" and "good_cache E w"
  shows "\<exists>c w'. fs_symlink E ctx target p w = (Inr c, w') \<and> symlink_spec p (ftree_of E w) c (ftree_of E w')
     \<and> fsys E w' \<and> (\<forall>d. \<not> txns w' d)"
proof -
  have "follows E (symlink_spec p) (fs_symlink E ctx target p) w"
    unfolding fs_symlink_def
    by (rule handler_follows [where S = "symlink_spec p", OF assms(1) db_pred_roomy _ assms(2-4) refine_symlink [OF assms(1)]])
      (simp add: symlink_spec_def errcode_neg)
  then show ?thesis by (simp add: follows_def)
qed

theorem symlink_refines_witness:
  "\<exists>c w'. fs_symlink demo_env (0, 0) ''x'' ''/l'' demo_fs = (Inr c, w')
     \<and> symlink_spec ''/l'' (ftree_of demo_env demo_fs) c (ftree_of demo_env w')"
  using symlink_refines [OF demo_lawful demo_fsys demo_roomy demo_good, of "(0, 0)" "''x''" "''/l''"] by blast

text \<open>
  C21. What the superuser asks for is done: when the path leads to a directory, the name is free
  there, an identifier is left and the user database answers, \<^verbatim>\<open>mknod\<close>, \<^verbatim>\<open>mkdir\<close> (of a mode
  without type bits, as FUSE passes it) and \<^verbatim>\<open>symlink\<close> return 0.
\<close>

theorem creation_succeeds:
  assumes "lawful E" and "may_create E ctx p w" and "and mode S_IFMT = 0"
  shows "(\<exists>w'. fs_mknod E ctx p nmode dev w = (Inr 0, w')) \<and> (\<exists>w'. fs_mkdir E ctx p mode w = (Inr 0, w'))
     \<and> (\<exists>w'. fs_symlink E ctx target p w = (Inr 0, w'))"
  unfolding fs_mknod_def fs_mkdir_def fs_symlink_def
  by (intro conjI succ_handler [OF assms(1,2)] ends_zero [OF mknod_tail [OF assms(1)]]
      ends_zero [OF mkdir_tail [OF assms(1,3)]] ends_zero [OF symlink_tail [OF assms(1)]])

theorem creation_succeeds_witness:
  "\<exists>w'. fs_mkdir demo_env (0, 0) ''/usr/'' 0x1ED demo_fs = (Inr 0, w')"
proof -
  have t: "tokenize ''/'' '''' = []" and sp: "path_split ''/usr/'' = ('''', ''usr'')"
    by code_simp+
  have "may_create demo_env (0, 0) ''/usr/'' demo_fs"
    using demo_fsys demo_roomy demo_good demo_groups demo_root demo_root_dir
    by (simp add: may_create_def free_path_def the_leaf_def sp t)
  then show ?thesis using creation_succeeds [OF demo_lawful, of "(0, 0)" "''/usr/''" demo_fs "0x1ED"] by auto
qed

section \<open>Names of existing nodes\<close>

text \<open>
  C22. \<^verbatim>\<open>FS::link\<close> refines its specification on trees: with 0, the node that the old path leads to, and
  no other, has one more name, which is the new path and was free; with an error code
  the tree is unchanged (a taken name in particular does not cost the node its link count).
\<close>

theorem link_refines:
  assumes "lawful E" and "fsys E w" and "named E w" and "good_cache E w"
  shows "\<exists>c w'. fs_link E ctx old p w = (Inr c, w') \<and> link_spec old p (ftree_of E w) c (ftree_of E w')
     \<and> fsys E w' \<and> (\<forall>d. \<not> txns w' d)"
proof -
  have "follows E (link_spec old p) (fs_link E ctx old p) w"
    unfolding fs_link_def
    by (rule handler_follows [where S = "link_spec old p", OF assms(1) tree_db [OF tree_pred_named] _ assms(2-4) refine_link [OF assms(1)]])
      (simp add: link_spec_def errcode_neg)
  then show ?thesis by (simp add: follows_def)
qed

theorem link_refines_witness:
  "\<exists>c w'. fs_link demo_env (0, 0) ''/'' ''/again'' demo_fs = (Inr c, w')
     \<and> link_spec ''/'' ''/again'' (ftree_of demo_env demo_fs) c (ftree_of demo_env w')"
  using link_refines [OF demo_lawful demo_fsys demo_named demo_good, of "(0, 0)" "''/''" "''/again''"] by blast

text \<open>
  C23. \<^verbatim>\<open>FS::unlink\<close> refines its specification on trees: with 0, the last component of the path
  named a node that is no directory, that name is gone and no other, and the node is gone exactly
  when it was its last name; with an error code the tree is unchanged.
\<close>

theorem unlink_refines:
  assumes "lawful E" and "fsys E w" and "few E w" and "good_cache E w"
  shows "\<exists>c w'. fs_unlink E ctx p w = (Inr c, w') \<and> unlink_spec p (ftree_of E w) c (ftree_of E w')
     \<and> fsys E w' \<and> (\<forall>d. \<not> txns w' d)"
proof -
  have "follows E (unlink_spec p) (fs_unlink E ctx p) w"
    unfolding fs_unlink_def
    by (rule handler_follows [where S = "unlink_spec p", OF assms(1) tree_db [OF tree_pred_few] _ assms(2-4) refine_unlink [OF assms(1)]])
      (simp add: unlink_spec_def errcode_neg)
  then show ?thesis by (simp add: follows_def)
qed

theorem unlink_refines_witness:
  "\<exists>c w'. fs_unlink demo_env (0, 0) ''/.'' demo_fs = (Inr c, w')
     \<and> unlink_spec ''/.'' (ftree_of demo_env demo_fs) c (ftree_of demo_env w')"
  using unlink_refines [OF demo_lawful demo_fsys demo_few demo_good, of "(0, 0)" "''/.''"] by blast

text \<open>
  C24. \<^verbatim>\<open>FS::chmod\<close> refines its specification on trees: with 0, the one node that the path leads to has the
  permission bits that were asked for, and its type is what it was, whatever type bits were asked for. The
  caller is then the superuser or the owner of the node; for an owner, and only then, the set-group-id bit may
  be left out (the code does so when the node's group is not one of his). With an error code the tree is
  unchanged.
\<close>

theorem chmod_refines:
  assumes "lawful E" and "fsys E w" and "good_cache E w"
  shows "\<exists>c w'. fs_chmod E ctx p mode w = (Inr c, w') \<and> chmod_spec (fst ctx) (\<lambda>i. wattr E w DNodes i A_uid) p mode (ftree_of E w) c (ftree_of E w')
     \<and> fsys E w' \<and> (\<forall>d. \<not> txns w' d)"
proof -
  let ?S = "chmod_spec (fst ctx) (\<lambda>i. wattr E w DNodes i A_uid) p mode"
  have "follows E ?S (fs_chmod E ctx p mode) w"
    unfolding fs_chmod_def
    by (rule handler_follows [where S = ?S, OF assms(1) db_pred_owned _ assms(2) _ assms(3) refine_chmod [OF assms(1)]])
      (simp_all add: chmod_spec_def errcode_neg owned_def)
  then show ?thesis by (simp add: follows_def)
qed

theorem chmod_refines_witness:
  "\<exists>c w'. fs_chmod demo_env (0, 0) ''/'' 0 demo_fs = (Inr c, w')
     \<and> chmod_spec 0 (\<lambda>i. wattr demo_env demo_fs DNodes i A_uid) ''/'' 0 (ftree_of demo_env demo_fs) c (ftree_of demo_env w')"
  using chmod_refines [OF demo_lawful demo_fsys demo_good, of "(0, 0)" "''/''" 0] by auto

section \<open>Removing directories and moving names\<close>

text \<open>
  C25. \<^verbatim>\<open>FS::rmdir\<close> refines its specification on trees, for a path that ends in neither
  \<^verbatim>\<open>.\<close> nor \<^verbatim>\<open>..\<close>, from a tree in which every directory has these two entries: with 0, the last
  component of the path named an empty directory, and its two entries and that name are gone, and
  nothing else; with an error code, \<^verbatim>\<open>ENOTEMPTY\<close> among them, the tree is unchanged.
\<close>

theorem rmdir_refines:
  assumes "lawful E" and "fsys E w" and "good_cache E w" and "orderly k (ftree_of E w)" and "the_leaf p \<notin> {''.'', ''..''}"
  shows "\<exists>c w'. fs_rmdir E ctx p w = (Inr c, w') \<and> rmdir_spec p (ftree_of E w) c (ftree_of E w')
     \<and> fsys E w' \<and> (\<forall>d. \<not> txns w' d)"
proof -
  have "follows E (rmdir_spec p) (fs_rmdir E ctx p) w"
    unfolding fs_rmdir_def
    by (rule handler_follows [where S = "rmdir_spec p", OF assms(1) tree_db [OF tree_pred_True] _ assms(2) TrueI assms(3) refine_rmdir [OF assms(1,4,5)]])
      (simp add: rmdir_spec_def errcode_neg)
  then show ?thesis by (simp add: follows_def)
qed

theorem rmdir_refines_witness:
  "\<exists>c w'. fs_rmdir demo_env (0, 0) ''/d'' demo_fs = (Inr c, w')
     \<and> rmdir_spec ''/d'' (ftree_of demo_env demo_fs) c (ftree_of demo_env w')"
proof -
  have "the_leaf ''/d'' \<notin> {''.'', ''..''}" by code_simp
  from rmdir_refines [OF demo_lawful demo_fsys demo_good demo_orderly this, of "(0, 0)"] show ?thesis by blast
qed

text \<open>
  C26. \<^verbatim>\<open>FS::rename\<close> refines its specification on trees, for paths that end in neither
  \<^verbatim>\<open>.\<close> nor \<^verbatim>\<open>..\<close> and that are equal or name different entries, from a tree in which every
  directory has its two entries and one other name and leads to the root. With 0, either nothing has
  changed because the paths are equal, or the source has the destination's name instead of its own:
  what was there has made way (a node that is no directory for another such, an empty directory for
  a directory that is not above it), and a directory's entry \<^verbatim>\<open>..\<close> is its new parent. With an
  error code the tree is unchanged: no step fails once the first has changed something. This holds for two
  names of one node as well: the code compares the spelling of the paths and not the nodes, as its comment
  has it, so that the source's name goes where \<^verbatim>\<open>rename(2)\<close> would leave both names.
\<close>

theorem rename_refines:
  assumes "lawful E" and "fsys E w" and "good_cache E w"
    and "orderly 2 (ftree_of E w)" and "lone_dirs (ftree_of E w)" and "rooted (ftree_of E w)"
    and "the_leaf p \<notin> {''.'', ''..''}" and "the_leaf q \<notin> {''.'', ''..''}"
    and "p = q \<or> (the_dir (ftree_of E w) p, the_leaf p) \<noteq> (the_dir (ftree_of E w) q, the_leaf q)"
  shows "\<exists>c w'. fs_rename E ctx p q w = (Inr c, w') \<and> rename_spec p q (ftree_of E w) c (ftree_of E w')
     \<and> fsys E w' \<and> (\<forall>d. \<not> txns w' d)"
proof -
  have "follows E (rename_spec p q) (fs_rename E ctx p q) w"
    unfolding fs_rename_def
    by (rule handler_follows [where S = "rename_spec p q", OF assms(1) tree_db [OF tree_pred_True] _ assms(2) TrueI assms(3) refine_rename [OF assms(1,4-9)]])
      (simp add: rename_spec_def errcode_neg)
  then show ?thesis by (simp add: follows_def)
qed

theorem rename_refines_witness:
  "\<exists>c w'. fs_rename demo_env (0, 0) ''/a'' ''/b'' demo_fs = (Inr c, w')
     \<and> rename_spec ''/a'' ''/b'' (ftree_of demo_env demo_fs) c (ftree_of demo_env w')"
proof -
  have leaf: "the_leaf ''/a'' \<notin> {''.'', ''..''}" "the_leaf ''/b'' \<notin> {''.'', ''..''}" "the_leaf ''/a'' \<noteq> the_leaf ''/b''" by code_simp+
  from rename_refines [OF demo_lawful demo_fsys demo_good demo_orderly demo_lone demo_rooted leaf(1,2), of "(0, 0)"] leaf(3)
  show ?thesis by blast
qed

section \<open>The other handlers that change the tree or its attributes\<close>

text \<open>
  \<^verbatim>\<open>FS::rmdir\<close> always answers with a code and leaves the file system in order, for a path
  that ends in neither \<^verbatim>\<open>.\<close> nor \<^verbatim>\<open>..\<close>: removing the two entries of the directory and then its
  name never reaches a node that is already gone, and no link count is left wrong.
\<close>

theorem rmdir_in_order:
  assumes "lawful E" and "fsys E w" and "dirs_ok E w" and "snd (path_split p) \<notin> {''.'', ''..''}"
  shows "\<exists>c w'. fs_rmdir E ctx p w = (Inr c, w') \<and> fsys E w' \<and> (\<forall>d. \<not> txns w' d)"
proof -
  have "answers E (fs_rmdir E ctx p) w"
    unfolding fs_rmdir_def
    by (rule handler_answers [OF assms(1) tree_db [OF tree_pred_dirs_ok] triple_rmdir [OF assms(1,4)] assms(2,3)])
  then show ?thesis by (simp add: answers_def)
qed

theorem rmdir_in_order_witness:
  "\<exists>c w'. fs_rmdir demo_env (0, 0) ''/d'' demo_fs = (Inr c, w') \<and> fsys demo_env w'"
proof -
  have "snd (path_split ''/d'') \<notin> {''.'', ''..''}" by code_simp
  from rmdir_in_order [OF demo_lawful demo_fsys demo_dirs this, of "(0, 0)"] show ?thesis by blast
qed

text \<open>
  \<^verbatim>\<open>chown\<close>, \<^verbatim>\<open>utimens\<close>, \<^verbatim>\<open>open\<close> and \<^verbatim>\<open>truncate\<close> always answer, whatever the disk and the
  user database do, and leave the file system in order with no open transaction.
\<close>

theorem attributes_in_order:
  fixes w :: "('s, 'h, 'z) fsworld_scheme"
  assumes "lawful E" and "fsys E w"
  shows "(\<exists>c w'. fs_chown E ctx p uid gid w = (Inr c, w') \<and> fsys E w' \<and> (\<forall>d. \<not> txns w' d))
     \<and> (\<exists>c w'. fs_utimens E ctx p tv w = (Inr c, w') \<and> fsys E w' \<and> (\<forall>d. \<not> txns w' d))
     \<and> (\<exists>c w'. fs_open E ctx p flags w = (Inr c, w') \<and> fsys E w' \<and> (\<forall>d. \<not> txns w' d))
     \<and> (\<exists>c w'. fs_truncate E ctx p len w = (Inr c, w') \<and> fsys E w' \<and> (\<forall>d. \<not> txns w' d))"
proof -
  note start = assms(1) tree_db [OF tree_pred_True]
  have "answers E (fs_chown E ctx p uid gid) w" and "answers E (fs_utimens E ctx p tv) w"
    and "answers E (fs_truncate E ctx p len) w"
    unfolding fs_chown_def fs_utimens_def fs_truncate_def
    by (rule handler_answers [OF start chown_ordered [OF assms(1)] assms(2) TrueI]
        handler_answers [OF start utimens_ordered [OF assms(1)] assms(2) TrueI]
        handler_answers [OF start truncate_ordered [OF assms(1)] assms(2) TrueI])+
  moreover have "answers E (fs_open E ctx p flags) w"
    unfolding fs_open_def by (rule answersI [OF start open_ordered [OF assms(1)] assms(2) TrueI])
  ultimately show ?thesis unfolding answers_def by blast
qed

theorem attributes_in_order_witness:
  "\<exists>c w'. fs_chown demo_env (7, 7) ''/'' 7 7 demo_fs = (Inr c, w') \<and> fsys demo_env w'"
  using attributes_in_order [OF demo_lawful demo_fsys, of "(7, 7)" "''/''" 7 7] by blast

end
