(* ===== verification/Tool_Format.thy ===== *)
theory Tool_Format
  imports Token
begin

text \<open>
  Format strings (\<^verbatim>\<open>tools/format.hxx\<close>), as \<^verbatim>\<open>offimport\<close> uses them: a format string is parsed
  into a list of tokens, each with the text that delimits it, and a line of input is matched
  against that list. The class \<^verbatim>\<open>T\<close> of the templates is the type \<open>'m\<close>; a pointer to one of its
  members is the function that updates it.
\<close>

section \<open>Data\<close>

record 'm fspec =
  tok :: string
  fmapval :: "('m \<Rightarrow> string \<Rightarrow> 'm) option"
  fmapparams :: "('m \<Rightarrow> string \<Rightarrow> string \<Rightarrow> 'm) option"

record 'm dtok =
  delimiter :: string
  fspec :: "'m fspec"
  param :: string

definition no_fspec :: "'m fspec" where
  "no_fspec = \<lparr>tok = '''', fmapval = None, fmapparams = None\<rparr>"

definition new_dtok :: "'m dtok" where
  "new_dtok = \<lparr>delimiter = '''', fspec = no_fspec, param = ''''\<rparr>"

definition spec_val :: "string \<Rightarrow> ('m \<Rightarrow> string \<Rightarrow> 'm) \<Rightarrow> 'm fspec" where
  "spec_val t f = \<lparr>tok = t, fmapval = Some f, fmapparams = None\<rparr>"

definition spec_params :: "string \<Rightarrow> ('m \<Rightarrow> string \<Rightarrow> string \<Rightarrow> 'm) \<Rightarrow> 'm fspec" where
  "spec_params t f = \<lparr>tok = t, fmapval = None, fmapparams = Some f\<rparr>"

section \<open>Searching for a string\<close>

text \<open>\<^verbatim>\<open>text.find(needle, pos)\<close>\<close>

function find_str :: "string \<Rightarrow> string \<Rightarrow> nat \<Rightarrow> nat option" where
  "find_str needle s pos =
     (if pos + length needle \<le> length s
      then if take (length needle) (drop pos s) = needle then Some pos else find_str needle s (Suc pos)
      else None)"
  by pat_completeness auto
termination
  by (relation "measure (\<lambda>(needle, s, pos). Suc (length s) - pos)") auto

declare find_str.simps [simp del]

lemma find_str_SomeD:
  "find_str needle s pos = Some i \<Longrightarrow> pos \<le> i \<and> i + length needle \<le> length s \<and> take (length needle) (drop i s) = needle
     \<and> (\<forall>j. pos \<le> j \<and> j < i \<longrightarrow> take (length needle) (drop j s) \<noteq> needle)"
proof (induction needle s pos rule: find_str.induct)
  case (1 needle s pos)
  show ?case
  proof (cases "take (length needle) (drop pos s) = needle")
    case True
    then show ?thesis using 1(2) by (subst (asm) find_str.simps) (auto split: if_splits)
  next
    case False
    have le: "pos + length needle \<le> length s" and rec: "find_str needle s (Suc pos) = Some i"
      using 1(2) False by (subst (asm) find_str.simps, simp split: if_splits)+
    from 1(1) [OF le False rec] False show ?thesis by (metis Suc_leD Suc_leI le_neq_implies_less)
  qed
qed

text \<open>The first occurrence, when an occurrence is known and there is no earlier one.\<close>

lemma find_str_first:
  assumes "take (length needle) (drop i s) = needle" and "i + length needle \<le> length s" and "pos \<le> i"
    and "\<And>j. pos \<le> j \<Longrightarrow> j < i \<Longrightarrow> take (length needle) (drop j s) \<noteq> needle"
  shows "find_str needle s pos = Some i"
  using assms
proof (induction needle s pos rule: find_str.induct)
  case (1 needle s pos)
  show ?case
  proof (cases "pos = i")
    case True
    then show ?thesis using 1(2,3) by (subst find_str.simps) simp
  next
    case False
    then have lt: "pos < i" using 1(4) by simp
    have le: "pos + length needle \<le> length s" using lt 1(3) by simp
    have ne: "take (length needle) (drop pos s) \<noteq> needle" using 1(5) [of pos] lt by simp
    have "find_str needle s (Suc pos) = Some i"
      by (rule 1(1) [OF le ne 1(2,3)]) (use lt 1(5) in auto)
    then show ?thesis using le ne by (subst find_str.simps) simp
  qed
qed

section \<open>Parsing a format string\<close>

text \<open>The character at an index, or the one that ends the string.\<close>

definition char_at :: "string \<Rightarrow> nat \<Rightarrow> char" where
  "char_at s pos = (if pos < length s then s ! pos else CHR 0x00)"

definition substr :: "string \<Rightarrow> nat \<Rightarrow> nat \<Rightarrow> string" where
  "substr s pos n = take n (drop pos s)"

text \<open>
  The token at \<open>pos\<close>, right after a percent sign: its specification, its parameter and the
  length of both in the format string.
\<close>

definition read_tok :: "'m fspec list \<Rightarrow> string \<Rightarrow> nat \<Rightarrow> exn + ('m fspec \<times> string \<times> nat)" where
  "read_tok specs s pos =
     (case find (\<lambda>sp. substr s pos (length (tok sp)) = tok sp) specs of
        None \<Rightarrow> Inl (ERuntime (''Error: unknown format near '' @ [CHR 0x22] @ substr s (pos - 1) 4 @ ''...'' @ [CHR 0x22, CHR ''.'']))
      | Some sp \<Rightarrow>
          let ssize = length (tok sp) in
          if fmapparams sp \<noteq> None
          then if char_at s (pos + ssize) \<noteq> CHR ''{''
               then Inl (ERuntime (''Error: format '' @ [CHR 0x22] @ tok sp @ [CHR 0x22] @ '' requires a parameter.''))
               else (case find_str ''}'' s (pos + ssize + 1) of
                       None \<Rightarrow> Inl (ERuntime (''Error: '{' found without matching '}'' @ [CHR 0x27]))
                     | Some cpos \<Rightarrow> Inr (sp, substr s (pos + ssize + 1) (cpos - pos - ssize - 1), cpos + 1 - pos))
          else Inr (sp, '''', ssize))"

function parse_loop :: "'m fspec list \<Rightarrow> string \<Rightarrow> nat \<Rightarrow> 'm dtok list \<Rightarrow> 'm dtok \<Rightarrow> exn + 'm dtok list" where
  "parse_loop specs s pos toks dtok =
     (case find_str ''%'' s pos of
        None \<Rightarrow> Inr (toks @ [dtok\<lparr>delimiter := delimiter dtok @ drop pos s\<rparr>])
      | Some nextf \<Rightarrow>
          let dtok1 = dtok\<lparr>delimiter := delimiter dtok @ substr s pos (nextf - pos)\<rparr>;
              pos1 = nextf + 1
          in if char_at s pos1 = CHR ''%''
             then parse_loop specs s (pos1 + 1) toks (dtok1\<lparr>delimiter := delimiter dtok1 @ ''%''\<rparr>)
             else (case read_tok specs s pos1 of
                     Inl e \<Rightarrow> Inl e
                   | Inr (sp, prm, ssize) \<Rightarrow>
                       parse_loop specs s (pos1 + ssize) (toks @ [dtok1]) (new_dtok\<lparr>fspec := sp, param := prm\<rparr>)))"
  by pat_completeness auto
termination
  by (relation "measure (\<lambda>(specs, s, pos, toks, dtok). Suc (length s) - pos)") (auto dest: find_str_SomeD)

declare parse_loop.simps [simp del]

definition fparse :: "'m fspec list \<Rightarrow> string \<Rightarrow> exn + 'm dtok list" where
  "fparse specs formatstr = parse_loop specs formatstr 0 [] new_dtok"

section \<open>Matching a text\<close>

text \<open>What the loop of \<^verbatim>\<open>match\<close> does with the text that it has found for a token.\<close>

definition store_field :: "'m dtok \<Rightarrow> string \<Rightarrow> 'm \<Rightarrow> 'm" where
  "store_field t v m =
     (let m1 = (case fmapparams (fspec t) of None \<Rightarrow> m | Some f \<Rightarrow> f m (param t) v)
      in case fmapval (fspec t) of None \<Rightarrow> m1 | Some f \<Rightarrow> f m1 v)"

fun match_loop :: "'m dtok list \<Rightarrow> 'm \<Rightarrow> string \<Rightarrow> nat \<Rightarrow> exn + 'm" where
  "match_loop [] m s pos0 = Inr m"
| "match_loop (t # ts) m s pos0 =
     (case find_str (delimiter t) s pos0 of
        None \<Rightarrow> Inl (ERuntime ''Error parsing input: It doesn't match the format string.'')
      | Some pos1 \<Rightarrow> match_loop ts (store_field t (substr s pos0 (pos1 - pos0)) m) s (pos1 + length (delimiter t)))"

definition fmatch :: "'m dtok list \<Rightarrow> 'm \<Rightarrow> string \<Rightarrow> exn + 'm" where
  "fmatch ts m s = match_loop ts m s 0"

section \<open>Matching undoes printing\<close>

text \<open>A line printed with one value for each token, the value first and then the delimiter.\<close>

fun render :: "('m dtok \<times> string) list \<Rightarrow> string" where
  "render [] = ''''"
| "render ((t, v) # rest) = v @ delimiter t @ render rest"

text \<open>No delimiter occurs in the line before the place where it was printed.\<close>

fun unambiguous :: "('m dtok \<times> string) list \<Rightarrow> bool" where
  "unambiguous [] \<longleftrightarrow> True"
| "unambiguous ((t, v) # rest) \<longleftrightarrow>
     (\<forall>j < length v. take (length (delimiter t)) (drop j (v @ delimiter t @ render rest)) \<noteq> delimiter t) \<and> unambiguous rest"

lemma match_loop_render:
  "unambiguous tvs \<Longrightarrow> match_loop (map fst tvs) m (pre @ render tvs) (length pre)
     = Inr (foldl (\<lambda>m (t, v). store_field t v m) m tvs)"
proof (induction tvs arbitrary: m pre rule: render.induct)
  case (2 t v rest)
  let ?s = "pre @ v @ delimiter t @ render rest"
  have find: "find_str (delimiter t) ?s (length pre) = Some (length pre + length v)"
  proof (rule find_str_first)
    fix j assume "length pre \<le> j" and "j < length pre + length v"
    then have "j - length pre < length v" and j: "drop j ?s = drop (j - length pre) (v @ delimiter t @ render rest)"
      by (simp_all add: drop_append)
    then show "take (length (delimiter t)) (drop j ?s) \<noteq> delimiter t" using 2(2) unfolding j by simp
  qed simp_all
  have "unambiguous rest" using 2(2) by simp
  from 2(1) [OF this, of "store_field t v m" "pre @ v @ delimiter t"] find
  show ?case by (simp add: substr_def add.assoc)
qed simp

end
