(* ===== verification/Tool_Media.thy ===== *)
theory Tool_Media
  imports PathCache
begin

text \<open>
  \<^verbatim>\<open>offmedia\<close> (\<^verbatim>\<open>tools/offmedia.cxx\<close>): the commands that create, edit, remove and list media. The
  parsed command line is a record: an option that was not given is \<open>None\<close> or \<open>False\<close>. What is
  written to \<^verbatim>\<open>std::cout\<close> is part of the state, so that it is kept when a command fails.
\<close>

section \<open>State and options\<close>

record ('s, 'h) tworld = "('s, 'h) pworld" +
  out :: string

type_synonym ('s, 'h, 'z, 'a) top = "(('s, 'h, 'z) tworld_scheme, 'a) m"

definition print :: "string \<Rightarrow> ('s, 'h, 'z, unit) top" where
  "print s = modify (\<lambda>w. w\<lparr>out := out w @ s\<rparr>)"

record mopts =
  o_add :: "string option"
  o_set :: bool
  o_unset :: bool
  o_remove :: bool
  o_list :: bool
  o_label :: "string option"
  o_id :: "mediumid option"
  o_verbose :: bool
  o_noescape :: bool
  o_attribute :: "string option"
  o_value :: "string option"

definition too_many :: exn where "too_many = ERuntime ''Error: Too many options.''"
definition too_few :: exn where "too_few = ERuntime ''Error: Not enough arguments.''"

section \<open>Helpers\<close>

definition opt_medium :: "('s, 'h) env \<Rightarrow> mopts \<Rightarrow> ('s, 'h, 'z, medium) op" where
  "opt_medium E o' =
     (case o_id o' of
        Some i \<Rightarrow> getmedium E i
      | None \<Rightarrow> (case o_label o' of
          Some l \<Rightarrow> getmedium_label E l
        | None \<Rightarrow> throw (ERuntime ''Error: No medium specified.'')))"

text \<open>\<^verbatim>\<open>escape\<close>: backslashes, double quotes and line ends\<close>

fun escape_chars :: "string \<Rightarrow> string" where
  "escape_chars [] = []"
| "escape_chars (c # s) =
     (if c = CHR 0x5C then [CHR 0x5C, CHR 0x5C]
      else if c = CHR 0x22 then [CHR 0x5C, CHR 0x22]
      else if c = CHR 0x0A then [CHR 0x5C, CHR ''n'']
      else [c]) @ escape_chars s"

text \<open>A number written to \<^verbatim>\<open>std::cout\<close>\<close>

fun show_nat :: "nat \<Rightarrow> string" where
  "show_nat n = (if n < 10 then [char_of (48 + n)] else show_nat (n div 10) @ [char_of (48 + n mod 10)])"

declare show_nat.simps [simp del]

section \<open>The commands\<close>

definition media_add :: "('s, 'h) env \<Rightarrow> mopts \<Rightarrow> string \<Rightarrow> ('s, 'h, 'z, unit) op" where
  "media_add E o' type =
     (if o_attribute o' \<noteq> None \<or> o_value o' \<noteq> None then throw too_many
      else case o_label o' of
        None \<Rightarrow> throw (ERuntime ''Error: No medium label specified.'')
      | Some l \<Rightarrow> bind (medium_create E type) (\<lambda>m. setattrv E DMedia (mid m) ''label'' l))"

definition media_set :: "('s, 'h) env \<Rightarrow> mopts \<Rightarrow> ('s, 'h, 'z, unit) op" where
  "media_set E o' =
     (case (o_attribute o', o_value o') of
        (Some a, Some v) \<Rightarrow> bind (opt_medium E o') (\<lambda>m. setattrv E DMedia (mid m) a v)
      | _ \<Rightarrow> throw too_few)"

definition media_unset :: "('s, 'h) env \<Rightarrow> mopts \<Rightarrow> ('s, 'h, 'z, unit) op" where
  "media_unset E o' =
     (case o_attribute o' of
        None \<Rightarrow> throw too_few
      | Some a \<Rightarrow>
          if o_value o' \<noteq> None then throw too_many
          else bind (opt_medium E o') (\<lambda>m. delattr E DMedia (mid m) a))"

definition media_remove :: "('s, 'h) env \<Rightarrow> mopts \<Rightarrow> ('s, 'h, 'z, unit) op" where
  "media_remove E o' =
     (if o_attribute o' \<noteq> None \<or> o_value o' \<noteq> None then throw too_many
      else bind (opt_medium E o') (\<lambda>m. remove_register E DMedia (mid m)))"

text \<open>The loop over the attributes of a medium, and the loop over the media.\<close>

definition list_attribute :: "('s, 'h) env \<Rightarrow> mopts \<Rightarrow> medium \<Rightarrow> string \<Rightarrow> ('s, 'h, 'z, unit) top" where
  "list_attribute E o' m a =
     (if o_attribute o' \<noteq> None \<and> o_attribute o' \<noteq> Some a then ret ()
      else bind (getattrv E DMedia (mid m) a) (\<lambda>v.
        print (a @ '' = '' @ [CHR 0x22] @ (if o_noescape o' then v else escape_chars v) @ [CHR 0x22, CHR 0x0A])))"

definition list_medium :: "('s, 'h) env \<Rightarrow> mopts \<Rightarrow> mediumid \<Rightarrow> ('s, 'h, 'z, unit) top" where
  "list_medium E o' i =
     bind (getmedium E i) (\<lambda>m.
     bind (case o_label o' of
             None \<Rightarrow> ret False
           | Some l \<Rightarrow> bind (getattrv E DMedia (mid m) ''label'') (\<lambda>l'. ret (l' \<noteq> l))) (\<lambda>other.
       if other \<or> (o_id o' \<noteq> None \<and> o_id o' \<noteq> Some i) then ret ()
       else
         andthen (print (if o_verbose o' then ''[medium '' @ show_nat (unat i) @ [CHR '']'', CHR 0x0A]
                         else ''[medium]'' @ [CHR 0x0A]))
         (bind (getattrs E DMedia (mid m)) (\<lambda>attributes.
          andthen (forM attributes (list_attribute E o' m))
          (print [CHR 0x0A])))))"

definition media_list :: "('s, 'h) env \<Rightarrow> mopts \<Rightarrow> ('s, 'h, 'z, unit) top" where
  "media_list E o' =
     (if (o_label o' = None \<and> o_attribute o' \<noteq> None) \<or> o_value o' \<noteq> None then throw too_many
      else bind (getregisters E DMedia) (\<lambda>media. forM media (list_medium E o')))"

definition media_command :: "('s, 'h) env \<Rightarrow> mopts \<Rightarrow> ('s, 'h, 'z, unit) top" where
  "media_command E o' =
     (case o_add o' of
        Some type \<Rightarrow> media_add E o' type
      | None \<Rightarrow>
          if o_set o' then media_set E o'
          else if o_unset o' then media_unset E o'
          else if o_remove o' then media_remove E o'
          else if o_list o' then media_list E o'
          else throw (ERuntime ''Error: No operation specified.''))"

text \<open>
  The scope of the transactions of a command or of a line of input: an exception aborts them
  (\<^verbatim>\<open>txns.abort()\<close>) before the block is left, and the destructor finds nothing to commit.
\<close>

definition or_abort :: "('s, 'h) env \<Rightarrow> ('s, 'h, 'z, 'a) op \<Rightarrow> (exn \<Rightarrow> ('s, 'h, 'z, 'a) op) \<Rightarrow> ('s, 'h, 'z, 'a) op" where
  "or_abort E m h = with_fstxn E (handle m (\<lambda>e. andthen (modify (fstxn_abort E)) (h e)))"

text \<open>The exit code of the program, after the database has been opened.\<close>

definition offmedia :: "('s, 'h) env \<Rightarrow> mopts \<Rightarrow> ('s, 'h, 'z, int) top" where
  "offmedia E o' = or_abort E (andthen (media_command E o') (ret 0)) (\<lambda>e. ret 1)"

end
