(* ===== verification/Tool_Import.thy ===== *)
theory Tool_Import
  imports Tool_Format Tool_Media Tree_Ops Paths
begin

text \<open>
  \<^verbatim>\<open>offimport\<close> (\<^verbatim>\<open>tools/offimport.cxx\<close>): it reads a listing of files from its standard input,
  one per line, and reproduces each of them in the file system. The standard input does not depend
  on the file system, so that the lines it is made of are computed first (\<open>read_lines\<close>) and then
  imported one by one, up to the first that fails. The handler of \<^verbatim>\<open>SIGINT\<close>, which closes the
  standard input, is not modelled.
\<close>

section \<open>The fields of a line\<close>

type_synonym fields = "(string \<times> string) list"

record fmap =
  f_user :: string
  f_numuser :: string
  f_group :: string
  f_numgroup :: string
  f_link :: string
  f_perms :: string
  f_path :: string
  f_path2 :: string
  f_type :: string
  f_atime :: string
  f_ctime :: string
  f_mtime :: string
  f_size :: string
  f_z :: fields
  f_x8 :: fields
  f_x16 :: fields
  f_x32 :: fields
  f_x64 :: fields

definition no_fields :: fmap where
  "no_fields = \<lparr>f_user = '''', f_numuser = '''', f_group = '''', f_numgroup = '''', f_link = '''',
     f_perms = '''', f_path = '''', f_path2 = '''', f_type = '''', f_atime = '''', f_ctime = '''',
     f_mtime = '''', f_size = '''', f_z = [], f_x8 = [], f_x16 = [], f_x32 = [], f_x64 = []\<rparr>"

text \<open>
  \<^verbatim>\<open>unordered_map::insert\<close>, which keeps the value of a key that is there. The order in which an
  iterator visits the elements is not specified; here it is that of the insertions.
\<close>

definition map_insert :: "string \<Rightarrow> string \<Rightarrow> fields \<Rightarrow> fields" where
  "map_insert k v l = (if map_of l k = None then l @ [(k, v)] else l)"

definition import_specs :: "fmap fspec list" where
  "import_specs =
     [spec_val ''u'' (\<lambda>m v. m\<lparr>f_user := v\<rparr>),
      spec_val ''U'' (\<lambda>m v. m\<lparr>f_numuser := v\<rparr>),
      spec_val ''g'' (\<lambda>m v. m\<lparr>f_group := v\<rparr>),
      spec_val ''G'' (\<lambda>m v. m\<lparr>f_numgroup := v\<rparr>),
      spec_val ''l'' (\<lambda>m v. m\<lparr>f_link := v\<rparr>),
      spec_val ''m'' (\<lambda>m v. m\<lparr>f_perms := v\<rparr>),
      spec_val ''p'' (\<lambda>m v. m\<lparr>f_path := v\<rparr>),
      spec_val ''P'' (\<lambda>m v. m\<lparr>f_path2 := v\<rparr>),
      spec_val ''y'' (\<lambda>m v. m\<lparr>f_type := v\<rparr>),
      spec_val ''A@'' (\<lambda>m v. m\<lparr>f_atime := v\<rparr>),
      spec_val ''C@'' (\<lambda>m v. m\<lparr>f_ctime := v\<rparr>),
      spec_val ''T@'' (\<lambda>m v. m\<lparr>f_mtime := v\<rparr>),
      spec_val ''s'' (\<lambda>m v. m\<lparr>f_size := v\<rparr>),
      spec_params ''z'' (\<lambda>m p v. m\<lparr>f_z := map_insert p v (f_z m)\<rparr>),
      spec_params ''x8'' (\<lambda>m p v. m\<lparr>f_x8 := map_insert p v (f_x8 m)\<rparr>),
      spec_params ''x16'' (\<lambda>m p v. m\<lparr>f_x16 := map_insert p v (f_x16 m)\<rparr>),
      spec_params ''x32'' (\<lambda>m p v. m\<lparr>f_x32 := map_insert p v (f_x32 m)\<rparr>),
      spec_params ''x64'' (\<lambda>m p v. m\<lparr>f_x64 := map_insert p v (f_x64 m)\<rparr>)]"

section \<open>Reading lines\<close>

text \<open>
  \<^verbatim>\<open>std::cin.getline(buf,1024)\<close> on the rest of the input: what it stores, what is left, and
  whether it sets \<^verbatim>\<open>failbit\<close> and \<^verbatim>\<open>eofbit\<close>. The end of the input is looked at first, then the
  line end, then the size of the buffer.
\<close>

definition BUFSZ :: nat where "BUFSZ = 1024"

definition getline :: "string \<Rightarrow> string \<times> string \<times> bool \<times> bool" where
  "getline s =
     (let l = takeWhile (\<lambda>c. c \<noteq> CHR 0x0A) s in
      if length l \<le> BUFSZ - 1
      then if length l < length s then (l, drop (Suc (length l)) s, False, False)
           else (l, [], l = [], True)
      else (take (BUFSZ - 1) s, drop (BUFSZ - 1) s, True, False))"

text \<open>\<^verbatim>\<open>string(buf)\<close> ends at the first null character.\<close>

definition cstring :: "string \<Rightarrow> string" where
  "cstring b = takeWhile (\<lambda>c. c \<noteq> CHR 0x00) b"

text \<open>The inner loop: the line, the rest of the input and whether the stream is still good.\<close>

lemma getline_more:
  assumes "getline s = (b, s', True, False)"
  shows "length s' < length s"
proof -
  have "s' = drop (BUFSZ - 1) s" and "BUFSZ - 1 < length (takeWhile (\<lambda>c. c \<noteq> CHR 0x0A) s)"
    using assms by (auto simp: getline_def Let_def split: if_splits)
  moreover have "length (takeWhile (\<lambda>c. c \<noteq> CHR 0x0A) s) \<le> length s" by (rule length_takeWhile_le)
  ultimately show ?thesis by (simp add: BUFSZ_def)
qed

function read_line :: "string \<Rightarrow> string \<Rightarrow> string \<times> string \<times> bool" where
  "read_line s line =
     (case getline s of (b, s', fail, eof) \<Rightarrow>
        if fail \<and> \<not> eof then read_line s' (line @ cstring b) else (line @ cstring b, s', \<not> fail \<and> \<not> eof))"
  by pat_completeness auto
termination
  by (relation "measure (\<lambda>(s, line). length s)") (auto dest: getline_more [OF sym])

declare read_line.simps [simp del]

lemma getline_good:
  assumes "getline s = (b, s', False, False)"
  shows "length s' < length s"
  using assms by (auto simp: getline_def Let_def split: if_splits)

lemma read_line_good: "read_line s line = (l, s', True) \<Longrightarrow> length s' < length s"
proof (induction s line rule: read_line.induct)
  case (1 s line)
  obtain b s1 fail eof where g: "getline s = (b, s1, fail, eof)" by (metis prod_cases4)
  show ?case
  proof (cases "fail \<and> \<not> eof")
    case True
    then have "read_line s1 (line @ cstring b) = (l, s', True)" using 1(2) g by (subst (asm) read_line.simps) simp
    then have "length s' < length s1" using 1(1) [OF g [symmetric] refl refl True] by simp
    then show ?thesis using getline_more [of s b s1] g True by auto
  next
    case False
    then have "s1 = s'" and "\<not> fail" and "\<not> eof" using 1(2) g by (subst (asm) read_line.simps; simp split: if_splits)+
    then show ?thesis using getline_good g by simp
  qed
qed

text \<open>The outer loop, while \<^verbatim>\<open>std::cin.good()\<close>\<close>

function read_lines :: "string \<Rightarrow> string list" where
  "read_lines s = (case read_line s [] of (l, s', good) \<Rightarrow> l # (if good then read_lines s' else []))"
  by pat_completeness auto
termination
  by (relation "measure length") (auto dest: read_line_good [OF sym])

declare read_lines.simps [simp del]

section \<open>Numbers\<close>

text \<open>\<^verbatim>\<open>parse<T>\<close> for an unsigned \<^verbatim>\<open>T\<close>, for the signed 64-bit types and for \<^verbatim>\<open>uint8_t\<close>, a character type.\<close>

definition parse_error :: "string \<Rightarrow> exn" where
  "parse_error s = ERuntime (''Error parsing '' @ [CHR 0x22] @ s @ [CHR 0x22])"

definition white :: "char \<Rightarrow> bool" where
  "white c \<longleftrightarrow> c \<in> set [CHR '' '', CHR 0x09, CHR 0x0A, CHR 0x0B, CHR 0x0C, CHR 0x0D]"

definition parse_unsigned :: "string \<Rightarrow> ('w, 'a::len word) m" where
  "parse_unsigned s =
     (case read_unsigned 10 (2 ^ LENGTH('a)) s of (v, failed) \<Rightarrow>
        if failed then throw (parse_error s) else ret (word_of_nat v))"

definition read_signed :: "string \<Rightarrow> int option" where
  "read_signed s =
     (let t = dropWhile white s;
          neg = (t \<noteq> [] \<and> hd t = CHR ''-'');
          u = (if t \<noteq> [] \<and> hd t \<in> set ''+-'' then tl t else t);
          ds = takeWhile (\<lambda>c. digit_of 10 c \<noteq> None) u;
          v = foldl (\<lambda>a c. 10 * a + int (the (digit_of 10 c))) 0 ds;
          x = (if neg then - v else v)
      in if ds = [] \<or> x < - (2 ^ 63) \<or> 2 ^ 63 \<le> x then None else Some x)"

definition parse_signed :: "string \<Rightarrow> ('w, 64 word) m" where
  "parse_signed s = (case read_signed s of None \<Rightarrow> throw (parse_error s) | Some x \<Rightarrow> ret (word_of_int x))"

definition parse_uint8 :: "string \<Rightarrow> ('w, 8 word) m" where
  "parse_uint8 s =
     (case dropWhile white s of [] \<Rightarrow> throw (parse_error s) | c # _ \<Rightarrow> ret (word_of_nat (of_char c)))"

section \<open>Importing a line\<close>

record iopts =
  allow_create :: bool
  allow_modify :: bool
  prefix_opt :: "string option"
  formatstr :: string
  imedium :: "string option"

text \<open>An empty prefix gets a slash as well.\<close>

definition prefix :: "iopts \<Rightarrow> string" where
  "prefix o' =
     (case prefix_opt o' of None \<Rightarrow> ''/'' | Some q \<Rightarrow> if char_at q 0 \<noteq> CHR ''/'' then ''/'' @ q else q)"

definition node_type :: "string \<Rightarrow> ('w, mode_t) m" where
  "node_type t =
     (if t = '''' then ret 0
      else if t = ''f'' then ret S_IFREG
      else if t = ''d'' then ret S_IFDIR
      else if t = ''l'' then ret S_IFLNK
      else if t = ''c'' then ret S_IFCHR
      else if t = ''b'' then ret S_IFBLK
      else if t = ''p'' then ret S_IFIFO
      else if t = ''s'' then ret S_IFSOCK
      else throw (ERuntime ''Error parsing input: unknown file type''))"

text \<open>The creation of the node at \<open>p\<close>, for a type that has been settled.\<close>

definition create_at :: "('s, 'h) env \<Rightarrow> scontext \<Rightarrow> kind \<Rightarrow> string \<Rightarrow> ('s, 'h, 'z, path \<times> node) pop" where
  "create_at E sctx k p =
     bind (path_new (hash_getnode E) sctx p) (\<lambda>pt.
     bind (path_create E k pt sctx) (\<lambda>n.
     ret (pt, n)))"

definition import_create :: "('s, 'h) env \<Rightarrow> iopts \<Rightarrow> scontext \<Rightarrow> medium option \<Rightarrow> mode_t \<Rightarrow> string \<Rightarrow> ('s, 'h, 'z, node) pop" where
  "import_create E o' sctx medium nodetype p =
     (if nodetype = S_IFREG
      then bind (create_at E sctx KFile (prefix o' @ p)) (\<lambda>(pt, n).
           andthen
             (case medium of
                None \<Rightarrow> ret ()
              | Some m \<Rightarrow>
                  andthen (addfile m p)
                  (andthen (setattrv E DNodes (nid n) A_source ''single'')
                  (andthen (setattr E DNodes (nid n) A_mediumid (mid m))
                  (setattrv E DNodes (nid n) A_phid p))))
             (ret n))
      else if nodetype = S_IFDIR
      then bind (create_at E sctx KDirectory (prefix o' @ p)) (\<lambda>(pt, n).
           andthen (addchild E n ''..'' (parent pt))
           (ret n))
      else if nodetype = S_IFLNK
      then bind (create_at E sctx KSymlink (prefix o' @ p)) (\<lambda>(pt, n). ret n)
      else bind (create_at E sctx KNode (prefix o' @ p)) (\<lambda>(pt, n). ret n))"

text \<open>
  The node of a line, as far as there is one, the type and whether the node is new; \<open>None\<close> means
  that the line is skipped, because the name is taken.
\<close>

definition import_node :: "('s, 'h) env \<Rightarrow> iopts \<Rightarrow> scontext \<Rightarrow> medium option \<Rightarrow> mode_t \<Rightarrow> string \<Rightarrow>
    ('s, 'h, 'z, (node option \<times> mode_t \<times> bool) option) pop" where
  "import_node E o' sctx medium nodetype p =
     bind (if allow_modify o'
           then handle (bind (hash_getnode E sctx (prefix o' @ p)) (\<lambda>n. ret (Some n)))
                  (\<lambda>e. if e = ENotFound then ret None else throw e)
           else ret None) (\<lambda>found.
       case found of
         Some n \<Rightarrow> ret (Some (Some n, nodetype, False))
       | None \<Rightarrow>
           if allow_create o'
           then let nodetype = (if nodetype = 0 then S_IFREG else nodetype) in
                handle (bind (import_create E o' sctx medium nodetype p) (\<lambda>n. ret (Some (Some n, nodetype, True))))
                  (\<lambda>e. if e = EExists then ret None else throw e)
           else ret (Some (None, nodetype, False)))"

text \<open>\<^verbatim>\<open>if(!nodetype) nodetype=n->getattr<off::mode_t>("offlinefs.mode")&S_IFMT\<close>\<close>

definition settle_type :: "('s, 'h) env \<Rightarrow> node \<Rightarrow> mode_t \<Rightarrow> ('s, 'h, 'z, mode_t) op" where
  "settle_type E n nodetype =
     (if nodetype = 0 then bind (getattr E DNodes (nid n) A_mode) (\<lambda>m. ret (and m S_IFMT)) else ret nodetype)"

definition import_link :: "('s, 'h) env \<Rightarrow> fmap \<Rightarrow> node \<Rightarrow> mode_t \<Rightarrow> ('s, 'h, 'z, mode_t) op" where
  "import_link E m n nodetype =
     (if f_link m \<noteq> ''''
      then bind (settle_type E n nodetype) (\<lambda>t.
           andthen (whenM (t = S_IFLNK) (setattrv E DNodes (nid n) A_symlink (f_link m)))
           (ret t))
      else ret nodetype)"

text \<open>
  The group and the owner. \<^verbatim>\<open>catch(...)\<close> covers the parsing and the store. A user who is not
  given by number is looked up, and that is all that is done with the answer.
\<close>

definition import_group :: "('s, 'h) env \<Rightarrow> fmap \<Rightarrow> node \<Rightarrow> bool \<Rightarrow> ('s, 'h, 'z, unit) op" where
  "import_group E m n creating =
     (if f_numgroup m \<noteq> ''''
      then bind (parse_unsigned (f_numgroup m)) (\<lambda>g :: gid_t. setattr E DNodes (nid n) A_gid g)
      else if f_group m \<noteq> ''''
      then handle (bind (parse_unsigned (f_group m)) (\<lambda>g :: gid_t. setattr E DNodes (nid n) A_gid g))
             (\<lambda>_. bind (gets (\<lambda>w. p_getgrnam (sys E) (cstring (f_group m)) (host w))) (\<lambda>gr.
                case gr of
                  None \<Rightarrow> throw (ERuntime (''Group '' @ [CHR 0x22] @ f_group m @ [CHR 0x22] @ '' doesn't exist.''))
                | Some g \<Rightarrow> setattr E DNodes (nid n) A_gid g))
      else whenM creating (setattr E DNodes (nid n) A_gid (my_gid E)))"

definition import_user :: "('s, 'h) env \<Rightarrow> fmap \<Rightarrow> node \<Rightarrow> bool \<Rightarrow> ('s, 'h, 'z, unit) op" where
  "import_user E m n creating =
     (if f_numuser m \<noteq> ''''
      then bind (parse_unsigned (f_numuser m)) (\<lambda>u :: uid_t. setattr E DNodes (nid n) A_uid u)
      else if f_user m \<noteq> ''''
      then handle (bind (parse_unsigned (f_user m)) (\<lambda>u :: uid_t. setattr E DNodes (nid n) A_uid u))
             (\<lambda>_. bind (gets (\<lambda>w. p_getpwnam (sys E) (cstring (f_user m)) (host w))) (\<lambda>pw.
                case pw of
                  None \<Rightarrow> throw (ERuntime (''User '' @ [CHR 0x22] @ f_user m @ [CHR 0x22] @ '' doesn't exist.''))
                | Some u \<Rightarrow> ret ()))
      else whenM creating (setattr E DNodes (nid n) A_uid (my_uid E)))"

definition import_time :: "('s, 'h) env \<Rightarrow> string \<Rightarrow> string \<Rightarrow> node \<Rightarrow> bool \<Rightarrow> ('s, 'h, 'z, unit) op" where
  "import_time E v name n creating =
     (if v \<noteq> '''' then bind (parse_signed v) (\<lambda>t. setattr E DNodes (nid n) name t)
      else whenM creating (bind (time_now E) (\<lambda>t. setattr E DNodes (nid n) name t)))"

definition import_perms :: "('s, 'h) env \<Rightarrow> fmap \<Rightarrow> node \<Rightarrow> mode_t \<Rightarrow> bool \<Rightarrow> ('s, 'h, 'z, mode_t) op" where
  "import_perms E m n nodetype creating =
     (if f_perms m \<noteq> ''''
      then (case read_unsigned 8 (2 ^ 32) (f_perms m) of (v, failed) \<Rightarrow>
        if failed then throw (ERuntime ''Error parsing permissions'')
        else bind (settle_type E n nodetype) (\<lambda>t.
             andthen (setattr E DNodes (nid n) A_mode (or t (and (not S_IFMT) (word_of_nat v))))
             (ret t)))
      else if creating
      then let u = my_umask E;
               bits = (if nodetype = S_IFDIR then and (not u) 0x1FF
                       else if nodetype = S_IFLNK then 0
                       else and (not u) 0x1B6)
           in andthen (setattr E DNodes (nid n) A_mode (or nodetype bits)) (ret nodetype)
      else if nodetype \<noteq> 0
      then bind (getattr E DNodes (nid n) A_mode) (\<lambda>old :: mode_t.
           andthen (setattr E DNodes (nid n) A_mode (or nodetype (and old (not S_IFMT))))
           (ret nodetype))
      else ret nodetype)"

definition import_size :: "('s, 'h) env \<Rightarrow> fmap \<Rightarrow> node \<Rightarrow> mode_t \<Rightarrow> ('s, 'h, 'z, unit) op" where
  "import_size E m n nodetype =
     whenM (f_size m \<noteq> '''')
       (bind (settle_type E n nodetype) (\<lambda>t.
        whenM (t = S_IFREG)
          (bind (parse_signed (f_size m)) (\<lambda>s. setattr E DNodes (nid n) A_size s))))"

definition import_xattrs :: "('s, 'h) env \<Rightarrow> fmap \<Rightarrow> node \<Rightarrow> ('s, 'h, 'z, unit) op" where
  "import_xattrs E m n =
     andthen (forM (f_z m) (\<lambda>(name, v). setattrv E DNodes (nid n) name v))
     (andthen (forM (f_x8 m) (\<lambda>(name, v). bind (parse_uint8 v) (setattr E DNodes (nid n) name)))
     (andthen (forM (f_x16 m) (\<lambda>(name, v). bind (parse_unsigned v) (\<lambda>x :: 16 word. setattr E DNodes (nid n) name x)))
     (andthen (forM (f_x32 m) (\<lambda>(name, v). bind (parse_unsigned v) (\<lambda>x :: 32 word. setattr E DNodes (nid n) name x)))
     (forM (f_x64 m) (\<lambda>(name, v). bind (parse_unsigned v) (\<lambda>x :: 64 word. setattr E DNodes (nid n) name x))))))"

definition import_attrs :: "('s, 'h) env \<Rightarrow> fmap \<Rightarrow> node \<Rightarrow> mode_t \<Rightarrow> bool \<Rightarrow> ('s, 'h, 'z, unit) op" where
  "import_attrs E m n nodetype creating =
     bind (import_link E m n nodetype) (\<lambda>t.
     andthen (import_group E m n creating)
     (andthen (import_user E m n creating)
     (andthen (import_time E (f_atime m) A_atime n creating)
     (andthen (import_time E (f_mtime m) A_mtime n creating)
     (andthen (import_time E (f_ctime m) A_ctime n creating)
     (bind (import_perms E m n t creating) (\<lambda>t.
     andthen (import_size E m n t)
     (import_xattrs E m n))))))))"

text \<open>
  The body of the loop. \<open>False\<close> means that an exception has ended the program with exit code 1; what
  is written to \<^verbatim>\<open>std::cerr\<close> is left out.
\<close>

definition import_fields :: "('s, 'h) env \<Rightarrow> iopts \<Rightarrow> scontext \<Rightarrow> medium option \<Rightarrow> fmap \<Rightarrow> ('s, 'h, 'z, unit) pop" where
  "import_fields E o' sctx medium m =
     bind (node_type (f_type m)) (\<lambda>nodetype.
     let p = (if f_path m \<noteq> '''' then f_path m else f_path2 m) in
     bind (if p \<noteq> '''' then import_node E o' sctx medium nodetype p else ret (Some (None, nodetype, False))) (\<lambda>r.
       case r of
         None \<Rightarrow> ret ()
       | Some (None, _, _) \<Rightarrow> throw (ERuntime ''Reading input: No valid objects specified'')
       | Some (Some n, nodetype, creating) \<Rightarrow> import_attrs E m n nodetype creating))"

definition import_line :: "('s, 'h) env \<Rightarrow> iopts \<Rightarrow> scontext \<Rightarrow> medium option \<Rightarrow> fmap dtok list \<Rightarrow> string \<Rightarrow> ('s, 'h, 'z, bool) pop" where
  "import_line E o' sctx medium f line =
     or_abort E
       (case fmatch f no_fields (line @ [CHR 0x0A]) of
          Inl e \<Rightarrow> throw e
        | Inr m \<Rightarrow> andthen (import_fields E o' sctx medium m) (ret True))
       (\<lambda>_. ret False)"

section \<open>The program\<close>

fun import_loop :: "('s, 'h) env \<Rightarrow> iopts \<Rightarrow> scontext \<Rightarrow> medium option \<Rightarrow> fmap dtok list \<Rightarrow> string list \<Rightarrow> ('s, 'h, 'z, int) pop" where
  "import_loop E o' sctx medium f [] = ret 0"
| "import_loop E o' sctx medium f (line # lines) =
     (if line = '''' then import_loop E o' sctx medium f lines
      else bind (import_line E o' sctx medium f line) (\<lambda>ok.
        if ok then import_loop E o' sctx medium f lines else ret 1))"

text \<open>
  What \<^verbatim>\<open>main\<close> does after it has parsed the command line and opened the database. The transactions
  \<^verbatim>\<open>mtxns\<close>, which only read the medium and end with the program or with an abort, are a scope of
  their own here.
\<close>

definition offimport :: "('s, 'h) env \<Rightarrow> iopts \<Rightarrow> string \<Rightarrow> ('s, 'h, 'z, int) pop" where
  "offimport E o' input =
     (if \<not> allow_modify o' \<and> \<not> allow_create o' then ret 1
      else
        bind (case imedium o' of
                Some l \<Rightarrow> bind (with_fstxn E (getmedium_label E l)) (\<lambda>m. ret (Some m))
              | None \<Rightarrow> ret None) (\<lambda>medium.
        bind (new_scontext E 0 0) (\<lambda>sctx.
        andthen (upd_pc (\<lambda>_. new_pcache))
        (case fparse import_specs (formatstr o' @ [CHR 0x0A]) of
           Inl e \<Rightarrow> ret 1
         | Inr f \<Rightarrow> import_loop E o' sctx medium f (read_lines input)))))"

end
