(* ===== verification/Transaction_Laws.thy ===== *)
theory Transaction_Laws
  imports Tool_Import Fs_File_Laws
begin

text \<open>
  What an abort brings back. A computation is \<open>undoable\<close> when it neither ends the open
  transactions nor changes the contents to which an abort returns; that holds of everything the
  tools do between the beginning of their transactions and the abort after an exception.
\<close>

section \<open>Undoable computations\<close>

named_theorems undo_rules

text \<open>
  \<open>J\<close> is what is known of the path cache. A computation that is undoable also never gets stuck.
\<close>

definition scoped :: "('s, 'h) env \<Rightarrow> (pcache \<Rightarrow> bool) \<Rightarrow> (db \<Rightarrow> bytes \<Rightarrow> bytes option) \<Rightarrow> ('s, 'h, 'z) pworld_scheme \<Rightarrow> bool" where
  "scoped E J D w \<longleftrightarrow> (\<forall>d. txns w d \<and> b_undo (edb E) (dbs w d) = D d) \<and> J (pcache w)"

definition undoable :: "('s, 'h) env \<Rightarrow> (pcache \<Rightarrow> bool) \<Rightarrow> ('s, 'h, 'z, 'a) pop \<Rightarrow> bool" where
  "undoable E J m \<longleftrightarrow> (\<forall>D. hoare (scoped E J D) m (\<lambda>_. scoped E J D) (\<lambda>e w. scoped E J D w \<and> e \<noteq> EStuck))"

lemma undoableI:
  fixes m :: "('s, 'h, 'z, 'a) pop"
  assumes "\<And>w r w' d. J (pcache w) \<Longrightarrow> m w = (r, w') \<Longrightarrow> txns w' d = txns w d
      \<and> b_undo (edb E) (dbs w' d) = b_undo (edb E) (dbs w d) \<and> J (pcache w') \<and> r \<noteq> Inl EStuck"
  shows "undoable E J m"
  unfolding undoable_def scoped_def
proof (intro allI hoareI)
  fix D w a w'
  assume "(\<forall>d. txns w d \<and> b_undo (edb E) (dbs w d) = D d) \<and> J (pcache w)" and "m w = (Inr a, w')"
  then show "(\<forall>d. txns w' d \<and> b_undo (edb E) (dbs w' d) = D d) \<and> J (pcache w')"
    using assms [of w "Inr a" w'] by simp
next
  fix D w e w'
  assume "(\<forall>d. txns w d \<and> b_undo (edb E) (dbs w d) = D d) \<and> J (pcache w)" and "m w = (Inl e, w')"
  then show "((\<forall>d. txns w' d \<and> b_undo (edb E) (dbs w' d) = D d) \<and> J (pcache w')) \<and> e \<noteq> EStuck"
    using assms [of w "Inl e" w'] by simp
qed

lemma undoableD:
  assumes "undoable E J m" and "scoped E J D w" and "m w = (r, w')"
  shows "scoped E J D w'" and "r \<noteq> Inl EStuck"
proof -
  have h: "hoare (scoped E J D) m (\<lambda>_. scoped E J D) (\<lambda>e w. scoped E J D w \<and> e \<noteq> EStuck)"
    using assms(1) by (simp add: undoable_def)
  show "scoped E J D w'" and "r \<noteq> Inl EStuck"
    using hoare_Inr [OF h _ assms(2)] hoare_Inl [OF h _ assms(2)] assms(3) by (cases r; blast)+
qed

text \<open>A step that keeps the rest of the world.\<close>

lemma undo_step:
  fixes m :: "('s, 'h, 'z, 'a) pop"
  assumes "\<And>w r w' d. m w = (r, w') \<Longrightarrow> txns w' d = txns w d
      \<and> b_undo (edb E) (dbs w' d) = b_undo (edb E) (dbs w d) \<and> world.more w' = world.more w \<and> r \<noteq> Inl EStuck"
  shows "undoable E J m"
proof (rule undoableI)
  fix w r w' d
  assume "J (pcache w)" and "m w = (r, w')"
  then show "txns w' d = txns w d \<and> b_undo (edb E) (dbs w' d) = b_undo (edb E) (dbs w d) \<and> J (pcache w') \<and> r \<noteq> Inl EStuck"
    using assms [of w r w' d] more_caches(2) [of w' w] by simp
qed

lemma undo_safe: "safe m \<Longrightarrow> undoable E J m"
  by (rule undo_step) (use safeD in \<open>fastforce simp: host_only_def\<close>)

lemma undo_bind [undo_rules]: "undoable E J m \<Longrightarrow> (\<And>a. undoable E J (f a)) \<Longrightarrow> undoable E J (bind m f)"
  unfolding undoable_def by (blast intro: hoare_bind)

lemma undo_andthen [undo_rules]: "undoable E J m \<Longrightarrow> undoable E J k \<Longrightarrow> undoable E J (andthen m k)"
  unfolding andthen_def by (rule undo_bind)

lemma undo_handle [undo_rules]:
  assumes "undoable E J m" and "\<And>e. e \<noteq> EStuck \<Longrightarrow> undoable E J (h e)"
  shows "undoable E J (handle m h)"
  unfolding undoable_def
proof (intro allI hoare_handle)
  fix D
  show "hoare (scoped E J D) m (\<lambda>_. scoped E J D) (\<lambda>e w. scoped E J D w \<and> e \<noteq> EStuck)"
    using assms(1) by (simp add: undoable_def)
  show "hoare (\<lambda>w. scoped E J D w \<and> e \<noteq> EStuck) (h e) (\<lambda>_. scoped E J D) (\<lambda>e w. scoped E J D w \<and> e \<noteq> EStuck)"
    if "e \<noteq> EStuck" for e
    using assms(2) [OF that] by (auto simp: undoable_def intro: hoare_pre)
qed auto

lemma undo_ret [undo_rules]: "undoable E J (ret a)" and undo_gets [undo_rules]: "undoable E J (gets f)"
  and undo_throw [undo_rules]: "e \<noteq> EStuck \<Longrightarrow> undoable E J (throw e)"
  and undo_getattrv [undo_rules]: "undoable E J (getattrv E d i n)"
  and undo_getattr [undo_rules]: "undoable E J (getattr E d i n)"
  by (auto intro: undo_safe safe_rules)

lemma undo_forM [undo_rules]: "(\<And>x. undoable E J (f x)) \<Longrightarrow> undoable E J (forM xs f)"
  by (induction xs) (auto intro: undo_ret undo_andthen)

lemma undo_whenM [undo_rules]: "undoable E J m \<Longrightarrow> undoable E J (whenM c m)"
  by (simp add: whenM_def undo_ret)

lemma undo_if [undo_rules]: "undoable E J m \<Longrightarrow> undoable E J k \<Longrightarrow> undoable E J (if c then m else k)"
  by simp

lemma undo_option [undo_rules]:
  "undoable E J m \<Longrightarrow> (\<And>a. undoable E J (f a)) \<Longrightarrow> undoable E J (case r of None \<Rightarrow> m | Some a \<Rightarrow> f a)"
  by (simp split: option.split)

lemma undo_prod [undo_rules]: "(\<And>a b. undoable E J (f a b)) \<Longrightarrow> undoable E J (case r of (a, b) \<Rightarrow> f a b)"
  by (simp split: prod.split)

lemma undo_on_missing [undo_rules]: "undoable E J k \<Longrightarrow> e \<noteq> EStuck \<Longrightarrow> undoable E J (on_missing b k e)"
  by (auto simp: on_missing_def intro: undo_throw split: exn.split)

lemma undo_rethrow [undo_rules]: "undoable E J m \<Longrightarrow> e \<noteq> EStuck \<Longrightarrow> undoable E J (if e = x then m else throw e)"
  by (simp add: undo_throw)

section \<open>Registers\<close>

lemma undo_cleanlogs [undo_rules]: "undoable E J (modify cleanlogs)"
  by (rule undo_step) (auto simp: cleanlogs_def)

lemma undo_setattrv [undo_rules]:
  assumes "lawful E"
  shows "undoable E J (setattrv E d i n v)"
proof (rule undo_step)
  fix w r w' d'
  assume run: "setattrv E d i n v w = (r, w')"
  obtain s where "b_put (edb E) (dbs w d) (getkey E i n) v = Inr s" and "b_undo (edb E) s = b_undo (edb E) (dbs w d)"
    using lawful_put [OF assms] by metis
  then show "txns w' d' = txns w d' \<and> b_undo (edb E) (dbs w' d') = b_undo (edb E) (dbs w d')
      \<and> world.more w' = world.more w \<and> r \<noteq> Inl EStuck"
    using run by (auto simp: setattrv_def)
qed

lemma undo_setattr [undo_rules]: "lawful E \<Longrightarrow> undoable E J (setattr E d i n v)"
  unfolding setattr_def by (rule undo_setattrv)

lemma undo_delattr [undo_rules]:
  assumes "lawful E"
  shows "undoable E J (delattr E d i n)"
proof (rule undo_step)
  fix w r w' d'
  assume run: "delattr E d i n w = (r, w')"
  show "txns w' d' = txns w d' \<and> b_undo (edb E) (dbs w' d') = b_undo (edb E) (dbs w d')
      \<and> world.more w' = world.more w \<and> r \<noteq> Inl EStuck"
  proof (cases "view (edb E) (dbs w d) (getkey E i n)")
    case None
    then show ?thesis using run assms by (auto simp: delattr_def lawful_get)
  next
    case (Some v)
    then obtain s where "b_del (edb E) (dbs w d) (getkey E i n) = Inr s" and "b_undo (edb E) s = b_undo (edb E) (dbs w d)"
      using lawful_del [OF assms] by (metis option.distinct(1))
    then show ?thesis using run assms Some by (auto simp: delattr_def lawful_get)
  qed
qed

lemma undo_createregister [undo_rules]:
  assumes "lawful E"
  shows "undoable E J (createregister E d)"
proof -
  have put: "undoable E J (\<lambda>w. case b_put (edb E) (dbs w d) k v of
         Inr s \<Rightarrow> (Inr i, cleanlogs (w\<lparr>dbs := (dbs w)(d := s)\<rparr>))
       | Inl DB_THROW \<Rightarrow> (Inl EDb, w)
       | Inl _ \<Rightarrow> (Inr i, cleanlogs w))" for k v and i :: "'d word"
  proof (rule undo_step)
    fix w r w' d'
    assume run: "(case b_put (edb E) (dbs w d) k v of
         Inr s \<Rightarrow> (Inr i, cleanlogs (w\<lparr>dbs := (dbs w)(d := s)\<rparr>))
       | Inl DB_THROW \<Rightarrow> (Inl EDb, w)
       | Inl _ \<Rightarrow> (Inr i, cleanlogs w)) = (r, w')"
    obtain s where "b_put (edb E) (dbs w d) k v = Inr s" and "b_undo (edb E) s = b_undo (edb E) (dbs w d)"
      using lawful_put [OF assms] by metis
    then show "txns w' d' = txns w d' \<and> b_undo (edb E) (dbs w' d') = b_undo (edb E) (dbs w d')
      \<and> world.more w' = world.more w \<and> r \<noteq> Inl EStuck"
      using run by auto
  qed
  show ?thesis
    unfolding createregister_def
    by (rule undo_bind [OF _ put], rule undo_safe, rule safeI)
      (auto split: sum.splits dberr.splits if_splits prod.splits)
qed

lemma getattrs_safe: "safe (getattrs E d i)"
  by (rule safeI) (auto simp: getattrs_def scan_result_def split: prod.splits if_splits)

lemmas undo_getattrs [undo_rules] = undo_safe [OF getattrs_safe]

lemma undo_remove_register [undo_rules]: "lawful E \<Longrightarrow> undoable E J (remove_register E d i)"
  unfolding remove_register_def by (intro undo_rules)

lemma undo_time [undo_rules]: "undoable E J (time_now E)"
  by (rule undo_step) (auto simp: time_now_def)

section \<open>Leaving the scope\<close>

lemma pcache_txn [simp]:
  fixes w :: "('s, 'h, 'z) pworld_scheme"
  shows "pcache (fstxn_begin E w) = pcache w" and "pcache (fstxn_commit E w) = pcache w"
  using more_caches(2) more_txn by metis+

lemma scoped_begin: "lawful E \<Longrightarrow> J (pcache w) \<Longrightarrow> scoped E J (dview E w) (fstxn_begin E w)"
proof -
  assume "lawful E" and J: "J (pcache w)"
  then have "txns (fstxn_begin E w) d \<and> b_undo (edb E) (dbs (fstxn_begin E w) d) = dview E w d" for d
    by (cases d) (simp_all add: fstxn_begin_def txn_begin_def)
  with J show "scoped E J (dview E w) (fstxn_begin E w)" by (simp add: scoped_def)
qed

lemma scoped_abort: "lawful E \<Longrightarrow> scoped E J D w \<Longrightarrow> dview E (fstxn_abort E w) d = D d"
  by (cases d) (simp_all add: scoped_def fstxn_abort_def txn_abort_def)

lemma more_abort [simp]: "world.more (fstxn_abort E w) = world.more w"
  by (simp add: fstxn_abort_def txn_abort_def)

text \<open>Either the computation has returned, or every database is what it was before.\<close>

lemma or_abort_cases:
  fixes w :: "('s, 'h, 'z) pworld_scheme"
  assumes "lawful E" and "undoable E J m" and "J (pcache w)"
  obtains (returned) c w1 where "m (fstxn_begin E w) = (Inr c, w1)" and "or_abort E m (\<lambda>_. ret x) w = (Inr c, fstxn_commit E w1)"
      and "J (pcache w1)"
  | (aborted) e w1 w' where "m (fstxn_begin E w) = (Inl e, w1)" and "or_abort E m (\<lambda>_. ret x) w = (Inr x, w')"
      and "same_db E w w'" and "\<forall>d. \<not> txns w' d" and "J (pcache w')" and "world.more w' = world.more w1"
proof -
  obtain r w1 where run: "m (fstxn_begin E w) = (r, w1)" by fastforce
  have sc: "scoped E J (dview E w) w1" and stuck: "r \<noteq> Inl EStuck"
    using undoableD [OF assms(2) scoped_begin [OF assms(1), of J w] run] assms(3) by blast+
  show thesis
  proof (cases r)
    case (Inr a)
    then have "or_abort E m (\<lambda>_. ret x) w = (Inr a, fstxn_commit E w1)"
      using run by (simp add: or_abort_def with_fstxn_def)
    then show ?thesis using returned run Inr sc by (simp add: scoped_def)
  next
    case (Inl e)
    let ?w' = "fstxn_commit E (fstxn_abort E w1)"
    have "or_abort E m (\<lambda>_. ret x) w = (Inr x, ?w')"
      using run Inl stuck by (simp add: or_abort_def with_fstxn_def)
    moreover have "same_db E w ?w'" using scoped_abort [OF assms(1) sc] by (simp add: same_db_def assms(1))
    moreover have more: "world.more ?w' = world.more w1" by simp
    moreover have "J (pcache ?w')" using more_caches(2) [OF more] sc by (simp add: scoped_def)
    ultimately show ?thesis using aborted run Inl txns_commit by metis
  qed
qed

end
