(* ===== verification/Tool_Laws.thy ===== *)
theory Tool_Laws
  imports Transaction_Laws
begin

text \<open>
  The tools under transactions: every command of \<^verbatim>\<open>offmedia\<close> and every line of \<^verbatim>\<open>offimport\<close> is
  undoable.
\<close>

section \<open>offmedia\<close>

lemmas undo_media [undo_rules] = undo_safe [OF safe_getmedium] undo_safe [OF getmedium_label_safe]
  undo_safe [OF getregisters_safe]

lemma undo_print [undo_rules]: "undoable E J (print s)"
  by (rule undoableI) (auto simp: print_def modify_def)

lemma undo_opt_medium [undo_rules]: "undoable E J (opt_medium E o')"
  unfolding opt_medium_def by (intro undo_rules) simp

lemma undo_medium_create [undo_rules]: "lawful E \<Longrightarrow> undoable E J (medium_create E type)"
  unfolding medium_create_def medium_directory_create_def medium_insert_create_def by (intro undo_rules) simp_all

lemma too_distinct [simp]: "too_many \<noteq> EStuck" "too_few \<noteq> EStuck"
  by (simp_all add: too_many_def too_few_def)

lemma undo_media_command:
  assumes "lawful E"
  shows "undoable E J (media_command E o')"
proof -
  have "undoable E J (media_add E o' type)" for type
    unfolding media_add_def by (intro undo_rules assms) simp_all
  moreover have "undoable E J (media_set E o')"
    unfolding media_set_def by (intro undo_rules assms) simp_all
  moreover have "undoable E J (media_unset E o')" and "undoable E J (media_remove E o')"
    unfolding media_unset_def media_remove_def by (intro undo_rules assms; simp)+
  moreover have "undoable E J (media_list E o')"
    unfolding media_list_def list_medium_def list_attribute_def by (intro undo_rules) simp_all
  ultimately show ?thesis
    unfolding media_command_def by (intro undo_rules) simp_all
qed

section \<open>offimport\<close>

definition cache_fine :: "pcache \<Rightarrow> bool" where
  "cache_fine c \<longleftrightarrow> pc_ok (\<lambda>_ _. True) [] c \<and> 0 < pc_max c"

lemma pc_inv_fine: "pc_inv E w \<longleftrightarrow> cache_fine (pcache w)"
  by (simp add: pc_inv_def cache_fine_def)

lemma cache_fine_new [simp]: "cache_fine new_pcache"
  using pc_ok_new by (simp add: cache_fine_def new_pcache_def PATHCACHE_MAX_ENTRIES_def)

lemma undo_hash_getnode [undo_rules]:
  fixes E :: "('s, 'h) env"
  assumes "lawful E"
  shows "undoable E cache_fine (hash_getnode E sctx p :: ('s, 'h, 'z, node) pop)"
proof (rule undoableI)
  fix w :: "('s, 'h, 'z) pworld_scheme" and r w' d
  assume "cache_fine (pcache w)" and "hash_getnode E sctx p w = (r, w')"
  then obtain c where "w' = w\<lparr>pcache := c\<rparr>" and "cache_fine c" and "r \<noteq> Inl EStuck"
    using hash_getnode_law [OF assms, of w sctx p] by (auto simp: pc_inv_fine)
  then show "txns w' d = txns w d \<and> b_undo (edb E) (dbs w' d) = b_undo (edb E) (dbs w d)
      \<and> cache_fine (pcache w') \<and> r \<noteq> Inl EStuck" by simp
qed

lemma undo_cast [undo_rules]: "undoable E J (cast k n)"
  unfolding cast_def by (intro undo_rules) simp

lemma undo_path_new [undo_rules]: "lawful E \<Longrightarrow> undoable E cache_fine (path_new (hash_getnode E) sctx p)"
  unfolding path_new_def by (auto intro: undo_rules split: prod.split)

lemma undo_access [undo_rules]: "undoable E J (access E sctx n mode)"
  by (rule undo_safe) (rule safe_access)

lemma undo_link [undo_rules]: "lawful E \<Longrightarrow> undoable E J (link E n)"
  unfolding link_def by (intro undo_rules)

lemma undo_remove [undo_rules]: "lawful E \<Longrightarrow> undoable E J (remove E n)"
  unfolding remove_def directory_remove_def file_remove_def node_remove_def
  by (cases "nkind n") (auto intro!: undo_rules undo_safe [OF safe_source_remove])

lemma undo_unlink [undo_rules]: "lawful E \<Longrightarrow> undoable E J (unlink E n)"
  unfolding unlink_def by (intro undo_rules)

lemma undo_addchild [undo_rules]: "lawful E \<Longrightarrow> undoable E J (addchild E d name n)"
  unfolding addchild_def by (intro undo_rules) simp_all

lemma undo_create_kind [undo_rules]: "lawful E \<Longrightarrow> undoable E J (create_kind E k)"
  unfolding create_kind_def node_create_def file_create_def directory_create_def symlink_create_def Let_def
  by (cases k) (auto intro!: undo_rules)

lemma undo_path_create [undo_rules]: "lawful E \<Longrightarrow> undoable E J (path_create E k p sctx)"
  unfolding path_create_def by (intro undo_rules)

lemma undo_parse [undo_rules]: "undoable E J (parse_unsigned s)" "undoable E J (parse_signed s)" "undoable E J (parse_uint8 s)"
  unfolding parse_unsigned_def parse_signed_def parse_uint8_def parse_error_def
  by (auto intro!: undo_rules split: prod.split option.split list.split)

lemma undo_import_create [undo_rules]:
  assumes "lawful E"
  shows "undoable E cache_fine (import_create E o' sctx medium nodetype p)"
  unfolding import_create_def create_at_def addfile_def by (intro undo_rules assms)

lemma undo_import_node [undo_rules]: "lawful E \<Longrightarrow> undoable E cache_fine (import_node E o' sctx medium nodetype p)"
  unfolding import_node_def Let_def by (intro undo_rules) simp_all

lemma undo_import_attrs [undo_rules]:
  assumes "lawful E"
  shows "undoable E J (import_attrs E m n nodetype creating)"
  unfolding import_attrs_def import_link_def import_group_def import_user_def import_time_def import_perms_def
    import_size_def import_xattrs_def settle_type_def Let_def
  by (intro undo_rules assms) simp_all

lemma undo_import_fields:
  assumes "lawful E"
  shows "undoable E cache_fine (import_fields E o' sctx medium m)"
  unfolding import_fields_def node_type_def Let_def
  by (intro undo_rules assms) (auto intro!: undo_rules assms split: option.split prod.split)

section \<open>Fields that are not read as documented\<close>

text \<open>A user given by a name that the user database knows is looked up and then not stored.\<close>

lemma import_user_ignored:
  assumes "f_numuser m = ''''" and "f_user m \<noteq> ''''" and "snd (read_unsigned 10 (2 ^ LENGTH(32)) (f_user m))"
    and "p_getpwnam (sys E) (cstring (f_user m)) (host w) = Some u"
  shows "import_user E m n creating w = (Inr (), w)"
proof -
  obtain v where "read_unsigned 10 (2 ^ LENGTH(32)) (f_user m) = (v, True)"
    using assms(3) by (cases "read_unsigned 10 (2 ^ LENGTH(32)) (f_user m)") auto
  then have "parse_unsigned (f_user m) w = (Inl (parse_error (f_user m)) :: exn + uid_t, w)"
    by (simp add: parse_unsigned_def)
  then show ?thesis
    using assms(1,2,4) by (simp add: import_user_def parse_error_def handle_def bind_def)
qed

text \<open>An attribute of 8 bits gets the code of the first character, not the number: 49 for \<^verbatim>\<open>12\<close>.\<close>

lemma import_x8_character: "parse_uint8 ''12'' w = (Inr 49, w)"
  by (simp add: parse_uint8_def white_def)

end
