(* ===== verification/Format_Laws.thy ===== *)
theory Format_Laws
  imports Tool_Format
begin

text \<open>
  Format strings can be written down again: the text of a list of tokens, and what the parser
  makes of it.
\<close>

section \<open>Searching for one character\<close>

lemma find_str_char: "c \<notin> set a \<Longrightarrow> find_str [c] (pre @ a @ c # b) (length pre) = Some (length pre + length a)"
proof (rule find_str_first)
  fix j assume c: "c \<notin> set a" and "length pre \<le> j" and "j < length pre + length a"
  then have "take (length [c]) (drop j (pre @ a @ c # b)) = [a ! (j - length pre)]"
    by (simp add: take_Suc_conv_app_nth drop_append take_Suc hd_drop_conv_nth hd_append nth_append hd_conv_nth)
  then show "take (length [c]) (drop j (pre @ a @ c # b)) \<noteq> [c]"
    using c nth_mem [of "j - length pre" a] \<open>length pre \<le> j\<close> \<open>j < length pre + length a\<close> by auto
qed simp_all

lemma find_str_no_char: "c \<notin> set a \<Longrightarrow> find_str [c] (pre @ a) (length pre) = None"
proof (rule ccontr)
  assume c: "c \<notin> set a" and "find_str [c] (pre @ a) (length pre) \<noteq> None"
  then obtain i where "find_str [c] (pre @ a) (length pre) = Some i" by auto
  then have i: "length pre \<le> i" "i < length (pre @ a)" and hit: "take (length [c]) (drop i (pre @ a)) = [c]"
    using find_str_SomeD by fastforce+
  then have "(pre @ a) ! i = c" by (metis hd_drop_conv_nth hd_take length_Cons list.sel(1) list.size(3) zero_less_Suc)
  then have "a ! (i - length pre) = c" and "i - length pre < length a" using i by (auto simp: nth_append)
  then show False using c nth_mem by blast
qed

section \<open>The text of a format\<close>

fun dbl :: "string \<Rightarrow> string" where
  "dbl [] = []"
| "dbl (c # s) = (if c = CHR ''%'' then [c, c] else [c]) @ dbl s"

definition show_spec :: "'m dtok \<Rightarrow> string" where
  "show_spec t = tok (fspec t) @ (if fmapparams (fspec t) = None then '''' else ''{'' @ param t @ ''}'')"

definition show_dtok :: "'m dtok \<Rightarrow> string" where
  "show_dtok t = ''%'' @ show_spec t @ dbl (delimiter t)"

text \<open>The first token stands for the text before the first percent sign.\<close>

definition show_format :: "'m dtok list \<Rightarrow> string" where
  "show_format ts = dbl (delimiter (hd ts)) @ concat (map show_dtok (tl ts))"

text \<open>No token of a specification begins another, and none begins with a percent sign.\<close>

definition prefix_free :: "'m fspec list \<Rightarrow> bool" where
  "prefix_free specs \<longleftrightarrow> (\<forall>sp \<in> set specs. tok sp \<noteq> '''' \<and> hd (tok sp) \<noteq> CHR ''%'')
     \<and> (\<forall>sp \<in> set specs. \<forall>sp' \<in> set specs. take (length (tok sp)) (tok sp') = tok sp \<longrightarrow> sp = sp')"

definition good_dtok :: "'m fspec list \<Rightarrow> 'm dtok \<Rightarrow> bool" where
  "good_dtok specs t \<longleftrightarrow> fspec t \<in> set specs \<and> CHR ''}'' \<notin> set (param t) \<and> (fmapparams (fspec t) = None \<longrightarrow> param t = '''')"

definition good_format :: "'m fspec list \<Rightarrow> 'm dtok list \<Rightarrow> bool" where
  "good_format specs ts \<longleftrightarrow> ts \<noteq> [] \<and> fspec (hd ts) = no_fspec \<and> param (hd ts) = '''' \<and> (\<forall>t \<in> set (tl ts). good_dtok specs t)"

lemma dbl_append: "dbl (a @ b) = dbl a @ dbl b"
  by (induction a) auto

lemma dbl_id: "CHR ''%'' \<notin> set a \<Longrightarrow> dbl a = a"
  by (induction a) auto

section \<open>Parsing it\<close>

text \<open>What the parser does when it has found a percent sign that is not doubled.\<close>

definition after :: "'m fspec list \<Rightarrow> string \<Rightarrow> nat \<Rightarrow> 'm dtok list \<Rightarrow> 'm dtok \<Rightarrow> exn + 'm dtok list" where
  "after specs s pos toks dt =
     (case read_tok specs s pos of
        Inl e \<Rightarrow> Inl e
      | Inr (sp, prm, ssize) \<Rightarrow> parse_loop specs s (pos + ssize) (toks @ [dt]) (new_dtok\<lparr>fspec := sp, param := prm\<rparr>))"

lemma char_at_append [simp]: "char_at (a @ c # b) (length a) = c"
  by (simp add: char_at_def)

lemma char_at_next: "char_at (pre @ a @ x # c # b) (length pre + length a + 1) = c"
  using char_at_append [of "pre @ a @ [x]" c b] by (simp add: add.assoc)

lemma parse_delim:
  assumes "tail = [] \<or> (\<exists>c r. tail = CHR ''%'' # c # r \<and> c \<noteq> CHR ''%'')"
  shows "parse_loop specs (pre @ dbl d @ tail) (length pre) toks dt =
     (if tail = [] then Inr (toks @ [dt\<lparr>delimiter := delimiter dt @ d\<rparr>])
      else after specs (pre @ dbl d @ tail) (length pre + length (dbl d) + 1) toks (dt\<lparr>delimiter := delimiter dt @ d\<rparr>))"
proof (induction "length d" arbitrary: d pre dt rule: less_induct)
  case less
  let ?s = "pre @ dbl d @ tail"
  show ?case
  proof (cases "CHR ''%'' \<in> set d")
    case False
    show ?thesis
    proof (cases "tail = []")
      case True
      then show ?thesis
        using find_str_no_char [OF False, of pre] dbl_id [OF False] by (subst parse_loop.simps) simp
    next
      case ne: False
      then obtain c r where tail: "tail = CHR ''%'' # c # r" "c \<noteq> CHR ''%''" using assms by blast
      have "find_str ''%'' ?s (length pre) = Some (length pre + length d)"
        using find_str_char [OF False, of pre "c # r"] dbl_id [OF False] tail by simp
      moreover have "char_at ?s (length pre + length d + 1) = c"
        using char_at_next [of pre d "CHR ''%''" c r] dbl_id [OF False] tail by simp
      ultimately show ?thesis
        using tail ne
        by (subst parse_loop.simps) (simp add: after_def substr_def Let_def dbl_id [OF False] cong: sum.case_cong)
    qed
  next
    case True
    then obtain a b where d: "d = a @ CHR ''%'' # b" and a: "CHR ''%'' \<notin> set a" by (meson split_list_first)
    let ?pre = "pre @ a @ ''%%''"
    have s: "?s = pre @ a @ CHR ''%'' # CHR ''%'' # dbl b @ tail" by (simp add: d dbl_append dbl_id [OF a])
    have find: "find_str ''%'' ?s (length pre) = Some (length pre + length a)"
      using find_str_char [OF a, of pre "CHR ''%'' # dbl b @ tail"] s by simp
    have char: "char_at ?s (length pre + length a + 1) = CHR ''%''"
      using char_at_next [of pre a "CHR ''%''" "CHR ''%''" "dbl b @ tail"] s by simp
    have "parse_loop specs ?s (length pre) toks dt
        = parse_loop specs (?pre @ dbl b @ tail) (length ?pre) toks (dt\<lparr>delimiter := delimiter dt @ a @ ''%''\<rparr>)"
      using find char by (subst parse_loop.simps) (simp add: s substr_def Let_def)
    also have "\<dots> = (if tail = [] then Inr (toks @ [dt\<lparr>delimiter := delimiter dt @ d\<rparr>])
      else after specs ?s (length pre + length (dbl d) + 1) toks (dt\<lparr>delimiter := delimiter dt @ d\<rparr>))"
      using less [of b ?pre "dt\<lparr>delimiter := delimiter dt @ a @ ''%''\<rparr>"] s
      by (simp add: d dbl_append dbl_id [OF a] add.assoc)
    finally show ?thesis .
  qed
qed

lemma prefix_either: "take (length a) (b @ r) = a \<Longrightarrow> take (length a) b = a \<or> take (length b) a = b"
  by (metis append_eq_append_conv_if append_take_drop_id append_eq_conv_conj nat_le_linear take_all take_append)

lemma find_spec:
  assumes "prefix_free specs" and "sp \<in> set specs"
  shows "find (\<lambda>sp'. take (length (tok sp')) (tok sp @ r) = tok sp') specs = Some sp"
proof -
  have uniq: "sp' = sp" if "sp' \<in> set specs" and "take (length (tok sp')) (tok sp @ r) = tok sp'" for sp'
    using prefix_either [OF that(2)] that(1) assms unfolding prefix_free_def by metis
  let ?P = "\<lambda>sp'. take (length (tok sp')) (tok sp @ r) = tok sp'"
  have "?P sp" by simp
  then obtain sp' where found: "find ?P specs = Some sp'" using assms(2) by (cases "find ?P specs") (auto simp: find_None_iff)
  then have "sp' \<in> set specs \<and> ?P sp'" unfolding find_Some_iff by (metis nth_mem)
  then show ?thesis using uniq found by simp
qed

lemma read_tok_show:
  assumes "prefix_free specs" and "good_dtok specs t"
  shows "read_tok specs (pre @ show_spec t @ r) (length pre) = Inr (fspec t, param t, length (show_spec t))"
proof -
  let ?s = "pre @ show_spec t @ r" and ?sp = "fspec t"
  obtain q where q: "show_spec t @ r = tok ?sp @ q" by (simp add: show_spec_def)
  have find: "find (\<lambda>sp. substr ?s (length pre) (length (tok sp)) = tok sp) specs = Some ?sp"
    using find_spec [OF assms(1), of ?sp q] assms(2) by (simp add: substr_def q good_dtok_def del: take_append)
  show ?thesis
  proof (cases "fmapparams ?sp")
    case None
    then show ?thesis using find assms(2) by (simp add: read_tok_def show_spec_def good_dtok_def Let_def)
  next
    case (Some f)
    let ?pre = "pre @ tok ?sp @ ''{''"
    have s: "?s = ?pre @ param t @ CHR ''}'' # r" using Some by (simp add: show_spec_def)
    have "find_str ''}'' ?s (length ?pre) = Some (length ?pre + length (param t))"
      using find_str_char [of "CHR ''}''" "param t" ?pre r] assms(2) s by (simp add: good_dtok_def)
    moreover have "char_at ?s (length pre + length (tok ?sp)) = CHR ''{''"
      using char_at_append [of "pre @ tok ?sp" "CHR ''{''" "param t @ CHR ''}'' # r"] s by simp
    moreover have "substr ?s (length ?pre) (length (param t)) = param t" unfolding s substr_def by simp
    moreover have "length (show_spec t) = length (tok ?sp) + length (param t) + 2" using Some by (simp add: show_spec_def)
    ultimately show ?thesis using find Some by (simp add: read_tok_def Let_def)
  qed
qed

lemma show_spec_ne:
  assumes "prefix_free specs" and "good_dtok specs t"
  obtains c r where "show_spec t = c # r" and "c \<noteq> CHR ''%''"
  using assms unfolding prefix_free_def good_dtok_def show_spec_def by (cases "tok (fspec t)") auto

lemma parse_tokens:
  assumes "prefix_free specs"
  shows "\<forall>t \<in> set ts. good_dtok specs t \<Longrightarrow>
     parse_loop specs (pre @ dbl d @ concat (map show_dtok ts)) (length pre) toks dt
       = Inr (toks @ dt\<lparr>delimiter := delimiter dt @ d\<rparr> # ts)"
proof (induction ts arbitrary: pre d toks dt)
  case Nil
  then show ?case using parse_delim [of "[]" specs pre d toks dt] by simp
next
  case (Cons t ts)
  let ?tail = "concat (map show_dtok (t # ts))" and ?dt = "dt\<lparr>delimiter := delimiter dt @ d\<rparr>"
  let ?pre = "pre @ dbl d @ ''%''" and ?r = "dbl (delimiter t) @ concat (map show_dtok ts)"
  have good: "good_dtok specs t" using Cons.prems by simp
  obtain c r where c: "show_spec t = c # r" "c \<noteq> CHR ''%''" using show_spec_ne [OF assms good] .
  have tail: "?tail = CHR ''%'' # show_spec t @ ?r" by (simp add: show_dtok_def)
  have s: "pre @ dbl d @ ?tail = ?pre @ show_spec t @ ?r" by (simp add: show_dtok_def)
  have "parse_loop specs (pre @ dbl d @ ?tail) (length pre) toks dt = after specs (?pre @ show_spec t @ ?r) (length ?pre) toks ?dt"
    using parse_delim [of ?tail specs pre d toks dt] c unfolding s tail by simp
  also have "\<dots> = parse_loop specs (?pre @ show_spec t @ ?r) (length ?pre + length (show_spec t)) (toks @ [?dt])
      (new_dtok\<lparr>fspec := fspec t, param := param t\<rparr>)"
    by (simp only: after_def read_tok_show [OF assms good] sum.case prod.case)
  also have "\<dots> = Inr ((toks @ [?dt]) @ t # ts)"
    using Cons.IH [of "?pre @ show_spec t" "delimiter t" "toks @ [?dt]" "new_dtok\<lparr>fspec := fspec t, param := param t\<rparr>"]
      Cons.prems by (simp add: new_dtok_def add.assoc)
  finally show ?case by simp
qed

text \<open>Parsing undoes printing.\<close>

lemma fparse_show:
  assumes "prefix_free specs" and "good_format specs ts"
  shows "fparse specs (show_format ts) = Inr ts"
proof -
  obtain t rest where ts: "ts = t # rest" using assms(2) by (cases ts) (auto simp: good_format_def)
  have t: "new_dtok\<lparr>delimiter := delimiter t\<rparr> = t"
    using assms(2) by (cases t) (simp add: good_format_def ts new_dtok_def)
  show ?thesis
    using parse_tokens [OF assms(1), of rest "[]" "delimiter t" "[]" new_dtok] assms(2) t
    by (simp add: fparse_def show_format_def ts good_format_def new_dtok_def)
qed

end
