(* ===== verification/Tool_Props.thy ===== *)
theory Tool_Props
  imports Tool_Laws Format_Laws Example_Host
begin

text \<open>
  The properties of the tools, with their witnesses.
\<close>

section \<open>Reading lines\<close>

lemma takeWhile_line:
  assumes "k \<le> length (takeWhile P s)"
  shows "takeWhile P s = take k s @ takeWhile P (drop k s)"
proof -
  have "take k s = take k (takeWhile P s)"
    by (metis append_take_drop_id assms takeWhile_eq_take take_take min.absorb1 min_def nat_le_linear)
  then have "\<forall>x \<in> set (take k s). P x" by (metis in_set_takeD set_takeWhileD)
  then show ?thesis by (metis append_take_drop_id takeWhile_append2)
qed

lemma cstring_id: "CHR 0x00 \<notin> set b \<Longrightarrow> cstring b = b"
  unfolding cstring_def by (rule takeWhile_eq_all_conv [THEN iffD2]) auto

lemma takeWhile_short: "length (takeWhile (\<lambda>c. c \<noteq> x) s) < length s \<longleftrightarrow> x \<in> set s"
  by (induction s) auto

text \<open>A line is read whole, however long it is.\<close>

lemma read_line_exact:
  "CHR 0x00 \<notin> set s \<Longrightarrow> read_line s line =
     (line @ takeWhile (\<lambda>c. c \<noteq> CHR 0x0A) s, drop (Suc (length (takeWhile (\<lambda>c. c \<noteq> CHR 0x0A) s))) s,
      CHR 0x0A \<in> set s)"
proof (induction s line rule: read_line.induct)
  case (1 s line)
  let ?l = "takeWhile (\<lambda>c. c \<noteq> CHR 0x0A) s"
  have all: "length ?l < length s \<longleftrightarrow> CHR 0x0A \<in> set s"
    by (rule takeWhile_short)
  have nul: "CHR 0x00 \<notin> set ?l" "CHR 0x00 \<notin> set (take k s)" "CHR 0x00 \<notin> set (drop k s)" for k
    using 1(2) by (auto dest: set_takeWhileD in_set_takeD in_set_dropD)
  show ?case
  proof (cases "length ?l \<le> BUFSZ - 1")
    case True
    have short: "CHR 0x0A \<notin> set s \<Longrightarrow> drop (Suc (length ?l)) s = []"
      by (metis all drop_all le_SucI not_less)
    have g: "getline s = (if CHR 0x0A \<in> set s then (?l, drop (Suc (length ?l)) s, False, False) else (?l, [], ?l = [], True))"
      using True all by (simp add: getline_def Let_def)
    show ?thesis
    proof (cases "CHR 0x0A \<in> set s")
      case True
      then show ?thesis
        by (simp only: read_line.simps [of s line] g if_True prod.case cstring_id [OF nul(1)]) simp
    next
      case False
      then show ?thesis
        by (simp only: read_line.simps [of s line] g if_False prod.case cstring_id [OF nul(1)] short [OF False]) simp
    qed
  next
    case False
    then have g: "getline s = (take (BUFSZ - 1) s, drop (BUFSZ - 1) s, True, False)"
      by (simp add: getline_def Let_def)
    have l: "?l = take (BUFSZ - 1) s @ takeWhile (\<lambda>c. c \<noteq> CHR 0x0A) (drop (BUFSZ - 1) s)"
      using False by (intro takeWhile_line) linarith
    have nl: "CHR 0x0A \<in> set s \<longleftrightarrow> CHR 0x0A \<in> set (drop (BUFSZ - 1) s)"
    proof -
      have "CHR 0x0A \<notin> set (take (BUFSZ - 1) s)"
      proof
        assume "CHR 0x0A \<in> set (take (BUFSZ - 1) s)"
        then have "CHR 0x0A \<in> set ?l" by (subst l) simp
        then show False by (auto dest: set_takeWhileD)
      qed
      then show ?thesis by (metis Un_iff append_take_drop_id set_append)
    qed
    have len: "length (take (BUFSZ - 1) s) = BUFSZ - 1"
      using False length_takeWhile_le [of "\<lambda>c. c \<noteq> CHR 0x0A" s] by (simp only: length_take)
    have "read_line s line = read_line (drop (BUFSZ - 1) s) (line @ take (BUFSZ - 1) s)"
      using g nul(2) by (subst read_line.simps) (simp add: cstring_id)
    also have "\<dots> = ((line @ take (BUFSZ - 1) s) @ takeWhile (\<lambda>c. c \<noteq> CHR 0x0A) (drop (BUFSZ - 1) s),
        drop (Suc (length (takeWhile (\<lambda>c. c \<noteq> CHR 0x0A) (drop (BUFSZ - 1) s)))) (drop (BUFSZ - 1) s),
        CHR 0x0A \<in> set (drop (BUFSZ - 1) s))"
      using 1(1) [OF g [symmetric] refl refl] nul by (simp add: cstring_id)
    finally show ?thesis
      by (simp only: l nl length_append len drop_drop append_assoc add_Suc add.commute [of _ "BUFSZ - 1"] add_Suc_right)
  qed
qed

text \<open>
  The loop over the standard input reads the lines of the input, whatever their length: for an
  input without null characters, it sees what lies between the line ends, in order, and the text
  after the last of them. A line that is longer than the buffer of 1024 characters is read in pieces.
\<close>

theorem read_lines_exact:
  assumes "CHR 0x00 \<notin> set input"
  shows "read_lines input = split_at [CHR 0x0A] input"
  using assms
proof (induction input rule: read_lines.induct)
  case (1 s)
  let ?l = "takeWhile (\<lambda>c. c \<noteq> CHR 0x0A) s"
  have line: "read_line s [] = (?l, drop (Suc (length ?l)) s, CHR 0x0A \<in> set s)"
    using read_line_exact [OF 1(2), of "[]"] by simp
  have free: "\<forall>c \<in> set ?l. c \<notin> set [CHR 0x0A]" by (auto dest: set_takeWhileD)
  show ?case
  proof (cases "CHR 0x0A \<in> set s")
    case True
    then obtain a b where s: "s = a @ CHR 0x0A # b" and a: "CHR 0x0A \<notin> set a" by (meson split_list_first)
    then have "?l = a" by (simp add: takeWhile_tail) (auto simp: takeWhile_eq_all_conv)
    with s have "s = ?l @ CHR 0x0A # drop (Suc (length ?l)) s" by simp
    then have "split_at [CHR 0x0A] s = ?l # split_at [CHR 0x0A] (drop (Suc (length ?l)) s)"
      using split_at_append [of "CHR 0x0A" "[CHR 0x0A]" ?l] split_at_no_sep [OF free] by (metis append_Cons append_Nil list.set_intros(1))
    moreover have "read_lines (drop (Suc (length ?l)) s) = split_at [CHR 0x0A] (drop (Suc (length ?l)) s)"
      using 1(1) [OF line [symmetric] refl] True 1(2) by (auto dest: in_set_dropD)
    ultimately show ?thesis using line True by (subst read_lines.simps) simp
  next
    case False
    then have "?l = s" by (auto simp: takeWhile_eq_all_conv)
    then show ?thesis using line False free split_at_no_sep [of s "[CHR 0x0A]"] by (subst read_lines.simps) simp
  qed
qed

theorem read_lines_exact_witness:
  "read_lines (replicate 1500 CHR ''a'' @ [CHR 0x0A] @ ''b'') = split_at [CHR 0x0A] (replicate 1500 CHR ''a'' @ [CHR 0x0A] @ ''b'')"
  by (rule read_lines_exact) auto

section \<open>Escapes\<close>

text \<open>The reading of an escaped string.\<close>

fun unescape :: "string \<Rightarrow> string" where
  "unescape [] = []"
| "unescape [c] = [c]"
| "unescape (c # d # s) =
     (if c = CHR 0x5C then (if d = CHR ''n'' then CHR 0x0A else d) # unescape s else c # unescape (d # s))"

lemma unescape_other: "c \<noteq> CHR 0x5C \<Longrightarrow> unescape (c # s) = c # unescape s"
  by (cases s) auto

text \<open>
  What \<^verbatim>\<open>escape\<close> prints can be read back, and stays on its line: the value of an attribute is
  recovered from the listing, whatever backslashes, quotes and line ends it contains.
\<close>

theorem escape_readable: "unescape (escape_chars s) = s \<and> CHR 0x0A \<notin> set (escape_chars s)"
  by (induction s) (auto simp: unescape_other)

section \<open>Format strings\<close>

lemma import_specs_free: "prefix_free import_specs"
  unfolding prefix_free_def import_specs_def spec_val_def spec_params_def by simp

text \<open>
  C27. A format string is understood as it was meant: the format written for a list of tokens and
  delimiters parses, and a line that was printed with it gives back the value of every field, when
  no delimiter can be found before its place.
\<close>

theorem format_roundtrip:
  assumes "good_format import_specs (map fst tvs)" and "unambiguous tvs"
  shows "\<exists>f. fparse import_specs (show_format (map fst tvs)) = Inr f
     \<and> fmatch f no_fields (render tvs) = Inr (foldl (\<lambda>m (t, v). store_field t v m) no_fields tvs)"
  using fparse_show [OF import_specs_free assms(1)] match_loop_render [OF assms(2), of no_fields "[]"]
  by (simp add: fmatch_def)

theorem format_roundtrip_witness:
  "\<exists>f. fparse import_specs (''%z{k} %p'' @ [CHR 0x0A]) = Inr f
     \<and> fmatch f no_fields (''50% /a'' @ [CHR 0x0A]) = Inr (no_fields\<lparr>f_z := [(''k'', ''50%'')], f_path := ''/a''\<rparr>)"
proof -
  let ?z = "\<lparr>delimiter = '' '', fspec = spec_params ''z'' (\<lambda>m p v. m\<lparr>f_z := map_insert p v (f_z m)\<rparr>), param = ''k''\<rparr>"
  let ?p = "\<lparr>delimiter = [CHR 0x0A], fspec = spec_val ''p'' (\<lambda>m v. m\<lparr>f_path := v\<rparr>), param = []\<rparr>"
  let ?tvs = "[(new_dtok, []), (?z, ''50%''), (?p, ''/a'')]"
  have good: "good_format import_specs (map fst ?tvs)"
    by (simp add: good_format_def good_dtok_def import_specs_def new_dtok_def) (simp add: spec_val_def spec_params_def)
  have free: "unambiguous ?tvs"
    by (simp add: new_dtok_def All_less_Suc2 eval_nat_numeral)
  show ?thesis
    using format_roundtrip [OF good free]
    by (simp add: show_format_def show_dtok_def show_spec_def new_dtok_def no_fspec_def spec_val_def spec_params_def
        map_insert_def no_fields_def store_field_def)
qed

section \<open>Failing commands\<close>

text \<open>A command line without options, and empty databases.\<close>

definition no_mopts :: mopts where
  "no_mopts = \<lparr>o_add = None, o_set = False, o_unset = False, o_remove = False, o_list = False, o_label = None,
     o_id = None, o_verbose = False, o_noescape = False, o_attribute = None, o_value = None\<rparr>"

definition demo_media :: "(al_store, unit) tworld" where
  "demo_media = \<lparr>dbs = (\<lambda>d. ([], [])), txns = (\<lambda>d. False), opcount = 0, ckpts = 0, ticks = 0, host = (),
     scache = new_scache, pcache = new_pcache, out = []\<rparr>"

text \<open>
  C28. \<^verbatim>\<open>offmedia\<close> does the whole of a command or nothing: it always ends, and when its exit code is
  not 0 every database is as it was before; no transaction stays open.
\<close>

theorem offmedia_atomic:
  assumes "lawful E"
  shows "\<exists>c w'. offmedia E o' w = (Inr c, w') \<and> (\<forall>d. \<not> txns w' d) \<and> (c = 0 \<or> c = 1 \<and> same_db E w w')"
proof -
  have "undoable E (\<lambda>_. True) (andthen (media_command E o') (ret 0) :: (_, _, _, int) top)"
    by (intro undo_rules undo_media_command assms)
  from or_abort_cases [OF assms this TrueI, of w 1]
  show ?thesis
    by cases (auto simp: offmedia_def andthen_result txns_commit)
qed

theorem offmedia_atomic_witness:
  "\<exists>c w'. offmedia demo_env (no_mopts\<lparr>o_remove := True\<rparr>) demo_media = (Inr c, w') \<and> (c = 0 \<or> c = 1 \<and> same_db demo_env demo_media w')"
  using offmedia_atomic [OF demo_lawful] by blast

lemma match_loop_error: "match_loop ts m s p \<noteq> Inl EStuck"
  by (induction ts m s p rule: match_loop.induct) (auto split: option.split)

text \<open>What a line asks for, inside the handler and the transactions of the loop.\<close>

definition line_work :: "('s, 'h) env \<Rightarrow> iopts \<Rightarrow> scontext \<Rightarrow> medium option \<Rightarrow> fmap dtok list \<Rightarrow> string \<Rightarrow> ('s, 'h, 'z, unit) pop" where
  "line_work E o' sctx medium f line =
     (case fmatch f no_fields (line @ [CHR 0x0A]) of
        Inl e \<Rightarrow> throw e
      | Inr m \<Rightarrow> import_fields E o' sctx medium m)"

text \<open>All the lines of a list, one after the other, do what they ask for and commit it; empty ones ask for nothing.\<close>

inductive imported :: "('s, 'h) env \<Rightarrow> iopts \<Rightarrow> scontext \<Rightarrow> medium option \<Rightarrow> fmap dtok list \<Rightarrow> string list
    \<Rightarrow> ('s, 'h, 'z) pworld_scheme \<Rightarrow> ('s, 'h, 'z) pworld_scheme \<Rightarrow> bool" for E o' sctx medium f where
  none: "imported E o' sctx medium f [] w w"
| blank: "imported E o' sctx medium f lines w w' \<Longrightarrow> imported E o' sctx medium f ('''' # lines) w w'"
| line: "line \<noteq> '''' \<Longrightarrow> line_work E o' sctx medium f line (fstxn_begin E w) = (Inr (), w1) \<Longrightarrow>
    imported E o' sctx medium f lines (fstxn_commit E w1) w' \<Longrightarrow> imported E o' sctx medium f (line # lines) w w'"

inductive_cases imported_Cons: "imported E o' sctx medium f (line # lines) w w'"

lemma undo_line_work:
  assumes "lawful E"
  shows "undoable E cache_fine (line_work E o' sctx medium f line)"
proof (cases "fmatch f no_fields (line @ [CHR 0x0A])")
  case (Inl e)
  then have "e \<noteq> EStuck" using match_loop_error [of f no_fields _ 0] by (auto simp: fmatch_def)
  with Inl show ?thesis by (simp add: line_work_def undo_throw)
qed (simp add: line_work_def undo_import_fields [OF assms])

lemma import_line_eq: "import_line E o' sctx medium f line = or_abort E (andthen (line_work E o' sctx medium f line) (ret True)) (\<lambda>_. ret False)"
  by (simp add: import_line_def line_work_def andthen_def split: sum.split) (simp add: bind_def throw_def fun_eq_iff)

lemma import_line_cases:
  assumes "lawful E" and "cache_fine (pcache w)"
  obtains (worked) w1 where "line_work E o' sctx medium f line (fstxn_begin E w) = (Inr (), w1)"
      and "import_line E o' sctx medium f line w = (Inr True, fstxn_commit E w1)" and "cache_fine (pcache (fstxn_commit E w1))"
  | (undone) e w' where "fst (line_work E o' sctx medium f line (fstxn_begin E w)) = Inl e"
      and "import_line E o' sctx medium f line w = (Inr False, w')" and "same_db E w w'" and "\<forall>d. \<not> txns w' d"
proof -
  let ?m = "andthen (line_work E o' sctx medium f line) (ret True)"
  have u: "undoable E cache_fine ?m" by (intro undo_andthen undo_line_work [OF assms(1)] undo_ret)
  obtain r w1 where work: "line_work E o' sctx medium f line (fstxn_begin E w) = (r, w1)" by fastforce
  note R = or_abort_cases [OF assms(1) u assms(2), of "False"]
  show thesis
  proof (cases r)
    case (Inr x)
    then have "import_line E o' sctx medium f line w = (Inr True, fstxn_commit E w1)"
      using work by (simp add: import_line_eq or_abort_def with_fstxn_def)
    moreover have "?m (fstxn_begin E w) = (Inr True, w1)" using work Inr by simp
    with R have "cache_fine (pcache (fstxn_commit E w1))" by cases auto
    ultimately show thesis using worked work Inr by simp
  next
    case (Inl e)
    obtain w' where "import_line E o' sctx medium f line w = (Inr False, w')" and "same_db E w w'" and "\<forall>d. \<not> txns w' d"
      using R work Inl by cases (auto simp: import_line_eq txns_commit)
    then show thesis using undone work Inl by simp
  qed
qed

text \<open>
  C29. \<^verbatim>\<open>offimport\<close> stops at the first line that fails and undoes that line only. The exit code is 0
  when every line has done what it asks for, without an exception, each in transactions of its own that
  have been committed; it is 1 when a line throws, the ones before it have done what they ask for, and the
  databases are what those have made of them: nothing of the line itself stays, and the lines after it are not
  looked at. No transaction stays open. (A line that may not modify an existing node and finds its name taken
  is skipped; the code does not count that as a failure.)
\<close>

theorem import_atomic:
  assumes "lawful E" and "cache_fine (pcache w)" and "\<forall>d. \<not> txns w d"
  shows "\<exists>before rest c w1 w'. lines = before @ rest \<and> imported E o' sctx medium f before w w1
     \<and> import_loop E o' sctx medium f lines w = (Inr c, w') \<and> (\<forall>d. \<not> txns w' d)
     \<and> (c = 0 \<and> rest = [] \<and> w' = w1
      \<or> c = 1 \<and> same_db E w1 w' \<and> (\<exists>line more e. rest = line # more \<and> line \<noteq> ''''
          \<and> fst (line_work E o' sctx medium f line (fstxn_begin E w1)) = Inl e))"
  using assms(2,3)
proof (induction lines arbitrary: w)
  case Nil
  then show ?case by (auto intro: imported.none)
next
  case (Cons line lines)
  let ?loop = "import_loop E o' sctx medium f" and ?imp = "imported E o' sctx medium f"
  show ?case
  proof (cases "line = ''''")
    case True
    from Cons.IH [OF Cons.prems] obtain before rest c w1 w' where IH: "lines = before @ rest" "?imp before w w1" "?loop lines w = (Inr c, w')"
      "\<forall>d. \<not> txns w' d" "c = 0 \<and> rest = [] \<and> w' = w1 \<or> c = 1 \<and> same_db E w1 w' \<and> (\<exists>line more e. rest = line # more \<and> line \<noteq> ''''
          \<and> fst (line_work E o' sctx medium f line (fstxn_begin E w1)) = Inl e)" by blast
    then show ?thesis using True imported.blank [OF IH(2)]
      by (intro exI [of _ "line # before"] exI [of _ rest] exI [of _ c] exI [of _ w1] exI [of _ w']) simp
  next
    case ne: False
    show ?thesis
    proof (cases rule: import_line_cases [OF assms(1) Cons.prems(1), of o' sctx medium f line])
      case (1 w2)
      have "\<forall>d. \<not> txns (fstxn_commit E w2) d" by (simp add: txns_commit)
      from Cons.IH [OF 1(3) this] obtain before rest c w1 w' where IH: "lines = before @ rest" "?imp before (fstxn_commit E w2) w1"
        "?loop lines (fstxn_commit E w2) = (Inr c, w')" "\<forall>d. \<not> txns w' d" "c = 0 \<and> rest = [] \<and> w' = w1 \<or> c = 1 \<and> same_db E w1 w'
          \<and> (\<exists>line more e. rest = line # more \<and> line \<noteq> '''' \<and> fst (line_work E o' sctx medium f line (fstxn_begin E w1)) = Inl e)"
        by blast
      then show ?thesis using ne 1(2) imported.line [OF ne 1(1) IH(2)]
        by (intro exI [of _ "line # before"] exI [of _ rest] exI [of _ c] exI [of _ w1] exI [of _ w']) simp
    next
      case (2 e w')
      then show ?thesis using ne
        by (intro exI [of _ "[]"] exI [of _ "line # lines"] exI [of _ 1] exI [of _ w] exI [of _ w']) (simp add: imported.none)
    qed
  qed
qed

theorem import_atomic_witness:
  "\<exists>w'. import_loop demo_env (iopts.make True True None ''%p'' None) \<lparr>suid = 0, sgid = 0, sgroups = {0}\<rparr> None [] [''/f''] demo_fs
     = (Inr 1, w') \<and> same_db demo_env demo_fs w'"
proof -
  let ?o = "iopts.make True True None ''%p'' None" and ?s = "\<lparr>suid = 0, sgid = 0, sgroups = {0}\<rparr>"
  have fine: "cache_fine (pcache demo_fs)" using demo_cache by (simp add: cache_fine_def)
  have txns: "\<forall>d. \<not> txns demo_fs d" using demo_no_txns by blast
  have fails: "fst (line_work demo_env ?o ?s None [] ''/f'' w) \<noteq> Inr ()" for w :: "(al_store, unit) fsworld"
    by (simp add: line_work_def fmatch_def import_fields_def no_fields_def node_type_def bind_def)
  have first: "before = [] \<and> w1 = demo_fs" if "imported demo_env ?o ?s None [] before demo_fs w1" and "[''/f''] = before @ rest"
    for before rest and w1 :: "(al_store, unit) fsworld"
    using that(1)
  proof cases
    case (line l v ls)
    then have "l = ''/f''" using that(2) by simp
    then show ?thesis using line(3) fails [of "fstxn_begin demo_env demo_fs"] by simp
  qed (use that(2) in simp_all)
  obtain before rest c w1 w' where r: "[''/f''] = before @ rest" "imported demo_env ?o ?s None [] before demo_fs w1"
    and run: "import_loop demo_env ?o ?s None [] [''/f''] demo_fs = (Inr c, w')" and out: "rest = [] \<or> c = 1 \<and> same_db demo_env w1 w'"
    using import_atomic [OF demo_lawful fine txns, of "[''/f'']" ?o ?s None "[]"] by (elim exE conjE) (rule that, assumption, assumption, assumption, blast)
  show ?thesis using first [OF r(2,1)] r(1) run out by auto
qed

end
