(* ===== verification/Fuse_Main.thy ===== *)
theory Fuse_Main
  imports Fs_Files Fs_Attrs
begin

text \<open>
  offlinefs/main.cxx: the command line, the set-up of the process and the table of callbacks that
  relays the requests of FUSE to the file system. FUSE itself (the parser of its options and its main
  loop) is a parameter, as are the calls that change the process; the text written to
  \<^verbatim>\<open>std::cerr\<close> is left out.
\<close>

section \<open>The command line\<close>

record params =
  dbroot :: string
  dbgroup :: string
  dbumask :: string
  defmedium_of :: string

record cmdparams =
  c_dbroot :: "string option"
  c_dbgroup :: "string option"
  c_dbumask :: "string option"
  c_defmedium :: "string option"
  c_help :: bool
  c_rebuild :: bool

definition no_cmdparams :: cmdparams where
  "no_cmdparams = \<lparr>c_dbroot = None, c_dbgroup = None, c_dbumask = None, c_defmedium = None,
     c_help = False, c_rebuild = False\<rparr>"

text \<open>The keys the option parser passes; FUSE has negative ones for what it does not recognise.\<close>

abbreviation (input) KEY_VERSION :: int where "KEY_VERSION \<equiv> 0"
abbreviation (input) KEY_HELP :: int where "KEY_HELP \<equiv> 1"
abbreviation (input) KEY_REBUILDDB :: int where "KEY_REBUILDDB \<equiv> 2"

text \<open>The result, 1 to keep the argument, the parameters and the arguments left for FUSE.\<close>

definition opt_proc :: "cmdparams \<Rightarrow> int \<Rightarrow> string list \<Rightarrow> int \<times> cmdparams \<times> string list" where
  "opt_proc d key outargs =
     (if key = KEY_VERSION then (1, d\<lparr>c_help := True\<rparr>, outargs)
      else if key = KEY_HELP then (0, d\<lparr>c_help := True\<rparr>, outargs @ [''-ho''])
      else if key = KEY_REBUILDDB then (0, d\<lparr>c_rebuild := True\<rparr>, outargs)
      else (1, d, outargs))"

text \<open>The parameters: the default of the first comes from \<^verbatim>\<open>HOME\<close>.\<close>

definition params_of :: "string option \<Rightarrow> cmdparams \<Rightarrow> params" where
  "params_of home c =
     \<lparr>dbroot = (case c_dbroot c of Some r \<Rightarrow> r
        | None \<Rightarrow> (case home of Some h \<Rightarrow> h @ ''/.offlinefs/'' | None \<Rightarrow> '''')),
      dbgroup = (case c_dbgroup c of Some g \<Rightarrow> g | None \<Rightarrow> ''''),
      dbumask = (case c_dbumask c of Some u \<Rightarrow> u | None \<Rightarrow> ''''),
      defmedium_of = (case c_defmedium c of Some m \<Rightarrow> m | None \<Rightarrow> '''')\<rparr>"

section \<open>The set-up of the process\<close>

text \<open>The calls that change the process: \<^verbatim>\<open>setegid\<close> returns 0 on success.\<close>

record 'h process =
  pr_setegid :: "gid_t \<Rightarrow> 'h \<Rightarrow> int \<times> 'h"
  pr_umask :: "mode_t \<Rightarrow> 'h \<Rightarrow> mode_t \<times> 'h"

text \<open>
  The two steps return \<open>False\<close> where \<^verbatim>\<open>main\<close> returns 1. The pointer passed to
  \<^verbatim>\<open>getgrnam\<close> is not null, because \<open>dbgroup\<close> has been copied from it.
\<close>

definition apply_group :: "('s, 'h) env \<Rightarrow> 'h process \<Rightarrow> cmdparams \<Rightarrow> params \<Rightarrow> ('s, 'h, 'z, bool) op" where
  "apply_group E pr c p =
     (if dbgroup p = '''' then ret True
      else bind (gets (\<lambda>w. p_getgrnam (sys E) (the (c_dbgroup c)) (host w))) (\<lambda>gr.
        case gr of
          None \<Rightarrow> ret False
        | Some g \<Rightarrow> bind (hostM (pr_setegid pr g)) (\<lambda>r. ret (r = 0))))"

text \<open>
  The flag \<^verbatim>\<open>std::ios::oct\<close> is set beside \<^verbatim>\<open>dec\<close>, which the stream has from the start; an
  extraction reads octal digits only when \<^verbatim>\<open>oct\<close> is the one flag of the base field, and
  decimal digits here.
\<close>

definition apply_umask :: "'h process \<Rightarrow> params \<Rightarrow> ('s, 'h, 'z, bool) op" where
  "apply_umask pr p =
     (if dbumask p = '''' then ret True
      else case read_unsigned 10 (2 ^ 32) (dbumask p) of (v, failed) \<Rightarrow>
        if failed then ret False
        else bind (hostM (pr_umask pr (word_of_nat v))) (\<lambda>_. ret True))"

text \<open>
  \<open>parsed\<close> is what the option parser has made of the command line, \<open>None\<close> on an error, and
  \<open>fuse\<close> the main loop of FUSE.
\<close>

definition main_prog :: "('s, 'h) env \<Rightarrow> 'h process \<Rightarrow> string option \<Rightarrow> cmdparams option \<Rightarrow> (params \<Rightarrow> ('s, 'h, 'z, int) fop)
    \<Rightarrow> ('s, 'h, 'z, int) fop" where
  "main_prog E pr home parsed fuse =
     (case parsed of
        None \<Rightarrow> ret (- 1)
      | Some c \<Rightarrow>
          let p = params_of home c in
          bind (apply_group E pr c p) (\<lambda>ok.
            if \<not> ok then ret 1
            else bind (apply_umask pr p) (\<lambda>ok.
              if \<not> ok then ret 1
              else if \<not> c_help c \<and> dbroot p = '''' then ret (- 1)
              else if \<not> c_help c \<and> c_rebuild c then andthen (fsdb_rebuild E) (ret 0)
              else fuse p)))"

section \<open>The callbacks\<close>

text \<open>
  A request with the arguments the file system looks at. The operations on an open file get a path as
  well, which the file system ignores; what is read into a buffer is part of the reply.
\<close>

datatype request =
    Getattr string | Readdir string | Readlink string bytes
  | Mknod string mode_t dev_t | Mkdir string mode_t | Unlink string | Rmdir string
  | Symlink string string | Rename string string | Link string string
  | Chmod string mode_t | Chown string uid_t gid_t | Truncate string off_t
  | Open string "32 word" | Read "64 word" nat off_t | Write "64 word" bytes off_t
  | Statfs | Flush "64 word" | Release "64 word" | Fsync int "64 word"
  | Setxattr string string bytes int | Getxattr string string bytes | Listxattr string nat | Removexattr string string
  | Utimens string "(time_t \<times> time_t) option" | Access string mode_t | Opendir string

datatype reply =
    Code int | Stat_Reply int "stat_buf option" | Dir_Reply int "string list" | Data_Reply int bytes
  | Open_Reply int "nat option" | Vfs_Reply int "statvfs_buf option"

definition reply_as :: "('a \<Rightarrow> reply) \<Rightarrow> ('s, 'h, 'z, 'a) fop \<Rightarrow> ('s, 'h, 'z, reply) fop" where
  "reply_as f m = bind m (\<lambda>r. ret (f r))"

primrec serve :: "('s, 'h) env \<Rightarrow> caller \<Rightarrow> request \<Rightarrow> ('s, 'h, 'z, reply) fop" where
  "serve E ctx (Getattr p) = reply_as (\<lambda>(c, b). Stat_Reply c b) (fs_getattr E ctx p)"
| "serve E ctx (Readdir p) = reply_as (\<lambda>(c, l). Dir_Reply c l) (fs_readdir E ctx p)"
| "serve E ctx (Readlink p buf) = reply_as (\<lambda>(c, b). Data_Reply c b) (fs_readlink E ctx p buf)"
| "serve E ctx (Mknod p mode dev) = reply_as Code (fs_mknod E ctx p mode dev)"
| "serve E ctx (Mkdir p mode) = reply_as Code (fs_mkdir E ctx p mode)"
| "serve E ctx (Unlink p) = reply_as Code (fs_unlink E ctx p)"
| "serve E ctx (Rmdir p) = reply_as Code (fs_rmdir E ctx p)"
| "serve E ctx (Symlink old new) = reply_as Code (fs_symlink E ctx old new)"
| "serve E ctx (Rename old new) = reply_as Code (fs_rename E ctx old new)"
| "serve E ctx (Link old new) = reply_as Code (fs_link E ctx old new)"
| "serve E ctx (Chmod p mode) = reply_as Code (fs_chmod E ctx p mode)"
| "serve E ctx (Chown p uid gid) = reply_as Code (fs_chown E ctx p uid gid)"
| "serve E ctx (Truncate p len) = reply_as Code (fs_truncate E ctx p len)"
| "serve E ctx (Open p flags) = reply_as (\<lambda>(c, h). Open_Reply c h) (fs_open E ctx p flags)"
| "serve E ctx (Read fh n off) = reply_as (\<lambda>(c, b). Data_Reply c b) (fs_read E fh n off)"
| "serve E ctx (Write fh buf off) = reply_as Code (fs_write E fh buf off)"
| "serve E ctx Statfs = reply_as (\<lambda>(c, b). Vfs_Reply c b) (fs_statfs E)"
| "serve E ctx (Flush fh) = reply_as Code (fs_flush E fh)"
| "serve E ctx (Release fh) = reply_as Code (fs_release E fh)"
| "serve E ctx (Fsync datasync fh) = reply_as Code (fs_fsync E datasync fh)"
| "serve E ctx (Setxattr p name v flags) = reply_as Code (fs_setxattr E ctx p name v flags)"
| "serve E ctx (Getxattr p name buf) = reply_as (\<lambda>(c, b). Data_Reply c b) (fs_getxattr E ctx p name buf)"
| "serve E ctx (Listxattr p n) = reply_as (\<lambda>(c, b). Data_Reply c b) (fs_listxattr E ctx p n)"
| "serve E ctx (Removexattr p name) = reply_as Code (fs_removexattr E ctx p name)"
| "serve E ctx (Utimens p tv) = reply_as Code (fs_utimens E ctx p tv)"
| "serve E ctx (Access p mode) = reply_as Code (fs_access E ctx p mode)"
| "serve E ctx (Opendir p) = reply_as Code (fs_opendir E ctx p)"

text \<open>The callbacks of a mount and of its end; the directory of the databases is part of \<open>E\<close>.\<close>

definition fuse_init :: "('s, 'h) env \<Rightarrow> params \<Rightarrow> ('s, 'h, 'z, unit) fop" where
  "fuse_init E p = fs_new E (defmedium_of p)"

definition fuse_destroy :: "('s, 'h) env \<Rightarrow> ('s, 'h, 'z, unit) fop" where
  "fuse_destroy E = fs_delete E"

end
