(* ===== verification/Fs_Queries.thy ===== *)
theory Fs_Queries
  imports Fs_Refine_Create Fs_File_Laws
begin

text \<open>
  The handlers that only ask: they change nothing in the databases, whichever way they end. A
  computation is \<open>steady\<close> when that holds of it and it keeps the file system in order.
\<close>

section \<open>Steady computations\<close>

named_theorems steady_rules

definition calm :: "('s, 'h) env \<Rightarrow> ('s, 'h, 'z) pworld_scheme \<Rightarrow> ('s, 'h, 'z) pworld_scheme \<Rightarrow> bool" where
  "calm E w0 w \<longleftrightarrow> fsys E w \<and> same_db E w0 w"

definition calm_exn :: "('s, 'h) env \<Rightarrow> ('s, 'h, 'z) pworld_scheme \<Rightarrow> exn \<Rightarrow> ('s, 'h, 'z) pworld_scheme \<Rightarrow> bool" where
  "calm_exn E w0 e w \<longleftrightarrow> calm E w0 w \<and> e \<noteq> EStuck"

definition steady :: "('s, 'h) env \<Rightarrow> ('s, 'h, 'z, 'a) pop \<Rightarrow> bool" where
  "steady E m \<longleftrightarrow> (\<forall>w0. hoare (calm E w0) m (\<lambda>_. calm E w0) (calm_exn E w0))"

lemma steady_hoare: "steady E m \<Longrightarrow> hoare (calm E w0) m (\<lambda>_. calm E w0) (calm_exn E w0)"
  by (simp add: steady_def)

lemma steadyI:
  assumes "\<And>w r w'. fsys E w \<Longrightarrow> m w = (r, w') \<Longrightarrow> fsys E w' \<and> same_db E w w' \<and> r \<noteq> Inl EStuck"
  shows "steady E m"
  unfolding steady_def
proof (intro allI hoareI)
  fix w0 w a w' assume "calm E w0 w" and "m w = (Inr a, w')"
  then show "calm E w0 w'" using assms [of w "Inr a" w'] by (auto simp: calm_def same_db_def)
next
  fix w0 w e w' assume "calm E w0 w" and "m w = (Inl e, w')"
  then show "calm_exn E w0 e w'" using assms [of w "Inl e" w'] by (auto simp: calm_exn_def calm_def same_db_def)
qed

lemma steady_bind [steady_rules]: "steady E m \<Longrightarrow> (\<And>a. steady E (f a)) \<Longrightarrow> steady E (bind m f)"
  unfolding steady_def by (blast intro: hoare_bind)

lemma steady_andthen [steady_rules]: "steady E m \<Longrightarrow> steady E k \<Longrightarrow> steady E (andthen m k)"
  unfolding andthen_def by (rule steady_bind)

lemma steady_safe:
  assumes "safe m"
  shows "steady E m"
proof (rule steadyI)
  fix w r w' assume w: "fsys E w" and run: "m w = (r, w')"
  have h: "host_only w w'" by (rule safeD(1) [OF assms run])
  have same: "same_db E w w'" by (rule host_only_same_db [OF h])
  have "fsys E w'"
    using same_db_fs_inv [OF same] more_caches(3) [OF host_only_more [OF h]] w by (simp add: fsys_def)
  then show "fsys E w' \<and> same_db E w w' \<and> r \<noteq> Inl EStuck" using same safeD(2) [OF assms run] by simp
qed

lemma steady_if [steady_rules]: "steady E m \<Longrightarrow> steady E k \<Longrightarrow> steady E (if c then m else k)"
  by simp

lemma steady_whenM [steady_rules]: "steady E m \<Longrightarrow> steady E (whenM c m)"
  by (simp add: whenM_def steady_safe [OF safe_ret])

lemma steady_prod [steady_rules]: "(\<And>a b. steady E (f a b)) \<Longrightarrow> steady E (case r of (a, b) \<Rightarrow> f a b)"
  by (simp split: prod.split)

lemmas steady_reads [steady_rules] = steady_safe [OF safe_ret] steady_safe [OF safe_getattr] steady_safe [OF safe_getattrv]
  steady_safe [OF safe_access] steady_safe [OF safe_getmedium]

lemma steady_cast [steady_rules]: "steady E (cast k n)"
  by (rule steady_safe) (rule safe_cast)

lemma steady_getattrs [steady_rules]: "steady E (getattrs E' d i)"
  by (rule steady_safe, rule safeI) (auto simp: getattrs_def scan_result_def split: prod.splits if_splits)

lemma steady_getregisters [steady_rules]: "steady E (getregisters E' d)"
  by (rule steady_safe) (rule getregisters_safe)

lemma steady_userctx [steady_rules]: "steady E (userctx E' ctx)"
proof (rule steadyI)
  fix w r w' assume w: "fsys E w" and run: "userctx E' ctx w = (r, w')"
  have same: "dbs w' = dbs w" and pc: "pcache w' = pcache w"
    using sc_get_db [OF run [unfolded userctx_def]] by simp_all
  have "sc_inv (scache w)" using w by (simp add: fsys_def caches_ok_def)
  then have "sc_inv (scache w') \<and> r \<noteq> Inl EStuck"
    by (cases rule: sc_get_cases [of w E' "fst ctx" "snd ctx"]) (use run in \<open>auto simp: userctx_def\<close>)
  then show "fsys E w' \<and> same_db E w w' \<and> r \<noteq> Inl EStuck"
    using w same pc same_db_fs_inv [of E w w'] by (simp add: fsys_def caches_ok_def pc_inv_def same_db_def)
qed

lemma steady_getnode [steady_rules]:
  assumes "lawful E"
  shows "steady E (getnode_path E sctx p)"
proof (rule steadyI)
  fix w r w' assume w: "fsys E w" and run: "getnode_path E sctx p w = (r, w')"
  have "pc_inv E w" using w by (simp add: fsys_def caches_ok_def)
  then obtain c where "w' = w\<lparr>pcache := c\<rparr>" and "pc_inv E w'" and "r \<noteq> Inl EStuck"
    using hash_getnode_law [OF assms, of w sctx p] run by auto
  then show "fsys E w' \<and> same_db E w w' \<and> r \<noteq> Inl EStuck"
    using w same_db_fs_inv [OF pcache_db, of E c w] by (simp add: fsys_def caches_ok_def)
qed

section \<open>Handlers\<close>

text \<open>It answers, with a result that satisfies \<open>Q\<close>, and changes nothing in the databases.\<close>

definition asks :: "('s, 'h) env \<Rightarrow> ('a \<Rightarrow> bool) \<Rightarrow> ('s, 'h, 'z, 'a) pop \<Rightarrow> ('s, 'h, 'z) pworld_scheme \<Rightarrow> bool" where
  "asks E Q h w \<longleftrightarrow> (\<exists>r w'. h w = (Inr r, w') \<and> Q r \<and> same_db E w w' \<and> fsys E w' \<and> (\<forall>d. \<not> txns w' d))"

lemma calm_asks:
  assumes "lawful E" and "fsys E w" and "hoare (calm E w) body (\<lambda>r w'. calm E w w' \<and> Q r) (calm_exn E w)" and "\<And>e. Q (code e)"
  shows "asks E Q (handle (with_fstxn E body) (\<lambda>e. ret (code e))) w"
proof -
  obtain r w1 where run: "body (fstxn_begin E w) = (r, w1)" by fastforce
  have "fsys E (fstxn_begin E w)" using assms(2) inorder_begin [OF assms(1) db_cache_pred, of "\<lambda>_. True"]
    by (simp add: inorder_def db_pred_def)
  then have "calm E w (fstxn_begin E w)" using same_db_begin [OF assms(1)] by (simp add: calm_def)
  then have post: "calm E w w1 \<and> r \<noteq> Inl EStuck \<and> (\<forall>a. r = Inr a \<longrightarrow> Q a)"
    using hoare_Inr [OF assms(3), of "fstxn_begin E w" _ w1] hoare_Inl [OF assms(3), of "fstxn_begin E w" _ w1] run
    by (cases r) (auto simp: calm_exn_def)
  then have "same_db E w (fstxn_commit E w1)" and "fsys E (fstxn_commit E w1)"
    using fsys_commit [OF assms(1)] same_db_commit [OF assms(1), of w1] by (auto simp: calm_def same_db_def)
  then show ?thesis
    using run txns_commit assms(4) post by (cases r) (auto simp: asks_def with_fstxn_def)
qed

lemma steady_asks:
  "lawful E \<Longrightarrow> fsys E w \<Longrightarrow> steady E body \<Longrightarrow> asks E (\<lambda>_. True) (handle (with_fstxn E body) (\<lambda>e. ret (code e))) w"
  by (rule calm_asks) (simp_all add: steady_hoare)

lemma asks_queries:
  fixes w :: "('s, 'h, 'z) fsworld_scheme"
  assumes "lawful E" and "fsys E w"
  shows "asks E (\<lambda>_. True) (fs_getattr E ctx p) w" and "asks E (\<lambda>_. True) (fs_readlink E ctx p buf) w" and "asks E (\<lambda>_. True) (fs_getxattr E ctx p name buf) w"
    and "asks E (\<lambda>_. True) (fs_listxattr E ctx p sz) w" and "asks E (\<lambda>_. True) (fs_access E ctx p mode) w" and "asks E (\<lambda>_. True) (fs_opendir E ctx p) w"
  unfolding fs_getattr_def fs_readlink_def fs_getxattr_def fs_listxattr_def fs_access_def fs_opendir_def handler_def
  by (rule steady_asks [OF assms], intro steady_rules assms(1))+

lemma safe_getstats: "safe (getstats E m)"
proof -
  have "safe (insert_getstats E i)" for i
    unfolding insert_getstats_def Let_def by (intro safe_rules)
  moreover have "safe (directory_getstats E i)" for i
    unfolding directory_getstats_def by (intro safe_rules) simp
  ultimately show ?thesis unfolding getstats_def by (cases "mclass m") simp_all
qed

lemma steady_stats_loop: "steady E (stats_loop E' ms st)"
proof (induction ms arbitrary: st)
  case (Cons i ms)
  have "steady E (getstats E' m)" for m by (rule steady_safe) (rule safe_getstats)
  then show ?case unfolding stats_loop.simps by (intro steady_bind steady_reads Cons.IH)
qed (simp add: steady_reads)

lemma asks_statfs:
  fixes w :: "('s, 'h, 'z) fsworld_scheme"
  assumes "lawful E" and "fsys E w"
  shows "asks E (\<lambda>_. True) (fs_statfs E) w"
  unfolding fs_statfs_def by (rule steady_asks [OF assms], intro steady_rules steady_stats_loop)

section \<open>Reserved attributes\<close>

lemma calm_caller:
  "hoare (calm E w0) (userctx E' ctx) (\<lambda>s w. calm E w0 w \<and> suid s = fst ctx) (calm_exn E w0)"
proof (rule hoareI)
  fix w s w' assume w: "calm E w0 w" and run: "userctx E' ctx w = (Inr s, w')"
  have "sc_inv (scache w)" using w by (simp add: calm_def fsys_def caches_ok_def)
  then have "suid s = fst ctx"
    by (cases rule: sc_get_cases [of w E' "fst ctx" "snd ctx"])
      (use run in \<open>auto simp: userctx_def sctx_for_def\<close>)
  then show "calm E w0 w' \<and> suid s = fst ctx" using hoare_Inr [OF steady_hoare [OF steady_userctx] run w] by simp
qed (rule hoare_Inl [OF steady_hoare [OF steady_userctx]])

lemma calm_denied:
  assumes "lawful E" and "fst ctx \<noteq> 0" and "is_reserved name"
  shows "hoare (calm E w0) (bind (userctx E ctx) (\<lambda>sctx. bind (getnode_path E sctx pathname) (\<lambda>n.
       bind (xattr_denied E sctx n name) (\<lambda>denied. if denied then ret c else k n)))) (\<lambda>r w. calm E w0 w \<and> r = c) (calm_exn E w0)"
proof (rule hoare_bind [OF calm_caller])
  fix sctx :: scontext
  show "hoare (\<lambda>w. calm E w0 w \<and> suid sctx = fst ctx) (bind (getnode_path E sctx pathname) (\<lambda>n.
       bind (xattr_denied E sctx n name) (\<lambda>denied. if denied then ret c else k n))) (\<lambda>r w. calm E w0 w \<and> r = c) (calm_exn E w0)"
  proof (cases "suid sctx = fst ctx")
    case True
    then have denied: "xattr_denied E sctx n name = ret True" for n
      using assms(2,3) by (simp add: xattr_denied_def)
    have "hoare (calm E w0) (bind (getnode_path E sctx pathname) (\<lambda>n. ret c)) (\<lambda>r w. calm E w0 w \<and> r = c) (calm_exn E w0)"
      by (rule hoare_bind [OF steady_hoare [OF steady_getnode [OF assms(1)]]]) (rule hoare_ret, simp)
    then have "hoare (calm E w0) (bind (getnode_path E sctx pathname) (\<lambda>n.
       bind (xattr_denied E sctx n name) (\<lambda>denied. if denied then ret c else k n))) (\<lambda>r w. calm E w0 w \<and> r = c) (calm_exn E w0)"
      by (simp only: denied bind_ret if_True)
    then show ?thesis by (rule hoare_pre) simp
  qed (simp add: hoare_def)
qed

lemma xattr_error_neg: "xattr_error e < 0"
  using errcode_neg [of e] by (cases e) (simp_all add: xattr_error_def)

lemma asks_reserved:
  fixes w :: "('s, 'h, 'z) fsworld_scheme"
  assumes "lawful E" and "fsys E w" and "fst ctx \<noteq> 0" and "is_reserved name"
  shows "asks E (\<lambda>c. c < 0) (fs_setxattr E ctx p name v flags) w" and "asks E (\<lambda>c. c < 0) (fs_removexattr E ctx p name) w"
proof -
  have *: "asks E (\<lambda>c. c < 0) (handle (with_fstxn E (bind (userctx E ctx) (\<lambda>sctx. bind (getnode_path E sctx p) (\<lambda>n.
       bind (xattr_denied E sctx n name) (\<lambda>denied. if denied then ret (- EACCES) else k n))))) (\<lambda>e. ret (xattr_error e))) w" for k
    by (rule calm_asks [where Q = "\<lambda>c. c < 0" and code = xattr_error, OF assms(1,2) _ xattr_error_neg])
      (rule hoare_weaken [OF calm_denied [OF assms(1,3,4), where c = "- EACCES" and k = k]], auto)
  show "asks E (\<lambda>c. c < 0) (fs_setxattr E ctx p name v flags) w"
    unfolding fs_setxattr_def by (rule *)
  show "asks E (\<lambda>c. c < 0) (fs_removexattr E ctx p name) w"
    unfolding fs_removexattr_def by (rule *)
qed

section \<open>readdir\<close>

text \<open>The names of a directory.\<close>

definition names_in :: "ftree \<Rightarrow> nodeid \<Rightarrow> string set" where
  "names_in t d = {n. n \<noteq> '''' \<and> fdirs t d n \<noteq> None}"

lemma names_in_attrs: "fs_inv E w \<Longrightarrow> names_in (ftree_of E w) d = attr_names E w DDirectories d"
  using link_invD(2) [OF fs_inv_link, of E w d] wattr_attr by (fastforce simp: names_in_def attr_names_def)

text \<open>What \<^verbatim>\<open>readdir\<close> promises: the names, each once and in order, of the directory the path leads to\<close>

definition readdir_spec :: "string \<Rightarrow> ftree \<Rightarrow> int \<times> string list \<Rightarrow> ftree \<Rightarrow> bool" where
  "readdir_spec p t r t' \<longleftrightarrow> t' = t \<and>
     (fst r < 0 \<and> snd r = []
      \<or> fst r = 0 \<and> (\<exists>d. walk t (tokenize ''/'' p) = Some d \<and> set (snd r) = names_in t d \<and> sorted_wrt (<) (snd r)))"

lemma refine_children:
  assumes "lawful E"
  shows "hoare (inorder E (at_node E t p n)) (bind (getchildren E n) (\<lambda>l. ret (0 :: int, l)))
     (\<lambda>r. inorder E (\<lambda>w. readdir_spec p t r (ftree_of E w))) R"
proof (rule hoareI)
  fix w r w' assume w: "inorder E (at_node E t p n) w" and run: "bind (getchildren E n) (\<lambda>l. ret (0 :: int, l)) w = (Inr r, w')"
  let ?N = "attr_names E w DDirectories (nid n)"
  have "getattrs E DDirectories (nid n) w = (Inr (sorted_list_of_set ?N), w)" by (rule getattrs_eq [OF assms]) simp
  then have r: "r = (0, sorted_list_of_set ?N)" and w': "w' = w" using run by (auto simp: getchildren_def bind_result)
  have "names_in t (nid n) = ?N"
    using w names_in_attrs [of E w "nid n"] by (simp add: inorder_def fsys_def at_node_def)
  then have "readdir_spec p t r (ftree_of E w)"
    using w r finite_attr_names [OF assms, of w DDirectories "nid n"] strict_sorted_list_of_set by (auto simp: readdir_spec_def inorder_def at_node_def)
  then show "inorder E (\<lambda>w. readdir_spec p t r (ftree_of E w)) w'" using w w' by (simp add: inorder_def)
qed (simp add: getchildren_def bind_result getattrs_eq [OF assms])

lemma readdir_follows:
  assumes "lawful E" and "fsys E w" and "good_cache E w"
  shows "follows E (readdir_spec p) (fs_readdir E ctx p) w"
  unfolding fs_readdir_def
proof (rule coded_follows [where S = "readdir_spec p", OF assms(1) tree_db [OF tree_pred_True] _ assms(2) TrueI assms(3)])
  show "readdir_spec p t (errcode e, []) t" for t e by (simp add: readdir_spec_def errcode_neg)
  show "hoare (inorder E (before E (\<lambda>_. True) (ftree_of E w)))
     (bind (userctx E ctx) (\<lambda>sctx. bind (getnode_path E sctx p) (\<lambda>n0. bind (cast KDirectory n0) (\<lambda>n.
       andthen (access E sctx n (or R_OK X_OK)) (andthen (stamp E n A_atime) (bind (getchildren E n) (\<lambda>l. ret (0, l))))))))
     (\<lambda>r. inorder E (\<lambda>w'. readdir_spec p (ftree_of E w) r (ftree_of E w'))) (lost E (ftree_of E w))"
  proof (rule refine_target [OF assms(1)])
    fix sctx :: scontext and n0
    have T: "hoare (inorder E (at_node E t p n)) (andthen (access E sctx n (or R_OK X_OK)) (andthen (stamp E n A_atime)
        (bind (getchildren E n) (\<lambda>l. ret (0, l))))) (\<lambda>r. inorder E (\<lambda>w'. readdir_spec p t r (ftree_of E w'))) (lost E t)" for n t
      by (rule hoare_andthen [OF refine_reads [OF reads_access safe_access at_node_tree]], assumption,
          rule hoare_andthen [OF sure_hoare [OF triple_stamp [OF assms(1) tree_pred_at_node] sure_stamp [OF assms(1)]]])
        (simp_all add: refine_children [OF assms(1)])
    show "hoare (inorder E (at_node E t p n0)) (bind (cast KDirectory n0) (\<lambda>n.
       andthen (access E sctx n (or R_OK X_OK)) (andthen (stamp E n A_atime) (bind (getchildren E n) (\<lambda>l. ret (0, l))))))
       (\<lambda>r. inorder E (\<lambda>w'. readdir_spec p t r (ftree_of E w'))) (lost E t)" for t
    proof (cases "nkind n0 = KDirectory")
      case True
      then show ?thesis using T by (simp add: cast_def)
    next
      case False
      then show ?thesis
        by (simp add: cast_def hoare_def bind_def lost_def failed_def inorder_def at_node_def)
    qed
  qed
qed

end
