(* ===== verification/Fs_Tables.thy ===== *)
theory Fs_Tables
  imports Fs_Queries
begin

text \<open>
  The table of open files: \<^verbatim>\<open>open\<close> takes a free slot and no other operation on the databases or
  the host touches the table.
\<close>

section \<open>Computations that leave the table alone\<close>

named_theorems table_rules

definition offtable :: "('s, 'h, 'z, 'a) fop \<Rightarrow> bool" where
  "offtable m \<longleftrightarrow> (\<forall>w. open_files (snd (m w)) = open_files w)"

lemma offtableI: "(\<And>w r w'. m w = (r, w') \<Longrightarrow> open_files w' = open_files w) \<Longrightarrow> offtable m"
  unfolding offtable_def by (metis prod.collapse)

lemma offtableD: "offtable m \<Longrightarrow> m w = (r, w') \<Longrightarrow> open_files w' = open_files w"
  unfolding offtable_def by (metis snd_conv)

lemma more_table:
  fixes w w' :: "('s, 'h, 'z) fsworld_scheme"
  shows "world.more w' = world.more w \<Longrightarrow> open_files w' = open_files w"
    and "cworld.more w' = cworld.more w \<Longrightarrow> open_files w' = open_files w"
  by (cases w; cases w'; simp)+

lemma table_bind [table_rules]: "offtable m \<Longrightarrow> (\<And>a. offtable (f a)) \<Longrightarrow> offtable (bind m f)"
  by (rule offtableI) (auto simp: bind_result, metis offtableD, metis offtableD)

lemma table_andthen [table_rules]: "offtable m \<Longrightarrow> offtable k \<Longrightarrow> offtable (andthen m k)"
  unfolding andthen_def by (rule table_bind)

lemma table_handle [table_rules]: "offtable m \<Longrightarrow> (\<And>e. offtable (h e)) \<Longrightarrow> offtable (handle m h)"
  by (rule offtableI) (auto simp: handle_result, (metis offtableD)+)

lemma table_if [table_rules]: "offtable m \<Longrightarrow> offtable k \<Longrightarrow> offtable (if c then m else k)"
  by simp

lemma table_safe: "safe m \<Longrightarrow> offtable m"
  by (rule offtableI) (auto dest!: safeD(1) simp: host_only_def)

lemmas table_safes [table_rules] = table_safe [OF safe_ret] table_safe [OF safe_gets] table_safe [OF safe_getattr]
  table_safe [OF safe_getattrv] table_safe [OF safe_access] table_safe [OF safe_cast]
  table_safe [OF safe_source_getsource] table_safe [OF getmedium_label_safe] table_safe [OF safe_single_close]

lemma table_close: "single_close E s w = (r, w') \<Longrightarrow> open_files w' = open_files w"
  by (rule offtableD [OF table_safe [OF safe_single_close]])

lemma table_throw [table_rules]: "offtable (throw e)"
  by (simp add: offtable_def)

lemma table_whenM [table_rules]: "offtable m \<Longrightarrow> offtable (whenM c m)"
  by (simp add: whenM_def table_rules)

lemma table_setattrv [table_rules]: "offtable (setattrv E d i n v)"
  by (rule offtableI)
    (auto simp: setattrv_def cleanlogs_def split: sum.splits dberr.splits if_splits)

lemma table_setattr [table_rules]: "offtable (setattr E d i n v)"
  unfolding setattr_def by (rule table_setattrv)

lemma table_on_missing [table_rules]: "offtable k \<Longrightarrow> offtable (on_missing b k e)"
  by (simp add: on_missing_def table_throw split: exn.split)

lemma table_getsource [table_rules]: "offtable (getsource E f phid flags)"
  unfolding getsource_def addfile_def by (intro table_rules)

lemma table_userctx [table_rules]: "offtable (userctx E ctx)"
proof -
  have up: "cworld.more w' = cworld.more w" if "sc_uptodate E w = (r, w')" for w :: "('a, 'b, 'c) fsworld_scheme" and r w'
    using that by (auto simp: sc_uptodate_def bind_result time_now_def whenM_def split: if_splits)
  have look: "cworld.more w' = cworld.more w" if "sc_lookup E uid gid w = (r, w')"
    for w :: "('a, 'b, 'c) fsworld_scheme" and uid gid r w'
    using that unfolding sc_lookup_def andthen_result bind_result handle_result
    by (auto dest!: up new_scontext_state simp: bind_result andthen_result handle_result split: option.splits)
  show ?thesis
  proof (rule offtableI)
    fix w :: "('a, 'b, 'c) fsworld_scheme" and r w'
    assume "userctx E ctx w = (r, w')"
    then have "cworld.more w' = cworld.more w"
      unfolding userctx_def sc_get_def andthen_result bind_result handle_result
      by (auto dest!: look simp: bind_result andthen_result handle_result)
    then show "open_files w' = open_files w" by (rule more_table)
  qed
qed

section \<open>open\<close>

lemma free_slot_SomeD: "free_slot files = Some i \<Longrightarrow> i < MAX_OPEN_FILES \<and> files i = None"
  unfolding free_slot_def find_Some_iff by auto

lemma free_slot_NoneD: "free_slot files = None \<Longrightarrow> i < MAX_OPEN_FILES \<Longrightarrow> files i \<noteq> None"
  unfolding free_slot_def find_None_iff by auto

text \<open>What \<^verbatim>\<open>open\<close> promises of the table.\<close>

definition open_spec :: "(nat \<Rightarrow> source option) \<Rightarrow> int \<times> nat option \<Rightarrow> (nat \<Rightarrow> source option) \<Rightarrow> bool" where
  "open_spec files r files' \<longleftrightarrow>
     (case r of
        (c, Some i) \<Rightarrow> c = 0 \<and> i < MAX_OPEN_FILES \<and> files i = None \<and> (\<exists>s. files' = files(i \<mapsto> s))
      | (c, None) \<Rightarrow> c < 0 \<and> files' = files \<and> (c = - ENFILE \<longrightarrow> (\<forall>i < MAX_OPEN_FILES. files i \<noteq> None)))"

lemma errcode_not_full: "errcode e \<noteq> - ENFILE"
  by (cases e) (simp_all add: errcode_def ENOENT_def split: kind.split)

lemma open_error: "open_spec files ((if e = EBadCast KFile then - EISDIR else errcode e), None) files"
  using errcode_neg [of e] errcode_not_full [of e] by (simp add: open_spec_def)

lemma open_body:
  fixes w :: "('s, 'h, 'z) fsworld_scheme"
  assumes "lawful E" and "fsys E w"
    and run: "bind (userctx E ctx) (\<lambda>sctx. bind (getnode_path E sctx pathname) (\<lambda>n0. bind (cast KFile n0) (\<lambda>n.
       andthen (whenM (and flags O_ACCMODE = O_RDONLY \<or> and flags O_ACCMODE = O_RDWR) (access E sctx n R_OK))
       (andthen (whenM (and flags O_ACCMODE = O_WRONLY \<or> and flags O_ACCMODE = O_RDWR) (access E sctx n W_OK))
       (bind (getsource E n pathname flags) (\<lambda>s. bind (gets (\<lambda>w. free_slot (open_files w))) (\<lambda>slot.
          case slot of
            Some i \<Rightarrow> andthen (set_file i (Some s)) (ret (0, Some i))
          | None \<Rightarrow> andthen (single_close E s) (ret (- ENFILE, None))))))))) w = (r, w')"
  shows "case r of Inl e \<Rightarrow> open_files w' = open_files w | Inr a \<Rightarrow> open_spec (open_files w) a (open_files w')"
proof -
  let ?F = "open_files w"
  let ?P = "\<lambda>w' :: ('s, 'h, 'z) fsworld_scheme. open_files w' = ?F"
  let ?R = "\<lambda>e :: exn. ?P" and ?Q = "\<lambda>a (w' :: ('s, 'h, 'z) fsworld_scheme). open_spec ?F a (open_files w')"
  have off: "hoare ?P m (\<lambda>_. ?P) ?R" if "offtable m" for m :: "('s, 'h, 'z, 'b) fop"
    by (rule hoareI) (simp_all add: offtableD [OF that])
  have slot: "hoare ?P (bind (gets (\<lambda>w. free_slot (open_files w))) (\<lambda>slot.
          case slot of
            Some i \<Rightarrow> andthen (set_file i (Some s)) (ret (0, Some i))
          | None \<Rightarrow> andthen (single_close E s) (ret (- ENFILE, None)))) ?Q ?R" for s
  proof (rule hoareI)
    fix w1 a w2 assume P: "?P w1" and run: "bind (gets (\<lambda>w. free_slot (open_files w))) (\<lambda>slot.
          case slot of Some i \<Rightarrow> andthen (set_file i (Some s)) (ret (0, Some i))
          | None \<Rightarrow> andthen (single_close E s) (ret (- ENFILE, None))) w1 = (Inr a, w2)"
    show "?Q a w2"
    proof (cases "free_slot ?F")
      case (Some i)
      then show ?thesis using P run free_slot_SomeD [OF Some] by (auto simp: set_file_def open_spec_def)
    next
      case None
      then show ?thesis
        using P run free_slot_NoneD [OF None] by (auto simp: open_spec_def andthen_result dest!: table_close)
    qed
  next
    fix w1 e w2 assume P: "?P w1" and run: "bind (gets (\<lambda>w. free_slot (open_files w))) (\<lambda>slot.
          case slot of Some i \<Rightarrow> andthen (set_file i (Some s)) (ret (0, Some i))
          | None \<Rightarrow> andthen (single_close E s) (ret (- ENFILE, None))) w1 = (Inl e, w2)"
    then show "?R e w2"
      by (cases "free_slot ?F") (auto simp: set_file_def andthen_result dest!: table_close)
  qed
  have node: "hoare (\<lambda>w'. fsys E w' \<and> ?P w') (getnode_path E sctx pathname) (\<lambda>_. ?P) ?R" for sctx
  proof -
    have step: "open_files w2 = ?F" if "fsys E w1 \<and> ?P w1" and "getnode_path E sctx pathname w1 = (x, w2)"
      for w1 w2 :: "('s, 'h, 'z) fsworld_scheme" and x
    proof -
      have "pc_inv E w1" using that by (simp add: fsys_def caches_ok_def)
      then have "\<exists>c. w2 = w1\<lparr>pcache := c\<rparr>"
        using hash_getnode_law [OF assms(1), of w1 sctx pathname] that(2) by auto
      then obtain c where "w2 = w1\<lparr>pcache := c\<rparr>" ..
      then show ?thesis using that(1) by simp
    qed
    show ?thesis by (rule hoareI; erule (1) step)
  qed
  have ctx: "hoare (\<lambda>w'. fsys E w' \<and> ?P w') (userctx E ctx) (\<lambda>_ w'. fsys E w' \<and> ?P w') ?R"
  proof (rule hoareI)
    fix w1 a w2 assume w1: "fsys E w1 \<and> ?P w1" and run: "userctx E ctx w1 = (Inr a, w2)"
    have "inorder E (\<lambda>_. True) w2"
      by (rule hoare_Inr [OF triple_userctx [OF tree_db [OF tree_pred_True]] run]) (use w1 in \<open>simp add: inorder_def\<close>)
    then show "fsys E w2 \<and> ?P w2" using w1 offtableD [OF table_userctx run] by (simp add: inorder_def)
  qed (simp add: offtableD [OF table_userctx])
  have "hoare (\<lambda>w'. fsys E w' \<and> ?P w') (bind (userctx E ctx) (\<lambda>sctx. bind (getnode_path E sctx pathname) (\<lambda>n0. bind (cast KFile n0) (\<lambda>n.
       andthen (whenM (and flags O_ACCMODE = O_RDONLY \<or> and flags O_ACCMODE = O_RDWR) (access E sctx n R_OK))
       (andthen (whenM (and flags O_ACCMODE = O_WRONLY \<or> and flags O_ACCMODE = O_RDWR) (access E sctx n W_OK))
       (bind (getsource E n pathname flags) (\<lambda>s. bind (gets (\<lambda>w. free_slot (open_files w))) (\<lambda>slot.
          case slot of
            Some i \<Rightarrow> andthen (set_file i (Some s)) (ret (0, Some i))
          | None \<Rightarrow> andthen (single_close E s) (ret (- ENFILE, None)))))))))) ?Q ?R"
    by (intro hoare_bind [OF ctx] hoare_bind [OF node] hoare_bind [OF off] hoare_andthen [OF off] slot table_rules)
  then show ?thesis using assms(2) run unfolding hoare_def by (auto split: sum.splits)
qed

lemma open_table_spec:
  fixes w :: "('s, 'h, 'z) fsworld_scheme"
  assumes "lawful E" and "fsys E w"
  shows "\<exists>r w'. fs_open E ctx p flags w = (Inr r, w') \<and> open_spec (open_files w) r (open_files w')"
proof -
  have "answers E (fs_open E ctx p flags) w"
    unfolding fs_open_def by (rule answersI [OF assms(1) tree_db [OF tree_pred_True] open_ordered [OF assms(1)] assms(2) TrueI])
  then obtain r w' where run: "fs_open E ctx p flags w = (Inr r, w')" by (auto simp: answers_def)
  have start: "fsys E (fstxn_begin E w)" using assms(2) inorder_begin [OF assms(1) db_cache_pred, of "\<lambda>_. True"]
    by (simp add: inorder_def db_pred_def)
  have keep: "open_files (fstxn_begin E w1) = open_files w1" "open_files (fstxn_commit E w1) = open_files w1"
    for w1 :: "('s, 'h, 'z) fsworld_scheme"
    by (rule more_table(1), rule more_txn)+
  have "open_spec (open_files w) r (open_files w')"
  proof -
    let ?body = "bind (userctx E ctx) (\<lambda>sctx. bind (getnode_path E sctx p) (\<lambda>n0. bind (cast KFile n0) (\<lambda>n.
       andthen (whenM (and flags O_ACCMODE = O_RDONLY \<or> and flags O_ACCMODE = O_RDWR) (access E sctx n R_OK))
       (andthen (whenM (and flags O_ACCMODE = O_WRONLY \<or> and flags O_ACCMODE = O_RDWR) (access E sctx n W_OK))
       (bind (getsource E n p flags) (\<lambda>s. bind (gets (\<lambda>w. free_slot (open_files w))) (\<lambda>slot.
          case slot of
            Some i \<Rightarrow> andthen (set_file i (Some s)) (ret (0, Some i))
          | None \<Rightarrow> andthen (single_close E s) (ret (- ENFILE, None)))))))))"
    obtain x w1 where x: "?body (fstxn_begin E w) = (x, w1)" by fastforce
    note post = open_body [OF assms(1) start x, unfolded keep]
    have scope: "with_fstxn E ?body w = (x, fstxn_commit E w1)" using x by (simp add: with_fstxn_def)
    show ?thesis
    proof (cases x)
      case (Inl e)
      then have "e \<noteq> EStuck" using run scope by (auto simp: fs_open_def handle_def)
      then show ?thesis
        using run scope post Inl open_error [of "open_files w" e] by (auto simp: fs_open_def keep)
    next
      case (Inr a)
      then show ?thesis using run scope post by (auto simp: fs_open_def keep)
    qed
  qed
  then show ?thesis using run by blast
qed

section \<open>Handles\<close>

lemma close_result: "\<exists>h. single_close E s w = (Inr (), w\<lparr>host := h\<rparr>)"
proof -
  have "single_close E s w = (Inr (), snd (single_close E s w))"
    by (simp add: single_close_def chunk_close_def hostM_def split: prod.split)
  then show ?thesis using safeD(1) [OF safe_single_close [of E s]] unfolding host_only_def by metis
qed

lemma release_spec:
  fixes w :: "('s, 'h, 'z) fsworld_scheme"
  assumes "unat fh < MAX_OPEN_FILES" and "open_files w (unat fh) = Some s"
  shows "\<exists>w'. fs_release E fh w = (Inr 0, w') \<and> open_files w' = (open_files w)(unat fh := None) \<and> dbs w' = dbs w"
proof -
  obtain h where "single_close E s w = (Inr (), w\<lparr>host := h\<rparr>)" using close_result [of E s w] by blast
  then show ?thesis using assms by (simp add: fs_release_def file_at_def set_file_def)
qed

lemma bad_handle:
  assumes "MAX_OPEN_FILES \<le> unat fh \<or> open_files w (unat fh) = None"
  shows "fs_read E fh n off w = (Inr (- EBADF, []), w)" and "fs_write E fh buf off w = (Inr (- EBADF), w)"
    and "fs_flush E fh w = (Inr (- EBADF), w)" and "fs_fsync E ds fh w = (Inr (- EBADF), w)"
    and "fs_release E fh w = (Inr (- EBADF), w)"
  using assms
  by (auto simp: fs_read_def fs_write_def fs_flush_def fs_fsync_def fs_release_def file_at_def bind_def)

end
