(* ===== verification/Fuse_Laws.thy ===== *)
theory Fuse_Laws
  imports Fuse_Main Fs_Rename Fs_Tables Initial_Fs
begin

text \<open>
  A mounted file system: the states that a sequence of mounts, requests and unmounts leads to. All
  of them are in order, and every request on a path is answered.
\<close>

section \<open>What the requests rely on\<close>

text \<open>
  The limits of the program (no link count near \<^verbatim>\<open>2^31\<close>, identifiers left) and what the kernel
  checks before it calls FUSE: the last component of a path to remove or rename is neither
  \<^verbatim>\<open>.\<close> nor \<^verbatim>\<open>..\<close>, the mode of \<^verbatim>\<open>mkdir\<close> has permission bits only, directories form a
  tree. The superuser, who may overwrite the reserved attributes, does not.
\<close>

definition plain_leaf :: "string \<Rightarrow> bool" where
  "plain_leaf p \<longleftrightarrow> snd (path_split p) \<notin> {''.'', ''..''}"

fun allowed :: "('s, 'h) env \<Rightarrow> caller \<Rightarrow> request \<Rightarrow> ('s, 'h, 'z) world_scheme \<Rightarrow> bool" where
  "allowed E ctx (Mknod p mode dev) w = roomy E w"
| "allowed E ctx (Mkdir p mode) w = (roomy E w \<and> and mode S_IFMT = 0)"
| "allowed E ctx (Symlink old new) w = roomy E w"
| "allowed E ctx (Link old new) w = few E w"
| "allowed E ctx (Unlink p) w = few E w"
| "allowed E ctx (Rmdir p) w = (dirs_ok E w \<and> plain_leaf p)"
| "allowed E ctx (Rename old new) w = (whole E w \<and> plain_leaf old \<and> plain_leaf new)"
| "allowed E ctx (Setxattr p name v flags) w = (fst ctx \<noteq> 0)"
| "allowed E ctx (Removexattr p name) w = (fst ctx \<noteq> 0)"
| "allowed E ctx req w = True"

text \<open>The requests on an open file have no exception handler.\<close>

fun on_handle :: "request \<Rightarrow> bool" where
  "on_handle (Read fh n off) = True"
| "on_handle (Write fh buf off) = True"
| "on_handle (Flush fh) = True"
| "on_handle (Release fh) = True"
| "on_handle (Fsync datasync fh) = True"
| "on_handle req = False"

section \<open>Every request on a path is answered\<close>

lemma answers_reply: "answers E m w \<Longrightarrow> answers E (reply_as f m) w"
  unfolding answers_def reply_as_def by (auto simp: bind_def)

lemma asks_answers: "asks E Q m w \<Longrightarrow> answers E m w"
  unfolding answers_def asks_def by blast

lemma ordered_readdir:
  assumes "lawful E"
  shows "ordered E (bind (userctx E ctx) (\<lambda>sctx. bind (getnode_path E sctx p) (\<lambda>n0. bind (cast KDirectory n0) (\<lambda>n.
       andthen (access E sctx n (or R_OK X_OK)) (andthen (stamp E n A_atime) (bind (getchildren E n) (\<lambda>l. ret (0 :: int, l))))))))"
proof -
  have "ordered E (getchildren E n)" for n
    unfolding getchildren_def by (rule ordered_safe, rule safeI) (auto simp: getattrs_def scan_result_def split: prod.splits if_splits)
  then show ?thesis by (intro ordered_target [OF assms] ordered_rules assms) simp_all
qed

lemma chmod_answers:
  assumes "lawful E" and "fsys E w"
  shows "answers E (fs_chmod E ctx p mode) w"
  unfolding fs_chmod_def by (rule handler_answers [OF assms(1) tree_db [OF tree_pred_True] triple_chmod [OF assms(1)] assms(2) TrueI])

lemma path_answers:
  fixes w :: "('s, 'h, 'z) fsworld_scheme"
  assumes "lawful E" and "fsys E w" and "allowed E ctx req w" and "\<not> on_handle req"
  shows "answers E (serve E ctx req) w"
proof -
  note start = assms(1) tree_db [OF tree_pred_True]
  note roomy = assms(1) db_pred_roomy
  note query = asks_answers [OF asks_queries(1) [OF assms(1,2)]] asks_answers [OF asks_queries(2) [OF assms(1,2)]]
    asks_answers [OF asks_queries(3) [OF assms(1,2)]] asks_answers [OF asks_queries(4) [OF assms(1,2)]]
    asks_answers [OF asks_queries(5) [OF assms(1,2)]] asks_answers [OF asks_queries(6) [OF assms(1,2)]]
    asks_answers [OF asks_statfs [OF assms(1,2)]]
  have dir: "answers E (fs_readdir E ctx p) w" for p
    unfolding fs_readdir_def by (rule answersI [OF start ordered_readdir [OF assms(1)] assms(2) TrueI])
  have opens: "answers E (fs_open E ctx p flags) w" for p flags
    unfolding fs_open_def by (rule answersI [OF start open_ordered [OF assms(1)] assms(2) TrueI])
  have attrs: "answers E (fs_chown E ctx p uid gid) w" "answers E (fs_utimens E ctx p tv) w" "answers E (fs_truncate E ctx p len) w"
    for p uid gid tv len
    unfolding fs_chown_def fs_utimens_def fs_truncate_def
    by (rule handler_answers [OF start chown_ordered [OF assms(1)] assms(2) TrueI]
        handler_answers [OF start utimens_ordered [OF assms(1)] assms(2) TrueI]
        handler_answers [OF start truncate_ordered [OF assms(1)] assms(2) TrueI])+
  have xattrs: "answers E (fs_setxattr E ctx p name v flags) w" "answers E (fs_removexattr E ctx p name) w"
    if "fst ctx \<noteq> 0" for p name v flags
    unfolding fs_setxattr_def fs_removexattr_def
    by (rule answersI [OF start setxattr_ordered [OF assms(1) that] assms(2) TrueI]
        answersI [OF start removexattr_ordered [OF assms(1) that] assms(2) TrueI])+
  have create: "answers E (fs_mknod E ctx p mode dev) w" "answers E (fs_symlink E ctx old p) w" if "roomy E w" for p mode dev old
    unfolding fs_mknod_def fs_symlink_def
    by (rule handler_answers [OF roomy triple_mknod [OF assms(1)] assms(2) that]
        handler_answers [OF roomy triple_symlink [OF assms(1)] assms(2) that])+
  have mkdir: "answers E (fs_mkdir E ctx p mode) w" if "roomy E w" and "and mode S_IFMT = 0" for p mode
    unfolding fs_mkdir_def by (rule handler_answers [OF roomy triple_mkdir [OF assms(1) that(2)] assms(2) that(1)])
  have links: "answers E (fs_link E ctx old p) w" "answers E (fs_unlink E ctx p) w" if "few E w" for old p
    unfolding fs_link_def fs_unlink_def
    by (rule handler_answers [OF assms(1) tree_db [OF tree_pred_few] triple_link [OF assms(1)] assms(2) that]
        handler_answers [OF assms(1) tree_db [OF tree_pred_few] triple_unlink [OF assms(1)] assms(2) that])+
  have rmdir: "answers E (fs_rmdir E ctx p) w" if "dirs_ok E w" and "plain_leaf p" for p
    unfolding fs_rmdir_def
    by (rule handler_answers [OF assms(1) tree_db [OF tree_pred_dirs_ok] triple_rmdir [OF assms(1)] assms(2) that(1)])
      (use that(2) in \<open>simp add: plain_leaf_def\<close>)
  have rename: "answers E (fs_rename E ctx old p) w" if "whole E w" and "plain_leaf old" and "plain_leaf p" for old p
    using rename_answers [OF assms(1,2) that(1)] that(2,3) by (simp add: plain_leaf_def)
  note handlers = query dir opens attrs xattrs create mkdir links rmdir rename chmod_answers [OF assms(1,2)]
  show ?thesis
    using assms(3,4) by (cases req) (simp_all add: answers_reply handlers)
qed

section \<open>Requests on an open file\<close>

lemma handle_ordered:
  assumes "lawful E" and "on_handle req"
  shows "ordered E (serve E ctx req)"
  using assms(2)
  by (cases req)
    (simp_all add: reply_as_def fs_read_def fs_write_def fs_flush_def fs_fsync_def fs_release_def,
      (intro ordered_rules assms(1))+)

lemma serve_keeps:
  fixes w :: "('s, 'h, 'z) fsworld_scheme"
  assumes "lawful E" and "fsys E w" and "allowed E ctx req w" and run: "serve E ctx req w = (r, w')"
  shows "fsys E w'"
proof (cases "on_handle req")
  case True
  have w: "inorder E (\<lambda>_. True) w" using assms(2) by (simp add: inorder_def)
  note h = handle_ordered [OF assms(1) True, of ctx]
  show ?thesis
    using hoare_Inr [OF h, of w _ w'] hoare_Inl [OF h, of w _ w'] run w
    by (cases r) (auto simp: inorder_def failed_def)
next
  case False
  then show ?thesis using path_answers [OF assms(1-3)] run by (auto simp: answers_def)
qed

section \<open>Mounted file systems\<close>

lemma fuse_init_form:
  fixes w :: "('s, 'h, 'z) fsworld_scheme"
  assumes "fs_inv E w" and run: "fuse_init E p w = (r, w')"
  shows "fsys E w'" and "r = Inr ()" and "dbs w' = dbs w" and "open_files w' = Map.empty"
proof -
  let ?w = "w\<lparr>scache := new_scache, pcache := new_pcache, open_files := Map.empty, defmedium := defmedium_of p\<rparr>"
  have up: "sc_uptodate E ?w = (r, w')" using run by (simp add: fuse_init_def fs_new_def)
  obtain w1 where w1: "sc_uptodate E ?w = (Inr (), w1)" using sc_uptodate_form by blast
  show "r = Inr ()" using up w1 by simp
  have db: "dbs w' = dbs w" "pcache w' = new_pcache" using sc_uptodate_db [OF up] by simp_all
  then show "dbs w' = dbs w" by simp
  have sc: "sc_inv (scache w')"
    using up by (auto simp: sc_uptodate_def bind_result time_now_def whenM_def sc_inv_def new_scache_def SCONTEXTCACHE_MAX_ELEMS_def upd_sc_def split: if_splits)
  have "fs_inv E w'" using assms(1) same_db_fs_inv [of E w w'] db(1) by (simp add: same_db_def)
  then show "fsys E w'" using db(2) sc pc_ok_new by (simp add: fsys_def caches_ok_def pc_inv_def new_pcache_def PATHCACHE_MAX_ENTRIES_def)
  show "open_files w' = Map.empty"
    using up by (auto simp: sc_uptodate_def bind_result time_now_def whenM_def upd_sc_def split: if_splits)
qed

lemma safe_forM: "(\<And>x. safe (f x)) \<Longrightarrow> safe (forM xs f)"
  by (induction xs) (auto intro!: safe_rules)

lemma safe_destroy: "safe (fuse_destroy E)"
  unfolding fuse_destroy_def fs_delete_def by (intro safe_forM safe_rules)

text \<open>
  The states of a file system that has been created and mounted: requests are served one after the
  other, and it may be unmounted and mounted again.
\<close>

inductive mounted :: "('s, 'h) env \<Rightarrow> ('s, 'h, 'z) fsworld_scheme \<Rightarrow> bool" for E where
  first: "fsdb_rebuild E w0 = (r, w1) \<Longrightarrow> fuse_init E p w1 = (r', w2) \<Longrightarrow> mounted E w2"
| served: "mounted E w \<Longrightarrow> allowed E ctx req w \<Longrightarrow> serve E ctx req w = (Inr r, w') \<Longrightarrow> mounted E w'"
| again: "mounted E w \<Longrightarrow> fuse_destroy E w = (r, w1) \<Longrightarrow> fuse_init E p w1 = (r', w2) \<Longrightarrow> mounted E w2"

lemma mounted_fsys: "mounted E w \<Longrightarrow> lawful E \<Longrightarrow> fsys E w"
proof (induction rule: mounted.induct)
  case (first w0 r w1 p r' w2)
  then have "fs_inv E w1" using rebuild_form [of E w0] by auto
  then show ?case using fuse_init_form(1) first(2) by blast
next
  case (served w ctx req r w')
  then show ?case using serve_keeps by blast
next
  case (again w r w1 p r' w2)
  have "same_db E w w1" by (rule host_only_same_db [OF safeD(1) [OF safe_destroy again(2)]])
  then have "fs_inv E w1" using again same_db_fs_inv by (auto simp: fsys_def)
  then show ?case using fuse_init_form(1) again(3) by blast
qed

section \<open>The option dbumask\<close>

text \<open>
  The mask is documented to be octal, but its digits are read as decimal ones: \<^verbatim>\<open>022\<close> becomes 22,
  which is octal 26.
\<close>

lemma dbumask_decimal:
  assumes "dbumask p = ''022''"
  shows "apply_umask pr p w = (Inr True, w\<lparr>host := snd (pr_umask pr 22 (host w))\<rparr>)"
proof -
  have "read_unsigned 10 (2 ^ 32) ''022'' = (22, False)" by (simp add: read_unsigned_def digit_of_def)
  then show ?thesis unfolding apply_umask_def assms by (simp only: prod.case) (simp add: hostM_def bind_def split: prod.split)
qed

end
