(* ===== verification/Fs_Xattrs.thy ===== *)
theory Fs_Xattrs
  imports Fs_Queries Fs_Moves
begin

text \<open>
  Extended attributes: what \<^verbatim>\<open>setxattr\<close> changes, and what \<^verbatim>\<open>getxattr\<close> reads afterwards.
\<close>

section \<open>States that agree but for some attributes\<close>

definition alike :: "('s, 'h) env \<Rightarrow> (nodeid \<times> string) set \<Rightarrow> ('s, 'h, 'z) world_scheme \<Rightarrow> ('s, 'h, 'z) world_scheme \<Rightarrow> bool" where
  "alike E S w w' \<longleftrightarrow> (\<forall>i n. attr E w' DDirectories (i :: nodeid) n = attr E w DDirectories i n)
     \<and> (\<forall>i n. (i, n) \<notin> S \<longrightarrow> attr E w' DNodes (i :: nodeid) n = attr E w DNodes i n)"

lemma alike_refl: "alike E {} w w"
  by (simp add: alike_def)

lemma alike_same_db: "alike E S w w1 \<Longrightarrow> same_db E w1 w2 \<Longrightarrow> alike E S w w2"
  by (simp add: alike_def same_db_attr)

lemma alike_mono: "alike E S w w' \<Longrightarrow> S \<subseteq> T \<Longrightarrow> alike E T w w'"
  unfolding alike_def by blast

lemma alike_put: "lawful E \<Longrightarrow> alike E S w w' \<Longrightarrow> alike E (insert (i, n) S) w (put_attr E DNodes i n v w')"
  by (auto simp: alike_def)

lemma alike_tree:
  assumes "alike E S w w'" and "\<And>i. (i, A_mode) \<notin> S"
  shows "ftree_of E w' = ftree_of E w"
  using assms by (simp add: alike_def ftree_of_def fun_eq_iff wattr_def)

text \<open>In order, with a good cache, and like \<open>w0\<close> but for \<open>S\<close>.\<close>

definition beside :: "('s, 'h) env \<Rightarrow> (nodeid \<times> string) set \<Rightarrow> ('s, 'h, 'z) pworld_scheme \<Rightarrow> ('s, 'h, 'z) pworld_scheme \<Rightarrow> bool" where
  "beside E S w0 w \<longleftrightarrow> fsys E w \<and> good_cache E w \<and> alike E S w0 w"

definition beside_exn :: "('s, 'h) env \<Rightarrow> (nodeid \<times> string) set \<Rightarrow> ('s, 'h, 'z) pworld_scheme \<Rightarrow> exn \<Rightarrow> ('s, 'h, 'z) pworld_scheme \<Rightarrow> bool" where
  "beside_exn E S w0 e w \<longleftrightarrow> beside E S w0 w \<and> e \<noteq> EStuck"

lemma beside_same_db:
  assumes "beside E S w0 w" and "same_db E w w'" and "fsys E w'" and "pcache w' = pcache w"
  shows "beside E S w0 w'"
  using assms alike_same_db cache_pred_good [of E] unfolding beside_def cache_pred_def by blast

text \<open>Attributes that resolution does not look at leave the cache good.\<close>

lemma good_put:
  fixes w :: "('s, 'h, 'z) pworld_scheme"
  assumes "lawful E" and "name \<noteq> A_uid" and "name \<noteq> A_gid" and "name \<noteq> A_mode" and "good_cache E w"
  shows "good_cache E (put_attr E DNodes (i :: nodeid) name v w)"
proof -
  let ?w = "put_attr E DNodes i name v w"
  have a: "mode_of E ?w c = mode_of E w c" "entry E ?w c m = entry E w c m"
    "wattr E ?w DNodes (c :: nodeid) A_uid = (wattr E w DNodes c A_uid :: uid_t option)"
    "wattr E ?w DNodes (c :: nodeid) A_gid = (wattr E w DNodes c A_gid :: gid_t option)" for c m
    using assms(1-4) by simp_all
  have "step_to E ?w = step_to E w" by (intro ext) (simp only: step_to_def is_dir_def a)
  then have r: "resolve E ?w = resolve E w" by (intro ext) (simp only: resolve_def a)
  have "world.more ?w = world.more w" using assms(1) by simp
  then have "pcache ?w = pcache w" by (cases w; cases ?w) simp
  moreover have "matches E ?w = matches E w" by (intro ext) (simp only: matches_def r a)
  ultimately show ?thesis
    using assms(5) by (simp only: good_cache_def pc_coherent_def owners_ok_def a) blast
qed

section \<open>Steps\<close>

lemma ret_andthen: "andthen (ret a) k = k"
  by (simp add: andthen_def bind_def ret_def)

lemma hoare_const: "(c \<Longrightarrow> hoare P m Q R) \<Longrightarrow> hoare (\<lambda>w. P w \<and> c) m Q R"
  by (cases c) (simp_all add: hoare_def)

lemma beside_reads:
  assumes "reads m" and "safe m"
  shows "hoare (beside E S w0) m (\<lambda>_. beside E S w0) (beside_exn E S w0)"
  by (rule hoareI) (auto simp: beside_exn_def dest: readsD [OF assms(1)] safeD(2) [OF assms(2)])

lemma beside_userctx: "hoare (beside E S w0) (userctx E' ctx) (\<lambda>_. beside E S w0) (beside_exn E S w0)"
proof -
  have *: "beside E S w0 w' \<and> r \<noteq> Inl EStuck" if w: "beside E S w0 w" and run: "userctx E' ctx w = (r, w')" for w w' r
  proof -
    have c: "calm E w w" using w by (simp add: beside_def calm_def)
    have "calm E w w' \<and> r \<noteq> Inl EStuck"
      using hoare_Inr [OF steady_hoare [OF steady_userctx] _ c] hoare_Inl [OF steady_hoare [OF steady_userctx] _ c] run
      by (cases r) (auto simp: calm_exn_def)
    then show ?thesis
      using beside_same_db [OF w] sc_get_db [OF run [unfolded userctx_def]] by (simp add: calm_def)
  qed
  then show ?thesis unfolding beside_exn_def by (intro hoareI) blast+
qed

lemma beside_getnode:
  fixes E :: "('s, 'h) env"
  assumes "lawful E"
  shows "hoare (beside E {} w0) (getnode_path E sctx p)
     (\<lambda>n w. beside E {} w0 w \<and> walk (ftree_of E w0) (tokenize ''/'' p) = Some (nid n))
     (beside_exn E {} w0 :: exn \<Rightarrow> ('s, 'h, 'z) pworld_scheme \<Rightarrow> bool)"
proof -
  have *: "beside E {} w0 w' \<and> r \<noteq> Inl EStuck" if w: "beside E {} w0 w" and run: "getnode_path E sctx p w = (r, w')"
    for w w' :: "('s, 'h, 'z) pworld_scheme" and r
  proof -
    have c: "calm E w w" and good: "good_cache E w" using w by (simp_all add: beside_def calm_def)
    have "calm E w w' \<and> r \<noteq> Inl EStuck"
      using hoare_Inr [OF steady_hoare [OF steady_getnode [OF assms]] _ c]
        hoare_Inl [OF steady_hoare [OF steady_getnode [OF assms]] _ c] run
      by (cases r) (auto simp: calm_exn_def)
    then show ?thesis
      using good_getnode [OF assms good run] w alike_same_db by (auto simp: calm_def beside_def)
  qed
  show ?thesis
  proof (rule hoareI)
    fix w n and w' :: "('s, 'h, 'z) pworld_scheme"
    assume w: "beside E {} w0 w" and run: "getnode_path E sctx p w = (Inr n, w')"
    have "walk (ftree_of E w) (tokenize ''/'' p) = Some (nid n)"
      using getnode_tree [OF assms _ run] w by (simp add: beside_def)
    then show "beside E {} w0 w' \<and> walk (ftree_of E w0) (tokenize ''/'' p) = Some (nid n)"
      using * [OF w run] alike_tree [of E "{}" w0 w] w by (simp add: beside_def)
  qed (use * in \<open>auto simp: beside_exn_def\<close>)
qed

lemma beside_setattrv:
  fixes E :: "('s, 'h) env"
  assumes "lawful E" and "name \<noteq> A_nlink" and "name \<noteq> A_mode" and "name \<noteq> A_uid" and "name \<noteq> A_gid"
  shows "hoare (beside E S w0) (setattrv E DNodes (i :: nodeid) name v)
     (\<lambda>_ w. beside E (insert (i, name) S) w0 w \<and> attr E w DNodes i name = Some v)
     (R :: exn \<Rightarrow> ('s, 'h, 'z) pworld_scheme \<Rightarrow> bool)"
proof (rule hoareI)
  fix w a and w' :: "('s, 'h, 'z) pworld_scheme"
  assume w: "beside E S w0 w" and run: "setattrv E DNodes i name v w = (Inr a, w')"
  then have w': "w' = put_attr E DNodes i name v w" using assms(1) by (simp add: setattrv_eq)
  have "inorder E (\<lambda>_. True) w" using w by (simp add: beside_def inorder_def)
  from hoare_Inr [OF triple_setattrv [OF assms(1) tree_pred_True assms(2,3)] run this]
  have "fsys E w'" by (simp add: inorder_def)
  then show "beside E (insert (i, name) S) w0 w' \<and> attr E w' DNodes i name = Some v"
    using w assms by (auto simp: beside_def w' intro: good_put alike_put)
qed (use assms(1) in \<open>simp add: setattrv_eq\<close>)

lemma beside_stamp:
  fixes E :: "('s, 'h) env" and n :: node
  assumes "lawful E"
  shows "hoare (beside E S w0) (stamp E n A_ctime) (\<lambda>_. beside E (insert (nid n, A_ctime) S) w0)
     (R :: exn \<Rightarrow> ('s, 'h, 'z) pworld_scheme \<Rightarrow> bool)"
proof -
  have time: "hoare (beside E S w0) (time_now E) (\<lambda>_. beside E S w0) R"
  proof (rule sure_hoare [OF _ sure_time], rule hoareI)
    fix w a w' assume w: "beside E S w0 w" and run: "time_now E w = (Inr a, w')"
    then have "inorder E (\<lambda>_. True) w" by (simp add: beside_def inorder_def)
    then have "fsys E w'" using hoare_Inr [OF triple_time [OF tree_db [OF tree_pred_True]] run] by (simp add: inorder_def)
    moreover have "same_db E w w'" and "pcache w' = pcache w" using run by (auto simp: time_now_def same_db_def)
    ultimately show "beside E S w0 w'" by (intro beside_same_db [OF w])
  qed simp
  show ?thesis
    unfolding stamp_def setattr_def
    by (rule hoare_bind [OF time hoare_weaken [OF beside_setattrv [OF assms]]]; (simp; fail | blast))
qed

section \<open>Handlers\<close>

text \<open>The scope of the transactions and the code of an error, for a result described by the databases.\<close>

lemma beside_handler:
  fixes w :: "('s, 'h, 'z) pworld_scheme"
  assumes "lawful E" and "fsys E w" and "good_cache E w"
    and body: "hoare (beside E {} w) body (\<lambda>r w'. fsys E w' \<and> good_cache E w' \<and> Q r w') (\<lambda>e w'. fsys E w' \<and> good_cache E w' \<and> e \<noteq> EStuck \<and> Q (code e) w')"
    and Q: "\<And>r w1 w2. same_db E w1 w2 \<Longrightarrow> Q r w1 \<Longrightarrow> Q r w2"
  shows "\<exists>r w'. handle (with_fstxn E body) (\<lambda>e. ret (code e)) w = (Inr r, w') \<and> fsys E w' \<and> good_cache E w' \<and> Q r w'"
proof -
  obtain x w1 where run: "body (fstxn_begin E w) = (x, w1)" by fastforce
  have start: "fsys E (fstxn_begin E w)" using assms(2) inorder_begin [OF assms(1) db_cache_pred, of "\<lambda>_. True"]
    by (simp add: inorder_def db_pred_def)
  have "beside E {} w w" using assms(2,3) alike_refl by (simp add: beside_def)
  from beside_same_db [OF this same_db_begin [OF assms(1)] start more_caches(2) [OF more_txn(1)]]
  have "beside E {} w (fstxn_begin E w)" .
  then have post: "x \<noteq> Inl EStuck \<and> fsys E w1 \<and> good_cache E w1 \<and> (case x of Inl e \<Rightarrow> Q (code e) w1 | Inr r \<Rightarrow> Q r w1)"
    using hoare_Inr [OF body, of "fstxn_begin E w" _ w1] hoare_Inl [OF body, of "fstxn_begin E w" _ w1] run
    by (cases x) auto
  have same: "same_db E w1 (fstxn_commit E w1)" by (rule same_db_commit [OF assms(1)])
  have "pcache (fstxn_commit E w1) = pcache w1" by (rule more_caches(2) [OF more_txn(2)])
  then have "good_cache E (fstxn_commit E w1)"
    using post same cache_pred_good [of E] unfolding cache_pred_def by blast
  then show ?thesis
    using run post Q [OF same] fsys_commit [OF assms(1)] by (cases x) (auto simp: with_fstxn_def)
qed

text \<open>
  \<^verbatim>\<open>setxattr\<close>: with 0, the attribute of the node the path leads to is \<open>v\<close>, and nothing else has
  changed but its change time; the flags have been obeyed. With an error code nothing has changed
  but the change time of that node at most.
\<close>

definition setxattr_spec :: "('s, 'h) env \<Rightarrow> string \<Rightarrow> string \<Rightarrow> bytes \<Rightarrow> int \<Rightarrow> ('s, 'h, 'z) world_scheme \<Rightarrow> int \<Rightarrow> ('s, 'h, 'z) world_scheme \<Rightarrow> bool" where
  "setxattr_spec E p name v flags w c w' \<longleftrightarrow>
     c < 0 \<and> alike E {(i, n). walk (ftree_of E w) (tokenize ''/'' p) = Some i \<and> n = A_ctime} w w'
   \<or> c = 0 \<and> (\<exists>i. walk (ftree_of E w) (tokenize ''/'' p) = Some i \<and> alike E {(i, A_ctime), (i, name)} w w'
       \<and> attr E w' DNodes i name = Some v
       \<and> (flags = 0 \<or> flags = XATTR_CREATE \<and> attr E w DNodes i name = None
          \<or> flags = XATTR_REPLACE \<and> attr E w DNodes i name \<noteq> None))"

text \<open>\<^verbatim>\<open>getxattr\<close>: the length of the value, and as much of it as the buffer holds.\<close>

definition getxattr_spec :: "('s, 'h) env \<Rightarrow> string \<Rightarrow> string \<Rightarrow> bytes \<Rightarrow> ('s, 'h, 'z) world_scheme \<Rightarrow> int \<times> bytes \<Rightarrow> ('s, 'h, 'z) world_scheme \<Rightarrow> bool" where
  "getxattr_spec E p name buf w r w' \<longleftrightarrow> alike E {} w w'
     \<and> (fst r < 0 \<and> snd r = buf
        \<or> (\<exists>i v. walk (ftree_of E w) (tokenize ''/'' p) = Some i \<and> attr E w DNodes i name = Some v
             \<and> r = (int (length v), memcpy_min buf v)))"

lemma xattr_specs_db:
  assumes "same_db E w1 w2"
  shows "setxattr_spec E p name v flags w c w1 \<Longrightarrow> setxattr_spec E p name v flags w c w2"
    and "getxattr_spec E p name buf w r w1 \<Longrightarrow> getxattr_spec E p name buf w r w2"
  unfolding setxattr_spec_def getxattr_spec_def alike_def same_db_attr [OF assms] by assumption+

lemma getxattr_follows:
  assumes "lawful E" and "fsys E w" and "good_cache E w"
  shows "\<exists>r w'. fs_getxattr E ctx p name buf w = (Inr r, w') \<and> fsys E w' \<and> good_cache E w' \<and> getxattr_spec E p name buf w r w'"
  unfolding fs_getxattr_def
proof (rule beside_handler [OF assms _ xattr_specs_db(2)])
  let ?Q = "\<lambda>r w'. fsys E w' \<and> good_cache E w' \<and> getxattr_spec E p name buf w r w'"
  have read: "hoare (\<lambda>w'. beside E {} w w' \<and> walk (ftree_of E w) (tokenize ''/'' p) = Some (nid n))
     (bind (getattrv E DNodes (nid n) name) (\<lambda>b. ret (int (length b), memcpy_min buf b))) ?Q (beside_exn E {} w)" for n :: node
  proof (rule hoareI)
    fix w1 r w2
    assume w1: "beside E {} w w1 \<and> walk (ftree_of E w) (tokenize ''/'' p) = Some (nid n)"
      and run: "bind (getattrv E DNodes (nid n) name) (\<lambda>b. ret (int (length b), memcpy_min buf b)) w1 = (Inr r, w2)"
    then obtain v where "attr E w1 DNodes (nid n) name = Some v" and "r = (int (length v), memcpy_min buf v)" and "w2 = w1"
      using assms(1) by (auto simp: bind_result getattrv_eq split: option.splits)
    then show "?Q r w2" using w1 unfolding beside_def getxattr_spec_def alike_def by auto
  next
    fix w1 e w2
    assume "beside E {} w w1 \<and> walk (ftree_of E w) (tokenize ''/'' p) = Some (nid n)"
      and "bind (getattrv E DNodes (nid n) name) (\<lambda>b. ret (int (length b), memcpy_min buf b)) w1 = (Inl e, w2)"
    then show "beside_exn E {} w e w2"
      using assms(1) by (auto simp: bind_result getattrv_eq beside_exn_def split: option.splits)
  qed
  show "hoare (beside E {} w) (bind (userctx E ctx) (\<lambda>sctx. bind (getnode_path E sctx p) (\<lambda>n.
      bind (getattrv E DNodes (nid n) name) (\<lambda>b. ret (int (length b), memcpy_min buf b))))) ?Q
      (\<lambda>e w'. fsys E w' \<and> good_cache E w' \<and> e \<noteq> EStuck \<and> getxattr_spec E p name buf w (xattr_error e, buf) w')"
    by (rule hoare_weaken [OF hoare_bind [OF beside_userctx hoare_bind [OF beside_getnode [OF assms(1)] read]]])
      (auto simp: beside_exn_def beside_def getxattr_spec_def xattr_error_neg)
qed

text \<open>The flags.\<close>

lemma beside_flags:
  fixes E :: "('s, 'h) env" and i :: nodeid
  assumes "lawful E"
  shows "hoare (beside E S w0)
     (if flags = 0 then ret None
      else if flags = XATTR_CREATE
      then handle (bind (getattrv E DNodes i name) (\<lambda>_. ret (Some (- EEXIST)))) (on_missing 64 (ret None))
      else if flags = XATTR_REPLACE then bind (getattrv E DNodes i name) (\<lambda>_. ret None)
      else ret (Some (- EINVAL)))
     (\<lambda>early w. beside E S w0 w \<and> (case early of Some c \<Rightarrow> c < 0 | None \<Rightarrow>
        flags = 0 \<or> flags = XATTR_CREATE \<and> attr E w DNodes i name = None \<or> flags = XATTR_REPLACE \<and> attr E w DNodes i name \<noteq> None))
     (beside_exn E S w0 :: exn \<Rightarrow> ('s, 'h, 'z) pworld_scheme \<Rightarrow> bool)"
  using assms
  by (auto intro!: hoareI hoare_if simp: bind_result handle_result getattrv_eq on_missing_def beside_exn_def split: option.splits if_splits)

lemma reads_denied: "reads (xattr_denied E sctx n name)" and safe_denied: "safe (xattr_denied E sctx n name)"
  unfolding xattr_denied_def by (intro reads_rules, intro safe_rules)

lemma setxattr_follows:
  fixes w :: "('s, 'h, 'z) fsworld_scheme"
  assumes "lawful E" and "fsys E w" and "good_cache E w" and user: "\<not> is_reserved name"
  shows "\<exists>c w'. fs_setxattr E ctx p name v flags w = (Inr c, w') \<and> fsys E w' \<and> good_cache E w' \<and> setxattr_spec E p name v flags w c w'"
  unfolding fs_setxattr_def
proof (rule beside_handler [OF assms(1-3) _ xattr_specs_db(1)])
  have names: "name \<noteq> A_nlink" "name \<noteq> A_mode" "name \<noteq> A_uid" "name \<noteq> A_gid" "name \<noteq> A_ctime"
    using user by (auto simp: is_reserved_def A_defs)
  let ?Q = "\<lambda>c w'. fsys E w' \<and> good_cache E w' \<and> setxattr_spec E p name v flags w c w'"
  let ?X = "\<lambda>e w'. fsys E w' \<and> good_cache E w' \<and> e \<noteq> EStuck \<and> setxattr_spec E p name v flags w (xattr_error e) w'"
  have early: "?X e w'" if "beside_exn E {} w e w'" for e and w' :: "('s, 'h, 'z) fsworld_scheme"
    using that alike_mono [of E "{}"] by (auto simp: beside_exn_def beside_def setxattr_spec_def xattr_error_neg)
  have found: "hoare (\<lambda>w'. beside E {} w w' \<and> walk (ftree_of E w) (tokenize ''/'' p) = Some (nid n))
      (bind (xattr_denied E sctx n name) (\<lambda>denied.
         if denied then ret (- EACCES)
         else
           andthen (stamp E n A_ctime)
           (bind (if flags = 0 then ret None
                  else if flags = XATTR_CREATE
                  then handle (bind (getattrv E DNodes (nid n) name) (\<lambda>_. ret (Some (- EEXIST)))) (on_missing 64 (ret None))
                  else if flags = XATTR_REPLACE
                  then bind (getattrv E DNodes (nid n) name) (\<lambda>_. ret None)
                  else ret (Some (- EINVAL))) (\<lambda>early.
             case early of
               Some code \<Rightarrow> ret code
             | None \<Rightarrow>
                 andthen (setattrv E DNodes (nid n) name v)
                 (andthen (whenM (name = A_uid \<or> name = A_gid \<or> name = A_mode) (hash_invalidate E p))
                 (ret 0)))))) ?Q ?X" for n :: node and sctx
  proof (rule hoare_const)
    assume walk: "walk (ftree_of E w) (tokenize ''/'' p) = Some (nid n)"
    let ?S = "{(nid n, A_ctime)}"
    have late: "?X e w'" if "beside_exn E ?S w e w'" for e and w' :: "('s, 'h, 'z) fsworld_scheme"
      using that walk alike_mono [of E ?S] by (auto simp: beside_exn_def beside_def setxattr_spec_def xattr_error_neg)
    let ?ok = "flags = 0 \<or> flags = XATTR_CREATE \<and> attr E w DNodes (nid n) name = None
        \<or> flags = XATTR_REPLACE \<and> attr E w DNodes (nid n) name \<noteq> None"
    have store: "hoare (\<lambda>w'. beside E ?S w w' \<and> ?ok)
        (andthen (setattrv E DNodes (nid n) name v)
          (andthen (whenM (name = A_uid \<or> name = A_gid \<or> name = A_mode) (hash_invalidate E p)) (ret 0))) ?Q ?X"
    proof (rule hoare_const)
      assume ok: ?ok
      have "hoare (beside E ?S w) (andthen (setattrv E DNodes (nid n) name v) (ret 0)) ?Q ?X"
        by (rule hoare_andthen [OF beside_setattrv [OF assms(1) names(1-4)] hoare_ret])
          (use walk ok in \<open>auto simp: beside_def setxattr_spec_def insert_commute\<close>)
      then show "hoare (beside E ?S w) (andthen (setattrv E DNodes (nid n) name v)
          (andthen (whenM (name = A_uid \<or> name = A_gid \<or> name = A_mode) (hash_invalidate E p)) (ret 0))) ?Q ?X"
        using names by (simp only: whenM_def ret_andthen if_False simp_thms)
    qed
    have tail: "hoare (\<lambda>w'. beside E ?S w w' \<and> (case early of Some c \<Rightarrow> c < 0 | None \<Rightarrow>
        flags = 0 \<or> flags = XATTR_CREATE \<and> attr E w' DNodes (nid n) name = None
        \<or> flags = XATTR_REPLACE \<and> attr E w' DNodes (nid n) name \<noteq> None))
       (case early of Some code \<Rightarrow> ret code | None \<Rightarrow> andthen (setattrv E DNodes (nid n) name v)
          (andthen (whenM (name = A_uid \<or> name = A_gid \<or> name = A_mode) (hash_invalidate E p)) (ret 0))) ?Q ?X" for early
    proof (cases early)
      case None
      have "attr E w' DNodes (nid n) name = attr E w DNodes (nid n) name" if "beside E ?S w w'" for w'
        using that names(5) by (simp add: beside_def alike_def)
      then show ?thesis using None by (auto intro!: hoare_pre [OF store])
    next
      case (Some c)
      have "?Q c w'" if "beside E ?S w w'" and "c < 0" for w'
        using that walk alike_mono [of E ?S] by (auto simp: beside_def setxattr_spec_def)
      then show ?thesis unfolding Some option.case by (intro hoare_ret) blast
    qed
    have go: "hoare (beside E {} w)
      (andthen (stamp E n A_ctime)
           (bind (if flags = 0 then ret None
                  else if flags = XATTR_CREATE
                  then handle (bind (getattrv E DNodes (nid n) name) (\<lambda>_. ret (Some (- EEXIST)))) (on_missing 64 (ret None))
                  else if flags = XATTR_REPLACE
                  then bind (getattrv E DNodes (nid n) name) (\<lambda>_. ret None)
                  else ret (Some (- EINVAL))) (\<lambda>early.
             case early of
               Some code \<Rightarrow> ret code
             | None \<Rightarrow>
                 andthen (setattrv E DNodes (nid n) name v)
                 (andthen (whenM (name = A_uid \<or> name = A_gid \<or> name = A_mode) (hash_invalidate E p))
                 (ret 0))))) ?Q ?X"
      by (rule hoare_andthen [OF beside_stamp [OF assms(1)] hoare_bind [OF hoare_weaken [OF beside_flags [OF assms(1)]] tail]])
        (assumption | erule late)+
    have refused: "?Q (- EACCES) w'" if "beside E {} w w'" for w'
      using that alike_mono [of E "{}"] by (auto simp: beside_def setxattr_spec_def)
    show "hoare (beside E {} w)
      (bind (xattr_denied E sctx n name) (\<lambda>denied.
         if denied then ret (- EACCES)
         else
           andthen (stamp E n A_ctime)
           (bind (if flags = 0 then ret None
                  else if flags = XATTR_CREATE
                  then handle (bind (getattrv E DNodes (nid n) name) (\<lambda>_. ret (Some (- EEXIST)))) (on_missing 64 (ret None))
                  else if flags = XATTR_REPLACE
                  then bind (getattrv E DNodes (nid n) name) (\<lambda>_. ret None)
                  else ret (Some (- EINVAL))) (\<lambda>early.
             case early of
               Some code \<Rightarrow> ret code
             | None \<Rightarrow>
                 andthen (setattrv E DNodes (nid n) name v)
                 (andthen (whenM (name = A_uid \<or> name = A_gid \<or> name = A_mode) (hash_invalidate E p))
                 (ret 0)))))) ?Q ?X"
      by (rule hoare_bind [OF hoare_weaken [OF beside_reads [OF reads_denied safe_denied]] hoare_if [OF hoare_ret go]])
        (assumption | erule early | erule refused)+
  qed
  show "hoare (beside E {} w) (bind (userctx E ctx) (\<lambda>sctx. bind (getnode_path E sctx p) (\<lambda>n.
       bind (xattr_denied E sctx n name) (\<lambda>denied.
         if denied then ret (- EACCES)
         else
           andthen (stamp E n A_ctime)
           (bind (if flags = 0 then ret None
                  else if flags = XATTR_CREATE
                  then handle (bind (getattrv E DNodes (nid n) name) (\<lambda>_. ret (Some (- EEXIST)))) (on_missing 64 (ret None))
                  else if flags = XATTR_REPLACE
                  then bind (getattrv E DNodes (nid n) name) (\<lambda>_. ret None)
                  else ret (Some (- EINVAL))) (\<lambda>early.
             case early of
               Some code \<Rightarrow> ret code
             | None \<Rightarrow>
                 andthen (setattrv E DNodes (nid n) name v)
                 (andthen (whenM (name = A_uid \<or> name = A_gid \<or> name = A_mode) (hash_invalidate E p))
                 (ret 0)))))))) ?Q ?X"
    by (rule hoare_bind [OF hoare_weaken [OF beside_userctx] hoare_bind [OF hoare_weaken [OF beside_getnode [OF assms(1)]] found]])
      (assumption | erule early)+
qed

lemma set_then_get:
  assumes "\<not> is_reserved name" and "setxattr_spec E p name v flags w 0 w1" and "getxattr_spec E p name buf w1 r w2"
  shows "fst r < 0 \<and> snd r = buf \<or> r = (int (length v), memcpy_min buf v)"
proof -
  obtain i where i: "walk (ftree_of E w) (tokenize ''/'' p) = Some i" "alike E {(i, A_ctime), (i, name)} w w1"
    "attr E w1 DNodes i name = Some v"
    using assms(2) unfolding setxattr_spec_def by auto
  have "name \<noteq> A_mode" using assms(1) by (auto simp: is_reserved_def A_defs)
  then have "ftree_of E w1 = ftree_of E w" by (intro alike_tree [OF i(2)]) auto
  then show ?thesis using assms(3) i(1,3) unfolding getxattr_spec_def by auto
qed

end
