(* ===== verification/Fs_Grow.thy ===== *)
theory Fs_Grow
  imports Fuse_Laws Fs_Xattrs
begin

text \<open>
  When the path cache can be trusted: the requests that remove no name and change no owner and no
  mode leave the cache coherent. In every state that they lead to, a lookup through the cache
  returns what one without it does.
\<close>

section \<open>Databases that grow\<close>

text \<open>Every node keeps its mode and its owners, every entry stays; there may be new ones.\<close>

definition extends :: "('s, 'h) env \<Rightarrow> ('s, 'h, 'z) world_scheme \<Rightarrow> ('s, 'h, 'z) world_scheme \<Rightarrow> bool" where
  "extends E w w' \<longleftrightarrow>
     (\<forall>i. mode_of E w i \<noteq> None \<longrightarrow> mode_of E w' i = mode_of E w i
        \<and> (wattr E w' DNodes i A_uid :: uid_t option) = wattr E w DNodes i A_uid
        \<and> (wattr E w' DNodes i A_gid :: gid_t option) = wattr E w DNodes i A_gid)
   \<and> (\<forall>d n c. entry E w d n = Some c \<longrightarrow> entry E w' d n = Some c)"

lemma extends_mode: "extends E w w' \<Longrightarrow> mode_of E w i = Some m \<Longrightarrow> mode_of E w' i = Some m"
  unfolding extends_def by (metis option.distinct(1))

lemma extends_dir: "extends E w w' \<Longrightarrow> is_dir E w i \<Longrightarrow> is_dir E w' i"
  by (auto simp: is_dir_def dest: extends_mode)

lemma extends_step: "extends E w w' \<Longrightarrow> step_to E w i t = Some j \<Longrightarrow> step_to E w' i t = Some j"
  using extends_dir [of E w w' i] extends_mode [of E w w' j]
  by (auto simp: step_to_def extends_def split: if_splits bind_splits)

lemma extends_resolve: "extends E w w' \<Longrightarrow> resolve E w ts = Some i \<Longrightarrow> resolve E w' ts = Some i"
proof (induction ts arbitrary: i rule: rev_induct)
  case Nil
  then show ?case using extends_mode [of E w w' 0] by (auto simp: resolve_Nil split: if_splits)
next
  case (snoc t ts)
  then show ?case using extends_step [of E w w'] by (auto simp: resolve_snoc split: bind_splits)
qed

lemma extends_matches: "extends E w w' \<Longrightarrow> matches E w ts d \<Longrightarrow> matches E w' ts d"
  using extends_resolve [of E w w' ts] unfolding matches_def extends_def by (metis option.distinct(1))

text \<open>The cache is coherent, every node has its owners and the root is a directory.\<close>

definition sturdy :: "('s, 'h) env \<Rightarrow> ('s, 'h, 'z) pworld_scheme \<Rightarrow> bool" where
  "sturdy E w \<longleftrightarrow> good_cache E w \<and> is_dir E w 0"

lemma sturdy_extends:
  assumes "sturdy E w" and "extends E w w'" and "pcache w' = pcache w" and "owners_ok E w'"
  shows "sturdy E w'"
proof -
  have "pc_ok (matches E w) [] (pcache w')" using assms(1,3) by (simp add: sturdy_def good_cache_def pc_coherent_def)
  then have "pc_ok (matches E w') [] (pcache w')" by (rule pc_ok_weaken) (rule extends_matches [OF assms(2)])
  then show ?thesis
    using assms extends_dir [OF assms(2)] by (simp add: sturdy_def good_cache_def pc_coherent_def)
qed

lemma cache_pred_sturdy:
  fixes E :: "('s, 'h) env"
  shows "cache_pred E (sturdy E :: ('s, 'h, 'z) pworld_scheme \<Rightarrow> bool)"
  using cache_pred_good [of E] unfolding cache_pred_def sturdy_def by (auto simp: same_db_is_dir)

lemma sturdy_same: "sturdy E w \<Longrightarrow> same_db E w w' \<Longrightarrow> pcache w' = pcache w \<Longrightarrow> sturdy E w'"
  using cache_pred_sturdy [of E] unfolding cache_pred_def by blast

lemma sturdy_getnode:
  assumes "lawful E" and "sturdy E w" and run: "getnode_path E sctx p w = (r, w')"
  shows "sturdy E w'"
proof -
  obtain c where "w' = w\<lparr>pcache := c\<rparr>"
    using hash_getnode_coherent [OF assms(1), of w sctx p] assms(2) run by (auto simp: sturdy_def good_cache_def)
  then have "is_dir E w' = is_dir E w" using same_db_is_dir [OF pcache_db] by simp
  then show ?thesis using good_getnode [OF assms(1) _ run] assms(2) by (simp add: sturdy_def)
qed

lemma sturdy_put:
  fixes w :: "('s, 'h, 'z) pworld_scheme"
  assumes "lawful E" and "name \<noteq> A_uid" and "name \<noteq> A_gid" and "name \<noteq> A_mode" and "sturdy E w"
  shows "sturdy E (put_attr E DNodes (i :: nodeid) name v w)"
proof -
  have "good_cache E (put_attr E DNodes i name v w)"
    by (rule good_put [OF assms(1-4)]) (use assms(5) in \<open>simp add: sturdy_def\<close>)
  then show ?thesis using assms by (simp add: sturdy_def)
qed

section \<open>Computations that keep the cache\<close>

named_theorems sound_rules

text \<open>They keep the file system in order and what the cache relies on, whichever way they end.\<close>

definition spoilt :: "('s, 'h) env \<Rightarrow> exn \<Rightarrow> ('s, 'h, 'z) pworld_scheme \<Rightarrow> bool" where
  "spoilt E e w \<longleftrightarrow> failed E e w \<and> sturdy E w"

abbreviation sound :: "('s, 'h) env \<Rightarrow> ('s, 'h, 'z, 'a) pop \<Rightarrow> bool" where
  "sound E m \<equiv> hoare (inorder E (sturdy E)) m (\<lambda>_. inorder E (sturdy E)) (spoilt E)"

lemma soundI:
  assumes "ordered E m" and "\<And>w r w'. fsys E w \<Longrightarrow> sturdy E w \<Longrightarrow> m w = (r, w') \<Longrightarrow> sturdy E w'"
  shows "sound E m"
proof (rule hoareI)
  fix w a w' assume w: "inorder E (sturdy E) w" and run: "m w = (Inr a, w')"
  then have "inorder E (\<lambda>_. True) w'" using hoare_Inr [OF assms(1) run] by (simp add: inorder_def)
  then show "inorder E (sturdy E) w'" using assms(2) [OF _ _ run] w by (simp add: inorder_def)
next
  fix w e w' assume w: "inorder E (sturdy E) w" and run: "m w = (Inl e, w')"
  then have "failed E e w'" using hoare_Inl [OF assms(1) run] by (simp add: inorder_def)
  then show "spoilt E e w'" using assms(2) [OF _ _ run] w by (simp add: inorder_def spoilt_def)
qed

lemma sound_same:
  assumes "ordered E m" and "\<And>w r w'. m w = (r, w') \<Longrightarrow> same_db E w w' \<and> pcache w' = pcache w"
  shows "sound E m"
  by (rule soundI [OF assms(1)]) (use assms(2) sturdy_same in blast)

lemma sound_bind [sound_rules]: "sound E m \<Longrightarrow> (\<And>a. sound E (f a)) \<Longrightarrow> sound E (bind m f)"
  by (rule hoare_bind)

lemma sound_andthen [sound_rules]: "sound E m \<Longrightarrow> sound E k \<Longrightarrow> sound E (andthen m k)"
  by (rule hoare_andthen)

lemma sound_if [sound_rules]: "(c \<Longrightarrow> sound E m) \<Longrightarrow> (\<not> c \<Longrightarrow> sound E k) \<Longrightarrow> sound E (if c then m else k)"
  by simp

lemma sound_when [sound_rules]: "(c \<Longrightarrow> sound E m) \<Longrightarrow> sound E (whenM c m)"
  by (rule hoare_whenM)

lemma sound_option [sound_rules]:
  "sound E m \<Longrightarrow> (\<And>a. sound E (f a)) \<Longrightarrow> sound E (case r of None \<Rightarrow> m | Some a \<Rightarrow> f a)"
  by (simp split: option.split)

lemma sound_prod [sound_rules]: "(\<And>a b. sound E (f a b)) \<Longrightarrow> sound E (case r of (a, b) \<Rightarrow> f a b)"
  by (simp split: prod.split)

lemma sound_safe: "safe m \<Longrightarrow> sound E m"
  by (rule sound_same [OF ordered_safe]) (auto dest!: safeD(1) simp: host_only_same_db dest: more_caches(2) [OF host_only_more])

lemmas sound_reads [sound_rules] = sound_safe [OF safe_ret] sound_safe [OF safe_getattr] sound_safe [OF safe_getattrv]
  sound_safe [OF safe_access] sound_safe [OF safe_cast] sound_safe [OF safe_gets] sound_safe [OF safe_single_close]
  sound_safe [OF safe_getmedium] sound_safe [OF getregisters_safe]

lemma sound_userctx [sound_rules]: "sound E (userctx E ctx)"
  by (rule sound_same [OF triple_userctx [OF tree_db [OF tree_pred_True]]]) (auto simp: userctx_def same_db_def dest: sc_get_db)

lemma sound_getnode [sound_rules]: "lawful E \<Longrightarrow> sound E (getnode_path E sctx p)"
  by (rule soundI [OF hoare_drop_to [OF triple_getnode_path [where P = "\<lambda>_. True", OF _ tree_db [OF tree_pred_True]]]])
    (auto intro: sturdy_getnode)

lemma sound_setattrv [sound_rules]:
  assumes "lawful E" and "n \<noteq> A_nlink" and "n \<noteq> A_mode" and "n \<noteq> A_uid" and "n \<noteq> A_gid"
  shows "sound E (setattrv E DNodes (i :: nodeid) n v)"
  by (rule soundI [OF ordered_setattrv [OF assms(1-3)]]) (use assms in \<open>auto simp: setattrv_eq intro: sturdy_put\<close>)

lemma sound_setattr [sound_rules]:
  "lawful E \<Longrightarrow> n \<noteq> A_nlink \<Longrightarrow> n \<noteq> A_mode \<Longrightarrow> n \<noteq> A_uid \<Longrightarrow> n \<noteq> A_gid \<Longrightarrow> sound E (setattr E DNodes (i :: nodeid) n v)"
  unfolding setattr_def by (rule sound_setattrv)

lemma sound_time [sound_rules]: "sound E (time_now E)"
  by (rule sound_same [OF ordered_time]) (auto simp: time_now_def same_db_def)

lemma sound_stamp [sound_rules]:
  "lawful E \<Longrightarrow> n \<noteq> A_nlink \<Longrightarrow> n \<noteq> A_mode \<Longrightarrow> n \<noteq> A_uid \<Longrightarrow> n \<noteq> A_gid \<Longrightarrow> sound E (stamp E c n)"
  unfolding stamp_def by (intro sound_bind sound_time sound_setattr)

text \<open>The attributes that the handlers set are none of those that resolution reads.\<close>

lemma other_names [simp]:
  "A_atime \<noteq> A_uid" "A_atime \<noteq> A_gid" "A_mtime \<noteq> A_uid" "A_mtime \<noteq> A_gid" "A_ctime \<noteq> A_uid" "A_ctime \<noteq> A_gid"
  "A_size \<noteq> A_uid" "A_size \<noteq> A_gid" "A_dev \<noteq> A_uid" "A_dev \<noteq> A_gid" "A_symlink \<noteq> A_uid" "A_symlink \<noteq> A_gid"
  by (simp_all add: A_defs)

lemma sound_handle [sound_rules]:
  assumes "sound E m" and "\<And>e. e \<noteq> EStuck \<Longrightarrow> sound E (h e)"
  shows "sound E (handle m h)"
proof (rule hoare_handle [OF assms(1)])
  show "hoare (spoilt E e) (h e) (\<lambda>_. inorder E (sturdy E)) (spoilt E)" for e
  proof (cases "e = EStuck")
    case False
    show ?thesis by (rule hoare_pre [OF assms(2) [OF False]]) (simp add: spoilt_def failed_def inorder_def)
  qed (simp add: hoare_def spoilt_def failed_def)
qed

lemma sound_scope [sound_rules]:
  fixes E :: "('s, 'h) env" and m :: "('s, 'h, 'z, 'a) pop"
  assumes "lawful E" and "sound E m"
  shows "sound E (with_fstxn E m)"
proof (rule with_fstxn_hoare [OF inorder_begin [OF assms(1) cache_pred_sturdy] assms(2)])
  have commit: "sturdy E (fstxn_commit E w)" if "sturdy E w" for w :: "('s, 'h, 'z) pworld_scheme"
    by (rule sturdy_same [OF that same_db_commit [OF assms(1)] more_caches(2) [OF more_txn(2)]])
  show "inorder E (sturdy E) (fstxn_commit E w)" if "inorder E (sturdy E) w" for w :: "('s, 'h, 'z) pworld_scheme"
    using that by (auto simp: inorder_def intro: commit fsys_commit [OF assms(1)])
  show "spoilt E e (fstxn_commit E w)" if "spoilt E e w" for e and w :: "('s, 'h, 'z) pworld_scheme"
    using that by (auto simp: spoilt_def failed_def intro: commit fsys_commit [OF assms(1)])
qed

lemma sound_commit: "lawful E \<Longrightarrow> sound E (modify (fstxn_commit E))"
  by (rule sound_same [OF ordered_commit]) (auto intro: same_db_commit more_caches(2) [OF more_txn(2)])

lemma sound_throw: "e \<noteq> EStuck \<Longrightarrow> sound E (throw e)"
  by (rule sound_safe [OF safe_throw])

lemma sound_missing: "sound E k \<Longrightarrow> e \<noteq> EStuck \<Longrightarrow> sound E (on_missing b k e)"
  by (auto simp: on_missing_def split: exn.splits intro: sound_throw)

lemma sound_delattr:
  assumes "lawful E" and "n \<noteq> A_nlink" and "n \<noteq> A_mode" and "n \<noteq> A_uid" and "n \<noteq> A_gid"
  shows "sound E (delattr E DNodes (i :: nodeid) n)"
proof (rule soundI [OF ordered_delattr [OF assms(1-3)]])
  fix w w' :: "('a, 'b, 'd) pworld_scheme" and r
  let ?w = "del_attr E DNodes i n w"
  assume w: "sturdy E w" and "delattr E DNodes i n w = (r, w')"
  then consider "w' = w" | "w' = ?w" using assms(1) by (auto simp: delattr_eq split: option.splits)
  then show "sturdy E w'"
  proof cases
    case 2
    have a: "mode_of E ?w c = mode_of E w c" "entry E ?w c m = entry E w c m"
      "wattr E ?w DNodes (c :: nodeid) A_uid = (wattr E w DNodes c A_uid :: uid_t option)"
      "wattr E ?w DNodes (c :: nodeid) A_gid = (wattr E w DNodes c A_gid :: gid_t option)" for c m
      using assms by simp_all
    have "world.more ?w = world.more w" using assms(1) by simp
    then have "pcache ?w = pcache w" by (rule more_caches(2))
    moreover have "extends E w ?w" and "owners_ok E ?w"
      using w by (simp_all only: extends_def sturdy_def good_cache_def owners_ok_def a simp_thms) blast
    ultimately show ?thesis using sturdy_extends [OF w] 2 by simp
  qed (simp add: w)
qed

section \<open>Requests that change no tree\<close>

lemma sound_sources [sound_rules]:
  assumes "lawful E"
  shows "sound E (single_read E s n off)" and "sound E (single_write E s b off)"
    and "sound E (single_flush E s)" and "sound E (single_fsync E s ds)" and "sound E (single_ftruncate E s len)"
proof -
  show flush: "sound E (single_flush E s)"
    unfolding single_flush_def by (intro sound_rules assms) simp_all
  show "sound E (single_read E s n off)" and "sound E (single_fsync E s ds)" and "sound E (single_ftruncate E s len)"
    unfolding source_defs by (intro sound_rules assms sound_safe [OF safe_chunk_ops(1)] sound_safe [OF safe_chunk_ops(3)]
        sound_safe [OF safe_chunk_ops(4)] flush [unfolded single_flush_def]; simp)+
  show "sound E (single_write E s b off)"
    unfolding single_write_def Let_def by (intro sound_rules sound_safe [OF safe_chunk_ops(2)])
qed

lemma sound_getsource [sound_rules]:
  assumes "lawful E"
  shows "sound E (getsource E f phid flags)"
  unfolding getsource_def addfile_def
  by (intro sound_handle sound_missing sound_rules assms sound_safe [OF safe_source_getsource]
      sound_safe [OF getmedium_label_safe]) (simp_all add: A_defs)

lemma sound_set_file [sound_rules]: "sound E (set_file i s)"
  by (rule sound_same [OF ordered_set_file]) (auto simp: set_file_def same_db_def)

lemma sound_file_at [sound_rules]: "sound E (file_at fh)"
  unfolding file_at_def by (rule sound_safe [OF safe_gets])

lemma sound_stats: "sound E (stats_loop E' ms st)"
proof (induction ms arbitrary: st)
  case (Cons i ms)
  then show ?case unfolding stats_loop.simps by (intro sound_bind sound_reads sound_safe [OF safe_getstats])
qed (simp add: sound_reads)

lemma sound_getattrs [sound_rules]: "sound E (getattrs E' d i)"
  by (rule sound_safe, rule safeI) (auto simp: getattrs_def scan_result_def split: prod.splits if_splits)

lemma sound_getchildren [sound_rules]: "sound E (getchildren E d)"
  unfolding getchildren_def by (rule sound_getattrs)

text \<open>An attribute outside \<^verbatim>\<open>offlinefs.*\<close> is none of those that resolution reads.\<close>

lemma free_names:
  assumes "\<not> is_reserved name"
  shows "name \<noteq> A_nlink" "name \<noteq> A_mode" "name \<noteq> A_uid" "name \<noteq> A_gid"
  using assms by (auto simp: is_reserved_def A_defs)

lemma sound_xattrs:
  fixes E :: "('s, 'h) env"
  assumes "lawful E" and "\<not> is_reserved name"
  shows "sound E (fs_setxattr E ctx p name v flags :: ('s, 'h, 'z, int) fop)"
    and "sound E (fs_removexattr E ctx p name :: ('s, 'h, 'z, int) fop)"
  unfolding fs_setxattr_def fs_removexattr_def xattr_denied_def
  using free_names [OF assms(2)]
  by (intro sound_rules sound_missing sound_delattr assms(1); simp)+

text \<open>The requests that read, or set times, sizes and attributes outside \<^verbatim>\<open>offlinefs.*\<close>.\<close>

fun flat :: "request \<Rightarrow> bool" where
  "flat (Mknod p mode dev) = False"
| "flat (Mkdir p mode) = False"
| "flat (Symlink old new) = False"
| "flat (Link old new) = False"
| "flat (Unlink p) = False"
| "flat (Rmdir p) = False"
| "flat (Rename old new) = False"
| "flat (Chmod p mode) = False"
| "flat (Chown p uid gid) = False"
| "flat (Setxattr p name v flags) = (\<not> is_reserved name)"
| "flat (Removexattr p name) = (\<not> is_reserved name)"
| "flat req = True"

lemma flat_sound:
  assumes "lawful E" and "flat req"
  shows "sound E (serve E ctx req)"
  using assms(2)
  by (cases req) (simp_all add: reply_as_def,
      (unfold fs_getattr_def fs_readdir_def fs_readlink_def fs_truncate_def fs_open_def fs_read_def fs_write_def
         fs_statfs_def fs_flush_def fs_release_def fs_fsync_def fs_getxattr_def fs_listxattr_def fs_utimens_def fs_access_def fs_opendir_def handler_def)?,
      (intro sound_rules sound_xattrs sound_stats sound_commit sound_throw assms(1); simp)+)

end
