(* ===== verification/Fs_Grown.thy ===== *)
theory Fs_Grown
  imports Fs_Grow
begin

text \<open>
  The requests that create a node or a link also leave the path cache coherent. A new node has no
  owner until the handler has set it, so that the databases are followed from the state before
  its creation. The histories of such requests follow.
\<close>

section \<open>States with a node that is being made\<close>

text \<open>What resolution reads is in \<open>w'\<close> as in \<open>w\<close>, but for the node \<open>n\<close> and for new entries.\<close>

definition alike_but :: "('s, 'h) env \<Rightarrow> nodeid set \<Rightarrow> ('s, 'h, 'z) pworld_scheme \<Rightarrow> ('s, 'h, 'z) pworld_scheme \<Rightarrow> bool" where
  "alike_but E N w w' \<longleftrightarrow> pcache w' = pcache w
   \<and> (\<forall>i. i \<notin> N \<longrightarrow> mode_of E w' i = mode_of E w i
        \<and> (wattr E w' DNodes i A_uid :: uid_t option) = wattr E w DNodes i A_uid
        \<and> (wattr E w' DNodes i A_gid :: gid_t option) = wattr E w DNodes i A_gid)
   \<and> (\<forall>d n c. entry E w d n = Some c \<longrightarrow> entry E w' d n = Some c)"

lemma alike_but_trans: "alike_but E N w w1 \<Longrightarrow> alike_but E N w1 w2 \<Longrightarrow> alike_but E N w w2"
  by (simp add: alike_but_def)

lemma sturdy_alike:
  assumes "sturdy E w" and "alike_but E {} w w'"
  shows "sturdy E w'"
proof (rule sturdy_extends [OF assms(1)])
  show "extends E w w'" using assms(2) by (simp add: alike_but_def extends_def)
  have "owners_ok E w" using assms(1) by (simp add: sturdy_def good_cache_def)
  then show "owners_ok E w'" using assms(2) unfolding owners_ok_def alike_but_def by simp
qed (use assms(2) in \<open>simp add: alike_but_def\<close>)

lemma same_tree_alike: "same_tree E w w' \<Longrightarrow> world.more w' = world.more w \<Longrightarrow> alike_but E N w w'"
  using more_caches(2) [of w' w] by (simp add: alike_but_def same_tree_wattr)

lemma add_entry_alike:
  assumes "lawful E" and "attr E w DDirectories d name = None"
  shows "alike_but E N w (add_entry E d name c k w)"
proof -
  have "A_mode \<noteq> A_nlink" "A_uid \<noteq> A_nlink" "A_gid \<noteq> A_nlink" by (simp_all add: A_defs)
  moreover have "entry E w d name = None" using assms(2) by (simp add: wattr_def)
  moreover have "pcache (add_entry E d name c k w) = pcache w"
    by (rule more_caches(2)) (simp add: assms(1))
  ultimately show ?thesis using assms(1) by (auto simp: alike_but_def)
qed

lemma put_alike:
  assumes "lawful E" and "i \<in> N"
  shows "alike_but E N w (put_attr E DNodes i name v w)"
proof -
  have "pcache (put_attr E DNodes i name v w) = pcache w" by (rule more_caches(2)) (simp add: assms(1))
  then show ?thesis using assms by (auto simp: alike_but_def)
qed

text \<open>\<open>n\<close> is new since a state that was sound.\<close>

definition fresh :: "('s, 'h) env \<Rightarrow> nodeid \<Rightarrow> ('s, 'h, 'z) pworld_scheme \<Rightarrow> bool" where
  "fresh E n w \<longleftrightarrow> (\<exists>w0. sturdy E w0 \<and> mode_of E w0 n = None \<and> alike_but E {n} w0 w)"

lemma fresh_alike: "fresh E n w \<Longrightarrow> alike_but E {n} w w' \<Longrightarrow> fresh E n w'"
  unfolding fresh_def by (blast intro: alike_but_trans)

text \<open>Once it has its owners the state is sound again.\<close>

lemma fresh_owned:
  assumes "fresh E n w" and "(wattr E w DNodes n A_uid :: uid_t option) \<noteq> None" and "(wattr E w DNodes n A_gid :: gid_t option) \<noteq> None"
  shows "sturdy E w"
proof -
  obtain w0 where w0: "sturdy E w0" "mode_of E w0 n = None" "alike_but E {n} w0 w"
    using assms(1) by (auto simp: fresh_def)
  have "owners_ok E w0" using w0(1) by (simp add: sturdy_def good_cache_def)
  then have "owners_ok E w"
    using w0(3) assms(2,3) unfolding owners_ok_def alike_but_def by (metis option.exhaust singletonD)
  moreover have "extends E w0 w"
    using w0(2,3) unfolding alike_but_def extends_def by (metis singletonD)
  ultimately show ?thesis using sturdy_extends [OF w0(1)] w0(3) by (simp add: alike_but_def)
qed

section \<open>Steps\<close>

lemma det_hoare:
  assumes "\<And>w w' r. P w \<Longrightarrow> m w = (r, w') \<Longrightarrow> Q w' \<and> r = Inr ()"
  shows "hoare P m (\<lambda>_. Q) R"
proof (rule hoareI)
  fix w e w' assume "P w" and "m w = (Inl e, w')"
  then show "R e w'" using assms [of w "Inl e" w'] by simp
qed (use assms in blast)

lemma keep_setattrv:
  assumes "lawful E" and "name \<noteq> A_uid" and "name \<noteq> A_gid" and "name \<noteq> A_mode"
  shows "hoare (sturdy E) (setattrv E DNodes (i :: nodeid) name v) (\<lambda>_. sturdy E) R"
  by (rule hoareI) (use assms sturdy_put in \<open>auto simp: setattrv_eq\<close>)

lemma keep_setattr:
  "lawful E \<Longrightarrow> name \<noteq> A_uid \<Longrightarrow> name \<noteq> A_gid \<Longrightarrow> name \<noteq> A_mode \<Longrightarrow>
     hoare (sturdy E) (setattr E DNodes (i :: nodeid) name v) (\<lambda>_. sturdy E) R"
  unfolding setattr_def by (rule keep_setattrv)

lemma keep_stamp:
  assumes "lawful E" and "name \<noteq> A_uid" and "name \<noteq> A_gid" and "name \<noteq> A_mode"
  shows "hoare (sturdy E) (stamp E c name) (\<lambda>_. sturdy E) R"
proof -
  have "hoare (sturdy E) (time_now E) (\<lambda>_. sturdy E) R"
    by (rule hoareI) (auto simp: time_now_def same_db_def intro: sturdy_same)
  then show ?thesis unfolding stamp_def by (rule hoare_bind) (rule keep_setattr [OF assms])
qed

lemma keep_tail: "lawful E \<Longrightarrow> hoare (sturdy E) (andthen (touch_parent E d) (ret c)) (\<lambda>_. sturdy E) R"
  unfolding touch_parent_def
  by (rule hoare_andthen [OF hoare_andthen [OF keep_stamp keep_stamp] hoare_ret]) simp_all

lemma keep_addchild:
  fixes E :: "('s, 'h) env"
  assumes "lawful E"
  shows "hoare (inorder E (\<lambda>w. (is_dir E w (nid d) \<and> card (refs E w (nid n)) < 2 ^ 31 \<and> refs E w (nid n) \<noteq> {}) \<and> sturdy E w))
     (addchild E d name n) (\<lambda>_. sturdy E) (\<lambda>_. sturdy E :: ('s, 'h, 'z) pworld_scheme \<Rightarrow> bool)"
proof -
  have "sturdy E w'" if w: "inorder E (\<lambda>w. (is_dir E w (nid d) \<and> card (refs E w (nid n)) < 2 ^ 31 \<and> refs E w (nid n) \<noteq> {}) \<and> sturdy E w) w"
    and run: "addchild E d name n w = (r, w')" for w w' :: "('s, 'h, 'z) pworld_scheme" and r
  proof -
    have inv: "fs_inv E w" and dir: "is_dir E w (nid d)" and small: "card (refs E w (nid n)) < 2 ^ 31"
      and refs: "refs E w (nid n) \<noteq> {}" and ok: "sturdy E w" using w by (simp_all add: inorder_def fsys_def)
    show ?thesis
    proof (cases rule: addchild_cases [OF assms inv dir small, of name])
      case (1 k)
      then show ?thesis using run sturdy_alike [OF ok add_entry_alike [OF assms 1(1)]] by simp
    next
      case (2 w2 k)
      have "world.more w2 = world.more w" using 2(4) by (simp add: still_def)
      then show ?thesis using run 2(2) sturdy_alike [OF ok same_tree_alike [OF 2(5) [OF refs]]] by simp
    next
      case (3 e)
      then show ?thesis using run ok by simp
    qed
  qed
  then show ?thesis by (intro hoareI) blast+
qed

text \<open>What a triple of the invariant says, together with the soundness of the cache.\<close>

lemma sound_with:
  assumes "hoare (inorder E P) m (\<lambda>a. inorder E (Q a)) (failed E)" and "sound E m"
  shows "hoare (inorder E (\<lambda>w. P w \<and> sturdy E w)) m (\<lambda>a. inorder E (\<lambda>w. Q a w \<and> sturdy E w)) (spoilt E)"
proof (rule hoareI)
  fix w a w' assume w: "inorder E (\<lambda>w. P w \<and> sturdy E w) w" and run: "m w = (Inr a, w')"
  show "inorder E (\<lambda>w. Q a w \<and> sturdy E w) w'"
    using hoare_Inr [OF assms(1) run] hoare_Inr [OF assms(2) run] w by (simp add: inorder_def)
next
  fix w e w' assume w: "inorder E (\<lambda>w. P w \<and> sturdy E w) w" and run: "m w = (Inl e, w')"
  show "spoilt E e w'" using hoare_Inl [OF assms(2) run] w by (simp add: inorder_def)
qed

lemma sound_path_new: "lawful E \<Longrightarrow> sound E (path_new (getnode_path E) sctx p)"
  unfolding path_new_def Let_def by (intro sound_rules)

lemma hoare_spoilt: "hoare P m Q (spoilt E) \<Longrightarrow> hoare P m Q (\<lambda>_. sturdy E)"
  by (erule hoare_weaken) (auto simp: spoilt_def)

section \<open>Creating a node\<close>

text \<open>What is known of the node after \<^verbatim>\<open>Path::create\<close>.\<close>

definition raw_node :: "('s, 'h) env \<Rightarrow> kind \<Rightarrow> nodeid \<Rightarrow> node \<Rightarrow> ('s, 'h, 'z) pworld_scheme \<Rightarrow> bool" where
  "raw_node E k d n w \<longleftrightarrow> entered E k d n w \<and> fresh E (nid n) w \<and> attr E w DDirectories (nid n) ''..'' = None"

lemma keep_create:
  fixes E :: "('s, 'h) env"
  assumes "lawful E"
  shows "hoare (inorder E (\<lambda>w. (roomy E w \<and> is_dir E w (nid (parent p)) \<and> nkind (parent p) = KDirectory) \<and> sturdy E w))
     (path_create E k p sctx) (\<lambda>n. inorder E (raw_node E k (nid (parent p)) n))
     (\<lambda>_. sturdy E :: ('s, 'h, 'z) pworld_scheme \<Rightarrow> bool)"
proof -
  let ?P = "\<lambda>w. (roomy E w \<and> is_dir E w (nid (parent p)) \<and> nkind (parent p) = KDirectory) \<and> sturdy E w"
  have step: "case r of Inr n \<Rightarrow> fresh E (nid n) w' \<and> attr E w' DDirectories (nid n) ''..'' = None | Inl e \<Rightarrow> sturdy E w'"
    if w: "inorder E ?P w" and run: "path_create E k p sctx w = (r, w')" for w w' :: "('s, 'h, 'z) pworld_scheme" and r
  proof -
    have inv: "fs_inv E w" and ids: "ids_left E w" and dir: "is_dir E w (nid (parent p))" and ok: "sturdy E w"
      using w by (simp_all add: inorder_def fsys_def roomy_def)
    show ?thesis
    proof (cases rule: path_create_cases [OF assms inv ids dir, of k sctx])
      case (1 e)
      then show ?thesis using run ok by auto
    next
      case (2 w2)
      then show ?thesis using run sturdy_alike [OF ok same_tree_alike [OF 2(3,4)]] by auto
    next
      case (3 n w1 kk)
      let ?d = "nid (parent p)"
      note cr = 3(4) [unfolded created_def]
      have dn: "is_dir E w1 ?d" "?d \<noteq> nid n" using created_is_dir [OF 3(4) dir] by simp_all
      have free: "attr E w1 DDirectories ?d (leaf p) = None" using cr dn(2) 3(8) by simp
      have new: "mode_of E w (nid n) = None" using cr by (simp add: wattr_def)
      have "\<not> is_dir E w (nid n)" using new by (simp add: is_dir_def)
      then have "entry E w (nid n) m = None" for m using link_invD(5) [OF fs_inv_link [OF inv], of "nid n" m] by blast
      then have "entry E w1 j m = Some c" if "entry E w j m = Some c" for j m c
        using that created_entry [OF 3(4)] by (metis option.distinct(1))
      moreover have "pcache w1 = pcache w" by (rule more_caches(2)) (use cr in simp)
      ultimately have "alike_but E {nid n} w w1" using cr by (simp add: alike_but_def wattr_def)
      then have "alike_but E {nid n} w (add_entry E ?d (leaf p) (nid n) kk w1)"
        using add_entry_alike [OF assms free] by (rule alike_but_trans)
      then have "fresh E (nid n) (add_entry E ?d (leaf p) (nid n) kk w1)" using ok new by (auto simp: fresh_def)
      moreover have "attr E w1 DDirectories (nid n) ''..'' = None" using 3(6) by (auto simp: new_node_def)
      ultimately show ?thesis using run 3(1) assms dn(2) by auto
    qed
  qed
  show ?thesis
  proof (rule hoareI)
    fix w n and w' :: "('s, 'h, 'z) pworld_scheme" assume w: "inorder E ?P w" and run: "path_create E k p sctx w = (Inr n, w')"
    have "inorder E (entered E k (nid (parent p)) n) w'"
      by (rule hoare_Inr [OF triple_path_create [OF assms] run]) (use w in \<open>simp add: inorder_def roomy_def\<close>)
    then show "inorder E (raw_node E k (nid (parent p)) n) w'" using step [OF w run] by (simp add: inorder_def raw_node_def)
  qed (use step in fastforce)
qed

text \<open>The handler sets the owners, then the mode.\<close>

definition owned :: "('s, 'h) env \<Rightarrow> nodeid \<Rightarrow> ('s, 'h, 'z) pworld_scheme \<Rightarrow> bool" where
  "owned E n w \<longleftrightarrow> fresh E n w \<and> (wattr E w DNodes n A_uid :: uid_t option) \<noteq> None
     \<and> (wattr E w DNodes n A_gid :: gid_t option) \<noteq> None"

lemma keep_owners:
  assumes "lawful E" and "hoare (owned E n) k (\<lambda>_. sturdy E) R"
  shows "hoare (fresh E n) (andthen (setattr E DNodes n A_uid (u :: uid_t)) (andthen (setattr E DNodes n A_gid (g :: gid_t)) k))
     (\<lambda>_. sturdy E) R"
proof -
  let ?A = "\<lambda>w. fresh E n w \<and> (wattr E w DNodes n A_uid :: uid_t option) \<noteq> None"
  have names: "A_uid \<noteq> A_gid" by (simp add: A_defs)
  have put: "fresh E n (put_attr E DNodes n name v w)" if "fresh E n w" for name v w
    by (rule fresh_alike [OF that put_alike [OF assms(1)]]) simp
  have "hoare (fresh E n) (setattr E DNodes n A_uid u) (\<lambda>_. ?A) R"
    using assms(1) by (intro hoareI) (auto simp: setattr_eq intro: put)
  moreover have "hoare ?A (setattr E DNodes n A_gid g) (\<lambda>_. owned E n) R"
    using assms(1) names by (intro hoareI) (auto simp: setattr_eq owned_def intro: put)
  ultimately show ?thesis by (intro hoare_andthen [OF _ hoare_andthen [OF _ assms(2)]])
qed

lemma keep_mode:
  assumes "lawful E"
  shows "hoare (owned E n) (setattr E DNodes n A_mode (m :: mode_t)) (\<lambda>_. sturdy E) R"
proof (rule hoareI)
  fix w a w' assume w: "owned E n w" and "setattr E DNodes n A_mode m w = (Inr a, w')"
  then have w': "w' = put_attr E DNodes n A_mode (enc E m) w" using assms by (simp add: setattr_eq)
  have "fresh E n w'" unfolding w' by (rule fresh_alike [OF _ put_alike [OF assms]]) (use w in \<open>simp_all add: owned_def\<close>)
  moreover have "A_uid \<noteq> A_mode" "A_gid \<noteq> A_mode" by (simp_all add: A_defs)
  ultimately show "sturdy E w'"
    using w assms by (intro fresh_owned [of E n]) (simp_all add: w' owned_def)
qed (simp add: setattr_eq assms)

lemma owned_sturdy: "owned E n w \<Longrightarrow> sturdy E w"
  unfolding owned_def by (blast intro: fresh_owned)

text \<open>Entering \<^verbatim>\<open>..\<close> in a new directory succeeds.\<close>

lemma keep_dotdot:
  fixes E :: "('s, 'h) env"
  assumes "lawful E"
  shows "hoare (inorder E (raw_node E KDirectory (nid d) n)) (addchild E n ''..'' d) (\<lambda>_. fresh E (nid n))
     (R :: exn \<Rightarrow> ('s, 'h, 'z) pworld_scheme \<Rightarrow> bool)"
proof -
  have "fresh E (nid n) w' \<and> r = Inr ()" if w: "inorder E (raw_node E KDirectory (nid d) n) w"
    and run: "addchild E n ''..'' d w = (r, w')" for w w' :: "('s, 'h, 'z) pworld_scheme" and r
  proof -
    have inv: "fs_inv E w" and dir: "is_dir E w (nid n)" and small: "card (refs E w (nid d)) < 2 ^ 31"
      and free: "attr E w DDirectories (nid n) ''..'' = None" and fresh: "fresh E (nid n) w" and d: "is_dir E w (nid d)"
      using w by (simp_all add: inorder_def fsys_def raw_node_def entered_def few_def)
    show ?thesis
    proof (cases rule: addchild_cases [OF assms inv dir small, of "''..''"])
      case (1 k)
      then show ?thesis using run fresh_alike [OF fresh add_entry_alike [OF assms free]] by simp
    next
      case (2 w2 k)
      then show ?thesis using free by simp
    next
      case (3 e)
      then show ?thesis using nlink_refs [OF inv fs_inv_dir [OF inv d]] by simp
    qed
  qed
  from this show ?thesis by (rule det_hoare)
qed

text \<open>The handlers, from the caller to the new node and what follows.\<close>

lemma keep_new:
  fixes E :: "('s, 'h) env"
  assumes "lawful E"
    and tail: "\<And>p n. hoare (inorder E (raw_node E k (nid (parent p)) n)) (f p n) (\<lambda>_. sturdy E)
       (\<lambda>_. sturdy E :: ('s, 'h, 'z) fsworld_scheme \<Rightarrow> bool)"
  shows "hoare (inorder E (\<lambda>w. roomy E w \<and> sturdy E w))
     (bind (userctx E ctx) (\<lambda>sctx. bind (path_new (getnode_path E) sctx pathname) (\<lambda>p. bind (path_create E k p sctx) (f p))))
     (\<lambda>_. sturdy E) (\<lambda>_. sturdy E :: ('s, 'h, 'z) fsworld_scheme \<Rightarrow> bool)"
  by (rule hoare_bind [OF hoare_spoilt [OF sound_with [OF triple_userctx [OF db_pred_roomy] sound_userctx]]
        hoare_bind [OF hoare_spoilt [OF sound_with [OF triple_path_new [OF assms(1) db_pred_roomy] sound_path_new [OF assms(1)]]]
          hoare_bind [OF keep_create [OF assms(1)] tail]]])

lemma raw_fresh: "inorder E (raw_node E k d n) w \<Longrightarrow> fresh E (nid n) w"
  by (simp add: inorder_def raw_node_def)

lemma keep_scope:
  fixes E :: "('s, 'h) env" and P :: "('s, 'h, 'z) fsworld_scheme \<Rightarrow> bool"
  assumes "lawful E" and "db_pred E P"
    and "hoare (inorder E (\<lambda>w. P w \<and> sturdy E w)) body (\<lambda>_. sturdy E) (\<lambda>_. sturdy E)"
    and "fsys E w" and "P w" and "sturdy E w" and run: "handler E body w = (r, w')"
  shows "sturdy E w'"
proof -
  let ?P = "inorder E (\<lambda>w. P w \<and> sturdy E w)"
  have commit: "sturdy E (fstxn_commit E w)" if "sturdy E w" for w :: "('s, 'h, 'z) fsworld_scheme"
    by (rule sturdy_same [OF that same_db_commit [OF assms(1)] more_caches(2) [OF more_txn(2)]])
  have "hoare ?P (with_fstxn E body) (\<lambda>_. sturdy E) (\<lambda>_. sturdy E)"
    by (rule with_fstxn_hoare [OF inorder_begin [OF assms(1) cache_pred_conj [OF db_cache_pred [OF assms(2)] cache_pred_sturdy]] assms(3)])
      (simp_all add: commit)
  then have h: "hoare ?P (handler E body) (\<lambda>_. sturdy E) (\<lambda>_. sturdy E)"
    unfolding handler_def by (rule hoare_handle) (rule hoare_ret)
  have "?P w" using assms(4-6) by (simp add: inorder_def)
  then show ?thesis using hoare_Inr [OF h, of w _ w'] hoare_Inl [OF h, of w _ w'] run by (cases r) auto
qed

lemma sturdy_mknod:
  fixes w :: "('s, 'h, 'z) fsworld_scheme"
  assumes "lawful E" and "fsys E w" and "roomy E w" and "sturdy E w" and run: "fs_mknod E ctx p mode dev w = (r, w')"
  shows "sturdy E w'"
proof (rule keep_scope [OF assms(1) db_pred_roomy keep_new [OF assms(1)] assms(2-4) run [unfolded fs_mknod_def]])
  fix pt :: path and n :: node
  have dev: "hoare (sturdy E) (whenM (S_ISCHR mode \<or> S_ISBLK mode) (setattr E DNodes (nid n) A_dev dev)) (\<lambda>_. sturdy E)
      (\<lambda>_. sturdy E :: ('s, 'h, 'z) fsworld_scheme \<Rightarrow> bool)"
    by (rule hoare_whenM) (simp_all add: keep_setattr [OF assms(1)] A_defs)
  show "hoare (inorder E (raw_node E KNode (nid (parent pt)) n))
     (andthen (setattr E DNodes (nid n) A_uid (fst ctx))
     (andthen (setattr E DNodes (nid n) A_gid (snd ctx))
     (andthen (setattr E DNodes (nid n) A_mode mode)
     (andthen (whenM (S_ISCHR mode \<or> S_ISBLK mode) (setattr E DNodes (nid n) A_dev dev))
     (andthen (touch_parent E (parent pt)) (ret (0 :: int))))))) (\<lambda>_. sturdy E) (\<lambda>_. sturdy E :: ('s, 'h, 'z) fsworld_scheme \<Rightarrow> bool)"
    by (rule hoare_pre [OF keep_owners [OF assms(1) hoare_andthen [OF keep_mode [OF assms(1)] hoare_andthen [OF dev keep_tail [OF assms(1)]]]] raw_fresh])
qed

lemma sturdy_symlink:
  fixes w :: "('s, 'h, 'z) fsworld_scheme"
  assumes "lawful E" and "fsys E w" and "roomy E w" and "sturdy E w" and run: "fs_symlink E ctx old p w = (r, w')"
  shows "sturdy E w'"
proof (rule keep_scope [OF assms(1) db_pred_roomy keep_new [OF assms(1)] assms(2-4) run [unfolded fs_symlink_def]])
  fix pt :: path and n :: node
  have target: "hoare (owned E (nid n)) (setattrv E DNodes (nid n) A_symlink old) (\<lambda>_. sturdy E)
      (\<lambda>_. sturdy E :: ('s, 'h, 'z) fsworld_scheme \<Rightarrow> bool)"
    by (rule hoare_pre [OF keep_setattrv [OF assms(1)] owned_sturdy]) (simp_all add: A_defs)
  show "hoare (inorder E (raw_node E KSymlink (nid (parent pt)) n))
     (andthen (setattr E DNodes (nid n) A_uid (fst ctx))
     (andthen (setattr E DNodes (nid n) A_gid (snd ctx))
     (andthen (setattrv E DNodes (nid n) A_symlink old)
     (andthen (touch_parent E (parent pt)) (ret (0 :: int)))))) (\<lambda>_. sturdy E) (\<lambda>_. sturdy E :: ('s, 'h, 'z) fsworld_scheme \<Rightarrow> bool)"
    by (rule hoare_pre [OF keep_owners [OF assms(1) hoare_andthen [OF target keep_tail [OF assms(1)]]] raw_fresh])
qed

lemma sturdy_mkdir:
  fixes w :: "('s, 'h, 'z) fsworld_scheme"
  assumes "lawful E" and "fsys E w" and "roomy E w" and "sturdy E w" and run: "fs_mkdir E ctx p mode w = (r, w')"
  shows "sturdy E w'"
proof (rule keep_scope [OF assms(1) db_pred_roomy keep_new [OF assms(1)] assms(2-4) run [unfolded fs_mkdir_def]])
  fix pt :: path and n :: node
  show "hoare (inorder E (raw_node E KDirectory (nid (parent pt)) n))
     (andthen (addchild E n ''..'' (parent pt))
     (andthen (setattr E DNodes (nid n) A_uid (fst ctx))
     (andthen (setattr E DNodes (nid n) A_gid (snd ctx))
     (andthen (setattr E DNodes (nid n) A_mode (or S_IFDIR mode))
     (andthen (touch_parent E (parent pt)) (ret (0 :: int))))))) (\<lambda>_. sturdy E) (\<lambda>_. sturdy E :: ('s, 'h, 'z) fsworld_scheme \<Rightarrow> bool)"
    by (rule hoare_andthen [OF keep_dotdot [OF assms(1)] keep_owners [OF assms(1) hoare_andthen [OF keep_mode [OF assms(1)] keep_tail [OF assms(1)]]]])
qed

section \<open>Linking a node\<close>

text \<open>What a sound cache finds has an entry that refers to it.\<close>

lemma found_refs:
  assumes "lawful E" and "fsys E w" and "sturdy E w" and run: "getnode_path E sctx p w = (Inr n, w')"
  shows "refs E w' (nid n) \<noteq> {}"
proof -
  have inv: "fs_inv E w" using assms(2) by (simp add: fsys_def)
  have "fst (getnode_path E sctx p w) = Inr n" using run by simp
  then have r: "resolve E w (tokenize ''/'' p) = Some (nid n)"
    using assms(1,3) by (simp add: hash_getnode_result sturdy_def good_cache_def null_result_def)
  have "refs E w (nid n) \<noteq> {}"
  proof (cases "tokenize ''/'' p" rule: rev_cases)
    case Nil
    then have "nid n = 0" using r by (simp add: resolve_Nil split: if_splits)
    then show ?thesis using fs_inv_dir [OF inv] assms(3) by (simp add: sturdy_def)
  next
    case (snoc ts t)
    then obtain i where "entry E w i t = Some (nid n)"
      using r by (auto simp: resolve_snoc step_to_def split: bind_splits if_splits)
    then show ?thesis unfolding refs_def by blast
  qed
  moreover obtain c where "w' = w\<lparr>pcache := c\<rparr>"
    using hash_getnode_coherent [OF assms(1), of w sctx p] assms(3) run by (auto simp: sturdy_def good_cache_def)
  ultimately show ?thesis using same_db_refs [OF pcache_db, of E c w] by simp
qed

lemma triple_found:
  fixes E :: "('s, 'h) env" and P :: "('s, 'h, 'z) pworld_scheme \<Rightarrow> bool"
  assumes "lawful E" and "db_pred E P"
  shows "hoare (inorder E (\<lambda>w. P w \<and> sturdy E w)) (getnode_path E sctx p)
     (\<lambda>n. inorder E (\<lambda>w. (P w \<and> refs E w (nid n) \<noteq> {}) \<and> sturdy E w)) (\<lambda>_. sturdy E)"
proof (rule hoareI)
  note T = sound_with [OF triple_getnode_path [OF assms] sound_getnode [OF assms(1)]]
  fix w n w' assume w: "inorder E (\<lambda>w. P w \<and> sturdy E w) w" and run: "getnode_path E sctx p w = (Inr n, w')"
  have "refs E w' (nid n) \<noteq> {}" using w by (intro found_refs [OF assms(1) _ _ run]) (simp_all add: inorder_def)
  then show "inorder E (\<lambda>w. (P w \<and> refs E w (nid n) \<noteq> {}) \<and> sturdy E w) w'"
    using hoare_Inr [OF T run w] by (simp add: inorder_def)
qed (rule hoare_Inl [OF hoare_spoilt [OF sound_with [OF triple_getnode_path [OF assms] sound_getnode [OF assms(1)]]]])

lemma sturdy_link:
  fixes w :: "('s, 'h, 'z) fsworld_scheme"
  assumes "lawful E" and "fsys E w" and "few E w" and "sturdy E w" and run: "fs_link E ctx old p w = (r, w')"
  shows "sturdy E w'"
proof (rule keep_scope [OF assms(1) tree_db [OF tree_pred_few] _ assms(2-4) run [unfolded fs_link_def]])
  let ?S = "\<lambda>P w :: ('s, 'h, 'z) fsworld_scheme. P w \<and> sturdy E w"
  note start = tree_db [OF tree_pred_few]
  have rest: "hoare (inorder E (?S (\<lambda>w. few E w \<and> is_dir E w (nid (parent pt)) \<and> nkind (parent pt) = KDirectory)))
     (andthen (access E sctx (parent pt) W_OK) (bind (getnode_path E sctx old) (\<lambda>n.
       andthen (stamp E n A_ctime) (andthen (addchild E (parent pt) (leaf pt) n) (andthen (touch_parent E (parent pt)) (ret (0 :: int)))))))
     (\<lambda>_. sturdy E) (\<lambda>_. sturdy E)" for sctx and pt :: path
  proof -
    let ?P = "\<lambda>w :: ('s, 'h, 'z) fsworld_scheme. few E w \<and> is_dir E w (nid (parent pt)) \<and> nkind (parent pt) = KDirectory"
    have tree: "tree_pred E ?P" by (intro tree_pred_conj tree_pred_few tree_pred_is_dir tree_pred_const)
    have tree2: "tree_pred E (\<lambda>w. ?P w \<and> refs E w (nid n) \<noteq> {})" for n :: node by (intro tree_pred_conj tree tree_pred_refs)
    have stamp: "hoare (inorder E (?S (\<lambda>w. ?P w \<and> refs E w (nid n) \<noteq> {}))) (stamp E n A_ctime)
        (\<lambda>_. inorder E (?S (\<lambda>w. ?P w \<and> refs E w (nid n) \<noteq> {}))) (\<lambda>_. sturdy E)" for n
      by (rule hoare_spoilt [OF sound_with [OF triple_stamp [OF assms(1) tree2] sound_stamp [OF assms(1)]]]) simp_all
    have add: "hoare (inorder E (?S (\<lambda>w. ?P w \<and> refs E w (nid n) \<noteq> {}))) (addchild E (parent pt) (leaf pt) n)
        (\<lambda>_. sturdy E) (\<lambda>_. sturdy E)" for n
      by (rule hoare_pre [OF keep_addchild [OF assms(1)]]) (simp add: inorder_def few_def)
    show ?thesis
      by (rule hoare_andthen [OF hoare_spoilt [OF sound_with [OF triple_access sound_safe [OF safe_access]]]
            hoare_bind [OF triple_found [OF assms(1) tree_db [OF tree]]
              hoare_andthen [OF stamp hoare_andthen [OF add keep_tail [OF assms(1)]]]]])
  qed
  show "hoare (inorder E (?S (few E))) (bind (userctx E ctx) (\<lambda>sctx. bind (path_new (getnode_path E) sctx p) (\<lambda>pt.
     andthen (access E sctx (parent pt) W_OK) (bind (getnode_path E sctx old) (\<lambda>n.
       andthen (stamp E n A_ctime) (andthen (addchild E (parent pt) (leaf pt) n) (andthen (touch_parent E (parent pt)) (ret (0 :: int)))))))))
     (\<lambda>_. sturdy E) (\<lambda>_. sturdy E)"
    by (rule hoare_bind [OF hoare_spoilt [OF sound_with [OF triple_userctx [OF start] sound_userctx]]
          hoare_bind [OF hoare_spoilt [OF sound_with [OF triple_path_new [OF assms(1) start] sound_path_new [OF assms(1)]]] rest]])
qed

section \<open>Histories without removals\<close>

text \<open>Requests that take no name away and change neither an owner nor a mode.\<close>

fun grows :: "request \<Rightarrow> bool" where
  "grows (Mknod p mode dev) = True"
| "grows (Mkdir p mode) = True"
| "grows (Symlink old new) = True"
| "grows (Link old new) = True"
| "grows req = flat req"

lemma serve_sturdy:
  fixes w :: "('s, 'h, 'z) fsworld_scheme"
  assumes "lawful E" and "fsys E w" and "sturdy E w" and "allowed E ctx req w" and "grows req" and run: "serve E ctx req w = (r, w')"
  shows "sturdy E w'"
proof (cases "flat req")
  case True
  note h = flat_sound [OF assms(1) True, of ctx]
  have "inorder E (sturdy E) w" using assms(2,3) by (simp add: inorder_def)
  then show ?thesis
    using hoare_Inr [OF h, of w _ w'] hoare_Inl [OF h, of w _ w'] run by (cases r) (auto simp: inorder_def spoilt_def)
next
  case False
  have reply: "\<exists>x. m w = (x, w')" if "reply_as f m w = (r, w')" for f and m :: "('s, 'h, 'z, int) fop"
    using that by (auto simp: reply_as_def bind_result)
  note handlers = sturdy_mknod [OF assms(1,2) _ assms(3)] sturdy_mkdir [OF assms(1,2) _ assms(3)]
    sturdy_symlink [OF assms(1,2) _ assms(3)] sturdy_link [OF assms(1,2) _ assms(3)]
  show ?thesis
    using assms(4,5) False run by (cases req) (auto dest!: reply intro: handlers)
qed

text \<open>A mount begins with an empty cache.\<close>

lemma owners_same: "same_db E w w' \<Longrightarrow> owners_ok E w \<Longrightarrow> owners_ok E w'"
  by (simp add: owners_ok_def same_db_wattr)

lemma root_owners:
  assumes "root_state E w"
  shows "owners_ok E w" and "is_dir E w 0"
proof -
  have "mode_of E w i = None" if "i \<noteq> 0" for i using assms that by (simp add: root_state_def wattr_def)
  then show "owners_ok E w" using assms unfolding owners_ok_def root_state_def by metis
  show "is_dir E w 0" using assms by (simp add: root_state_def is_dir_def S_ISDIR_def)
qed

lemma init_sturdy:
  fixes w :: "('s, 'h, 'z) fsworld_scheme"
  assumes "fs_inv E w" and "owners_ok E w" and "is_dir E w 0" and run: "fuse_init E p w = (r, w')"
  shows "sturdy E w'"
proof -
  have same: "same_db E w w'" using fuse_init_form(3) [OF assms(1) run] by (simp add: same_db_def)
  have "sc_uptodate E (w\<lparr>scache := new_scache, pcache := new_pcache, open_files := Map.empty, defmedium := defmedium_of p\<rparr>) = (r, w')"
    using run by (simp add: fuse_init_def fs_new_def)
  then have "pcache w' = new_pcache" by (auto dest: sc_uptodate_db)
  then have "pc_coherent E w'" using pc_ok_new by (simp add: pc_coherent_def new_pcache_def PATHCACHE_MAX_ENTRIES_def)
  then show ?thesis
    using owners_same [OF same assms(2)] assms(3) same_db_is_dir [OF same] by (simp add: sturdy_def good_cache_def)
qed

inductive grown :: "('s, 'h) env \<Rightarrow> ('s, 'h, 'z) fsworld_scheme \<Rightarrow> bool" for E where
  first: "fsdb_rebuild E w0 = (r, w1) \<Longrightarrow> fuse_init E p w1 = (r', w2) \<Longrightarrow> grown E w2"
| served: "grown E w \<Longrightarrow> allowed E ctx req w \<Longrightarrow> grows req \<Longrightarrow> serve E ctx req w = (Inr r, w') \<Longrightarrow> grown E w'"
| again: "grown E w \<Longrightarrow> fuse_destroy E w = (r, w1) \<Longrightarrow> fuse_init E p w1 = (r', w2) \<Longrightarrow> grown E w2"

lemma grown_mounted: "grown E w \<Longrightarrow> mounted E w"
  by (induction rule: grown.induct) (auto intro: mounted.intros)

lemma grown_sturdy: "grown E w \<Longrightarrow> lawful E \<Longrightarrow> sturdy E w"
proof (induction rule: grown.induct)
  case (first w0 r w1 p r' w2)
  then have "fs_inv E w1" and "root_state E w1" using rebuild_form [of E w0] by auto
  then show ?case using init_sturdy [OF _ root_owners] first(2) by blast
next
  case (served w ctx req r w')
  then show ?case using serve_sturdy [OF _ mounted_fsys [OF grown_mounted]] by blast
next
  case (again w r w1 p r' w2)
  have fsys: "fsys E w" using mounted_fsys [OF grown_mounted] again by blast
  have same: "same_db E w w1" by (rule host_only_same_db [OF safeD(1) [OF safe_destroy again(2)]])
  then have "fs_inv E w1" using fsys same_db_fs_inv by (auto simp: fsys_def)
  moreover have "owners_ok E w1" and "is_dir E w1 0"
    using again owners_same [OF same] same_db_is_dir [OF same] by (simp_all add: sturdy_def good_cache_def)
  ultimately show ?case using init_sturdy again(3) by blast
qed

end
