(* ===== verification/Fs_Sizes.thy ===== *)
theory Fs_Sizes
  imports Fs_Tables Fs_Xattrs
begin

text \<open>
  Writing to an open file: the source keeps the size and the times, \<^verbatim>\<open>flush\<close> brings them to
  the node. Sizes and times only grow on the way.
\<close>

section \<open>An attribute that only grows\<close>

definition raised :: "('s, 'h) env \<Rightarrow> nodeid \<Rightarrow> string \<Rightarrow> 64 word \<Rightarrow> 64 word \<Rightarrow> ('s, 'h, 'z) world_scheme \<Rightarrow> ('s, 'h, 'z) world_scheme" where
  "raised E f n old v w = (if old < v then put_attr E DNodes f n (enc E v) w else w)"

lemma raised_wattr:
  assumes "lawful E" and "wattr E w DNodes f n = Some old"
  shows "wattr E (raised E f n old v w) DNodes f m = (if m = n then Some (max old v) else wattr E w DNodes f m)"
  using assms by (auto simp: raised_def max_def not_less)

lemma raised_alike: "lawful E \<Longrightarrow> alike E S w0 w \<Longrightarrow> (f, n) \<in> S \<Longrightarrow> alike E S w0 (raised E f n old v w)"
  using alike_put [of E S w0 w f n] by (simp add: raised_def insert_absorb)

lemma raise_step:
  assumes "lawful E" and "wattr E w DNodes f n = Some old"
  shows "bind (getattr E DNodes f n) (\<lambda>old. andthen (whenM (old < v) (setattr E DNodes f n v)) k) w = k (raised E f n old v w)"
  using assms by (simp add: getattr_Some setattr_eq raised_def whenM_def)

section \<open>flush and write\<close>

text \<open>The attributes that \<^verbatim>\<open>flush\<close> may change.\<close>

definition file_attrs :: "nodeid \<Rightarrow> (nodeid \<times> string) set" where
  "file_attrs f = {(f, A_size), (f, A_atime), (f, A_mtime)}"

lemma flush_form:
  fixes w :: "('s, 'h, 'z) world_scheme" and s :: source
  assumes "lawful E" and "wattr E w DNodes (fileid s) A_size = Some sz" and "wattr E w DNodes (fileid s) A_atime = Some atime"
    and "wattr E w DNodes (fileid s) A_mtime = Some mtime"
  shows "\<exists>w'. single_flush E s w = (Inr 0, w') \<and> alike E (file_attrs (fileid s)) w w'
     \<and> wattr E w' DNodes (fileid s) A_size = Some (max sz (ssize s))
     \<and> wattr E w' DNodes (fileid s) A_atime = Some (max atime (satime s))
     \<and> wattr E w' DNodes (fileid s) A_mtime = Some (max mtime (smtime s))"
proof -
  let ?f = "fileid s" and ?w0 = "fstxn_begin E w"
  let ?w1 = "raised E ?f A_size sz (ssize s) ?w0"
  let ?w2 = "raised E ?f A_atime atime (satime s) ?w1"
  let ?w3 = "raised E ?f A_mtime mtime (smtime s) ?w2"
  note same = same_db_wattr [OF same_db_begin [OF assms(1), of w]]
  have sz: "wattr E ?w0 DNodes ?f A_size = Some sz" using assms(2) by (simp add: same)
  have "wattr E ?w0 DNodes ?f A_atime = Some atime" using assms(3) by (simp add: same)
  then have atime: "wattr E ?w1 DNodes ?f A_atime = Some atime" using raised_wattr [OF assms(1) sz] by simp
  have "wattr E ?w0 DNodes ?f A_mtime = Some mtime" using assms(4) by (simp add: same)
  then have "wattr E ?w1 DNodes ?f A_mtime = Some mtime" using raised_wattr [OF assms(1) sz] by simp
  then have mtime: "wattr E ?w2 DNodes ?f A_mtime = Some mtime" using raised_wattr [OF assms(1) atime] by simp
  have run: "single_flush E s w = (Inr 0, fstxn_commit E ?w3)"
    unfolding single_flush_def with_fstxn_def
    by (simp add: raise_step [OF assms(1) sz] raise_step [OF assms(1) atime] raise_step [OF assms(1) mtime])
  have "alike E (file_attrs ?f) w ?w0"
    by (rule alike_mono [OF alike_same_db [OF alike_refl same_db_begin [OF assms(1)]]]) simp
  then have "alike E (file_attrs ?f) w ?w3"
    by (intro raised_alike assms(1)) (simp_all add: file_attrs_def)
  then have "alike E (file_attrs ?f) w (fstxn_commit E ?w3)" by (rule alike_same_db [OF _ same_db_commit [OF assms(1)]])
  moreover have "(wattr E (fstxn_commit E ?w3) DNodes ?f n :: 64 word option) = wattr E ?w3 DNodes ?f n" for n
    by (simp add: same_db_wattr [OF same_db_commit [OF assms(1)]])
  ultimately show ?thesis
    using run raised_wattr [OF assms(1) sz] raised_wattr [OF assms(1) atime] raised_wattr [OF assms(1) mtime] by simp
qed

text \<open>What \<^verbatim>\<open>write\<close> makes of the source, whatever the medium answers.\<close>

definition written :: "('s, 'h) env \<Rightarrow> nat \<Rightarrow> bytes \<Rightarrow> off_t \<Rightarrow> source \<Rightarrow> source" where
  "written E now buf offset s = s\<lparr>smtime := clock E now, ssize := max (ssize s) (word_of_nat (length buf) + offset)\<rparr>"

lemma write_form:
  "\<exists>c w'. single_write E s buf offset w = (Inr (c, written E (ticks w) buf offset s), w') \<and> same_db E w w' \<and> world.more w' = world.more w"
proof -
  have "(if ssize s < e then s\<lparr>smtime := t, ssize := e\<rparr> else s\<lparr>smtime := t\<rparr>) = s\<lparr>smtime := t, ssize := max (ssize s) e\<rparr>" for e t
    by (cases s) (auto simp: max_def)
  then show ?thesis
    by (simp add: single_write_def time_now_def chunk_write_def hostM_def bind_def Let_def written_def same_db_def split: prod.split)
qed

lemma flush_table:
  fixes w :: "('s, 'h, 'z) fsworld_scheme"
  shows "file_at fh w = (Inr (if MAX_OPEN_FILES \<le> unat fh then None else open_files w (unat fh)), w)"
  by (simp add: file_at_def)

lemma alike_from: "same_db E w w1 \<Longrightarrow> alike E S w1 w2 \<Longrightarrow> alike E S w w2"
  by (simp add: alike_def same_db_attr)

text \<open>A write and the flush that follows it.\<close>

lemma write_then_flush:
  fixes w :: "('s, 'h, 'z) fsworld_scheme"
  assumes "lawful E" and "unat fh < MAX_OPEN_FILES" and "open_files w (unat fh) = Some s"
    and "wattr E w DNodes (fileid s) A_size = Some sz" and "wattr E w DNodes (fileid s) A_atime = Some atime"
    and "wattr E w DNodes (fileid s) A_mtime = Some mtime"
  shows "\<exists>c w1 w2. fs_write E fh buf offset w = (Inr c, w1) \<and> fs_flush E fh w1 = (Inr 0, w2)
     \<and> open_files w1 = (open_files w)(unat fh \<mapsto> written E (ticks w) buf offset s)
     \<and> same_db E w w1 \<and> alike E (file_attrs (fileid s)) w w2
     \<and> wattr E w2 DNodes (fileid s) A_size = Some (max sz (max (ssize s) (word_of_nat (length buf) + offset)))
     \<and> wattr E w2 DNodes (fileid s) A_atime = Some (max atime (satime s))
     \<and> wattr E w2 DNodes (fileid s) A_mtime = Some (max mtime (clock E (ticks w)))"
proof -
  let ?s = "written E (ticks w) buf offset s"
  obtain c w0 where w0: "single_write E s buf offset w = (Inr (c, ?s), w0)" "same_db E w w0" "world.more w0 = world.more w"
    using write_form by blast
  let ?w1 = "w0\<lparr>open_files := (open_files w0)(unat fh \<mapsto> ?s)\<rparr>"
  have id: "fileid ?s = fileid s" by (simp add: written_def)
  have files: "open_files w0 = open_files w" by (rule more_table(1) [OF w0(3)])
  have wrote: "fs_write E fh buf offset w = (Inr c, ?w1)"
    using assms(2,3) w0(1) by (simp add: fs_write_def flush_table set_file_def)
  have same: "same_db E w ?w1" using w0(2) by (simp add: same_db_def)
  have "wattr E ?w1 DNodes (fileid ?s) A_size = Some sz" "wattr E ?w1 DNodes (fileid ?s) A_atime = Some atime"
    "wattr E ?w1 DNodes (fileid ?s) A_mtime = Some mtime" using assms(4-6) by (simp_all add: id same_db_wattr [OF same])
  from flush_form [OF assms(1) this] obtain w2 where w2: "single_flush E ?s ?w1 = (Inr 0, w2)"
    "alike E (file_attrs (fileid s)) ?w1 w2" "wattr E w2 DNodes (fileid s) A_size = Some (max sz (ssize ?s))"
    "wattr E w2 DNodes (fileid s) A_atime = Some (max atime (satime ?s))"
    "wattr E w2 DNodes (fileid s) A_mtime = Some (max mtime (smtime ?s))"
    unfolding id by blast
  have flush: "fs_flush E fh ?w1 = (Inr 0, w2)" using assms(2) w2(1) by (simp add: fs_flush_def flush_table)
  have "alike E (file_attrs (fileid s)) w w2" by (rule alike_from [OF same w2(2)])
  then show ?thesis using wrote flush files same w2(3-5) by (intro exI [of _ c] exI [of _ ?w1] exI [of _ w2]) (simp add: written_def)
qed

end
