(* ===== verification/Media_Laws.thy ===== *)
theory Media_Laws
  imports Media Register_Laws
begin

text \<open>
  Media that a command inserts: no file is opened before the check command has said that the volume
  is there.
\<close>

section \<open>A check that succeeded\<close>

text \<open>\<open>cmd\<close>, run on the host \<open>h\<close>, exits with 0 and leaves \<open>h'\<close>.\<close>

definition succeeds :: "('s, 'h) env \<Rightarrow> string \<Rightarrow> 'h \<Rightarrow> 'h \<Rightarrow> bool" where
  "succeeds E cmd h h' \<longleftrightarrow> (\<exists>st. p_system (sys E) cmd h = (st, h') \<and> st \<noteq> - 1 \<and> WEXITSTATUS st = 0)"

lemma check_attr:
  assumes "lawful E" and "attr E w DMedia i ''checkcmd'' = Some cmd"
  shows "insert_check E i w = (if fst (p_system (sys E) cmd (host w)) = - 1
     then Inl (ERuntime ''Medium_insert::check: error calling system.'') else Inr (succeeds E cmd (host w) (snd (p_system (sys E) cmd (host w)))),
     w\<lparr>host := snd (p_system (sys E) cmd (host w))\<rparr>)"
  using assms by (auto simp: insert_check_def bind_def getattrv_eq hostM_def succeeds_def split: prod.splits)

text \<open>The volume is there, or the insertion has brought it.\<close>

lemma insert_form:
  assumes "lawful E" and "attr E w DMedia i ''checkcmd'' = Some cmd" and run: "insert_insert E i w = (Inr (), w')"
  shows "\<exists>h. succeeds E cmd h (host w') \<and> w' = w\<lparr>host := host w'\<rparr>
     \<and> (succeeds E cmd (host w) (snd (p_system (sys E) cmd (host w))) \<longrightarrow> h = host w)"
proof -
  let ?h1 = "snd (p_system (sys E) cmd (host w))"
  have c1: "attr E (w\<lparr>host := h\<rparr>) DMedia i ''checkcmd'' = Some cmd" for h using assms(2) by simp
  show ?thesis
  proof (cases "succeeds E cmd (host w) ?h1")
    case True
    then have "insert_check E i w = (Inr True, w\<lparr>host := ?h1\<rparr>)"
      using True check_attr [OF assms(1,2)] by (auto simp: succeeds_def) (metis fst_conv)
    then have "w' = w\<lparr>host := ?h1\<rparr>" using run by (simp add: insert_insert_def)
    then show ?thesis using True by (intro exI [of _ "host w"]) simp
  next
    case False
    then have c: "insert_check E i w = (Inr False, w\<lparr>host := ?h1\<rparr>)"
      using run check_attr [OF assms(1,2)] by (cases "fst (p_system (sys E) cmd (host w)) = - 1") (simp_all add: insert_insert_def)
    obtain ins where ins: "attr E w DMedia i ''insertcmd'' = Some ins"
      using run c assms(1) by (cases "attr E w DMedia i ''insertcmd''") (simp_all add: insert_insert_def getattrv_eq bind_def)
    let ?h2 = "snd (p_system (sys E) ins ?h1)"
    let ?h3 = "snd (p_system (sys E) cmd ?h2)"
    have "insert_check E i (w\<lparr>host := ?h2\<rparr>) = (Inr True, w')"
      using run c assms(1) ins
      by (auto simp: insert_insert_def getattrv_eq hostM_def bind_result split: if_splits prod.splits)
    then have "succeeds E cmd ?h2 ?h3 \<and> w' = w\<lparr>host := ?h3\<rparr>"
      using check_attr [OF assms(1) c1, of ?h2] by (auto split: if_splits)
    then show ?thesis using False by (intro exI [of _ ?h2]) auto
  qed
qed

text \<open>Opening a chunk on such a medium is opening the file right after a check that succeeded.\<close>

lemma getchunk_checked:
  assumes "lawful E" and "attr E w DMedia i ''checkcmd'' = Some cmd" and "insert_getchunk E i phid mode w = (Inr fd, w')"
  shows "\<exists>h h'. succeeds E cmd h h' \<and> directory_getchunk E i phid mode (w\<lparr>host := h'\<rparr>) = (Inr fd, w')
     \<and> (succeeds E cmd (host w) (snd (p_system (sys E) cmd (host w))) \<longrightarrow> h = host w)"
proof -
  obtain w1 where ins: "insert_insert E i w = (Inr (), w1)" and dir: "directory_getchunk E i phid mode w1 = (Inr fd, w')"
    using assms(3) by (auto simp: insert_getchunk_def andthen_def bind_result)
  from insert_form [OF assms(1,2) ins] obtain h where "succeeds E cmd h (host w1)" "w1 = w\<lparr>host := host w1\<rparr>"
    "succeeds E cmd (host w) (snd (p_system (sys E) cmd (host w))) \<longrightarrow> h = host w" by blast
  then show ?thesis using dir by (intro exI [of _ h] exI [of _ "host w1"]) simp
qed

end
