(* ===== verification/System_Props.thy ===== *)
theory System_Props
  imports Fuse_Laws Fs_Xattrs Fs_Grown Fs_Sizes Media_Laws Example_Host
begin

text \<open>
  Properties of the handlers that only ask, of the table of open files, of the loop of
  \<^verbatim>\<open>rename\<close>, and of a mounted file system as a whole.
\<close>

section \<open>Handlers that only ask\<close>

text \<open>
  C30. \<^verbatim>\<open>getattr\<close>, \<^verbatim>\<open>readlink\<close>, \<^verbatim>\<open>getxattr\<close>, \<^verbatim>\<open>listxattr\<close>, \<^verbatim>\<open>access\<close>, \<^verbatim>\<open>opendir\<close> and
  \<^verbatim>\<open>statfs\<close> always answer, and change nothing in the databases, whichever way they end: caches and the
  host may change, the contents of the three databases do not and no transaction is left open.
\<close>

theorem queries_pure:
  fixes w :: "('s, 'h, 'z) fsworld_scheme"
  assumes "lawful E" and "fsys E w"
  shows "asks E (\<lambda>_. True) (fs_getattr E ctx p) w \<and> asks E (\<lambda>_. True) (fs_readlink E ctx p buf) w
     \<and> asks E (\<lambda>_. True) (fs_getxattr E ctx p name buf) w \<and> asks E (\<lambda>_. True) (fs_listxattr E ctx p n) w
     \<and> asks E (\<lambda>_. True) (fs_access E ctx p mode) w \<and> asks E (\<lambda>_. True) (fs_opendir E ctx p) w
     \<and> asks E (\<lambda>_. True) (fs_statfs E) w"
  by (intro conjI asks_queries asks_statfs assms)

theorem queries_pure_witness:
  "asks demo_env (\<lambda>_. True) (fs_getattr demo_env (7, 7) ''/a/b'') demo_fs \<and> asks demo_env (\<lambda>_. True) (fs_statfs demo_env) demo_fs"
  using queries_pure [OF demo_lawful demo_fsys, of "(7, 7)" "''/a/b''"] by blast

text \<open>
  C31. The attributes named \<^verbatim>\<open>offlinefs.*\<close> are out of reach of ordinary users:
  \<^verbatim>\<open>setxattr\<close> and \<^verbatim>\<open>removexattr\<close> answer anyone but the superuser with a negative code, and the
  databases are unchanged.
\<close>

theorem reserved_protected:
  fixes w :: "('s, 'h, 'z) fsworld_scheme"
  assumes "lawful E" and "fsys E w" and "fst ctx \<noteq> 0" and "is_reserved name"
  shows "(\<exists>c w'. fs_setxattr E ctx p name v flags w = (Inr c, w') \<and> c < 0 \<and> same_db E w w')
     \<and> (\<exists>c w'. fs_removexattr E ctx p name w = (Inr c, w') \<and> c < 0 \<and> same_db E w w')"
  using asks_reserved(1) [OF assms, of p v flags] asks_reserved(2) [OF assms, of p] unfolding asks_def by blast

theorem reserved_protected_witness:
  "\<exists>c w'. fs_setxattr demo_env (7, 7) ''/'' ''offlinefs.uid'' ''abcd'' 0 demo_fs = (Inr c, w') \<and> c < 0
     \<and> same_db demo_env demo_fs w'"
proof -
  have "is_reserved ''offlinefs.uid''" by (simp add: is_reserved_def)
  then show ?thesis using reserved_protected [OF demo_lawful demo_fsys, of "(7, 7)" "''offlinefs.uid''" "''/''" "''abcd''" 0] by simp
qed

text \<open>
  C32. What \<^verbatim>\<open>setxattr\<close> stores, \<^verbatim>\<open>getxattr\<close> reads, whoever asks, for a name outside
  \<^verbatim>\<open>offlinefs.*\<close>. \<^verbatim>\<open>setxattr\<close> returns 0 only when the flags allow it; then the attribute
  of the node that the path leads to has the new value and nothing else has changed but its
  change time, and \<^verbatim>\<open>getxattr\<close> of that path either refuses or answers with the length of the
  value and as much of it as the buffer holds. With an error code no attribute but that time has
  changed.
\<close>

theorem xattr_roundtrip:
  fixes w :: "('s, 'h, 'z) fsworld_scheme"
  assumes "lawful E" and "fsys E w" and "good_cache E w" and "\<not> is_reserved name"
  shows "\<exists>c w1. fs_setxattr E ctx p name v flags w = (Inr c, w1) \<and> setxattr_spec E p name v flags w c w1
     \<and> (\<exists>r w2. fs_getxattr E ctx' p name buf w1 = (Inr r, w2)
         \<and> (c = 0 \<longrightarrow> fst r < 0 \<and> snd r = buf \<or> r = (int (length v), memcpy_min buf v)))"
proof -
  obtain c w1 where set: "fs_setxattr E ctx p name v flags w = (Inr c, w1)" "setxattr_spec E p name v flags w c w1"
    and w1: "fsys E w1" "good_cache E w1"
    using setxattr_follows [OF assms] by blast
  obtain r w2 where got: "fs_getxattr E ctx' p name buf w1 = (Inr r, w2)" "getxattr_spec E p name buf w1 r w2"
    using getxattr_follows [OF assms(1) w1] by blast
  have "fst r < 0 \<and> snd r = buf \<or> r = (int (length v), memcpy_min buf v)" if "c = 0"
    by (rule set_then_get [OF assms(4) set(2) [unfolded that] got(2)])
  then show ?thesis using set got(1) by blast
qed

theorem xattr_roundtrip_witness:
  "\<exists>c w1. fs_setxattr demo_env (0, 0) ''/'' ''user.note'' ''hello'' 0 demo_fs = (Inr c, w1)
     \<and> setxattr_spec demo_env ''/'' ''user.note'' ''hello'' 0 demo_fs c w1"
proof -
  have "\<not> is_reserved ''user.note''" by (simp add: is_reserved_def)
  from xattr_roundtrip [OF demo_lawful demo_fsys demo_good this, of "(0, 0)" "''/''" "''hello''" 0] show ?thesis by blast
qed

text \<open>
  C33. \<^verbatim>\<open>readdir\<close> answers 0 only with the names of the directory its path leads to, all of
  them, each once and in order; an error comes with no names. It leaves the tree as it was.
\<close>

theorem readdir_exact:
  assumes "lawful E" and "fsys E w" and "good_cache E w"
  shows "\<exists>r w'. fs_readdir E ctx p w = (Inr r, w') \<and> readdir_spec p (ftree_of E w) r (ftree_of E w') \<and> fsys E w'"
  using readdir_follows [OF assms, of p ctx] unfolding follows_def by blast

theorem readdir_exact_witness:
  "\<exists>r w'. fs_readdir demo_env (0, 0) ''/'' demo_fs = (Inr r, w')
     \<and> readdir_spec ''/'' (ftree_of demo_env demo_fs) r (ftree_of demo_env w')"
  using readdir_exact [OF demo_lawful demo_fsys demo_good, of "(0, 0)" "''/''"] by blast

section \<open>Open files\<close>

text \<open>
  C34. The table of open files is used within its bounds: \<^verbatim>\<open>open\<close> returns 0 with the number of a slot
  below \<^verbatim>\<open>MAX_OPEN_FILES\<close> that was free, changes that slot and no other, and reports that the table is
  full only when it is; with an error the table is unchanged. A handle outside the table or of a free slot
  is refused by every operation, which then does nothing.
\<close>

theorem open_table_bounds:
  fixes w :: "('s, 'h, 'z) fsworld_scheme"
  assumes "lawful E" and "fsys E w" and "MAX_OPEN_FILES \<le> unat fh \<or> open_files w (unat fh) = None"
  shows "(\<exists>r w'. fs_open E ctx p flags w = (Inr r, w') \<and> open_spec (open_files w) r (open_files w'))
     \<and> fs_read E fh n off w = (Inr (- EBADF, []), w) \<and> fs_write E fh buf off w = (Inr (- EBADF), w)
     \<and> fs_flush E fh w = (Inr (- EBADF), w) \<and> fs_fsync E ds fh w = (Inr (- EBADF), w) \<and> fs_release E fh w = (Inr (- EBADF), w)"
  by (intro conjI open_table_spec [OF assms(1,2)] bad_handle [OF assms(3)])

theorem open_table_bounds_witness:
  "\<exists>r w'. fs_open demo_env (0, 0) ''/f'' 0 demo_fs = (Inr r, w') \<and> open_spec Map.empty r (open_files w')"
  using open_table_bounds [OF demo_lawful demo_fsys, of "2 ^ 63" "(0, 0)" "''/f''" 0] by simp

text \<open>
  C35. After a \<^verbatim>\<open>write\<close> to an open file and the \<^verbatim>\<open>flush\<close> of its handle, the node has the largest
  of the size it had, the size the handle knew and the end of what was written, and the later of the times it had
  and the time of the write: sizes and times never go back. \<^verbatim>\<open>write\<close> itself changes nothing in the databases
  and in the table only its own entry; the \<^verbatim>\<open>flush\<close> changes no other attribute of any node. It does so
  whatever the medium has answered to the write.
\<close>

theorem write_flush_grows:
  fixes w :: "('s, 'h, 'z) fsworld_scheme"
  assumes "lawful E" and "unat fh < MAX_OPEN_FILES" and "open_files w (unat fh) = Some s"
    and "wattr E w DNodes (fileid s) A_size = Some sz" and "wattr E w DNodes (fileid s) A_atime = Some atime"
    and "wattr E w DNodes (fileid s) A_mtime = Some mtime"
  shows "\<exists>c w1 w2. fs_write E fh buf offset w = (Inr c, w1) \<and> fs_flush E fh w1 = (Inr 0, w2)
     \<and> open_files w1 = (open_files w)(unat fh \<mapsto> written E (ticks w) buf offset s)
     \<and> same_db E w w1 \<and> alike E {(fileid s, A_size), (fileid s, A_atime), (fileid s, A_mtime)} w w2
     \<and> wattr E w2 DNodes (fileid s) A_size = Some (max sz (max (ssize s) (word_of_nat (length buf) + offset)))
     \<and> wattr E w2 DNodes (fileid s) A_atime = Some (max atime (satime s))
     \<and> wattr E w2 DNodes (fileid s) A_mtime = Some (max mtime (clock E (ticks w)))"
  using write_then_flush [OF assms] unfolding file_attrs_def .

theorem write_flush_grows_witness:
  "\<exists>(w :: (al_store, unit) fsworld) c w1 w2. fs_write demo_env 3 ''hello'' 10 w = (Inr c, w1) \<and> fs_flush demo_env 3 w1 = (Inr 0, w2)
     \<and> wattr demo_env w2 DNodes (1 :: nodeid) A_size = Some (15 :: off_t)"
proof -
  let ?s = "\<lparr>fileid = 1, smode = 2, chunkfd = 3, ssize = 7, satime = 0, smtime = 0\<rparr>"
  let ?put = "\<lambda>n v. put_attr demo_env DNodes (1 :: nodeid) n (enc demo_env (v :: 64 word))"
  let ?w = "(?put A_mtime 0 (?put A_atime 0 (?put A_size 12 demo_fs)))\<lparr>open_files := [3 \<mapsto> ?s]\<rparr>"
  have at: "wattr demo_env ?w DNodes (1 :: nodeid) n = (wattr demo_env (?put A_mtime 0 (?put A_atime 0 (?put A_size 12 demo_fs))) DNodes (1 :: nodeid) n :: 64 word option)" for n
    by (simp add: wattr_def attr_def)
  have "wattr demo_env ?w DNodes (fileid ?s) A_size = Some (12 :: off_t)" "wattr demo_env ?w DNodes (fileid ?s) A_atime = Some (0 :: time_t)"
    "wattr demo_env ?w DNodes (fileid ?s) A_mtime = Some (0 :: time_t)"
    using demo_lawful by (simp_all add: at)
  from write_flush_grows [OF demo_lawful _ _ this, of 3 "''hello''" 10] obtain c w1 w2
    where "fs_write demo_env 3 ''hello'' 10 ?w = (Inr c, w1)" "fs_flush demo_env 3 w1 = (Inr 0, w2)"
      "wattr demo_env w2 DNodes (1 :: nodeid) A_size = Some (15 :: off_t)"
    by (auto simp: MAX_OPEN_FILES_def)
  then show ?thesis by blast
qed

text \<open>
  C36. A file on a medium that a command inserts is opened only right after the check command of the medium
  has succeeded: when \<^verbatim>\<open>getchunk\<close> returns a chunk, the host it opened the file on is the one that a run of the
  check command left, with exit status 0. When the volume is there from the start, nothing but that one check has run
  before.
\<close>

theorem volume_checked:
  assumes "lawful E" and "attr E w DMedia i ''checkcmd'' = Some cmd" and "getchunk E \<lparr>mid = i, mclass = Medium_insert\<rparr> phid mode w = (Inr fd, w')"
  shows "\<exists>h st h'. p_system (sys E) cmd h = (st, h') \<and> st \<noteq> - 1 \<and> WEXITSTATUS st = 0
     \<and> directory_getchunk E i phid mode (w\<lparr>host := h'\<rparr>) = (Inr fd, w')
     \<and> (fst (p_system (sys E) cmd (host w)) = 0 \<longrightarrow> h = host w)"
proof -
  have "insert_getchunk E i phid mode w = (Inr fd, w')" using assms(3) by (simp add: getchunk_def)
  from getchunk_checked [OF assms(1,2) this] obtain h h' where h: "succeeds E cmd h h'"
    "directory_getchunk E i phid mode (w\<lparr>host := h'\<rparr>) = (Inr fd, w')"
    "succeeds E cmd (host w) (snd (p_system (sys E) cmd (host w))) \<longrightarrow> h = host w" by blast
  have "succeeds E cmd (host w) (snd (p_system (sys E) cmd (host w)))" if "fst (p_system (sys E) cmd (host w)) = 0"
    unfolding succeeds_def WEXITSTATUS_def using that by (intro exI [of _ 0]) (simp add: prod_eq_iff)
  then show ?thesis using h unfolding succeeds_def by blast
qed

theorem volume_checked_witness:
  "\<exists>(w :: (al_store, unit) fsworld) w'. getchunk demo_env \<lparr>mid = 4, mclass = Medium_insert\<rparr> ''f'' O_RDWR w = (Inr 3, w')
     \<and> directory_getchunk demo_env 4 ''f'' O_RDWR w = (Inr 3, w')"
proof -
  let ?w = "put_attr demo_env DMedia (4 :: mediumid) ''directory'' ''/mnt'' (put_attr demo_env DMedia (4 :: mediumid) ''checkcmd'' ''true'' demo_fs)"
  have cmd: "attr demo_env ?w DMedia (4 :: mediumid) ''checkcmd'' = Some ''true''" using demo_lawful by simp
  have dir: "directory_getchunk demo_env 4 ''f'' O_RDWR w = (Inr 3, w)"
    if "attr demo_env w DMedia (4 :: mediumid) ''directory'' = Some ''/mnt''" for w :: "(al_store, unit) fsworld"
    using that demo_lawful
    by (simp add: directory_getchunk_def getattrv_eq chunk_open_def hostM_def bind_def demo_sys_def)
  have "insert_check demo_env 4 ?w = (Inr True, ?w)"
    using cmd demo_lawful by (simp add: insert_check_def getattrv_eq hostM_def bind_def demo_sys_def WEXITSTATUS_def)
  then have run: "getchunk demo_env \<lparr>mid = 4, mclass = Medium_insert\<rparr> ''f'' O_RDWR ?w = (Inr 3, ?w)"
    using dir demo_lawful by (simp add: getchunk_def insert_getchunk_def insert_insert_def)
  have "w\<lparr>host := h\<rparr> = w" for w :: "(al_store, unit) fsworld" and h by (cases w) simp
  with volume_checked [OF demo_lawful cmd run] have "directory_getchunk demo_env 4 ''f'' O_RDWR ?w = (Inr 3, ?w)" by auto
  with run show ?thesis by blast
qed

section \<open>Types\<close>

text \<open>
  C37. The class of the object that a path leads to is the one that the type bits of the node's mode attribute
  stand for (\<^verbatim>\<open>S_IFDIR\<close> 040000, \<^verbatim>\<open>S_IFREG\<close> 0100000, \<^verbatim>\<open>S_IFLNK\<close> 0120000), so that the casts of the
  handlers succeed exactly on nodes of that type and throw on all others; the parent of a \<^verbatim>\<open>Path\<close> is an
  existing directory.
\<close>

theorem resolution_typed:
  fixes w :: "('s, 'h, 'z) pworld_scheme"
  assumes "lawful E" and "fsys E w"
  shows "(getnode_path E sctx p w = (Inr n, w') \<longrightarrow> (\<exists>m. mode_of E w' (nid n) = Some m
       \<and> cast KDirectory n w' = (if and m 0xF000 = 0x4000 then Inr n else Inl (EBadCast KDirectory), w')
       \<and> cast KFile n w' = (if and m 0xF000 = 0x8000 then Inr n else Inl (EBadCast KFile), w')
       \<and> cast KSymlink n w' = (if and m 0xF000 = 0xA000 then Inr n else Inl (EBadCast KSymlink), w')
       \<and> (nkind n = KNode \<longleftrightarrow> and m 0xF000 \<notin> {0x4000, 0x8000, 0xA000})))
     \<and> (path_new (getnode_path E) sctx p w = (Inr pt, w') \<longrightarrow> nkind (parent pt) = KDirectory \<and> is_dir E w' (nid (parent pt)))"
proof (intro conjI impI)
  have w: "inorder E (\<lambda>_. True) w" using assms(2) by (simp add: inorder_def)
  show "nkind (parent pt) = KDirectory" "is_dir E w' (nid (parent pt))" if "path_new (getnode_path E) sctx p w = (Inr pt, w')"
    using hoare_Inr [OF triple_path_new [OF assms(1) tree_db [OF tree_pred_True]] that w] by (simp_all add: inorder_def)
  assume "getnode_path E sctx p w = (Inr n, w')"
  from hoare_Inr [OF triple_getnode_path [OF assms(1) tree_db [OF tree_pred_True]] this w]
  obtain m where m: "mode_of E w' (nid n) = Some m" "nkind n = kind_of m" by (auto simp: inorder_def typed_def)
  have "cast KDirectory n w' = (if and m 0xF000 = 0x4000 then Inr n else Inl (EBadCast KDirectory), w')"
    and "cast KFile n w' = (if and m 0xF000 = 0x8000 then Inr n else Inl (EBadCast KFile), w')"
    and "cast KSymlink n w' = (if and m 0xF000 = 0xA000 then Inr n else Inl (EBadCast KSymlink), w')"
    and "nkind n = KNode \<longleftrightarrow> and m 0xF000 \<notin> {0x4000, 0x8000, 0xA000}"
    using m(2) by (simp_all add: cast_def kind_of_def S_ISDIR_def S_ISREG_def S_ISLNK_def)
  with m(1) show "\<exists>m. mode_of E w' (nid n) = Some m
       \<and> cast KDirectory n w' = (if and m 0xF000 = 0x4000 then Inr n else Inl (EBadCast KDirectory), w')
       \<and> cast KFile n w' = (if and m 0xF000 = 0x8000 then Inr n else Inl (EBadCast KFile), w')
       \<and> cast KSymlink n w' = (if and m 0xF000 = 0xA000 then Inr n else Inl (EBadCast KSymlink), w')
       \<and> (nkind n = KNode \<longleftrightarrow> and m 0xF000 \<notin> {0x4000, 0x8000, 0xA000})" by blast
qed

theorem resolution_typed_witness:
  "\<exists>n w'. getnode_path demo_env \<lparr>suid = 0, sgid = 0, sgroups = {0}\<rparr> ''/'' demo_fs = (Inr n, w')
     \<and> cast KDirectory n w' = (Inr n, w') \<and> cast KFile n w' = (Inl (EBadCast KFile), w')"
proof -
  let ?s = "\<lparr>suid = 0, sgid = 0, sgroups = {0}\<rparr>" and ?r = "\<lparr>nid = 0, nkind = KDirectory\<rparr>"
  have "tokenize ''/'' ''/'' = []" by code_simp
  then have "fst (getnode_path demo_env ?s ''/'' demo_fs) = Inr ?r"
    using root_reaches [OF demo_lawful demo_good, of ?s "''/''" 0] demo_root demo_root_dir by simp
  then have run: "getnode_path demo_env ?s ''/'' demo_fs = (Inr ?r, snd (getnode_path demo_env ?s ''/'' demo_fs))"
    by (metis prod.collapse)
  obtain c where "snd (getnode_path demo_env ?s ''/'' demo_fs) = demo_fs\<lparr>pcache := c\<rparr>"
    using hash_getnode_law [OF demo_lawful, of demo_fs ?s "''/''"] demo_fsys by (auto simp: fsys_def caches_ok_def)
  then have mode: "mode_of demo_env (snd (getnode_path demo_env ?s ''/'' demo_fs)) 0 = Some 0x41ED"
    using same_db_wattr [OF pcache_db [of demo_env demo_fs c]] by simp
  let ?w' = "snd (getnode_path demo_env ?s ''/'' demo_fs)"
  have "cast KDirectory ?r ?w' = (Inr ?r, ?w') \<and> cast KFile ?r ?w' = (Inl (EBadCast KFile), ?w')"
    using mp [OF conjunct1 [OF resolution_typed [OF demo_lawful demo_fsys, where pt = "\<lparr>parent = ?r, leaf = []\<rparr>"]] run] mode
    by auto
  with run show ?thesis by blast
qed

section \<open>Renaming\<close>

text \<open>
  C38. The loop of \<^verbatim>\<open>rename\<close> that climbs from a directory to the root ends when the entries
  \<^verbatim>\<open>..\<close> lead from the directory to the root, and answers whether \<open>src\<close> is on the way, the root left
  out; it changes nothing.
\<close>

theorem climb_terminates:
  assumes "lawful E" and "parents E w (nid n) js"
  shows "below E src n w = Some (Inr (src \<in> set (butlast (nid n # js))))
     \<and> is_below E src n w = (Inr (src \<in> set (butlast (nid n # js))), w)"
  using below_value [OF assms] is_below_value [OF assms] by blast

theorem climb_terminates_witness:
  "below demo_env 1 \<lparr>nid = 1, nkind = KDirectory\<rparr> (add_entry demo_env 1 ''..'' 0 1 demo_fs) = Some (Inr True)"
proof -
  let ?w = "add_entry demo_env 1 ''..'' 0 1 demo_fs"
  have "is_dir demo_env ?w 0" using demo_root_dir demo_lawful by simp
  then have "parents demo_env ?w (nid \<lparr>nid = 1, nkind = KDirectory\<rparr>) [0]" using demo_lawful by simp
  from climb_terminates [OF demo_lawful this, of 1] show ?thesis by simp
qed

section \<open>A mounted file system\<close>

text \<open>
  C39. In every state that mounts, requests and unmounts lead to, the file system is in order: link
  counts, modes and entries agree and the caches are sound. Every request on a path is answered, within the limits
  of \<open>allowed\<close>, and leaves no transaction open; a request on an open file, answered or ended by an exception,
  leaves the file system in order too.
\<close>

theorem mounted_in_order:
  fixes w :: "('s, 'h, 'z) fsworld_scheme"
  assumes "lawful E" and "mounted E w"
  shows "fsys E w
     \<and> (allowed E ctx req w \<and> \<not> on_handle req \<longrightarrow> (\<exists>r w'. serve E ctx req w = (Inr r, w') \<and> fsys E w' \<and> (\<forall>d. \<not> txns w' d)))
     \<and> (allowed E ctx req w \<longrightarrow> fsys E (snd (serve E ctx req w)))"
proof -
  have w: "fsys E w" by (rule mounted_fsys [OF assms(2,1)])
  have "fsys E (snd (serve E ctx req w))" if "allowed E ctx req w"
    by (rule serve_keeps [OF assms(1) w that surjective_pairing])
  then show ?thesis using w path_answers [OF assms(1) w, of ctx req] unfolding answers_def by blast
qed

theorem mounted_in_order_witness:
  "\<exists>r w'. serve demo_env (7, 7) (Getattr ''/a'') (snd (fuse_init demo_env (params_of None no_cmdparams) demo_fs)) = (Inr r, w')
     \<and> fsys demo_env w'"
proof -
  let ?w = "snd (fuse_init demo_env (params_of None no_cmdparams) demo_fs)"
  have "mounted demo_env ?w"
    by (rule mounted.first [of demo_env demo_raw "fst (fsdb_rebuild demo_env demo_raw)" demo_fs "params_of None no_cmdparams"
          "fst (fuse_init demo_env (params_of None no_cmdparams) demo_fs)"]) (simp_all add: demo_fs_def)
  from mounted_in_order [OF demo_lawful this, of "(7, 7)" "Getattr ''/a''"] show ?thesis by auto
qed

text \<open>
  C40. As long as no request removes or renames an entry or changes an owner or a mode, the path cache
  cannot be seen: in every state that such requests, failed ones included, and new mounts lead to, what
  the cache says agrees with the databases, and a lookup through the cache finds what
  one without it finds, for every caller and path.
\<close>

theorem cache_unseen:
  fixes w :: "('s, 'h, 'z) fsworld_scheme"
  assumes "lawful E" and "grown E w"
  shows "fsys E w \<and> good_cache E w
     \<and> (\<forall>sctx p n. fst (hash_getnode E sctx p w) = Inr n \<longleftrightarrow> fst (null_getnode E sctx p w) = Inr n)
     \<and> (allowed E ctx req w \<and> grows req \<longrightarrow> good_cache E (snd (serve E ctx req w)))"
proof -
  have fsys: "fsys E w" by (rule mounted_fsys [OF grown_mounted [OF assms(2)] assms(1)])
  have ok: "sturdy E w" by (rule grown_sturdy [OF assms(2,1)])
  have "sturdy E (snd (serve E ctx req w))" if "allowed E ctx req w" and "grows req"
    by (rule serve_sturdy [OF assms(1) fsys ok that surjective_pairing])
  moreover have "fst (hash_getnode E sctx p w) = Inr n \<longleftrightarrow> fst (null_getnode E sctx p w) = Inr n" for sctx p n
    by (rule null_equals_hash [OF assms(1)]) (use ok in \<open>simp_all add: sturdy_def good_cache_def\<close>)
  ultimately show ?thesis using fsys ok by (simp add: sturdy_def)
qed

theorem cache_unseen_witness:
  "\<exists>r w'. serve demo_env (0, 0) (Mkdir ''/a'' 0x1ED) (snd (fuse_init demo_env (params_of None no_cmdparams) demo_fs)) = (Inr r, w')
     \<and> good_cache demo_env w'"
proof -
  let ?w = "snd (fuse_init demo_env (params_of None no_cmdparams) demo_fs)"
  have init: "fuse_init demo_env (params_of None no_cmdparams) demo_fs = (fst (fuse_init demo_env (params_of None no_cmdparams) demo_fs), ?w)"
    by simp
  have "grown demo_env ?w"
    by (rule grown.first [of demo_env demo_raw "fst (fsdb_rebuild demo_env demo_raw)" demo_fs, OF _ init]) (simp add: demo_fs_def)
  note h = cache_unseen [OF demo_lawful this, of "(0, 0)" "Mkdir ''/a'' 0x1ED"]
  have "same_db demo_env demo_fs ?w" using fuse_init_form(3) [OF demo_fs_form(1) init] by (simp add: same_db_def)
  then have "roomy demo_env ?w" using db_pred_roomy [of demo_env] demo_roomy unfolding db_pred_def by blast
  then have ok: "allowed demo_env (0, 0) (Mkdir ''/a'' 0x1ED) ?w" by simp
  have "fsys demo_env ?w" using h by blast
  from path_answers [OF demo_lawful this ok] obtain r w' where "serve demo_env (0, 0) (Mkdir ''/a'' 0x1ED) ?w = (Inr r, w')"
    by (auto simp: answers_def)
  moreover have "good_cache demo_env (snd (serve demo_env (0, 0) (Mkdir ''/a'' 0x1ED) ?w))" using h ok by simp
  ultimately show ?thesis by auto
qed

end
