(* ===== verification/Tool_Main.thy ===== *)
theory Tool_Main
  imports Tool_Laws
begin

text \<open>
  What the two tools do with the parsed command line before they open the databases. The parsing
  itself is boost's: \<open>parsed\<close> is its result, \<open>None\<close> on an error. \<open>opening\<close> stands for
  the constructor and \<^verbatim>\<open>open\<close> of \<^verbatim>\<open>FsDb\<close> on a directory (theory \<open>Environment\<close>). The texts
  written to \<^verbatim>\<open>std::cerr\<close> are left out.
\<close>

section \<open>offmedia\<close>

record mline =
  m_help :: bool
  m_version :: bool
  m_dbroot :: "string option"
  m_opts :: mopts

text \<open>The database root is looked for before \<^verbatim>\<open>--help\<close> is; the one from the command line is not checked.\<close>

definition media_root :: "string option \<Rightarrow> mline \<Rightarrow> string option" where
  "media_root home c =
     (case m_dbroot c of
        Some r \<Rightarrow> Some r
      | None \<Rightarrow> (case home of Some h \<Rightarrow> Some (h @ ''/.offlinefs/'') | None \<Rightarrow> None))"

definition offmedia_main :: "('s, 'h) env \<Rightarrow> (string \<Rightarrow> ('s, 'h, 'z, unit) top) \<Rightarrow> string option \<Rightarrow> mline option \<Rightarrow> ('s, 'h, 'z, int) top" where
  "offmedia_main E opening home parsed =
     (case parsed of
        None \<Rightarrow> ret 1
      | Some c \<Rightarrow>
          (case media_root home c of
             None \<Rightarrow> ret 1
           | Some root \<Rightarrow>
               if m_help c then ret 0
               else if m_version c then ret 0
               else andthen (opening root) (offmedia E (m_opts c))))"

section \<open>offimport\<close>

record iline =
  i_help :: bool
  i_version :: bool
  i_create :: bool
  i_modify :: bool
  i_medium :: "string option"
  i_dbroot :: "string option"
  i_format :: "string option"
  i_prefix :: "string option"

definition import_root :: "string option \<Rightarrow> iline \<Rightarrow> string" where
  "import_root home c =
     (case i_dbroot c of
        Some r \<Rightarrow> r
      | None \<Rightarrow> (case home of Some h \<Rightarrow> h @ ''/.offlinefs/'' | None \<Rightarrow> ''''))"

definition offimport_main :: "('s, 'h) env \<Rightarrow> (string \<Rightarrow> ('s, 'h, 'z, unit) pop) \<Rightarrow> string option \<Rightarrow> iline option \<Rightarrow> string
    \<Rightarrow> ('s, 'h, 'z, int) pop" where
  "offimport_main E opening home parsed input =
     (case parsed of
        None \<Rightarrow> ret 1
      | Some c \<Rightarrow>
          if i_help c then ret 0
          else if i_version c then ret 0
          else
            (case i_format c of
               None \<Rightarrow> ret 1
             | Some f \<Rightarrow>
                 if \<not> (i_modify c \<or> i_create c) then ret 1
                 else if import_root home c = '''' then ret 1
                 else andthen (opening (import_root home c))
                   (offimport E \<lparr>allow_create = i_create c, allow_modify = i_modify c, prefix_opt = i_prefix c,
                      formatstr = f, imedium = i_medium c\<rparr> input)))"

section \<open>Laws\<close>

text \<open>Without a home directory and without \<^verbatim>\<open>--dbroot\<close>, \<^verbatim>\<open>offmedia --help\<close> fails.\<close>

lemma media_help_fails: "m_dbroot c = None \<Longrightarrow> offmedia_main E opening None (Some c) w = (Inr 1, w)"
  by (simp add: offmedia_main_def media_root_def ret_def)

lemma import_help: "i_help c \<Longrightarrow> offimport_main E opening home (Some c) input w = (Inr 0, w)"
  by (simp add: offimport_main_def ret_def)

text \<open>Neither tool opens a database on a command line that it refuses.\<close>

lemma tools_refuse:
  "offmedia_main E opening home None w = (Inr 1, w)"
  "offimport_main E opening' home None input w' = (Inr 1, w')"
  "\<not> i_help c \<Longrightarrow> \<not> i_version c \<Longrightarrow> i_format c = None \<or> (\<not> i_modify c \<and> \<not> i_create c) \<or> import_root home c = [] \<Longrightarrow>
     offimport_main E opening' home (Some c) input w' = (Inr 1, w')"
  by (auto simp: offmedia_main_def offimport_main_def ret_def split: option.split)

end
