(* ===== verification/Spec2Isabelle.thy ===== *)
theory Spec2Isabelle
  imports Layer_Props Tree_Props Resolution_Props Handler_Props Tool_Props System_Props Tool_Main
begin

text \<open>
  A verification development for offlinefs, a FUSE file system that keeps its tree and its
  attributes in three Berkeley DB databases and the contents of its files on media that need not be
  there.

  The program. \<^verbatim>\<open>src/libofflinefs\<close> is the library: registers of attributes over a database
  (\<^verbatim>\<open>database.hxx\<close>, \<^verbatim>\<open>register.hxx\<close>, \<^verbatim>\<open>fsdb.cxx\<close>), nodes and directories
  (\<^verbatim>\<open>nodes/\<close>), resolution of paths with and without a cache (\<^verbatim>\<open>pathcache.cxx\<close>, \<^verbatim>\<open>path.hxx\<close>,
  \<^verbatim>\<open>token.hxx\<close>), security contexts (\<^verbatim>\<open>scontext.cxx\<close>), and media, sources and chunks, which give
  a file its contents. \<^verbatim>\<open>src/offlinefs\<close> is the file system: the handlers (\<^verbatim>\<open>fs.cxx\<close>), the cache
  of security contexts (\<^verbatim>\<open>scontextcache.cxx\<close>) and the entry point (\<^verbatim>\<open>main.cxx\<close>). \<^verbatim>\<open>src/tools\<close>
  has \<^verbatim>\<open>offmedia\<close>, which edits the media, and \<^verbatim>\<open>offimport\<close>, which creates nodes from a
  listing whose lines follow a format string (\<^verbatim>\<open>format.hxx\<close>). A handler opens a transaction on each
  database, gets the caller's context, resolves its path with the cache, works on registers, and
  commits, on errors too; an exception becomes a negative code.

  How it is modelled. A computation is a function from a state to a result and a state
  (\<open>Prelude\<close>: \<open>ret\<close>, \<open>bind\<close>, \<open>throw\<close>, \<open>handle\<close>); the result is an
  exception of the program (\<open>exn\<close>) or a value. \<open>EStuck\<close> stands for what has no result
  in the program: a loop that does not end or an invalid pointer; no handler catches it, and the
  properties exclude it. The state is a record that grows with the layers: \<open>world\<close> (databases,
  transactions, clock, host), \<open>pworld\<close> (and the path cache), \<open>fsworld\<close> (and the cache of
  security contexts, the table of open files and the parameters of the mount), \<open>tworld\<close> (and the
  output of a tool), \<open>dbworld\<close> (and the objects of the database library). Identifiers, modes,
  link counts and times are words of the width the code gives them; strings are lists of characters.
  What the program uses and does not contain is the record \<open>env\<close> (\<open>Params\<close>): the cursor
  and transaction calls of Berkeley DB, the calls of the operating system, the user database, the
  clock and the byte order. \<open>lawful E\<close> says that the database calls act on a finite map that is
  ordered by its keys, that a removal fails only for a file that is not there, and nothing more; beginning,
  committing and aborting a transaction do not fail. The calls of the system may do anything. \<open>Example_Host\<close>
  has an instance, on which the witnesses run.

  The theories, from below.

  \<^item> \<open>Prelude\<close>, \<open>Params\<close>: types, exceptions, computations and their triples
    (\<open>hoare\<close>); the parameters and their laws.
  \<^item> \<open>Database\<close> (\<^verbatim>\<open>Register\<close>, \<^verbatim>\<open>Database\<close>, \<^verbatim>\<open>Txn\<close>, the byte order), \<open>Register_Laws\<close>,
    \<open>Register_Scans\<close>: a register is a map from names to bytes, and the walks of a cursor list,
    count, delete and allocate what they should. \<open>Environment\<close>: opening, closing and rebuilding
    the databases (\<^verbatim>\<open>Environment\<close>, \<^verbatim>\<open>Database\<close>, \<^verbatim>\<open>FsDb\<close>) over a store of objects, where every call
    of the library may throw, and the scope of an \<^verbatim>\<open>FsDb\<close> with its destructors (\<open>fsdb_scope\<close>); it also
    shows what a removal that fails leaves (\<open>rebuild_keeps\<close>), which \<open>lawful\<close> excludes elsewhere.
    \<open>Buffers\<close>: the class \<^verbatim>\<open>Buffer\<close> over an explicit memory, and that it may be seen as a value.
  \<^item> \<open>SContexts\<close>: the contexts of callers and their cache. \<open>Media\<close>, \<open>Sources\<close>: chunks,
    media and open files.
  \<^item> \<open>Nodes\<close>, \<open>Node_Laws\<close>, \<open>Access_Laws\<close>, \<open>Link_Counts\<close>,
    \<open>Tree_Ops\<close>, \<open>Path_Ops\<close>, \<open>Initial_Fs\<close>: nodes and directories, the
    invariant \<open>fs_inv\<close> (a link count is the number of entries that refer to the node, entries
    refer to nodes, only directories have entries), and that each operation keeps it.
  \<^item> \<open>Token\<close>, \<open>Paths\<close>, \<open>PathCache\<close>, \<open>PathCache_Laws\<close>,
    \<open>PathCache_Lookup\<close>, \<open>Path_Resolution\<close>: tokens and paths; the two resolvers as instances of the locale
    \<open>path_cache\<close>; the structure of the cache and, in \<open>PathCache_Lookup\<close>, what a lookup
    answers and keeps, under the locale \<open>cache_content\<close>, once for any contents (a stale cache is a sound one) and once for contents that match the databases, where
    both resolvers agree.
  \<^item> \<open>Fs\<close>, \<open>Fs_Attrs\<close>, \<open>Fs_Files\<close>: the handlers of \<^verbatim>\<open>fs.cxx\<close>, one definition
    each with the name of the method after \<open>fs_\<close>, with every guard and early return.
  \<^item> \<open>Fs_Inv\<close>, \<open>Fs_Handlers\<close>, \<open>Fs_Unlink\<close>, \<open>Fs_Rename\<close>,
    \<open>Fs_Attr_Laws\<close>, \<open>Fs_File_Laws\<close>, \<open>Fs_Tables\<close>: each handler answers and
    leaves the file system in order (\<open>fsys\<close>: \<open>fs_inv\<close> and sound caches), whatever fails on
    the way; the table of open files.
  \<^item> \<open>Tree_Spec\<close>, \<open>Fs_Refine\<close>, \<open>Fs_Refine_Create\<close>, \<open>Fs_Moves\<close>,
    \<open>Fs_Success\<close>, \<open>Fs_Queries\<close>, \<open>Fs_Xattrs\<close>: the abstract tree
    (\<open>ftree\<close>: the entries and the modes), what each handler does to it (\<open>mknod_spec\<close> and
    its like) and the simulation: with a code of 0 the tree has changed as specified, with any other code
    it is as it was.
  \<^item> \<open>Fs_Grow\<close>, \<open>Fs_Grown\<close>: a request that removes and renames nothing and changes no
    owner and no mode keeps the path cache in agreement with the databases (\<open>grows\<close>), and so
    does a history of such requests (\<open>grown\<close>). \<open>Fs_Sizes\<close>: what a write and a flush of an
    open file leave in the attribute of its size. \<open>Media_Laws\<close>: which volume the medium asks for
    and checks before a chunk is read.
  \<^item> \<open>Fuse_Main\<close>, \<open>Fuse_Laws\<close>: \<^verbatim>\<open>main.cxx\<close>, the requests of FUSE as a datatype, and a
    mounted file system as an inductive set of states that any sequence of requests leads to.
  \<^item> \<open>Tool_Media\<close>, \<open>Tool_Format\<close>, \<open>Tool_Import\<close>, \<open>Tool_Main\<close>,
    \<open>Transaction_Laws\<close>, \<open>Tool_Laws\<close>, \<open>Format_Laws\<close>: the tools; a command or a
    line that fails leaves the databases as they were, and the lines before it have done what they ask for
    (\<open>imported\<close>).
  \<^item> \<open>Layer_Props\<close>, \<open>Tree_Props\<close>, \<open>Resolution_Props\<close>,
    \<open>Handler_Props\<close>, \<open>Tool_Props\<close>, \<open>System_Props\<close>: the properties, numbered in
    the order of importance within a layer, each with a witness at a concrete input.

  Loops. All loops but one are structural recursions or functions with a measure: positions in a string
  that grow, tokens and cache entries that get fewer. No fuel is used. The exception is the climb to
  the root in \<^verbatim>\<open>rename\<close> (\<open>below\<close>), which runs for ever on a cycle of directories; it is a
  partial function, and the property on it says when it ends and with what result.

  Assumptions that recur. \<open>few\<close>, \<open>roomy\<close>, \<open>named\<close>: link counts stay below
  \<^verbatim>\<open>2^31\<close>, which is where the code's signed test would fail, and an identifier is left.
  \<open>good_cache\<close>: the path cache agrees with the databases; \<^verbatim>\<open>rename\<close> can break it, because it
  drops the entry of the old path only and keeps those below it, and that is why the invariant \<open>fsys\<close>,
  which every sequence of requests keeps, asks for the structure of the cache only. \<open>cache_unseen\<close> shows histories in which the agreement
  holds without being assumed, and \<open>invalidate_exact\<close> what is left in the cache when it fails.
  \<open>orderly\<close>,
  \<open>lone_dirs\<close>, \<open>rooted\<close>: every directory has its two entries and one other name and leads
  to the root; the code relies on it in \<^verbatim>\<open>rmdir\<close> and \<^verbatim>\<open>rename\<close>.

  Not modelled. Threads: one request is served at a time, so that a mutex is a flag that must be free
  and the lock around the creation of registers is left out; races are outside the model. Durability:
  a transaction that is aborted brings the contents back, a crash of the machine is not described.
  The option parsers of FUSE and boost: their result is an argument. Texts on the error stream.
  The shell script \<^verbatim>\<open>offimport_cd\<close> and the build files.
\<close>

end
